(* ===== verification/Vtdr_Prelude.thy ===== *)
theory Vtdr_Prelude
  imports Main "HOL-Library.Word"
begin

text \<open>
  Shared vocabulary of the development: the machine integer types of the firmware
  (ARM Cortex-M3, ILP32: \<open>unsigned char\<close> is 8 bits, \<open>unsigned short\<close> 16, \<open>unsigned long\<close>
  and \<open>unsigned int\<close> 32), exhaustive checking of byte-sized quantities, exclusive-or
  checksums, and byte-list lemmas. The fact collections below gather the rules that several
  component theories rewrite with.
\<close>

unbundle bit_operations_syntax

named_theorems vtdr_defs \<open>definitions of the small operations that proofs unfold\<close>
named_theorems frame_simps \<open>fields an operation leaves alone\<close>
named_theorems flash_simps \<open>reading the flash contents after an operation\<close>

type_synonym u8 = "8 word"
type_synonym u16 = "16 word"
type_synonym u32 = "32 word"

abbreviation bytes_of :: "nat \<Rightarrow> u8 list \<Rightarrow> u8 list" where
  "bytes_of n bs \<equiv> take n bs"

section \<open>Exhaustive checks over a byte\<close>

text \<open>
  A statement about every byte is a statement about 256 numbers: the kernel evaluates the
  right-hand side.
\<close>

lemma all_u8_iff: "(\<forall>x::u8. P x) \<longleftrightarrow> list_all (\<lambda>n. P (word_of_nat n)) [0..<256]"
proof
  assume "\<forall>x::u8. P x"
  then show "list_all (\<lambda>n. P (word_of_nat n)) [0..<256]"
    by (simp add: list_all_iff)
next
  assume all: "list_all (\<lambda>n. P (word_of_nat n)) [0..<256]"
  show "\<forall>x::u8. P x"
  proof
    fix x :: u8
    have "unat x < 256" using unsigned_less [of x] by simp
    moreover from all have "\<forall>n<256. P (word_of_nat n)" by (simp add: list_all_iff)
    ultimately have "P (word_of_nat (unat x))" by blast
    then show "P x" by simp
  qed
qed

lemma unat_u8_lt [simp]: "unat (x::u8) < 256"
  using unsigned_less [of x] by simp

lemma uint_u8_bounds [simp]: "0 \<le> uint (x::u8)" "uint (x::u8) < 256"
  using uint_bounded [of x] by simp_all

lemma unat_u8_of_nat [simp]: "unat (word_of_nat n :: u8) = n mod 256"
  by (simp add: unat_of_nat)

text \<open>The low bits of a word are the remainder, the others the quotient, by a power of two.\<close>

lemma unat_and_mask: "unat (x AND mask n) = unat x mod 2 ^ n"
  for x :: "'a :: len word"
  unfolding take_bit_eq_mask [symmetric] unsigned_take_bit_eq by (simp add: take_bit_eq_mod)

lemma unat_and_not_mask: "unat (x AND NOT (mask n)) = unat x div 2 ^ n * 2 ^ n"
  for x :: "'a :: len word"
proof -
  note u = unat_and_mask [of x n]
  have "x - (x AND mask n) = x AND NOT (x AND mask n)"
    by (rule disjunctive_diff_eq_and_not) (rule bit_word_eqI, auto simp: bit_and_iff bit_not_iff)
  moreover have "x AND NOT (x AND mask n) = x AND NOT (mask n)"
    by (rule bit_word_eqI) (auto simp: bit_and_iff bit_or_iff bit_not_iff)
  ultimately have "x AND NOT (mask n) = x - (x AND mask n)" by simp
  moreover have "x AND mask n \<le> x" by (simp add: word_le_nat_alt u)
  ultimately have "unat (x AND NOT (mask n)) = unat x - unat x mod 2 ^ n" using unat_sub [of "x AND mask n" x] u by simp
  then show ?thesis by (simp add: minus_mod_eq_div_mult)
qed

section \<open>Exclusive-or checksums\<close>

text \<open>The checksum of a frame: the bytes are folded into the running value one by one.\<close>

definition xor_from :: "u8 \<Rightarrow> u8 list \<Rightarrow> u8" where
  "xor_from c bs = foldl (\<lambda>a b. a XOR b) c bs"

lemma xor_from_Nil [simp]: "xor_from c [] = c"
  by (simp add: xor_from_def)

lemma xor_from_Cons [simp]: "xor_from c (b # bs) = xor_from (c XOR b) bs"
  by (simp add: xor_from_def)

lemma xor_from_append [simp]: "xor_from c (xs @ ys) = xor_from (xor_from c xs) ys"
  by (simp add: xor_from_def)

lemma xor_from_start: "xor_from c bs = c XOR xor_from 0 bs"
proof (induction bs arbitrary: c)
  case Nil
  then show ?case by simp
next
  case (Cons b bs)
  have "xor_from (c XOR b) bs = (c XOR b) XOR xor_from 0 bs" by (rule Cons.IH)
  moreover have "xor_from (0 XOR b) bs = (0 XOR b) XOR xor_from 0 bs" by (rule Cons.IH)
  ultimately show ?case by (simp add: xor.assoc)
qed

text \<open>A frame that ends in its own checksum folds to zero.\<close>

lemma xor_from_self: "xor_from 0 (bs @ [xor_from 0 bs]) = 0"
  by simp

section \<open>Lists of bytes\<close>

lemma take_drop_append: "take n xs @ drop n xs = xs"
  by simp

lemma nth_take_drop: "i < n \<Longrightarrow> k + n \<le> length xs \<Longrightarrow> take n (drop k xs) ! i = xs ! (k + i)"
  by (simp add: add.commute)

end
