(* ===== verification/Vtdr_Bcd.thy ===== *)
theory Vtdr_Bcd
  imports Vtdr_Prelude
begin

text \<open>
  The binary coded decimal codecs: \<open>BCD2Char\<close> of bsp/vtdr/DataManager.c, \<open>Char2BCD\<close> and
  \<open>Int2BCD\<close> of bsp/vtdr/RS232.c. The lemmas give their values as arithmetic on \<open>nat\<close>, the
  round trips, and that decoding keeps the order of BCD bytes.
\<close>

section \<open>BCD codecs\<close>

definition BCD2Char :: "u8 \<Rightarrow> u8" where
  "BCD2Char bcd =
     (let d1 = drop_bit 4 (bcd AND 0xf0) in
      if d1 > 9 then 0xff
      else let d0 = bcd AND 0x0f in
        if d0 > 9 then 0xff
        else d1 * 10 + d0)"

definition Char2BCD :: "u8 \<Rightarrow> u8" where
  "Char2BCD ch =
     (let d0 = ch mod 10;
          d1 = push_bit 4 (ch div 10)
      in d1 + d0)"

text \<open>One round of the loop of \<open>Int2BCD\<close>: two decimal digits become one byte.\<close>

definition Int2BCD_byte :: "u32 \<Rightarrow> u8" where
  "Int2BCD_byte x =
     (let d0 = ucast (x mod 10) :: u8;
          d1 = ucast ((x div 10) mod 10) :: u8
      in push_bit 4 d1 + d0)"

text \<open>The loop runs \<open>i\<close> from 2 down to 0 and fills three bytes, the last one first.\<close>

definition Int2BCD :: "u32 \<Rightarrow> u8 list" where
  "Int2BCD ch =
     (let x2 = ch; x1 = x2 div 10 div 10; x0 = x1 div 10 div 10
      in [Int2BCD_byte x0, Int2BCD_byte x1, Int2BCD_byte x2])"

definition bcd_ok :: "u8 \<Rightarrow> bool" where
  "bcd_ok b \<longleftrightarrow> b AND 0x0f \<le> 9 \<and> drop_bit 4 b \<le> 9"

section \<open>The BCD codecs\<close>

lemma bcd_ok_iff: "bcd_ok b \<longleftrightarrow> unat b div 16 \<le> 9 \<and> unat b mod 16 \<le> 9"
proof -
  have "\<forall>b::u8. bcd_ok b \<longleftrightarrow> unat b div 16 \<le> 9 \<and> unat b mod 16 \<le> 9"
    unfolding all_u8_iff by code_simp
  then show ?thesis by simp
qed

lemma unat_BCD2Char: "unat (BCD2Char b) = (if bcd_ok b then 10 * (unat b div 16) + unat b mod 16 else 255)"
proof -
  have "\<forall>b::u8. unat (BCD2Char b) = (if bcd_ok b then 10 * (unat b div 16) + unat b mod 16 else 255)"
    unfolding all_u8_iff by code_simp
  then show ?thesis by simp
qed

lemma unat_Char2BCD: "c \<le> 99 \<Longrightarrow> unat (Char2BCD c) = 16 * (unat c div 10) + unat c mod 10"
  by (simp add: Char2BCD_def Let_def unat_word_ariths unsigned_push_bit_eq push_bit_eq_mult
      take_bit_eq_mod unat_div unat_mod word_le_nat_alt)

lemma u8_eqI: "unat a = unat b \<Longrightarrow> a = (b::u8)"
  by (rule unsigned_word_eqI)

lemma BCD2Char_le_99_iff: "BCD2Char b \<le> 99 \<longleftrightarrow> bcd_ok b"
  by (auto simp: word_le_nat_alt unat_BCD2Char bcd_ok_iff split: if_splits)

lemma Char2BCD_BCD2Char: "bcd_ok b \<Longrightarrow> Char2BCD (BCD2Char b) = b"
  by (rule u8_eqI) (simp add: unat_Char2BCD BCD2Char_le_99_iff unat_BCD2Char bcd_ok_iff)

lemma BCD2Char_Char2BCD: "c \<le> 99 \<Longrightarrow> BCD2Char (Char2BCD c) = c"
proof (rule u8_eqI)
  assume "c \<le> 99"
  then have "unat c \<le> 99" "unat (Char2BCD c) = 16 * (unat c div 10) + unat c mod 10"
    by (simp_all add: word_le_nat_alt unat_Char2BCD)
  moreover then have "unat c div 10 \<le> 9" "unat c mod 10 < 10" by simp_all
  ultimately show "unat (BCD2Char (Char2BCD c)) = unat c"
    by (simp add: unat_BCD2Char bcd_ok_iff)
qed

lemma digits_less: "r \<le> 9 \<Longrightarrow> s \<le> 9 \<Longrightarrow> 10 * p + r < 10 * q + s \<longleftrightarrow> 16 * p + r < 16 * q + (s::nat)"
proof (cases p q rule: linorder_cases)
  case less
  assume "r \<le> 9" "s \<le> 9"
  with less have "10 * p + r < 10 * q + s" "16 * p + r < 16 * q + s" by linarith+
  then show ?thesis by blast
next
  case greater
  assume "r \<le> 9" "s \<le> 9"
  with greater have "\<not> 10 * p + r < 10 * q + s" "\<not> 16 * p + r < 16 * q + s" by linarith+
  then show ?thesis by blast
qed simp

lemma base16_less_base10:
  assumes "(a::nat) mod 16 \<le> 9" "b mod 16 \<le> 9"
  shows "10 * (a div 16) + a mod 16 < 10 * (b div 16) + b mod 16 \<longleftrightarrow> a < b"
  using digits_less [OF assms] by simp

lemma bcd_less_iff: "bcd_ok a \<Longrightarrow> bcd_ok b \<Longrightarrow> BCD2Char a < BCD2Char b \<longleftrightarrow> a < b"
  by (simp add: word_less_nat_alt unat_BCD2Char bcd_ok_iff base16_less_base10)

lemma Int2BCD_byte_digits: "unat (Int2BCD_byte x) = 16 * (unat x div 10 mod 10) + unat x mod 10"
proof -
  let ?d0 = "ucast (x mod 10) :: u8" and ?d1 = "ucast ((x div 10) mod 10) :: u8"
  have d0: "unat ?d0 = unat x mod 10" and d1: "unat ?d1 = unat x div 10 mod 10"
    by (simp_all add: unsigned_ucast_eq take_bit_eq_mod unat_mod unat_div)
  have "unat (push_bit 4 ?d1) = 16 * (unat x div 10 mod 10)"
    unfolding unsigned_push_bit_eq d1 by (simp add: push_bit_eq_mult take_bit_eq_mod)
  moreover have "unat (Int2BCD_byte x) = (unat (push_bit 4 ?d1) + unat ?d0) mod 256"
    by (simp add: Int2BCD_byte_def Let_def unat_word_ariths)
  ultimately show ?thesis unfolding d0 by simp
qed

lemma Int2BCD_byte_Char2BCD: "Int2BCD_byte x = Char2BCD (ucast (x mod 100))"
proof (rule u8_eqI)
  let ?c = "ucast (x mod 100) :: u8"
  have c: "unat ?c = unat x mod 100" by (simp add: unsigned_ucast_eq take_bit_eq_mod unat_mod)
  then have "?c \<le> 99" by (simp add: word_le_nat_alt)
  then have "unat (Char2BCD ?c) = 16 * (unat x mod 100 div 10) + unat x mod 100 mod 10"
    by (simp add: unat_Char2BCD c)
  also have "\<dots> = 16 * (unat x div 10 mod 10) + unat x mod 10"
    using mod_mult2_eq [of "unat x" 10 10] by simp
  finally show "unat (Int2BCD_byte x) = unat (Char2BCD ?c)" by (simp add: Int2BCD_byte_digits)
qed

lemma unat_Int2BCD_byte: "unat (BCD2Char (Int2BCD_byte x)) = unat x mod 100"
  and bcd_ok_Int2BCD_byte: "bcd_ok (Int2BCD_byte x)"
proof -
  let ?c = "ucast (x mod 100) :: u8"
  have c: "unat ?c = unat x mod 100"
    by (simp add: unsigned_ucast_eq take_bit_eq_mod unat_mod)
  then have le: "?c \<le> 99" by (simp add: word_le_nat_alt)
  show "unat (BCD2Char (Int2BCD_byte x)) = unat x mod 100"
    using BCD2Char_Char2BCD [OF le] c by (simp add: Int2BCD_byte_Char2BCD)
  show "bcd_ok (Int2BCD_byte x)"
    using BCD2Char_Char2BCD [OF le] le
    by (simp add: Int2BCD_byte_Char2BCD flip: BCD2Char_le_99_iff)
qed

lemma digits6: "n mod 1000000 = 10000 * (n div 100 div 100 mod 100) + 100 * (n div 100 mod 100) + n mod (100::nat)"
proof -
  have "n mod 1000000 = n mod (100 * 10000)" by simp
  also have "\<dots> = 100 * (n div 100 mod 10000) + n mod 100" by (simp only: mod_mult2_eq)
  also have "n div 100 mod 10000 = n div 100 mod (100 * 100)" by simp
  also have "\<dots> = 100 * (n div 100 div 100 mod 100) + n div 100 mod 100" by (simp only: mod_mult2_eq)
  finally show ?thesis by simp
qed

lemma Int2BCD_value:
  "map (unat \<circ> BCD2Char) (Int2BCD ch) = [unat ch div 10000 mod 100, unat ch div 100 mod 100, unat ch mod 100]"
  by (simp add: Int2BCD_def Let_def unat_Int2BCD_byte unat_div flip: div_mult2_eq)

end
