(* ===== verification/Vtdr_Clock.thy ===== *)
theory Vtdr_Clock
  imports Vtdr_Bcd
begin

text \<open>
  The recorder's calendar arithmetic: the BCD codecs (\<open>BCD2Char\<close> in bsp/vtdr/DataManager.c,
  \<open>Char2BCD\<close> and \<open>Int2BCD\<close> in bsp/vtdr/RS232.c), the validity checks and the comparison of
  clock values, the stepping of a date by minutes (\<open>IncreaseTime\<close>, \<open>HaveTime\<close>,
  \<open>ComputeTimeBeforeX\<close>) and the gap tests between a clock and the end of a record.

  The abstract specification is the number of minutes since the start of the year 0 of the
  code's calendar, in which every fourth year is a leap year (\<open>abs_minutes\<close>).
\<close>

section \<open>Clock structures\<close>

text \<open>\<open>CLOCK\<close> and \<open>Record_CLOCK\<close> hold BCD bytes, \<open>DateTime\<close> plain integers.\<close>

record CLOCK =
  c_year :: u8
  c_month :: u8
  c_day :: u8
  c_hour :: u8
  c_minute :: u8
  c_second :: u8

record DateTime =
  d_year :: int
  d_month :: int
  d_day :: int
  d_time :: int

record Record_CLOCK =
  r_type :: u16
  r_year :: u8
  r_month :: u8
  r_day :: u8
  r_hour :: u8
  r_minute :: u8
  r_second :: u8

record DRIVER =
  dr_DriverCode :: u32
  dr_DriverLisenseCode :: "u8 list"

record OTDR_end =
  e_dt :: Record_CLOCK
  e_TotalDistance :: u32
  e_MinuteNb :: u32
  e_driver :: DRIVER

section \<open>Validity and comparison of clock values\<close>

text \<open>The int results 1 and 0 of the checks are the truth values.\<close>

definition IsCorrectCLOCK :: "CLOCK \<Rightarrow> bool" where
  "IsCorrectCLOCK dt =
     (if BCD2Char (c_year dt) > 99 then False
      else if BCD2Char (c_month dt) > 12 \<or> BCD2Char (c_month dt) \<le> 0 then False
      else if BCD2Char (c_day dt) > 31 \<or> BCD2Char (c_day dt) \<le> 0 then False
      else if BCD2Char (c_hour dt) > 23 then False
      else if BCD2Char (c_minute dt) > 59 then False
      else if BCD2Char (c_second dt) > 59 then False
      else True)"

definition IsCorrectClock :: "Record_CLOCK \<Rightarrow> bool" where
  "IsCorrectClock dt =
     (if BCD2Char (r_year dt) > 99 then False
      else if BCD2Char (r_month dt) > 12 \<or> BCD2Char (r_month dt) \<le> 0 then False
      else if BCD2Char (r_day dt) > 31 \<or> BCD2Char (r_day dt) \<le> 0 then False
      else if BCD2Char (r_hour dt) > 23 then False
      else if BCD2Char (r_minute dt) > 59 then False
      else True)"

definition CompareDateTime :: "Record_CLOCK \<Rightarrow> Record_CLOCK \<Rightarrow> int" where
  "CompareDateTime dt1 dt2 =
     (let res1 = IsCorrectClock dt1; res2 = IsCorrectClock dt2 in
      if \<not> res1 \<and> \<not> res2 then 0
      else if res1 \<and> \<not> res2 then 1
      else if \<not> res1 \<and> res2 then -1
      else if r_year dt1 > r_year dt2 then 1
      else if r_year dt1 < r_year dt2 then -1
      else if r_month dt1 > r_month dt2 then 1
      else if r_month dt1 < r_month dt2 then -1
      else if r_day dt1 > r_day dt2 then 1
      else if r_day dt1 < r_day dt2 then -1
      else if r_hour dt1 > r_hour dt2 then 1
      else if r_hour dt1 < r_hour dt2 then -1
      else if r_minute dt1 > r_minute dt2 then 1
      else if r_minute dt1 < r_minute dt2 then -1
      else if r_second dt1 > r_second dt2 then 1
      else if r_second dt1 < r_second dt2 then -1
      else 0)"

section \<open>Stepping a date by minutes\<close>

text \<open>
  The body of the do-while loop of \<open>IncreaseTime\<close> on its four local variables. The
  \<open>switch\<close> of the C code falls through to no case for a month outside 1..12.
\<close>

definition inc_forward :: "int \<times> int \<times> int \<times> int \<Rightarrow> int \<times> int \<times> int \<times> int" where
  "inc_forward = (\<lambda>(t, d, m, y).
     let d = d + 1; t = t - 24 * 60;
         (m, d) =
           (if m \<in> {1, 3, 5, 7, 8, 10, 12} then (if d > 31 then (m + 1, d - 31) else (m, d))
            else if m = 2 then
              (if d > 29 \<and> 4 dvd y then (m + 1, d - 29)
               else if d > 28 \<and> \<not> 4 dvd y then (m + 1, d - 28)
               else (m, d))
            else if m \<in> {4, 6, 9, 11} then (if d > 30 then (m + 1, d - 30) else (m, d))
            else (m, d));
         (m, y) = (if m > 12 then (m - 12, y + 1) else (m, y))
     in (t, d, m, y))"

definition inc_backward :: "int \<times> int \<times> int \<times> int \<Rightarrow> int \<times> int \<times> int \<times> int" where
  "inc_backward = (\<lambda>(t, d, m, y).
     let d = d - 1; t = t + 24 * 60;
         (m, d) =
           (if m \<in> {2, 4, 6, 8, 9, 11, 1} then (if d < 1 then (m - 1, d + 31) else (m, d))
            else if m = 3 then
              (if d < 1 \<and> 4 dvd y then (m - 1, d + 29)
               else if d < 1 \<and> \<not> 4 dvd y then (m - 1, d + 28)
               else (m, d))
            else if m \<in> {5, 7, 10, 12} then (if d < 1 then (m - 1, d + 30) else (m, d))
            else (m, d));
         (m, y) = (if m < 1 then (m + 12, y - 1) else (m, y))
     in (t, d, m, y))"

definition inc_body :: "int \<times> int \<times> int \<times> int \<Rightarrow> int \<times> int \<times> int \<times> int" where
  "inc_body s =
     (if fst s \<ge> 24 * 60 then inc_forward s
      else if fst s < 0 then inc_backward s
      else s)"

lemma fst_inc_forward [simp]: "fst (inc_forward s) = fst s - 1440"
  by (simp add: inc_forward_def Let_def split: prod.splits)

lemma fst_inc_backward [simp]: "fst (inc_backward s) = fst s + 1440"
  by (simp add: inc_backward_def Let_def split: prod.splits)

lemma fst_inc_body:
  "fst (inc_body s) =
     (if fst s \<ge> 1440 then fst s - 1440 else if fst s < 0 then fst s + 1440 else fst s)"
  by (simp add: inc_body_def)

function inc_loop :: "int \<times> int \<times> int \<times> int \<Rightarrow> int \<times> int \<times> int \<times> int" where
  "inc_loop s =
     (let s' = inc_body s in
      if fst s' \<ge> 24 * 60 \<or> fst s' < 0 then inc_loop s' else s')"
  by pat_completeness auto
termination
proof (relation "measure (\<lambda>s. nat \<bar>fst s\<bar>)")
  fix s s' :: "int \<times> int \<times> int \<times> int"
  assume "s' = inc_body s" and "24 * 60 \<le> fst s' \<or> fst s' < 0"
  then show "(s', s) \<in> measure (\<lambda>s. nat \<bar>fst s\<bar>)"
    by (auto simp: fst_inc_body split: if_splits)
qed simp

declare inc_loop.simps [simp del]

definition IncreaseTime :: "DateTime \<Rightarrow> int \<Rightarrow> DateTime" where
  "IncreaseTime dt inc =
     (let (t, d, m, y) = inc_loop (d_time dt + inc, d_day dt, d_month dt, d_year dt)
      in dt\<lparr>d_time := t, d_day := d, d_month := m, d_year := y\<rparr>)"



definition earlier :: "DateTime \<Rightarrow> DateTime \<Rightarrow> bool" where
  "earlier a b =
     (if d_year a < d_year b then True
      else if d_year a = d_year b then
        (if d_month a < d_month b then True
         else if d_month a = d_month b then
           (if d_day a < d_day b then True
            else if d_day a = d_day b then d_time a < d_time b
            else False)
         else False)
      else False)"


definition PrepareTime :: "u8 list \<Rightarrow> DateTime" where
  "PrepareTime bcd_time =
     \<lparr>d_year = uint (BCD2Char (bcd_time ! 0)),
      d_month = uint (BCD2Char (bcd_time ! 1)),
      d_day = uint (BCD2Char (bcd_time ! 2)),
      d_time = uint (BCD2Char (bcd_time ! 3)) * 60 + uint (BCD2Char (bcd_time ! 4))\<rparr>"

text \<open>
  \<open>0 - timeinterval\<close> is computed in \<open>unsigned long\<close> and stored in an int; the conversions
  of the int fields to \<open>unsigned char\<close> keep the low byte.
\<close>

definition ComputeTimeBeforeX :: "CLOCK \<Rightarrow> CLOCK \<Rightarrow> u32 \<Rightarrow> CLOCK" where
  "ComputeTimeBeforeX ct dt timeinterval =
     (let b = \<lparr>d_year = uint (BCD2Char (c_year ct)), d_month = uint (BCD2Char (c_month ct)),
               d_day = uint (BCD2Char (c_day ct)),
               d_time = uint (BCD2Char (c_hour ct)) * 60 + uint (BCD2Char (c_minute ct))\<rparr>;
          b = IncreaseTime b (sint (0 - timeinterval));
          hour = d_time b div 60
      in dt\<lparr>c_year := Char2BCD (word_of_int (d_year b)),
            c_month := Char2BCD (word_of_int (d_month b)),
            c_day := Char2BCD (word_of_int (d_day b)),
            c_hour := Char2BCD (word_of_int hour),
            c_minute := Char2BCD (word_of_int (d_time b - hour * 60))\<rparr>)"

definition RefreshCurTime :: "CLOCK \<Rightarrow> CLOCK \<Rightarrow> CLOCK" where
  "RefreshCurTime s d =
     d\<lparr>c_year := c_year s, c_month := c_month s, c_day := c_day s,
       c_hour := c_hour s, c_minute := c_minute s\<rparr>"

section \<open>Gap between a clock and the end of a record\<close>

definition IfOneAfterAotherDay :: "CLOCK \<Rightarrow> OTDR_end \<Rightarrow> bool" where
  "IfOneAfterAotherDay time end =
     (let day = BCD2Char (c_day time) in
      if day > 1 then
        (day - 1 = BCD2Char (r_day (e_dt end)) \<and> c_month time = r_month (e_dt end)
          \<and> c_year time = r_year (e_dt end))
      else
        (let year = BCD2Char (c_year time); month = BCD2Char (c_month time);
             (month, year) =
               (if month > 1 then (month - 1, year)
                else (12, if year > 1 then year - 1 else 99))
         in if month \<notin> {1, 3, 5, 7, 8, 10, 12, 4, 6, 9, 11, 2} then False
            else
              (let day = (if month \<in> {1, 3, 5, 7, 8, 10, 12} then 31
                          else if month \<in> {4, 6, 9, 11} then 30
                          else if year AND 0x03 = 0 then 29 else 28)
               in day = BCD2Char (r_day (e_dt end)) \<and> month = BCD2Char (r_month (e_dt end))
                 \<and> year = BCD2Char (r_year (e_dt end)))))"

definition minutes_of_day :: "u8 \<Rightarrow> u8 \<Rightarrow> int" where
  "minutes_of_day h m = uint (BCD2Char h) * 60 + uint (BCD2Char m)"

definition JudgeTimeSpace :: "CLOCK \<Rightarrow> OTDR_end \<Rightarrow> u8" where
  "JudgeTimeSpace time end =
     (if c_year time = r_year (e_dt end) \<and> c_month time = r_month (e_dt end)
         \<and> c_day time = r_day (e_dt end) then
        (let space = minutes_of_day (c_hour time) (c_minute time)
                       - minutes_of_day (r_hour (e_dt end)) (r_minute (e_dt end))
         in if space < 0 \<or> space > 20 then 0xff else word_of_int space)
      else if IfOneAfterAotherDay time end then
        (let space = 24 * 60 + minutes_of_day (c_hour time) (c_minute time)
                       - minutes_of_day (r_hour (e_dt end)) (r_minute (e_dt end))
         in if space < 0 \<or> space > 20 then 0xff else word_of_int space)
      else 0xff)"

section \<open>The calendar the code uses\<close>

definition days_in_month :: "int \<Rightarrow> int \<Rightarrow> int" where
  "days_in_month y m =
     (if m = 2 then (if 4 dvd y then 29 else 28)
      else if m \<in> {4, 6, 9, 11} then 30 else 31)"

definition days_before_month :: "int \<Rightarrow> int \<Rightarrow> int" where
  "days_before_month y m =
     [0, 0, 31, 59, 90, 120, 151, 181, 212, 243, 273, 304, 334] ! nat m
       + (if m > 2 \<and> 4 dvd y then 1 else 0)"

definition valid_date :: "int \<Rightarrow> int \<Rightarrow> int \<Rightarrow> bool" where
  "valid_date y m d \<longleftrightarrow> m \<in> {1..12} \<and> 1 \<le> d \<and> d \<le> days_in_month y m"

definition leaps_before :: "int \<Rightarrow> int" where
  "leaps_before y = (y + 3) div 4"

definition day_number :: "int \<Rightarrow> int \<Rightarrow> int \<Rightarrow> int" where
  "day_number y m d = 365 * y + leaps_before y + days_before_month y m + d"

definition valid_dt :: "DateTime \<Rightarrow> bool" where
  "valid_dt dt \<longleftrightarrow> valid_date (d_year dt) (d_month dt) (d_day dt)
     \<and> 0 \<le> d_time dt \<and> d_time dt < 1440"

definition abs_minutes :: "DateTime \<Rightarrow> int" where
  "abs_minutes dt = 1440 * day_number (d_year dt) (d_month dt) (d_day dt) + d_time dt"

lemma month_cases:
  assumes "m \<in> {1..12::int}"
  obtains "m = 1" | "m = 2" | "m = 3" | "m = 4" | "m = 5" | "m = 6"
    | "m = 7" | "m = 8" | "m = 9" | "m = 10" | "m = 11" | "m = 12"
proof -
  from assms have "1 \<le> m" "m \<le> 12" by auto
  then have "m = 1 \<or> m = 2 \<or> m = 3 \<or> m = 4 \<or> m = 5 \<or> m = 6
    \<or> m = 7 \<or> m = 8 \<or> m = 9 \<or> m = 10 \<or> m = 11 \<or> m = 12" by arith
  then show thesis using that by blast
qed

lemma leaps_before_succ: "leaps_before (y + 1) = leaps_before y + (if 4 dvd y then 1 else 0)"
  unfolding leaps_before_def by presburger

lemma leaps_before_pred: "leaps_before (y - 1) = leaps_before y - (if 4 dvd (y - 1) then 1 else 0)"
  unfolding leaps_before_def by presburger

lemma inc_forward_date:
  assumes "valid_date y m d"
  shows "case inc_forward (t, d, m, y) of (t', d', m', y') \<Rightarrow>
    t' = t - 1440 \<and> valid_date y' m' d' \<and> day_number y' m' d' = day_number y m d + 1"
proof -
  have m: "m \<in> {1..12}" using assms by (simp add: valid_date_def)
  show ?thesis
    by (rule month_cases [OF m])
      (use assms leaps_before_succ [of y] in \<open>simp_all add: inc_forward_def valid_date_def
        day_number_def days_before_month_def days_in_month_def Let_def split: if_splits\<close>)
qed

lemma inc_backward_date:
  assumes "valid_date y m d"
  shows "case inc_backward (t, d, m, y) of (t', d', m', y') \<Rightarrow>
    t' = t + 1440 \<and> valid_date y' m' d' \<and> day_number y' m' d' = day_number y m d - 1"
proof -
  have m: "m \<in> {1..12}" using assms by (simp add: valid_date_def)
  show ?thesis
    by (rule month_cases [OF m])
      (use assms leaps_before_pred [of y] in \<open>simp_all add: inc_backward_def valid_date_def
        day_number_def days_before_month_def days_in_month_def Let_def split: if_splits\<close>)
qed

lemma inc_loop_date:
  assumes "valid_date y m d"
  shows "case inc_loop (t, d, m, y) of (t', d', m', y') \<Rightarrow>
    0 \<le> t' \<and> t' < 1440 \<and> valid_date y' m' d'
    \<and> 1440 * day_number y' m' d' + t' = 1440 * day_number y m d + t"
  using assms
proof (induction "(t, d, m, y)" arbitrary: t d m y rule: inc_loop.induct)
  case 1
  let ?s = "(t, d, m, y)"
  obtain t' d' m' y' where b: "inc_body ?s = (t', d', m', y')" by (cases "inc_body ?s") auto
  have step: "valid_date y' m' d' \<and> 1440 * day_number y' m' d' + t' = 1440 * day_number y m d + t"
    using inc_forward_date [OF 1(2), of t] inc_backward_date [OF 1(2), of t] b 1(2)
    by (auto simp: inc_body_def split: if_splits)
  show ?case
  proof (cases "t' \<ge> 24 * 60 \<or> t' < 0")
    case True
    have "case inc_loop (t', d', m', y') of (t'', d'', m'', y'') \<Rightarrow>
      0 \<le> t'' \<and> t'' < 1440 \<and> valid_date y'' m'' d''
      \<and> 1440 * day_number y'' m'' d'' + t'' = 1440 * day_number y' m' d' + t'"
      using 1(1) [OF b [symmetric]] True step b by simp
    then show ?thesis using True step b by (subst inc_loop.simps) auto
  next
    case False
    then show ?thesis using step b by (subst inc_loop.simps) auto
  qed
qed

lemma IncreaseTime_date:
  assumes "valid_date (d_year dt) (d_month dt) (d_day dt)"
  shows "valid_dt (IncreaseTime dt inc) \<and> abs_minutes (IncreaseTime dt inc) = abs_minutes dt + inc"
  using inc_loop_date [OF assms, of "d_time dt + inc"]
  by (auto simp: IncreaseTime_def valid_dt_def abs_minutes_def split: prod.splits)

section \<open>The day number orders the valid dates\<close>

lemma days_before_month_mono:
  assumes "valid_date y m d" and "m < m'" and "m' \<le> 12"
  shows "days_before_month y m + d \<le> days_before_month y m'"
proof -
  have m: "m \<in> {1..12}" and m': "m' \<in> {1..12}" using assms by (auto simp: valid_date_def)
  show ?thesis
    by (rule month_cases [OF m]; rule month_cases [OF m'])
      (use assms in \<open>simp_all add: valid_date_def days_in_month_def days_before_month_def
         split: if_splits\<close>)
qed

lemma days_before_month_bounds:
  assumes "valid_date y m d"
  shows "1 \<le> days_before_month y m + d \<and>
    days_before_month y m + d \<le> 365 + (if 4 dvd y then 1 else 0)"
proof -
  have m: "m \<in> {1..12}" using assms by (auto simp: valid_date_def)
  show ?thesis
    by (rule month_cases [OF m])
      (use assms in \<open>simp_all add: valid_date_def days_in_month_def days_before_month_def
         split: if_splits\<close>)
qed

lemma leaps_before_mono: "y \<le> y' \<Longrightarrow> leaps_before y \<le> leaps_before y'"
  unfolding leaps_before_def by (intro zdiv_mono1) auto

lemma day_number_less_year:
  assumes "valid_date y m d" "valid_date y' m' d'" "y < y'"
  shows "day_number y m d < day_number y' m' d'"
proof -
  have "leaps_before (y + 1) \<le> leaps_before y'" using assms(3) by (intro leaps_before_mono) simp
  then show ?thesis
    using days_before_month_bounds [OF assms(1)] days_before_month_bounds [OF assms(2)] assms(3)
    by (simp add: day_number_def leaps_before_succ split: if_splits)
qed

lemma day_number_less:
  assumes "valid_date y m d" "valid_date y' m' d'"
  shows "day_number y m d < day_number y' m' d' \<longleftrightarrow>
    y < y' \<or> y = y' \<and> (m < m' \<or> m = m' \<and> d < d')"
proof -
  have month: "day_number y m d < day_number y m' d'"
    if "m < m'" "valid_date y m d" "valid_date y m' d'" for y m d m' d'
    using days_before_month_mono [OF that(2) that(1)] that
    by (simp add: day_number_def valid_date_def)
  consider "y < y'" | "y' < y" | "y = y'" "m < m'" | "y = y'" "m' < m"
    | "y = y'" "m = m'" by linarith
  then show ?thesis
  proof cases
    case 1 then show ?thesis using day_number_less_year [OF assms] by simp
  next
    case 2 then show ?thesis using day_number_less_year [OF assms(2,1)] by simp
  next
    case 3 then show ?thesis using month [of m m' y d d'] assms by simp
  next
    case 4 then show ?thesis using month [of m' m y d' d] assms by auto
  next
    case 5 then show ?thesis by (simp add: day_number_def)
  qed
qed

lemma day_number_inj:
  assumes "valid_date y m d" "valid_date y' m' d'" "day_number y m d = day_number y' m' d'"
  shows "y = y' \<and> m = m' \<and> d = d'"
  using day_number_less [OF assms(1,2)] day_number_less [OF assms(2,1)] assms(3) by auto


lemma earlier_iff:
  assumes "valid_dt a" "valid_dt b"
  shows "earlier a b \<longleftrightarrow> abs_minutes a < abs_minutes b"
proof -
  let ?n = "\<lambda>x. day_number (d_year x) (d_month x) (d_day x)"
  have v: "valid_date (d_year a) (d_month a) (d_day a)" "valid_date (d_year b) (d_month b) (d_day b)"
    using assms by (auto simp: valid_dt_def)
  have "abs_minutes a < abs_minutes b \<longleftrightarrow> ?n a < ?n b \<or> ?n a = ?n b \<and> d_time a < d_time b"
    using assms by (auto simp: abs_minutes_def valid_dt_def)
  then show ?thesis
    using day_number_less [OF v] day_number_inj [OF v] by (auto simp: earlier_def)
qed

section \<open>Counting the days between two dates\<close>





section \<open>Decoding clock values\<close>

definition dec :: "u8 \<Rightarrow> int" where
  "dec b = uint (BCD2Char b)"

definition decode_clock :: "CLOCK \<Rightarrow> DateTime" where
  "decode_clock c =
     \<lparr>d_year = dec (c_year c), d_month = dec (c_month c), d_day = dec (c_day c),
      d_time = dec (c_hour c) * 60 + dec (c_minute c)\<rparr>"

definition decode_record :: "Record_CLOCK \<Rightarrow> DateTime" where
  "decode_record r =
     \<lparr>d_year = dec (r_year r), d_month = dec (r_month r), d_day = dec (r_day r),
      d_time = dec (r_hour r) * 60 + dec (r_minute r)\<rparr>"

definition good_clock :: "CLOCK \<Rightarrow> bool" where
  "good_clock c \<longleftrightarrow> bcd_ok (c_year c) \<and> bcd_ok (c_month c) \<and> bcd_ok (c_day c)
     \<and> bcd_ok (c_hour c) \<and> bcd_ok (c_minute c) \<and> dec (c_hour c) \<le> 23 \<and> dec (c_minute c) \<le> 59
     \<and> valid_dt (decode_clock c)"

definition good_record :: "Record_CLOCK \<Rightarrow> bool" where
  "good_record r \<longleftrightarrow> bcd_ok (r_year r) \<and> bcd_ok (r_month r) \<and> bcd_ok (r_day r)
     \<and> bcd_ok (r_hour r) \<and> bcd_ok (r_minute r) \<and> dec (r_hour r) \<le> 23 \<and> dec (r_minute r) \<le> 59
     \<and> valid_dt (decode_record r)"

lemma dec_nonneg [simp]: "0 \<le> dec b"
  by (simp add: dec_def)

lemma dec_gt: "n < BCD2Char b \<longleftrightarrow> uint n < dec b"
  by (simp add: dec_def word_less_def)

lemma dec_zero: "BCD2Char b = 0 \<longleftrightarrow> dec b < 1"
proof -
  have "BCD2Char b = 0 \<longleftrightarrow> dec b = 0" by (simp add: dec_def word_uint_eq_iff)
  then show ?thesis using dec_nonneg [of b] by linarith
qed

lemma bcd_ok_dec: "bcd_ok b \<longleftrightarrow> dec b \<le> 99"
  using BCD2Char_le_99_iff [of b] by (simp add: dec_def word_le_def)

lemma dec_le_99: "bcd_ok b \<Longrightarrow> dec b \<le> 99"
  using BCD2Char_le_99_iff [of b] by (simp add: dec_def word_le_def)

lemma dec_eq_iff: "bcd_ok a \<Longrightarrow> bcd_ok b \<Longrightarrow> dec a = dec b \<longleftrightarrow> a = b"
  by (metis Char2BCD_BCD2Char dec_def word_uint_eq_iff)

lemma dec_less_iff: "bcd_ok a \<Longrightarrow> bcd_ok b \<Longrightarrow> dec a < dec b \<longleftrightarrow> a < b"
  using bcd_less_iff [of a b] by (simp add: dec_def word_less_def)

lemma bcd_eq_dec: "BCD2Char a = BCD2Char b \<longleftrightarrow> dec a = dec b"
  by (simp add: dec_def word_uint_eq_iff)

lemma IsCorrectClock_iff:
  "IsCorrectClock r \<longleftrightarrow> bcd_ok (r_year r) \<and> bcd_ok (r_month r) \<and> bcd_ok (r_day r)
     \<and> bcd_ok (r_hour r) \<and> bcd_ok (r_minute r) \<and> dec (r_month r) \<in> {1..12}
     \<and> dec (r_day r) \<in> {1..31} \<and> dec (r_hour r) \<le> 23 \<and> dec (r_minute r) \<le> 59"
  by (auto simp: IsCorrectClock_def bcd_ok_dec dec_gt dec_zero not_less)

lemma IsCorrectCLOCK_iff:
  "IsCorrectCLOCK c \<longleftrightarrow> bcd_ok (c_year c) \<and> bcd_ok (c_month c) \<and> bcd_ok (c_day c)
     \<and> bcd_ok (c_hour c) \<and> bcd_ok (c_minute c) \<and> bcd_ok (c_second c) \<and> dec (c_month c) \<in> {1..12}
     \<and> dec (c_day c) \<in> {1..31} \<and> dec (c_hour c) \<le> 23 \<and> dec (c_minute c) \<le> 59
     \<and> dec (c_second c) \<le> 59"
  by (auto simp: IsCorrectCLOCK_def bcd_ok_dec dec_gt dec_zero not_less)

section \<open>The order of record clocks\<close>

text \<open>The key \<open>CompareDateTime\<close> orders the correct clocks by: the bytes as a base-256 number.\<close>

definition pack :: "nat \<Rightarrow> u8 \<Rightarrow> nat" where
  "pack a b = a * 256 + unat b"

lemma pack_less: "pack a x < pack b y \<longleftrightarrow> a < b \<or> a = b \<and> x < y"
proof (cases a b rule: linorder_cases)
  case less
  then have "a * 256 + unat x < b * 256 + unat y" using unat_u8_lt [of x] by linarith
  with less show ?thesis by (simp add: pack_def)
next
  case greater
  then have "b * 256 + unat y < a * 256 + unat x" using unat_u8_lt [of y] by linarith
  with greater show ?thesis by (simp add: pack_def)
qed (simp add: pack_def word_less_nat_alt)

lemma pack_eq: "pack a x = pack b y \<longleftrightarrow> a = b \<and> x = y"
  using pack_less [of a x b y] pack_less [of b y a x]
  by (metis linorder_neqE_nat nat_neq_iff word_less_nat_alt u8_eqI)

fun lex_compare :: "u8 list \<Rightarrow> u8 list \<Rightarrow> int" where
  "lex_compare (x # xs) (y # ys) = (if x > y then 1 else if x < y then -1 else lex_compare xs ys)"
| "lex_compare _ _ = 0"

lemma foldl_pack_cases:
  "length xs = length ys \<Longrightarrow>
    (foldl pack a xs < foldl pack b ys \<longleftrightarrow> a < b \<or> a = b \<and> lex_compare xs ys = -1)
    \<and> (foldl pack a xs = foldl pack b ys \<longleftrightarrow> a = b \<and> lex_compare xs ys = 0)"
  by (induction xs ys arbitrary: a b rule: list_induct2)
    (auto simp: pack_less pack_eq split: if_splits)

definition clock_key :: "Record_CLOCK \<Rightarrow> nat" where
  "clock_key r = foldl pack 0 [r_year r, r_month r, r_day r, r_hour r, r_minute r, r_second r]"

lemma lex_compare_range: "lex_compare xs ys \<in> {-1, 0, 1}"
  by (induction xs ys rule: lex_compare.induct) auto

lemma sign_of_order:
  assumes "j < k \<longleftrightarrow> l = (-1::int)" "j = k \<longleftrightarrow> l = 0" "l \<in> {-1, 0, 1}"
  shows "l = (if (j::nat) > k then 1 else if j < k then -1 else 0)"
  using assms by (cases j k rule: linorder_cases) auto

lemma CompareDateTime_key:
  assumes "IsCorrectClock a" "IsCorrectClock b"
  shows "CompareDateTime a b =
    (if clock_key a > clock_key b then 1 else if clock_key a < clock_key b then -1 else 0)"
proof -
  let ?l = "\<lambda>r. [r_year r, r_month r, r_day r, r_hour r, r_minute r, r_second r]"
  have "CompareDateTime a b = lex_compare (?l a) (?l b)"
    using assms by (simp add: CompareDateTime_def Let_def)
  moreover have "lex_compare (?l a) (?l b) =
    (if foldl pack 0 (?l a) > foldl pack 0 (?l b) then 1
     else if foldl pack 0 (?l a) < foldl pack 0 (?l b) then -1 else 0)"
  proof (rule sign_of_order)
    have len: "length (?l a) = length (?l b)" by simp
    note c = foldl_pack_cases [OF len, of 0 0]
    show "foldl pack 0 (?l a) < foldl pack 0 (?l b) \<longleftrightarrow> lex_compare (?l a) (?l b) = -1"
      using c less_irrefl [of "0::nat"] by blast
    show "foldl pack 0 (?l a) = foldl pack 0 (?l b) \<longleftrightarrow> lex_compare (?l a) (?l b) = 0"
      using c by blast
  qed (rule lex_compare_range)
  ultimately show ?thesis unfolding clock_key_def by simp
qed

section \<open>One day after another\<close>

lemma dec_succ:
  assumes "bcd_ok a" "bcd_ok b"
  shows "BCD2Char a - 1 = BCD2Char b \<longleftrightarrow> dec a = dec b + 1"
proof -
  have "uint (BCD2Char b + 1) = uint (BCD2Char b) + 1"
    using dec_le_99 [OF assms(2)] by (simp add: dec_def uint_word_ariths)
  moreover have "BCD2Char a - 1 = BCD2Char b \<longleftrightarrow> BCD2Char a = BCD2Char b + 1"
    by (simp add: diff_eq_eq)
  ultimately show ?thesis by (simp add: word_uint_eq_iff dec_def)
qed

lemma dec_one: "BCD2Char a > 1 \<longleftrightarrow> dec a > 1"
  by (simp add: dec_gt)

text \<open>The days before the first of a month, by the code's own table.\<close>

lemma first_of_month:
  assumes "valid_date y m d" "valid_date Y M D" "d = 1" "m > 1"
  shows "day_number y m d = day_number Y M D + 1 \<longleftrightarrow>
    Y = y \<and> M = m - 1 \<and> D = days_in_month y (m - 1)"
proof -
  have v: "valid_date y (m - 1) (days_in_month y (m - 1))"
    using assms by (auto simp: valid_date_def days_in_month_def)
  have m: "m \<in> {1..12}" using assms by (simp add: valid_date_def)
  have "day_number y m d = day_number y (m - 1) (days_in_month y (m - 1)) + 1"
    by (rule month_cases [OF m])
      (use assms in \<open>simp_all add: day_number_def days_before_month_def days_in_month_def\<close>)
  then show ?thesis using day_number_inj [OF v assms(2)] by auto
qed

lemma first_of_year:
  assumes "valid_date y 1 1" "valid_date Y M D"
  shows "day_number y 1 1 = day_number Y M D + 1 \<longleftrightarrow> Y = y - 1 \<and> M = 12 \<and> D = 31"
proof -
  have v: "valid_date (y - 1) 12 31" by (simp add: valid_date_def days_in_month_def)
  have "day_number y 1 1 = day_number (y - 1) 12 31 + 1"
    using leaps_before_pred [of y] by (simp add: day_number_def days_before_month_def)
  then show ?thesis using day_number_inj [OF v assms(2)] by auto
qed

lemma next_day_in_month:
  assumes "valid_date y m d" "valid_date Y M D" "d > 1"
  shows "day_number y m d = day_number Y M D + 1 \<longleftrightarrow> Y = y \<and> M = m \<and> D = d - 1"
proof -
  have v: "valid_date y m (d - 1)" using assms by (simp add: valid_date_def)
  have "day_number y m d = day_number y m (d - 1) + 1" by (simp add: day_number_def)
  then show ?thesis using day_number_inj [OF v assms(2)] by auto
qed

lemma year_leap_bits: "BCD2Char a AND 3 = 0 \<longleftrightarrow> 4 dvd dec a"
proof -
  have "BCD2Char a AND 3 = take_bit 2 (BCD2Char a)"
    by (simp add: take_bit_eq_mask mask_eq_exp_minus_1)
  then have "uint (BCD2Char a AND 3) = dec a mod 4"
    by (simp add: dec_def unsigned_take_bit_eq take_bit_eq_mod uint_mod)
  then show ?thesis by (auto simp: word_uint_eq_iff dvd_eq_mod_eq_0)
qed

definition next_day :: "CLOCK \<Rightarrow> OTDR_end \<Rightarrow> bool" where
  "next_day time end \<longleftrightarrow>
     day_number (dec (c_year time)) (dec (c_month time)) (dec (c_day time))
     = day_number (dec (r_year (e_dt end))) (dec (r_month (e_dt end))) (dec (r_day (e_dt end))) + 1"

lemma IfOneAfter_later_day:
  assumes "good_clock time" "good_record (e_dt end)" "dec (c_day time) > 1"
  shows "IfOneAfterAotherDay time end \<longleftrightarrow> next_day time end"
proof -
  have v: "valid_date (dec (c_year time)) (dec (c_month time)) (dec (c_day time))"
    "valid_date (dec (r_year (e_dt end))) (dec (r_month (e_dt end))) (dec (r_day (e_dt end)))"
    using assms by (auto simp: good_clock_def good_record_def valid_dt_def decode_clock_def
        decode_record_def)
  have "IfOneAfterAotherDay time end \<longleftrightarrow>
    dec (c_day time) = dec (r_day (e_dt end)) + 1 \<and> c_month time = r_month (e_dt end)
      \<and> c_year time = r_year (e_dt end)"
    using assms dec_succ [of "c_day time" "r_day (e_dt end)"]
    by (simp add: IfOneAfterAotherDay_def Let_def dec_one good_clock_def good_record_def)
  also have "\<dots> \<longleftrightarrow> dec (r_year (e_dt end)) = dec (c_year time)
      \<and> dec (r_month (e_dt end)) = dec (c_month time) \<and> dec (r_day (e_dt end)) = dec (c_day time) - 1"
    using assms dec_eq_iff by (auto simp: good_clock_def good_record_def)
  finally show ?thesis using next_day_in_month [OF v assms(3)] by (simp add: next_day_def)
qed

lemma good_dates:
  assumes "good_clock time" "good_record (e_dt end)"
  shows "valid_date (dec (c_year time)) (dec (c_month time)) (dec (c_day time))"
    "valid_date (dec (r_year (e_dt end))) (dec (r_month (e_dt end))) (dec (r_day (e_dt end)))"
  using assms by (auto simp: good_clock_def good_record_def valid_dt_def decode_clock_def
      decode_record_def)

lemma BCD2Char_of_dec: "dec a = k \<Longrightarrow> BCD2Char a = word_of_int k"
  by (auto simp: dec_def)

lemma BCD2Char_eq_iff_dec: "uint n \<le> 99 \<Longrightarrow> n = BCD2Char b \<longleftrightarrow> dec b = uint n"
  by (auto simp: dec_def word_uint_eq_iff)

lemma IfOneAfter_first_of_month:
  assumes "good_clock time" "good_record (e_dt end)" "dec (c_day time) = 1" "dec (c_month time) > 1"
  shows "IfOneAfterAotherDay time end \<longleftrightarrow> next_day time end"
proof -
  note v = good_dates [OF assms(1,2)]
  have m: "dec (c_month time) \<in> {1..12}" using v by (simp add: valid_date_def)
  have nd: "next_day time end \<longleftrightarrow> dec (r_year (e_dt end)) = dec (c_year time)
      \<and> dec (r_month (e_dt end)) = dec (c_month time) - 1
      \<and> dec (r_day (e_dt end)) = days_in_month (dec (c_year time)) (dec (c_month time) - 1)"
    using first_of_month [OF v] assms by (simp add: next_day_def)
  have yr: "BCD2Char (c_year time) = BCD2Char (r_year (e_dt end))
      \<longleftrightarrow> dec (r_year (e_dt end)) = dec (c_year time)" by (auto simp: bcd_eq_dec)
  have d: "\<not> BCD2Char (c_day time) > 1" using assms by (simp add: dec_one)
  show ?thesis
    by (rule month_cases [OF m])
      (use assms(4) d BCD2Char_of_dec [of "c_month time"] in \<open>simp_all add: nd
         IfOneAfterAotherDay_def Let_def yr year_leap_bits BCD2Char_eq_iff_dec days_in_month_def conj_ac\<close>)
qed

lemma IfOneAfter_first_of_year:
  assumes "good_clock time" "good_record (e_dt end)" "dec (c_day time) = 1" "dec (c_month time) = 1"
    "dec (c_year time) > 1"
  shows "IfOneAfterAotherDay time end \<longleftrightarrow> next_day time end"
proof -
  note v = good_dates [OF assms(1,2)]
  have nd: "next_day time end \<longleftrightarrow> dec (r_year (e_dt end)) = dec (c_year time) - 1
      \<and> dec (r_month (e_dt end)) = 12 \<and> dec (r_day (e_dt end)) = 31"
    using first_of_year [of "dec (c_year time)"] v assms by (simp add: next_day_def)
  have d: "BCD2Char (c_day time) = 1" "BCD2Char (c_month time) = 1" "BCD2Char (c_year time) > 1"
    using assms BCD2Char_of_dec [of "c_day time" 1] BCD2Char_of_dec [of "c_month time" 1]
    by (simp_all add: dec_one)
  have yr: "BCD2Char (c_year time) - 1 = BCD2Char (r_year (e_dt end))
      \<longleftrightarrow> dec (r_year (e_dt end)) = dec (c_year time) - 1"
    using dec_succ assms by (auto simp: good_clock_def good_record_def)
  show ?thesis
    using d by (simp add: nd IfOneAfterAotherDay_def Let_def yr BCD2Char_eq_iff_dec)
       blast
qed

lemma IfOneAfterAotherDay_next_day:
  assumes "good_clock time" "good_record (e_dt end)"
    and "dec (c_year time) > 1 \<or> dec (c_month time) > 1 \<or> dec (c_day time) > 1"
  shows "IfOneAfterAotherDay time end \<longleftrightarrow> next_day time end"
proof -
  have "1 \<le> dec (c_month time)" "1 \<le> dec (c_day time)"
    using good_dates [OF assms(1,2)] by (auto simp: valid_date_def)
  then consider "dec (c_day time) > 1" | "dec (c_day time) = 1" "dec (c_month time) > 1"
    | "dec (c_day time) = 1" "dec (c_month time) = 1" "dec (c_year time) > 1"
    using assms(3) by linarith
  then show ?thesis
    using IfOneAfter_later_day IfOneAfter_first_of_month IfOneAfter_first_of_year assms
    by cases blast+
qed

lemma far_days:
  assumes "n \<le> N - 1 \<or> n \<ge> N + (2::int)" "g = 1440 * (n - N) + (t - T)"
    "0 \<le> t" "t < 1440" "0 \<le> T" "T < 1440"
  shows "g < 0 \<or> g > 20"
  using assms(1)
proof
  assume "n \<le> N - 1"
  then have "g < 0" using assms(2-6) by simp
  then show ?thesis ..
next
  assume "n \<ge> N + 2"
  then have "g > 20" using assms(2-6) by simp
  then show ?thesis ..
qed

lemma JudgeTimeSpace_gap:
  assumes "good_clock time" "good_record (e_dt end)"
    and "dec (c_year time) > 1 \<or> dec (c_month time) > 1 \<or> dec (c_day time) > 1"
  shows "let gap = abs_minutes (decode_clock time) - abs_minutes (decode_record (e_dt end)) in
    JudgeTimeSpace time end = (if 0 \<le> gap \<and> gap \<le> 20 then word_of_int gap else 0xff)"
proof -
  let ?n = "day_number (dec (c_year time)) (dec (c_month time)) (dec (c_day time))"
  let ?N = "day_number (dec (r_year (e_dt end))) (dec (r_month (e_dt end))) (dec (r_day (e_dt end)))"
  let ?t = "minutes_of_day (c_hour time) (c_minute time)"
  let ?T = "minutes_of_day (r_hour (e_dt end)) (r_minute (e_dt end))"
  let ?gap = "abs_minutes (decode_clock time) - abs_minutes (decode_record (e_dt end))"
  have gap: "?gap = 1440 * (?n - ?N) + (?t - ?T)"
    by (simp add: abs_minutes_def decode_clock_def decode_record_def minutes_of_day_def dec_def)
  have t: "0 \<le> ?t" "?t < 1440" "0 \<le> ?T" "?T < 1440"
    using assms(1,2) by (auto simp: good_clock_def good_record_def valid_dt_def decode_clock_def
        decode_record_def minutes_of_day_def dec_def)
  have same: "c_year time = r_year (e_dt end) \<and> c_month time = r_month (e_dt end)
      \<and> c_day time = r_day (e_dt end) \<longleftrightarrow> ?n = ?N"
    using day_number_inj [OF good_dates [OF assms(1,2)]] assms(1,2) dec_eq_iff
    by (auto simp: good_clock_def good_record_def)
  have nxt: "IfOneAfterAotherDay time end \<longleftrightarrow> ?n = ?N + 1"
    using IfOneAfterAotherDay_next_day [OF assms] by (simp add: next_day_def)
  consider "?n = ?N" | "?n = ?N + 1" | "?n \<noteq> ?N" "?n \<noteq> ?N + 1" by blast
  then show ?thesis
  proof cases
    case 1
    then have "?gap = ?t - ?T" using gap by simp
    with 1 show ?thesis using same by (auto simp: JudgeTimeSpace_def Let_def)
  next
    case 2
    then have "?gap = 24 * 60 + ?t - ?T" using gap by simp
    with 2 show ?thesis using same nxt by (auto simp: JudgeTimeSpace_def Let_def)
  next
    case 3
    then have "?n \<le> ?N - 1 \<or> ?n \<ge> ?N + 2" by arith
    then have "?gap < 0 \<or> ?gap > 20" using far_days [OF _ gap] t by blast
    moreover have "JudgeTimeSpace time end = 0xff"
      using 3 same nxt unfolding JudgeTimeSpace_def by presburger
    ultimately show ?thesis by (auto simp: Let_def)
  qed
qed

section \<open>Going back by minutes\<close>

lemma dec_Char2BCD: "0 \<le> k \<Longrightarrow> k \<le> 99 \<Longrightarrow> dec (Char2BCD (word_of_int k)) = k"
  using BCD2Char_Char2BCD [of "word_of_int k"]
  by (simp add: dec_def word_le_def uint_word_of_int)

lemma bcd_ok_Char2BCD: "0 \<le> k \<Longrightarrow> k \<le> 99 \<Longrightarrow> bcd_ok (Char2BCD (word_of_int k))"
  using dec_Char2BCD [of k] by (simp add: bcd_ok_dec)

lemma sint_uminus_u32:
  assumes "unat (iv :: u32) < 2 ^ 31"
  shows "sint (- iv) = - uint iv"
proof -
  from assms have "int (unat iv) < int (2 ^ 31)" by (simp only: of_nat_less_iff)
  then have u: "uint iv < 2 ^ 31" by simp
  have "sint (- iv) = sint (word_of_int (- uint iv) :: u32)" by simp
  also have "\<dots> = signed_take_bit 31 (- uint iv)"
    by (simp only: sint_sbintrunc') simp
  also have "\<dots> = - uint iv"
  proof (rule signed_take_bit_int_eq_self)
    have nn: "0 \<le> uint iv" by simp
    show "- (2 ^ 31) \<le> - uint iv" and "- uint iv < 2 ^ 31" using u nn by linarith+
  qed
  finally show ?thesis .
qed

lemma ComputeTimeBeforeX_exact:
  assumes "good_clock ct" "unat iv < 2 ^ 31"
    and "1440 * day_number 0 1 1 \<le> abs_minutes (decode_clock ct) - int (unat iv)"
  shows "good_clock (ComputeTimeBeforeX ct dt iv)
    \<and> abs_minutes (decode_clock (ComputeTimeBeforeX ct dt iv))
      = abs_minutes (decode_clock ct) - int (unat iv)
    \<and> c_second (ComputeTimeBeforeX ct dt iv) = c_second dt"
proof -
  define b where "b = IncreaseTime (decode_clock ct) (- int (unat iv))"
  have vct: "valid_dt (decode_clock ct)" using assms(1) by (simp add: good_clock_def)
  then have vb: "valid_dt b" and ab: "abs_minutes b = abs_minutes (decode_clock ct) - int (unat iv)"
    using IncreaseTime_date [of "decode_clock ct" "- int (unat iv)"]
    by (auto simp: b_def valid_dt_def)
  have date: "valid_date (d_year b) (d_month b) (d_day b)" and t: "0 \<le> d_time b" "d_time b < 1440"
    using vb by (auto simp: valid_dt_def)
  have ord: "valid_dt x \<Longrightarrow> abs_minutes b \<le> abs_minutes x \<Longrightarrow>
      day_number (d_year b) (d_month b) (d_day b) \<le> day_number (d_year x) (d_month x) (d_day x)" for x
    using t by (auto simp: abs_minutes_def valid_dt_def)
  have "day_number 0 1 1 \<le> day_number (d_year b) (d_month b) (d_day b)"
    using assms(3) t ab by (simp add: abs_minutes_def)
  then have lo: "0 \<le> d_year b"
    using day_number_less [OF date, of 0 1 1] by (auto simp: valid_date_def days_in_month_def)
  have "day_number (d_year b) (d_month b) (d_day b) \<le> day_number (d_year (decode_clock ct))
      (d_month (decode_clock ct)) (d_day (decode_clock ct))"
    using ord [OF vct] ab by simp
  then have "d_year b \<le> d_year (decode_clock ct)"
    using day_number_less [OF _ date, of "d_year (decode_clock ct)" "d_month (decode_clock ct)"
        "d_day (decode_clock ct)"] vct
    by (auto simp: valid_dt_def)
  then have hi: "d_year b \<le> 99"
    using dec_le_99 [of "c_year ct"] assms(1) by (simp add: good_clock_def decode_clock_def)
  have m: "0 \<le> d_month b" "d_month b \<le> 99" and d: "0 \<le> d_day b" "d_day b \<le> 99"
    using date by (auto simp: valid_date_def days_in_month_def split: if_splits)
  have h: "0 \<le> d_time b div 60" "d_time b div 60 \<le> 23"
    and mi: "d_time b - d_time b div 60 * 60 = d_time b mod 60"
    using t by (auto simp: minus_div_mult_eq_mod)
  have mr: "0 \<le> d_time b mod 60" "d_time b mod 60 \<le> 59" using pos_mod_bound [of 60 "d_time b"] by auto
  have r: "ComputeTimeBeforeX ct dt iv = dt\<lparr>c_year := Char2BCD (word_of_int (d_year b)),
      c_month := Char2BCD (word_of_int (d_month b)), c_day := Char2BCD (word_of_int (d_day b)),
      c_hour := Char2BCD (word_of_int (d_time b div 60)),
      c_minute := Char2BCD (word_of_int (d_time b mod 60))\<rparr>"
    using sint_uminus_u32 [OF assms(2)] unfolding mi [symmetric]
    by (simp add: ComputeTimeBeforeX_def Let_def b_def decode_clock_def dec_def)
  have dec: "decode_clock (ComputeTimeBeforeX ct dt iv) = b"
    unfolding r using lo hi m d h mr
    by (auto simp: decode_clock_def dec_Char2BCD intro!: DateTime.equality)
  show ?thesis
    using dec ab vb lo hi m d h mr
    by (simp add: good_clock_def) (simp add: r dec_Char2BCD bcd_ok_Char2BCD)
qed


section \<open>Properties of the calendar\<close>

text \<open>decoding and encoding BCD are inverse: a BCD byte survives \<open>BCD2Char\<close> followed by
  \<open>Char2BCD\<close>, a number up to 99 survives the converse, and every other byte decodes to the
  error value 0xff.\<close>

theorem bcd_roundtrip:
  "(bcd_ok b \<longrightarrow> Char2BCD (BCD2Char b) = b) \<and> (c \<le> 99 \<longrightarrow> BCD2Char (Char2BCD c) = c)
   \<and> (\<not> bcd_ok b \<longrightarrow> BCD2Char b = 0xff)"
  using Char2BCD_BCD2Char BCD2Char_Char2BCD unat_BCD2Char [of b]
  by (auto intro: u8_eqI)

theorem bcd_roundtrip_witness:
  "Char2BCD (BCD2Char 0x59) = 0x59 \<and> BCD2Char (Char2BCD 59) = 59 \<and> BCD2Char 0x5a = 0xff"
  using bcd_roundtrip [of "0x59" 59] bcd_roundtrip [of "0x5a" 59]
  by (simp add: bcd_ok_def)

text \<open>\<open>Int2BCD\<close> writes the last six decimal digits of its argument as three BCD bytes,
  most significant first.\<close>

theorem Int2BCD_digits:
  "list_all bcd_ok (Int2BCD ch) \<and> length (Int2BCD ch) = 3
   \<and> (let v = map (unat \<circ> BCD2Char) (Int2BCD ch)
      in v ! 0 * 10000 + v ! 1 * 100 + v ! 2 = unat ch mod 1000000)"
proof -
  have "unat ch div 10000 = unat ch div 100 div 100" by (simp flip: div_mult2_eq)
  then show ?thesis
    using digits6 [of "unat ch"] Int2BCD_value [of ch]
    by (simp add: Int2BCD_def Let_def bcd_ok_Int2BCD_byte)
qed





text \<open>\<open>ComputeTimeBeforeX\<close> goes back exactly \<open>timeinterval\<close> minutes from a correct clock as
  long as the result is not before the year 00, and writes the result as correct BCD fields.\<close>

theorem ComputeTimeBeforeX_back:
  assumes "good_clock ct" "unat iv < 2 ^ 31"
    and "1440 * day_number 0 1 1 \<le> abs_minutes (decode_clock ct) - int (unat iv)"
  shows "good_clock (ComputeTimeBeforeX ct dt iv)
    \<and> abs_minutes (decode_clock (ComputeTimeBeforeX ct dt iv))
      = abs_minutes (decode_clock ct) - int (unat iv)"
  using ComputeTimeBeforeX_exact [OF assms] by blast

theorem ComputeTimeBeforeX_back_witness:
  "let ct = \<lparr>c_year = 0x13, c_month = 0x03, c_day = 0x01, c_hour = 0x00, c_minute = 0x05,
             c_second = 0x30\<rparr>
   in good_clock (ComputeTimeBeforeX ct ct 10)
    \<and> abs_minutes (decode_clock (ComputeTimeBeforeX ct ct 10)) = abs_minutes (decode_clock ct) - 10"
proof -
  let ?ct = "\<lparr>c_year = 0x13, c_month = 0x03, c_day = 0x01, c_hour = 0x00, c_minute = 0x05,
              c_second = 0x30\<rparr> :: CLOCK"
  have "good_clock ?ct"
    by (simp add: good_clock_def bcd_ok_def decode_clock_def dec_def BCD2Char_def valid_dt_def
        valid_date_def days_in_month_def)
  moreover have "1440 * day_number 0 1 1 \<le> abs_minutes (decode_clock ?ct) - int (unat (10::u32))"
    by (simp add: decode_clock_def dec_def BCD2Char_def abs_minutes_def day_number_def
        leaps_before_def days_before_month_def)
  ultimately show ?thesis using ComputeTimeBeforeX_back [of ?ct 10 ?ct] by (simp add: Let_def)
qed

text \<open>on correct clocks \<open>CompareDateTime\<close> is the order of the decoded calendar fields, year
  first and second last; an incorrect clock is before every correct one.\<close>

theorem CompareDateTime_order:
  "CompareDateTime a b =
     (if IsCorrectClock a \<and> IsCorrectClock b then
        (if clock_key a > clock_key b then 1 else if clock_key a < clock_key b then -1 else 0)
      else if IsCorrectClock a then 1 else if IsCorrectClock b then -1 else 0)
   \<and> CompareDateTime b a = - CompareDateTime a b"
proof -
  have one: "CompareDateTime a b =
     (if IsCorrectClock a \<and> IsCorrectClock b then
        (if clock_key a > clock_key b then 1 else if clock_key a < clock_key b then -1 else 0)
      else if IsCorrectClock a then 1 else if IsCorrectClock b then -1 else 0)" for a b
    using CompareDateTime_key [of a b] by (simp add: CompareDateTime_def Let_def)
  show ?thesis unfolding one [of a b] one [of b a] by auto
qed

text \<open>\<open>JudgeTimeSpace\<close> answers the number of minutes from the end of the last record to the
  current time when that is 0 to 20 minutes, also across midnight, the end of a month and of a
  leap February, and 0xff otherwise. The first of January of the years 00 and 01 is excluded:
  there the code takes the year before to be 99.\<close>

theorem JudgeTimeSpace_exact:
  assumes "good_clock time" "good_record (e_dt end)"
    and "dec (c_year time) > 1 \<or> dec (c_month time) > 1 \<or> dec (c_day time) > 1"
  shows "let gap = abs_minutes (decode_clock time) - abs_minutes (decode_record (e_dt end)) in
    JudgeTimeSpace time end = (if 0 \<le> gap \<and> gap \<le> 20 then word_of_int gap else 0xff)"
  by (rule JudgeTimeSpace_gap [OF assms])

theorem JudgeTimeSpace_exact_witness:
  "JudgeTimeSpace \<lparr>c_year = 0x12, c_month = 0x03, c_day = 0x01, c_hour = 0x00, c_minute = 0x05,
                   c_second = 0x00\<rparr>
     \<lparr>e_dt = \<lparr>r_type = 0xeaea, r_year = 0x12, r_month = 0x02, r_day = 0x29, r_hour = 0x23,
              r_minute = 0x50, r_second = 0\<rparr>, e_TotalDistance = 0, e_MinuteNb = 0,
      e_driver = \<lparr>dr_DriverCode = 0, dr_DriverLisenseCode = []\<rparr>\<rparr> = 15"
proof -
  let ?t = "\<lparr>c_year = 0x12, c_month = 0x03, c_day = 0x01, c_hour = 0x00, c_minute = 0x05,
             c_second = 0x00\<rparr> :: CLOCK"
  let ?e = "\<lparr>e_dt = \<lparr>r_type = 0xeaea, r_year = 0x12, r_month = 0x02, r_day = 0x29, r_hour = 0x23,
              r_minute = 0x50, r_second = 0\<rparr>, e_TotalDistance = 0, e_MinuteNb = 0,
      e_driver = \<lparr>dr_DriverCode = 0, dr_DriverLisenseCode = []\<rparr>\<rparr> :: OTDR_end"
  have "good_clock ?t" "good_record (e_dt ?e)"
    by (simp_all add: good_clock_def good_record_def bcd_ok_def decode_clock_def decode_record_def
        dec_def BCD2Char_def valid_dt_def valid_date_def days_in_month_def)
  moreover have "dec (c_year ?t) > 1" by (simp add: dec_def BCD2Char_def)
  ultimately have "let gap = abs_minutes (decode_clock ?t) - abs_minutes (decode_record (e_dt ?e)) in
      JudgeTimeSpace ?t ?e = (if 0 \<le> gap \<and> gap \<le> 20 then word_of_int gap else 0xff)"
    by (intro JudgeTimeSpace_exact) auto
  then show ?thesis
    by (simp add: decode_clock_def decode_record_def dec_def BCD2Char_def abs_minutes_def
        day_number_def leaps_before_def days_before_month_def)
qed

text \<open>The excluded case: five minutes after the last minute of the year 00, the code sees no gap
  of a few minutes, because it compares with the year 99.\<close>

lemma year_01_new_year:
  "\<not> IfOneAfterAotherDay
      \<lparr>c_year = 0x01, c_month = 0x01, c_day = 0x01, c_hour = 0, c_minute = 0, c_second = 0\<rparr>
      \<lparr>e_dt = \<lparr>r_type = 0xeaea, r_year = 0, r_month = 0x12, r_day = 0x31, r_hour = 0x23,
              r_minute = 0x59, r_second = 0\<rparr>, e_TotalDistance = 0, e_MinuteNb = 0,
       e_driver = \<lparr>dr_DriverCode = 0, dr_DriverLisenseCode = []\<rparr>\<rparr>"
  by (simp add: IfOneAfterAotherDay_def BCD2Char_def Let_def)

end
