(* ===== verification/Vtdr_Flash.thy ===== *)
theory Vtdr_Flash
  imports Vtdr_Prelude "HOL-Library.Monad_Syntax"
begin

text \<open>
  The driver of the serial data flash (\<open>bsp/vtdr/atmel_dataflash.c\<close>). The driver talks to the
  chips byte by byte: it lowers a chip-select pin, exchanges bytes over the SPI peripheral and
  raises the pin again. The pins, the peripheral and the chips behind them are hardware: they are
  the parameter \<open>'c spi_bus\<close> of every operation, and \<open>'c\<close> is the state of that hardware.
  What the driver relies on is the data-sheet behaviour stated by the locale \<open>flash_chip\<close>:
  the write-enable latch, page program (which only clears bits), erase, sequential read, and a
  busy flag that is cleared after finitely many polls. \<open>flash_store\<close> is what the driver promises
  its callers. The byte-accurate chip \<open>ref_chip\<close> shows that the contract can be met.
\<close>

section \<open>The bus\<close>

datatype spi = SPI1 | SPI2
datatype pin = PA3 | PB12

record 'c spi_bus =
  bus_gpio :: "pin \<Rightarrow> bool \<Rightarrow> 'c \<Rightarrow> 'c"
  bus_xfer :: "spi \<Rightarrow> u8 \<Rightarrow> 'c \<Rightarrow> u8 \<times> 'c"
  bus_pins :: "u8 \<Rightarrow> 'c \<Rightarrow> 'c"

definition Flah_Chip_Select :: "'c spi_bus \<Rightarrow> spi \<Rightarrow> u8 \<Rightarrow> 'c \<Rightarrow> 'c" where
  "Flah_Chip_Select b sp status c =
     (if sp = SPI1 then
        (if status \<noteq> 0 then bus_gpio b PA3 True c else bus_gpio b PA3 False c)
      else if sp = SPI2 then
        (if status \<noteq> 0 then bus_gpio b PB12 True c else bus_gpio b PB12 False c)
      else c)"

definition SPI_FLASH_SendByte :: "'c spi_bus \<Rightarrow> spi \<Rightarrow> u8 \<Rightarrow> 'c \<Rightarrow> u8 \<times> 'c" where
  "SPI_FLASH_SendByte b sp x c = bus_xfer b sp x c"

definition put_byte :: "'c spi_bus \<Rightarrow> spi \<Rightarrow> u8 \<Rightarrow> 'c \<Rightarrow> 'c" where
  "put_byte b sp x c = snd (SPI_FLASH_SendByte b sp x c)"

fun put_bytes :: "'c spi_bus \<Rightarrow> spi \<Rightarrow> u8 list \<Rightarrow> 'c \<Rightarrow> 'c" where
  "put_bytes b sp [] c = c"
| "put_bytes b sp (x # xs) c = put_bytes b sp xs (put_byte b sp x c)"

definition addr_bytes :: "u32 \<Rightarrow> u8 list" where
  "addr_bytes a = [ucast (drop_bit 16 (a AND 0xFF0000)), ucast (drop_bit 8 (a AND 0xFF00)), ucast (a AND 0xFF)]"

section \<open>Driver operations\<close>

definition rt_public_pin_init_for :: "'c spi_bus \<Rightarrow> spi \<Rightarrow> 'c \<Rightarrow> 'c" where
  "rt_public_pin_init_for b sp c = (if sp = SPI2 then bus_pins b 0 c else c)"

definition SPI_FLASH_WriteEnable :: "'c spi_bus \<Rightarrow> spi \<Rightarrow> 'c \<Rightarrow> 'c" where
  "SPI_FLASH_WriteEnable b sp c =
     (let c = Flah_Chip_Select b sp 0 c;
          c = put_byte b sp 0x06 c
      in Flah_Chip_Select b sp 1 c)"

partial_function (option) wait_loop :: "'c spi_bus \<Rightarrow> spi \<Rightarrow> 'c \<Rightarrow> 'c option" where
  "wait_loop b sp c =
     (let r = SPI_FLASH_SendByte b sp 0x00 c
      in if fst r AND 0x01 = 1 then wait_loop b sp (snd r) else Some (snd r))"

definition SPI_FLASH_WaitForWriteEnd :: "'c spi_bus \<Rightarrow> spi \<Rightarrow> 'c \<Rightarrow> 'c option" where
  "SPI_FLASH_WaitForWriteEnd b sp c =
     (let c = Flah_Chip_Select b sp 0 c;
          c = put_byte b sp 0x05 c
      in do { c \<leftarrow> wait_loop b sp c; Some (Flah_Chip_Select b sp 1 c) })"

definition SPI_FLASH_Sector4kErase :: "'c spi_bus \<Rightarrow> spi \<Rightarrow> u32 \<Rightarrow> 'c \<Rightarrow> 'c option" where
  "SPI_FLASH_Sector4kErase b sp SectorAddr c =
     (let c = rt_public_pin_init_for b sp c;
          c = SPI_FLASH_WriteEnable b sp c;
          c = Flah_Chip_Select b sp 0 c;
          c = put_byte b sp 0x20 c;
          c = put_bytes b sp (addr_bytes SectorAddr) c;
          c = Flah_Chip_Select b sp 1 c
      in SPI_FLASH_WaitForWriteEnd b sp c)"

definition SPI_FLASH_SectorErase :: "'c spi_bus \<Rightarrow> spi \<Rightarrow> u32 \<Rightarrow> 'c \<Rightarrow> 'c option" where
  "SPI_FLASH_SectorErase b sp SectorAddr c =
     (let c = rt_public_pin_init_for b sp c;
          c = SPI_FLASH_WriteEnable b sp c;
          c = Flah_Chip_Select b sp 0 c;
          c = put_byte b sp 0xD8 c;
          c = put_bytes b sp (addr_bytes SectorAddr) c;
          c = Flah_Chip_Select b sp 1 c
      in SPI_FLASH_WaitForWriteEnd b sp c)"

definition SPI_FLASH_BulkErase :: "'c spi_bus \<Rightarrow> spi \<Rightarrow> 'c \<Rightarrow> 'c option" where
  "SPI_FLASH_BulkErase b sp c =
     (let c = rt_public_pin_init_for b sp c;
          c = SPI_FLASH_WriteEnable b sp c;
          c = Flah_Chip_Select b sp 0 c;
          c = put_byte b sp 0xC7 c;
          c = Flah_Chip_Select b sp 1 c
      in SPI_FLASH_WaitForWriteEnd b sp c)"

definition SPI_FLASH_PageWrite :: "'c spi_bus \<Rightarrow> spi \<Rightarrow> u8 list \<Rightarrow> u32 \<Rightarrow> u16 \<Rightarrow> 'c \<Rightarrow> 'c option" where
  "SPI_FLASH_PageWrite b sp pBuffer WriteAddr NumByteToWrite c =
     (let c = SPI_FLASH_WriteEnable b sp c;
          c = Flah_Chip_Select b sp 0 c;
          c = put_byte b sp 0x02 c;
          c = put_bytes b sp (addr_bytes WriteAddr) c;
          c = put_bytes b sp (take (unat NumByteToWrite) pBuffer) c;
          c = Flah_Chip_Select b sp 1 c
      in SPI_FLASH_WaitForWriteEnd b sp c)"

text \<open>The page loop of \<open>SPI_FLASH_BufferWrite\<close>: the buffer pointer and the address move on together.\<close>

fun page_loop :: "'c spi_bus \<Rightarrow> spi \<Rightarrow> nat \<Rightarrow> u8 list \<Rightarrow> u32 \<Rightarrow> 'c \<Rightarrow> (u8 list \<times> u32 \<times> 'c) option" where
  "page_loop b sp 0 pBuffer WriteAddr c = Some (pBuffer, WriteAddr, c)"
| "page_loop b sp (Suc k) pBuffer WriteAddr c =
     do { c \<leftarrow> SPI_FLASH_PageWrite b sp pBuffer WriteAddr 256 c;
          page_loop b sp k (drop 256 pBuffer) (WriteAddr + 256) c }"

definition SPI_FLASH_BufferWrite :: "'c spi_bus \<Rightarrow> spi \<Rightarrow> u8 list \<Rightarrow> u32 \<Rightarrow> u16 \<Rightarrow> 'c \<Rightarrow> 'c option" where
  "SPI_FLASH_BufferWrite b sp pBuffer WriteAddr NumByteToWrite c =
     (let Addr = (ucast (WriteAddr mod 256) :: u8);
          count = 256 - Addr;
          NumOfPage = (ucast (NumByteToWrite div 256) :: u8);
          NumOfSingle = (ucast (NumByteToWrite mod 256) :: u8);
          c = rt_public_pin_init_for b sp c
      in if Addr = 0 then
           (if NumOfPage = 0 then SPI_FLASH_PageWrite b sp pBuffer WriteAddr NumByteToWrite c
            else do { (pBuffer, WriteAddr, c) \<leftarrow> page_loop b sp (unat NumOfPage) pBuffer WriteAddr c;
                      SPI_FLASH_PageWrite b sp pBuffer WriteAddr (ucast NumOfSingle) c })
         else
           (if NumOfPage = 0 then
              (if NumOfSingle > count then
                 (let temp = NumOfSingle - count in
                  do { c \<leftarrow> SPI_FLASH_PageWrite b sp pBuffer WriteAddr (ucast count) c;
                       SPI_FLASH_PageWrite b sp (drop (unat count) pBuffer) (WriteAddr + ucast count) (ucast temp) c })
               else SPI_FLASH_PageWrite b sp pBuffer WriteAddr NumByteToWrite c)
            else
              (let NumByteToWrite = NumByteToWrite - ucast count;
                   NumOfPage = (ucast (NumByteToWrite div 256) :: u8);
                   NumOfSingle = (ucast (NumByteToWrite mod 256) :: u8)
               in do { c \<leftarrow> SPI_FLASH_PageWrite b sp pBuffer WriteAddr (ucast count) c;
                       (pBuffer, WriteAddr, c) \<leftarrow>
                          page_loop b sp (unat NumOfPage) (drop (unat count) pBuffer) (WriteAddr + ucast count) c;
                       if NumOfSingle \<noteq> 0 then SPI_FLASH_PageWrite b sp pBuffer WriteAddr (ucast NumOfSingle) c
                       else Some c })))"

fun get_bytes :: "'c spi_bus \<Rightarrow> spi \<Rightarrow> nat \<Rightarrow> 'c \<Rightarrow> u8 list \<times> 'c" where
  "get_bytes b sp 0 c = ([], c)"
| "get_bytes b sp (Suc n) c =
     (let (x, c) = SPI_FLASH_SendByte b sp 0x00 c; (xs, c) = get_bytes b sp n c in (x # xs, c))"

definition SPI_FLASH_StartReadSequence :: "'c spi_bus \<Rightarrow> spi \<Rightarrow> u32 \<Rightarrow> 'c \<Rightarrow> 'c" where
  "SPI_FLASH_StartReadSequence b sp ReadAddr c =
     (let c = Flah_Chip_Select b sp 0 c;
          c = put_byte b sp 0x03 c
      in put_bytes b sp (addr_bytes ReadAddr) c)"

definition SPI_FLASH_ReadByte :: "'c spi_bus \<Rightarrow> spi \<Rightarrow> 'c \<Rightarrow> u8 \<times> 'c" where
  "SPI_FLASH_ReadByte b sp c = SPI_FLASH_SendByte b sp 0x00 c"

definition SPI_FLASH_BufferRead :: "'c spi_bus \<Rightarrow> spi \<Rightarrow> u32 \<Rightarrow> u16 \<Rightarrow> 'c \<Rightarrow> u8 list \<times> 'c" where
  "SPI_FLASH_BufferRead b sp ReadAddr NumByteToRead c =
     (let c = rt_public_pin_init_for b sp c;
          c = Flah_Chip_Select b sp 0 c;
          c = put_byte b sp 0x03 c;
          c = put_bytes b sp (addr_bytes ReadAddr) c;
          (bs, c) = get_bytes b sp (unat NumByteToRead) c
      in (bs, Flah_Chip_Select b sp 1 c))"

definition DATAFLASH_ChangProtectStatus :: "'c spi_bus \<Rightarrow> spi \<Rightarrow> u8 \<Rightarrow> 'c \<Rightarrow> 'c option" where
  "DATAFLASH_ChangProtectStatus b sp pBuffer c =
     (let c = SPI_FLASH_WriteEnable b sp c;
          c = Flah_Chip_Select b sp 0 c;
          c = put_byte b sp 0x01 c;
          c = put_byte b sp pBuffer c;
          c = Flah_Chip_Select b sp 1 c
      in SPI_FLASH_WaitForWriteEnd b sp c)"

section \<open>What the flash holds\<close>

text \<open>Programming can only clear bits; erasing sets every bit.\<close>

definition prog :: "(nat \<Rightarrow> u8) \<Rightarrow> nat \<Rightarrow> u8 list \<Rightarrow> nat \<Rightarrow> u8" where
  "prog m a d = (\<lambda>x. if a \<le> x \<and> x < a + length d then m x AND d ! (x - a) else m x)"

definition erase :: "(nat \<Rightarrow> u8) \<Rightarrow> nat \<Rightarrow> nat \<Rightarrow> nat \<Rightarrow> u8" where
  "erase m s n = (\<lambda>x. if s \<le> x \<and> x < s + n then 0xFF else m x)"

definition window :: "(nat \<Rightarrow> u8) \<Rightarrow> nat \<Rightarrow> nat \<Rightarrow> u8 list" where
  "window m a n = map m [a..<a + n]"

definition erased :: "(nat \<Rightarrow> u8) \<Rightarrow> nat \<Rightarrow> nat \<Rightarrow> bool" where
  "erased m a n \<longleftrightarrow> (\<forall>x\<in>{a..<a + n}. m x = 0xFF)"

lemma prog_Nil [simp, flash_simps]: "prog m a [] = m"
  by (auto simp: prog_def fun_eq_iff)

lemma prog_append [flash_simps]: "prog (prog m a d) (a + length d) e = prog m a (d @ e)"
  by (auto simp: prog_def fun_eq_iff nth_append)

lemma prog_outside [flash_simps]: "x < a \<or> a + length d \<le> x \<Longrightarrow> prog m a d x = m x"
  by (auto simp: prog_def)

lemma u8_all_ones: "0xFF AND (x::u8) = x"
proof -
  have "(0xFF::u8) = - 1" by simp
  then show ?thesis by (simp only: and.left_neutral)
qed

lemma length_window [simp]: "length (window m a n) = n"
  by (simp add: window_def)

lemma window_prog_erased: "erased m a (length d) \<Longrightarrow> window (prog m a d) a (length d) = d"
  by (rule nth_equalityI) (auto simp: window_def prog_def erased_def u8_all_ones)

lemma window_cong: "(\<And>x. a \<le> x \<Longrightarrow> x < a + n \<Longrightarrow> m x = m' x) \<Longrightarrow> window m a n = window m' a n"
  by (simp add: window_def)

lemma window_prog_disjoint [flash_simps]:
  "a + n \<le> s \<or> s + length d \<le> a \<Longrightarrow> window (prog m s d) a n = window m a n"
  by (rule window_cong) (auto simp: prog_def)

lemma window_erase_disjoint [flash_simps]:
  "a + n \<le> s \<or> s + k \<le> a \<Longrightarrow> window (erase m s k) a n = window m a n"
  by (rule window_cong) (auto simp: erase_def)

lemma erased_erase [flash_simps]: "s \<le> a \<Longrightarrow> a + n \<le> s + k \<Longrightarrow> erased (erase m s k) a n"
  by (auto simp: erased_def erase_def)

lemma window_append: "window m a (n + k) = window m a n @ window m (a + n) k"
proof -
  have "[a..<a + n + k] = [a..<a + n] @ [a + n..<a + n + k]" by (rule upt_add_eq_append) simp
  then show ?thesis by (simp only: window_def add.assoc [symmetric] map_append)
qed

section \<open>The contract with the chip\<close>

text \<open>A command frame: chip select low, the bytes, chip select high.\<close>

definition frame :: "'c spi_bus \<Rightarrow> spi \<Rightarrow> u8 list \<Rightarrow> 'c \<Rightarrow> 'c" where
  "frame b sp xs c = Flah_Chip_Select b sp 1 (put_bytes b sp xs (Flah_Chip_Select b sp 0 c))"

fun polls :: "'c spi_bus \<Rightarrow> spi \<Rightarrow> nat \<Rightarrow> 'c \<Rightarrow> 'c" where
  "polls b sp 0 c = c"
| "polls b sp (Suc n) c = polls b sp n (put_byte b sp 0x00 c)"

definition poll_busy :: "'c spi_bus \<Rightarrow> spi \<Rightarrow> nat \<Rightarrow> 'c \<Rightarrow> bool" where
  "poll_busy b sp n c \<longleftrightarrow> fst (SPI_FLASH_SendByte b sp 0x00 (polls b sp n c)) AND 1 = 1"

lemma put_bytes_append: "put_bytes b sp (xs @ ys) c = put_bytes b sp ys (put_bytes b sp xs c)"
  by (induction xs arbitrary: c) simp_all

lemma frame_addr: "Flah_Chip_Select b sp 1 (put_bytes b sp (addr_bytes a)
    (put_byte b sp x (Flah_Chip_Select b sp 0 c))) = frame b sp (x # addr_bytes a) c"
  by (simp add: frame_def)

lemma frame_addr_data: "Flah_Chip_Select b sp 1 (put_bytes b sp d (put_bytes b sp (addr_bytes a)
    (put_byte b sp x (Flah_Chip_Select b sp 0 c)))) = frame b sp (x # addr_bytes a @ d) c"
  by (simp add: frame_def put_bytes_append)

lemma frame_one: "Flah_Chip_Select b sp 1 (put_byte b sp x (Flah_Chip_Select b sp 0 c)) = frame b sp [x] c"
  by (simp add: frame_def)

lemma wait_loop_polls:
  assumes "\<forall>k<n. poll_busy b sp k c" and "\<not> poll_busy b sp n c"
  shows "wait_loop b sp c = Some (polls b sp (Suc n) c)"
  using assms
proof (induction n arbitrary: c)
  case 0
  then show ?case by (subst wait_loop.simps) (simp add: poll_busy_def put_byte_def Let_def)
next
  case (Suc n)
  have busy: "poll_busy b sp 0 c" using Suc.prems(1) by simp
  have "wait_loop b sp (put_byte b sp 0 c) = Some (polls b sp (Suc n) (put_byte b sp 0 c))"
  proof (rule Suc.IH)
    show "\<forall>k<n. poll_busy b sp k (put_byte b sp 0 c)"
    proof (intro allI impI)
      fix k assume "k < n"
      then have "poll_busy b sp (Suc k) c" using Suc.prems(1) by simp
      then show "poll_busy b sp k (put_byte b sp 0 c)" by (simp add: poll_busy_def)
    qed
    show "\<not> poll_busy b sp n (put_byte b sp 0 c)" using Suc.prems(2) by (simp add: poll_busy_def)
  qed
  with busy show ?case
    by (subst wait_loop.simps) (simp add: poll_busy_def put_byte_def Let_def)
qed

text \<open>
  \<open>mem\<close> is what the chip stores, \<open>ready\<close> an idle deselected chip, \<open>wel\<close> its write-enable
  latch, \<open>settling\<close> a deselected chip that may be busy with a write cycle.
\<close>

locale flash_chip =
  fixes b :: "'c spi_bus" and sp :: spi and cap :: nat
    and mem :: "'c \<Rightarrow> nat \<Rightarrow> u8" and ready wel settling :: "'c \<Rightarrow> bool"
  assumes cap_addr: "cap \<le> 2 ^ 24"
    and cap_sector: "4096 dvd cap"
    and pins: "\<lbrakk>sp = SPI2; ready c\<rbrakk> \<Longrightarrow> ready (bus_pins b 0 c) \<and> mem (bus_pins b 0 c) = mem c"
    and write_enable: "ready c \<Longrightarrow> ready (frame b sp [0x06] c) \<and> wel (frame b sp [0x06] c)
          \<and> mem (frame b sp [0x06] c) = mem c"
    and page_program: "\<lbrakk>ready c; wel c; d \<noteq> []; unat a mod 256 + length d \<le> 256; unat a + length d \<le> cap\<rbrakk> \<Longrightarrow>
          settling (frame b sp (0x02 # addr_bytes a @ d) c)
          \<and> mem (frame b sp (0x02 # addr_bytes a @ d) c) = prog (mem c) (unat a) d"
    and empty_program: "ready c \<Longrightarrow> settling (frame b sp (0x02 # addr_bytes a) c)
          \<and> mem (frame b sp (0x02 # addr_bytes a) c) = mem c"
    and sector_erase: "\<lbrakk>ready c; wel c; unat a < cap\<rbrakk> \<Longrightarrow>
          settling (frame b sp (0x20 # addr_bytes a) c)
          \<and> mem (frame b sp (0x20 # addr_bytes a) c) = erase (mem c) (unat a div 4096 * 4096) 4096"
    and write_ends: "settling c \<Longrightarrow>
          \<exists>n. let s = put_byte b sp 0x05 (Flah_Chip_Select b sp 0 c);
                  c' = Flah_Chip_Select b sp 1 (polls b sp (Suc n) s)
              in (\<forall>k<n. poll_busy b sp k s) \<and> \<not> poll_busy b sp n s \<and> ready c' \<and> mem c' = mem c"
    and read_data: "\<lbrakk>ready c; unat a + n \<le> cap\<rbrakk> \<Longrightarrow>
          let r = get_bytes b sp n (put_bytes b sp (0x03 # addr_bytes a) (Flah_Chip_Select b sp 0 c))
          in fst r = window (mem c) (unat a) n
             \<and> ready (Flah_Chip_Select b sp 1 (snd r)) \<and> mem (Flah_Chip_Select b sp 1 (snd r)) = mem c"

text \<open>
  What the driver promises: \<open>er\<close> erases the sector of an address, \<open>wr\<close> programs a buffer,
  \<open>rd\<close> reads a range, each finishing in an idle chip.
\<close>

locale flash_store =
  fixes cap :: nat and mem :: "'c \<Rightarrow> nat \<Rightarrow> u8" and ready :: "'c \<Rightarrow> bool"
    and er :: "u32 \<Rightarrow> 'c \<Rightarrow> 'c option"
    and wr :: "u8 list \<Rightarrow> u32 \<Rightarrow> u16 \<Rightarrow> 'c \<Rightarrow> 'c option"
    and rd :: "u32 \<Rightarrow> u16 \<Rightarrow> 'c \<Rightarrow> u8 list \<times> 'c"
  assumes er_law: "\<lbrakk>ready c; unat a < cap\<rbrakk> \<Longrightarrow>
          \<exists>c'. er a c = Some c' \<and> ready c' \<and> mem c' = erase (mem c) (unat a div 4096 * 4096) 4096"
    and wr_law: "\<lbrakk>ready c; unat a + unat n \<le> cap; unat n \<le> length buf\<rbrakk> \<Longrightarrow>
          \<exists>c'. wr buf a n c = Some c' \<and> ready c' \<and> mem c' = prog (mem c) (unat a) (take (unat n) buf)"
    and rd_law: "\<lbrakk>ready c; unat a + unat n \<le> cap\<rbrakk> \<Longrightarrow>
          fst (rd a n c) = window (mem c) (unat a) (unat n) \<and> ready (snd (rd a n c)) \<and> mem (snd (rd a n c)) = mem c"
begin

lemma er_then_wr:
  assumes "ready c" "unat a mod 4096 = 0" "unat a + 4096 \<le> cap" "unat n \<le> 4096" "unat n \<le> length buf"
  obtains c1 c2 where "er a c = Some c1" "ready c1" "wr buf a n c1 = Some c2" "ready c2"
    "window (mem c2) (unat a) (unat n) = take (unat n) buf"
    "\<And>x. x < unat a \<or> unat a + 4096 \<le> x \<Longrightarrow> mem c2 x = mem c x"
proof -
  have base: "unat a div 4096 * 4096 = unat a" using assms(2) by auto
  obtain c1 where c1: "er a c = Some c1" "ready c1" "mem c1 = erase (mem c) (unat a) 4096"
    using er_law [of c a] assms(1,3) base by auto
  obtain c2 where c2: "wr buf a n c1 = Some c2" "ready c2"
      "mem c2 = prog (mem c1) (unat a) (take (unat n) buf)"
    using wr_law [of c1 a n buf] c1(2) assms(3,4,5) by auto
  have len: "length (take (unat n) buf) = unat n" using assms(5) by simp
  have "erased (mem c1) (unat a) (unat n)" unfolding c1(3) using assms(4) by (intro erased_erase) auto
  then have win: "window (mem c2) (unat a) (unat n) = take (unat n) buf"
    using window_prog_erased [of "mem c1" "unat a" "take (unat n) buf"] c2(3) len by simp
  have out: "mem c2 x = mem c x" if "x < unat a \<or> unat a + 4096 \<le> x" for x
    using that assms(4) len by (auto simp: c2(3) c1(3) prog_def erase_def)
  from that [OF c1(1,2) c2(1,2) win out] show ?thesis .
qed

end

section \<open>The driver meets its contract\<close>

lemma unat_add_small: "unat (a::u32) + k < 2 ^ 32 \<Longrightarrow> unat (a + word_of_nat k) = unat a + k"
  by (simp add: unat_word_ariths unat_of_nat)

lemma unat_page_offset: "unat (ucast (a mod 256 :: u32) :: u8) = unat a mod 256"
  by (simp add: unsigned_ucast_eq take_bit_eq_mod unat_mod_distrib)

lemma unat_rest_of_page: "x \<noteq> 0 \<Longrightarrow> unat (256 - x :: u8) = 256 - unat x"
proof -
  have "\<forall>x::u8. x \<noteq> 0 \<longrightarrow> unat (256 - x :: u8) = 256 - unat x"
    unfolding all_u8_iff by code_simp
  then show "x \<noteq> 0 \<Longrightarrow> unat (256 - x :: u8) = 256 - unat x" by blast
qed

lemma unat_pages: "unat (ucast (n div 256 :: u16) :: u8) = unat n div 256"
proof -
  have "unat n < 65536" using unsigned_less [of n] by simp
  then have "unat n div 256 < 256" by auto
  then show ?thesis by (simp add: unsigned_ucast_eq take_bit_eq_mod unat_div_distrib)
qed

lemma unat_single: "unat (ucast (n mod 256 :: u16) :: u8) = unat n mod 256"
  by (simp add: unsigned_ucast_eq take_bit_eq_mod unat_mod_distrib)

lemma unat_u8_u16: "unat (ucast (x::u8) :: u16) = unat x"
  and unat_u8_u32: "unat (ucast (x::u8) :: u32) = unat x"
proof -
  have lt: "unat x < 256" by (rule unat_u8_lt)
  then show "unat (ucast (x::u8) :: u16) = unat x" "unat (ucast (x::u8) :: u32) = unat x"
    by (simp_all add: unsigned_ucast_eq take_bit_eq_mod del: unat_u8_lt)
qed

context flash_chip
begin

lemma wait_ok:
  assumes "settling c"
  shows "\<exists>c'. SPI_FLASH_WaitForWriteEnd b sp c = Some c' \<and> ready c' \<and> mem c' = mem c"
proof -
  let ?s = "put_byte b sp 0x05 (Flah_Chip_Select b sp 0 c)"
  obtain n where n: "\<forall>k<n. poll_busy b sp k ?s" "\<not> poll_busy b sp n ?s"
      "ready (Flah_Chip_Select b sp 1 (polls b sp (Suc n) ?s))"
      "mem (Flah_Chip_Select b sp 1 (polls b sp (Suc n) ?s)) = mem c"
    using write_ends [OF assms] unfolding Let_def by blast
  have "wait_loop b sp ?s = Some (polls b sp (Suc n) ?s)" by (rule wait_loop_polls [OF n(1,2)])
  then have "SPI_FLASH_WaitForWriteEnd b sp c = Some (Flah_Chip_Select b sp 1 (polls b sp (Suc n) ?s))"
    unfolding SPI_FLASH_WaitForWriteEnd_def Let_def by simp
  with n(3,4) show ?thesis by blast
qed

lemma wren_ok: "ready c \<Longrightarrow> ready (SPI_FLASH_WriteEnable b sp c) \<and> wel (SPI_FLASH_WriteEnable b sp c)
    \<and> mem (SPI_FLASH_WriteEnable b sp c) = mem c"
  unfolding SPI_FLASH_WriteEnable_def Let_def frame_one by (rule write_enable)

lemma pins_ok: "ready c \<Longrightarrow> ready (rt_public_pin_init_for b sp c) \<and> mem (rt_public_pin_init_for b sp c) = mem c"
  using pins [of c] by (simp add: rt_public_pin_init_for_def)

lemma erase_ok:
  assumes "ready c" "unat a < cap"
  shows "\<exists>c'. SPI_FLASH_Sector4kErase b sp a c = Some c' \<and> ready c'
           \<and> mem c' = erase (mem c) (unat a div 4096 * 4096) 4096"
proof -
  let ?p = "rt_public_pin_init_for b sp c"
  let ?w = "SPI_FLASH_WriteEnable b sp ?p"
  have w: "ready ?w" "wel ?w" "mem ?w = mem c" using pins_ok wren_ok assms(1) by auto
  from sector_erase [OF w(1,2) assms(2)] wait_ok show ?thesis
    unfolding SPI_FLASH_Sector4kErase_def Let_def frame_addr w(3) by metis
qed

lemma page_ok:
  assumes "ready c" "unat n \<le> length buf" "unat a mod 256 + unat n \<le> 256" "unat a + unat n \<le> cap"
  shows "\<exists>c'. SPI_FLASH_PageWrite b sp buf a n c = Some c' \<and> ready c'
           \<and> mem c' = prog (mem c) (unat a) (take (unat n) buf)"
proof -
  let ?w = "SPI_FLASH_WriteEnable b sp c" and ?d = "take (unat n) buf"
  let ?f = "frame b sp (0x02 # addr_bytes a @ ?d) ?w"
  have w: "ready ?w" "wel ?w" "mem ?w = mem c" using wren_ok assms(1) by auto
  have "settling ?f \<and> mem ?f = prog (mem c) (unat a) ?d"
  proof (cases "?d = []")
    case True
    show ?thesis unfolding True using empty_program [OF w(1), of a] w(3) by simp
  next
    case False
    have "length ?d = unat n" using assms(2) by simp
    then show ?thesis using page_program [OF w(1,2) False, of a] assms(3,4) w(3) by simp
  qed
  then show ?thesis using wait_ok [of ?f]
    unfolding SPI_FLASH_PageWrite_def Let_def frame_addr_data by metis
qed

lemma page_loop_ok:
  assumes "ready c" "unat a mod 256 = 0" "unat a + 256 * k \<le> cap" "256 * k \<le> length buf"
  shows "\<exists>c'. page_loop b sp k buf a c = Some (drop (256 * k) buf, a + word_of_nat (256 * k), c') \<and> ready c'
           \<and> mem c' = prog (mem c) (unat a) (take (256 * k) buf)"
  using assms
proof (induction k arbitrary: a buf c)
  case 0
  then show ?case by simp
next
  case (Suc k)
  have n: "unat (256::u16) = 256" by simp
  obtain c1 where c1: "SPI_FLASH_PageWrite b sp buf a 256 c = Some c1" "ready c1"
      "mem c1 = prog (mem c) (unat a) (take 256 buf)"
    using page_ok [of c 256 buf a] Suc.prems n by auto
  have a: "unat (a + 256) = unat a + 256"
    using unat_add_small [of a 256] Suc.prems(3) cap_addr by simp
  have "unat (a + 256) mod 256 = 0" using Suc.prems(2) a by simp
  moreover have "unat (a + 256) + 256 * k \<le> cap" using Suc.prems(3) a by simp
  moreover have "256 * k \<le> length (drop 256 buf)" using Suc.prems(4) by simp
  ultimately obtain c2 where c2: "page_loop b sp k (drop 256 buf) (a + 256) c1
        = Some (drop (256 * k) (drop 256 buf), a + 256 + word_of_nat (256 * k), c2)" "ready c2"
      "mem c2 = prog (mem c1) (unat (a + 256)) (take (256 * k) (drop 256 buf))"
    using Suc.IH [OF c1(2)] by metis
  have len: "length (take 256 buf) = 256" using Suc.prems(4) by simp
  have "mem c2 = prog (mem c) (unat a) (take 256 buf @ take (256 * k) (drop 256 buf))"
    unfolding c2(3) c1(3) a by (metis len prog_append)
  moreover have "take 256 buf @ take (256 * k) (drop 256 buf) = take (256 * Suc k) buf"
    by (simp add: take_add)
  ultimately show ?case using c1(1) c2(1,2)
    by (simp add: add.commute add.assoc)
qed

lemma writes_join:
  assumes "mem c1 = prog m x (take k buf)" "mem c2 = prog (mem c1) (x + k) (take j (drop k buf))" "k \<le> length buf"
  shows "mem c2 = prog m x (take (k + j) buf)"
proof -
  have "length (take k buf) = k" using assms(3) by simp
  then have "mem c2 = prog m x (take k buf @ take j (drop k buf))"
    unfolding assms(1,2) by (metis prog_append)
  then show ?thesis by (simp add: take_add)
qed

text \<open>Two page programs in a row, the second starting where the first stopped.\<close>

lemma two_pages_ok:
  assumes "ready c" "unat k + unat j \<le> length buf" "unat a + unat k + unat j \<le> cap"
    and "unat a mod 256 + unat k \<le> 256" "(unat a + unat k) mod 256 + unat j \<le> 256"
    and r: "r = a + word_of_nat (unat k)"
  shows "\<exists>c'. do { c \<leftarrow> SPI_FLASH_PageWrite b sp buf a k c;
                   SPI_FLASH_PageWrite b sp (drop (unat k) buf) r j c } = Some c'
           \<and> ready c' \<and> mem c' = prog (mem c) (unat a) (take (unat k + unat j) buf)"
proof -
  have ra: "unat r = unat a + unat k"
    unfolding r by (rule unat_add_small) (use assms(3) cap_addr in simp)
  obtain c1 where c1: "SPI_FLASH_PageWrite b sp buf a k c = Some c1" "ready c1"
      "mem c1 = prog (mem c) (unat a) (take (unat k) buf)"
    using page_ok [of c k buf a] assms by auto
  have len: "unat j \<le> length (drop (unat k) buf)" using assms(2) by simp
  obtain c2 where c2: "SPI_FLASH_PageWrite b sp (drop (unat k) buf) r j c1 = Some c2" "ready c2"
      "mem c2 = prog (mem c1) (unat a + unat k) (take (unat j) (drop (unat k) buf))"
    using page_ok [OF c1(2) len, of r] assms(3,5) unfolding ra by auto
  have "mem c2 = prog (mem c) (unat a) (take (unat k + unat j) buf)"
    by (rule writes_join [OF c1(3) c2(3)]) (use assms(2) in simp)
  with c1(1) c2(1,2) show ?thesis by simp
qed

text \<open>Whole pages from an aligned address, then what is left over.\<close>

lemma pages_and_rest_ok:
  assumes "ready c" "unat a mod 256 = 0" "256 * k + unat j \<le> length buf" "unat a + 256 * k + unat j \<le> cap" "unat j \<le> 256"
  shows "\<exists>c'. do { (buf, a, c) \<leftarrow> page_loop b sp k buf a c; SPI_FLASH_PageWrite b sp buf a j c } = Some c'
           \<and> ready c' \<and> mem c' = prog (mem c) (unat a) (take (256 * k + unat j) buf)"
    and "unat j = 0 \<Longrightarrow> \<exists>c'. do { (buf, a, c) \<leftarrow> page_loop b sp k buf a c; Some c } = Some c'
           \<and> ready c' \<and> mem c' = prog (mem c) (unat a) (take (256 * k + unat j) buf)"
proof -
  let ?a = "a + word_of_nat (256 * k)" and ?buf = "drop (256 * k) buf"
  have ra: "unat ?a = unat a + 256 * k"
    by (rule unat_add_small) (use assms(4) cap_addr in simp)
  obtain c1 where c1: "page_loop b sp k buf a c = Some (?buf, ?a, c1)" "ready c1"
      "mem c1 = prog (mem c) (unat a) (take (256 * k) buf)"
    using page_loop_ok [OF assms(1,2), of k buf] assms(3,4) by auto
  have al: "unat ?a mod 256 = 0" using ra assms(2) by simp
  have len: "unat j \<le> length ?buf" using assms(3) by simp
  obtain c2 where c2: "SPI_FLASH_PageWrite b sp ?buf ?a j c1 = Some c2" "ready c2"
      "mem c2 = prog (mem c1) (unat a + 256 * k) (take (unat j) ?buf)"
    using page_ok [OF c1(2) len, of ?a] assms(4,5) al unfolding ra by auto
  have "mem c2 = prog (mem c) (unat a) (take (256 * k + unat j) buf)"
    by (rule writes_join [OF c1(3) c2(3)]) (use assms(3) in simp)
  with c1(1) c2(1,2) show "\<exists>c'. do { (buf, a, c) \<leftarrow> page_loop b sp k buf a c; SPI_FLASH_PageWrite b sp buf a j c } = Some c'
           \<and> ready c' \<and> mem c' = prog (mem c) (unat a) (take (256 * k + unat j) buf)"
    by simp
  show "unat j = 0 \<Longrightarrow> \<exists>c'. do { (buf, a, c) \<leftarrow> page_loop b sp k buf a c; Some c } = Some c'
           \<and> ready c' \<and> mem c' = prog (mem c) (unat a) (take (256 * k + unat j) buf)"
    using c1 by simp
qed

lemma write_ok_aligned:
  assumes "ready c" "unat n \<le> length buf" "unat a + unat n \<le> cap" "unat a mod 256 = 0"
  shows "\<exists>c'. SPI_FLASH_BufferWrite b sp buf a n c = Some c' \<and> ready c'
           \<and> mem c' = prog (mem c) (unat a) (take (unat n) buf)"
proof -
  let ?c = "rt_public_pin_init_for b sp c"
  have rc: "ready ?c" "mem ?c = mem c" using pins_ok assms(1) by auto
  have A: "(ucast (a mod 256) :: u8) = 0"
    using unat_page_offset [of a] unfolding assms(4) by (simp only: unsigned_eq_0_iff)
  define P where "P = (ucast (n div 256) :: u8)"
  define S where "S = (ucast (n mod 256) :: u8)"
  have P: "unat P = unat n div 256" and S: "unat (ucast S :: u16) = unat n mod 256"
    by (simp_all add: P_def S_def unat_pages unat_u8_u16 unat_single)
  show ?thesis
  proof (cases "P = 0")
    case True
    then have "unat n div 256 = 0" using P by simp
    then have small: "unat n \<le> 256" by auto
    have eq: "SPI_FLASH_BufferWrite b sp buf a n c = SPI_FLASH_PageWrite b sp buf a n ?c"
      using True A by (simp add: SPI_FLASH_BufferWrite_def Let_def P_def)
    show ?thesis unfolding eq rc(2) [symmetric]
      by (rule page_ok) (use rc small assms in auto)
  next
    case False
    have eq: "SPI_FLASH_BufferWrite b sp buf a n c = do { (buf, a, c) \<leftarrow> page_loop b sp (unat P) buf a ?c;
          SPI_FLASH_PageWrite b sp buf a (ucast S) c }"
      using False A by (simp add: SPI_FLASH_BufferWrite_def Let_def P_def S_def)
    have tot: "256 * unat P + unat (ucast S :: u16) = unat n" by (simp add: P S)
    have "\<exists>c'. do { (buf, a, c) \<leftarrow> page_loop b sp (unat P) buf a ?c; SPI_FLASH_PageWrite b sp buf a (ucast S) c } = Some c'
           \<and> ready c' \<and> mem c' = prog (mem ?c) (unat a) (take (256 * unat P + unat (ucast S :: u16)) buf)"
      by (rule pages_and_rest_ok) (use rc assms tot S in auto)
    then show ?thesis unfolding eq tot rc(2) .
  qed
qed

lemma write_ok_unaligned:
  assumes "ready c" "unat n \<le> length buf" "unat a + unat n \<le> cap" "unat a mod 256 \<noteq> 0"
  shows "\<exists>c'. SPI_FLASH_BufferWrite b sp buf a n c = Some c' \<and> ready c'
           \<and> mem c' = prog (mem c) (unat a) (take (unat n) buf)"
proof -
  let ?c = "rt_public_pin_init_for b sp c"
  have rc: "ready ?c" "mem ?c = mem c" using pins_ok assms(1) by auto
  define A where "A = (ucast (a mod 256) :: u8)"
  have A: "unat A = unat a mod 256" by (simp add: A_def unat_page_offset)
  then have A0: "A \<noteq> 0" using assms(4) by auto
  define count where "count = 256 - A"
  have count: "unat count = 256 - unat a mod 256"
    unfolding count_def unat_rest_of_page [OF A0] A ..
  have count16: "unat (ucast count :: u16) = unat count" by (rule unat_u8_u16)
  have after: "(unat a + unat count) mod 256 = 0" unfolding count
    by (metis add.commute add_diff_inverse_nat less_imp_le mod_add_left_eq mod_less_divisor mod_self not_less zero_less_numeral)
  have off: "unat a mod 256 + unat count = 256" unfolding count by simp
  have r: "a + ucast count = a + word_of_nat (unat (ucast count :: u16))" by (simp add: count16)
  define P where "P = (ucast (n div 256) :: u8)"
  define S where "S = (ucast (n mod 256) :: u8)"
  have P: "unat P = unat n div 256" and S: "unat S = unat n mod 256"
    by (simp_all add: P_def S_def unat_pages unat_single)
  note body = SPI_FLASH_BufferWrite_def Let_def
  note fold = A_def [symmetric] count_def [symmetric] P_def [symmetric] S_def [symmetric]
  show ?thesis
  proof (cases "P = 0")
    case True
    then have n: "unat n < 256" "unat S = unat n" using P S by auto
    show ?thesis
    proof (cases "S > count")
      case True
      then have le: "unat count \<le> unat S" by (simp add: word_less_nat_alt)
      have temp: "unat (ucast (S - count) :: u16) = unat n - unat count"
        using le n by (simp add: unat_u8_u16 unat_sub word_le_nat_alt)
      have eq: "SPI_FLASH_BufferWrite b sp buf a n c = do { c \<leftarrow> SPI_FLASH_PageWrite b sp buf a (ucast count) ?c;
            SPI_FLASH_PageWrite b sp (drop (unat (ucast count :: u16)) buf) (a + ucast count) (ucast (S - count)) c }"
        using \<open>P = 0\<close> True A0 unfolding body fold by (simp add: count16)
      have tot: "unat (ucast count :: u16) + unat (ucast (S - count) :: u16) = unat n"
        using le n temp count16 by simp
      have "\<exists>c'. do { c \<leftarrow> SPI_FLASH_PageWrite b sp buf a (ucast count) ?c;
            SPI_FLASH_PageWrite b sp (drop (unat (ucast count :: u16)) buf) (a + ucast count) (ucast (S - count)) c } = Some c'
           \<and> ready c' \<and> mem c' = prog (mem ?c) (unat a) (take (unat (ucast count :: u16) + unat (ucast (S - count) :: u16)) buf)"
        by (rule two_pages_ok [OF _ _ _ _ _ r]) (use rc assms tot off after n temp count16 in auto)
      then show ?thesis unfolding eq tot rc(2) .
    next
      case False
      then have le: "unat n \<le> unat count" using n by (simp add: word_less_nat_alt)
      have eq: "SPI_FLASH_BufferWrite b sp buf a n c = SPI_FLASH_PageWrite b sp buf a n ?c"
        using \<open>P = 0\<close> False A0 unfolding body fold by simp
      show ?thesis unfolding eq rc(2) [symmetric]
        by (rule page_ok) (use rc le off assms in auto)
    qed
  next
    case False
    then have big: "256 \<le> unat n" using P by (metis div_less not_less unsigned_eq_0_iff)
    define m where "m = n - ucast count"
    have cn: "unat count \<le> unat n" using big off by linarith
    have m: "unat m = unat n - unat count"
      unfolding m_def using cn by (subst unat_sub) (simp_all add: word_le_nat_alt unat_u8_u16)
    define Q where "Q = (ucast (m div 256) :: u8)"
    define T where "T = (ucast (m mod 256) :: u8)"
    have Q: "unat Q = unat m div 256" and T: "unat (ucast T :: u16) = unat m mod 256"
      by (simp_all add: Q_def T_def unat_pages unat_single unat_u8_u16)
    have tot: "256 * unat Q + unat (ucast T :: u16) = unat m" by (simp add: Q T)
    have eq: "SPI_FLASH_BufferWrite b sp buf a n c = do { c \<leftarrow> SPI_FLASH_PageWrite b sp buf a (ucast count) ?c;
          (buf, a, c) \<leftarrow> page_loop b sp (unat Q) (drop (unat count) buf) (a + ucast count) c;
          if T \<noteq> 0 then SPI_FLASH_PageWrite b sp buf a (ucast T) c else Some c }"
      using False A0 unfolding body fold m_def [symmetric] Q_def [symmetric] T_def [symmetric] by simp
    obtain c1 where c1: "SPI_FLASH_PageWrite b sp buf a (ucast count) ?c = Some c1" "ready c1"
        "mem c1 = prog (mem c) (unat a) (take (unat count) buf)"
      using page_ok [of ?c "ucast count" buf a] rc assms(2,3) off cn unfolding count16 by auto
    have ra: "unat (a + ucast count) = unat a + unat count"
      unfolding r count16 by (rule unat_add_small) (use assms(3) cap_addr cn in simp)
    have len: "256 * unat Q + unat (ucast T :: u16) \<le> length (drop (unat count) buf)"
      unfolding tot m using assms(2) by simp
    have al: "unat (a + ucast count) mod 256 = 0" using ra after by simp
    have fit: "unat (a + ucast count) + 256 * unat Q + unat (ucast T :: u16) \<le> cap"
      using tot m ra cn assms(3) by simp
    have T256: "unat (ucast T :: u16) \<le> 256" using T by simp
    note rest = pages_and_rest_ok [OF c1(2) al len fit T256]
    have "\<exists>c'. do { (buf, a, c) \<leftarrow> page_loop b sp (unat Q) (drop (unat count) buf) (a + ucast count) c1;
          if T \<noteq> 0 then SPI_FLASH_PageWrite b sp buf a (ucast T) c else Some c } = Some c' \<and> ready c'
          \<and> mem c' = prog (mem c1) (unat a + unat count) (take (unat m) (drop (unat count) buf))"
    proof (cases "T = 0")
      case True
      then have "unat (ucast T :: u16) = 0" by simp
      from rest(2) [OF this] show ?thesis using True unfolding tot ra by simp
    next
      case False
      with rest(1) show ?thesis unfolding tot ra by simp
    qed
    then obtain c2 where c2: "do { (buf, a, c) \<leftarrow> page_loop b sp (unat Q) (drop (unat count) buf) (a + ucast count) c1;
          if T \<noteq> 0 then SPI_FLASH_PageWrite b sp buf a (ucast T) c else Some c } = Some c2" "ready c2"
          "mem c2 = prog (mem c1) (unat a + unat count) (take (unat m) (drop (unat count) buf))" by blast
    have "mem c2 = prog (mem c) (unat a) (take (unat count + unat m) buf)"
      by (rule writes_join [OF c1(3) c2(3)]) (use assms(2) cn in simp)
    then have "mem c2 = prog (mem c) (unat a) (take (unat n) buf)" using m cn by simp
    moreover have "SPI_FLASH_BufferWrite b sp buf a n c = Some c2" unfolding eq using c1(1) c2(1) by simp
    ultimately show ?thesis using c2(2) by blast
  qed
qed

lemma write_ok:
  "\<lbrakk>ready c; unat a + unat n \<le> cap; unat n \<le> length buf\<rbrakk> \<Longrightarrow>
     \<exists>c'. SPI_FLASH_BufferWrite b sp buf a n c = Some c' \<and> ready c'
           \<and> mem c' = prog (mem c) (unat a) (take (unat n) buf)"
  using write_ok_aligned [of c n buf a] write_ok_unaligned [of c n buf a] by blast

lemma read_ok:
  assumes "ready c" "unat a + unat n \<le> cap"
  shows "fst (SPI_FLASH_BufferRead b sp a n c) = window (mem c) (unat a) (unat n)
         \<and> ready (snd (SPI_FLASH_BufferRead b sp a n c)) \<and> mem (snd (SPI_FLASH_BufferRead b sp a n c)) = mem c"
proof -
  let ?c = "rt_public_pin_init_for b sp c"
  have rc: "ready ?c" "mem ?c = mem c" using pins_ok assms(1) by auto
  show ?thesis using read_data [OF rc(1) assms(2)] rc(2)
    unfolding SPI_FLASH_BufferRead_def Let_def by (simp add: case_prod_beta)
qed

end

text \<open>The driver turns the contract of the chip into the contract of a store.\<close>

sublocale flash_chip \<subseteq> flash_store cap mem ready
  "SPI_FLASH_Sector4kErase b sp" "SPI_FLASH_BufferWrite b sp" "SPI_FLASH_BufferRead b sp"
  by unfold_locales (use erase_ok write_ok read_ok in auto)

context flash_chip
begin

lemmas is_store = flash_store_axioms

end

end
