(* ===== verification/Vtdr_Flash_Chip.thy ===== *)
theory Vtdr_Flash_Chip
  imports Vtdr_Flash
begin

text \<open>
  A chip that meets the contract of \<open>Vtdr_Flash\<close>, modelled at the level of single bytes on the
  bus, and the properties of the flash driver.
\<close>

section \<open>A byte-accurate chip\<close>

text \<open>
  A one-megabyte part on the first bus: it collects the bytes of a frame, executes the command
  when it is deselected, answers status polls as busy three times after a write cycle has begun,
  and wraps page programs inside their page of 256 bytes, as the data sheets say.
\<close>

record chip =
  w_mem :: "nat \<Rightarrow> u8"
  w_sel :: bool
  w_wel :: bool
  w_cmd :: "u8 list"
  w_busy :: nat

definition chip_cap :: nat where "chip_cap = 1048576"

definition chip_addr :: "u8 \<Rightarrow> u8 \<Rightarrow> u8 \<Rightarrow> nat" where
  "chip_addr h m l = unat h * 65536 + unat m * 256 + unat l"

fun chip_program :: "(nat \<Rightarrow> u8) \<Rightarrow> nat \<Rightarrow> u8 list \<Rightarrow> nat \<Rightarrow> u8" where
  "chip_program m a [] = m"
| "chip_program m a (v # vs) =
     chip_program (m(a := m a AND v)) (if (a + 1) mod 256 = 0 then a - 255 else a + 1) vs"

definition chip_exec :: "chip \<Rightarrow> chip" where
  "chip_exec c =
     (if 0 < w_busy c then c
      else case w_cmd c of
        [] \<Rightarrow> c
      | k # args \<Rightarrow>
          if k = 0x06 then c\<lparr>w_wel := True\<rparr>
          else if \<not> w_wel c then c
          else if k = 0xC7 then c\<lparr>w_mem := (\<lambda>_. 0xFF), w_wel := False, w_busy := 3\<rparr>
          else (case args of
              h # m # l # d \<Rightarrow>
                if k = 0x02 \<and> d \<noteq> [] then c\<lparr>w_mem := chip_program (w_mem c) (chip_addr h m l mod chip_cap) d, w_wel := False, w_busy := 3\<rparr>
                else if k = 0x20 then c\<lparr>w_mem := erase (w_mem c) (chip_addr h m l mod chip_cap div 4096 * 4096) 4096, w_wel := False, w_busy := 3\<rparr>
                else if k = 0xD8 then c\<lparr>w_mem := erase (w_mem c) (chip_addr h m l mod chip_cap div 65536 * 65536) 65536, w_wel := False, w_busy := 3\<rparr>
                else c
            | _ \<Rightarrow> c))"

definition chip_gpio :: "pin \<Rightarrow> bool \<Rightarrow> chip \<Rightarrow> chip" where
  "chip_gpio p level c =
     (if p \<noteq> PA3 then c
      else if level then (if w_sel c then chip_exec (c\<lparr>w_sel := False\<rparr>) else c)
      else (if w_sel c then c else c\<lparr>w_sel := True, w_cmd := []\<rparr>))"

definition chip_reply :: "chip \<Rightarrow> u8" where
  "chip_reply c =
     (case w_cmd c of
        [] \<Rightarrow> 0xFF
      | k # args \<Rightarrow>
          if k = 0x05 then (if 0 < w_busy c then 0x01 else 0x00)
          else (case args of
              h # m # l # ds \<Rightarrow>
                if k = 0x03 \<and> w_busy c = 0 then w_mem c ((chip_addr h m l + length ds) mod chip_cap) else 0xFF
            | _ \<Rightarrow> 0xFF))"

definition chip_xfer :: "spi \<Rightarrow> u8 \<Rightarrow> chip \<Rightarrow> u8 \<times> chip" where
  "chip_xfer sp x c =
     (if sp = SPI1 \<and> w_sel c
      then (chip_reply c, c\<lparr>w_cmd := w_cmd c @ [x],
              w_busy := (if w_cmd c \<noteq> [] \<and> hd (w_cmd c) = 0x05 then w_busy c - 1 else w_busy c)\<rparr>)
      else (0xFF, c))"

definition ref_bus :: "chip spi_bus" where
  "ref_bus = \<lparr>bus_gpio = chip_gpio, bus_xfer = chip_xfer, bus_pins = (\<lambda>_ c. c)\<rparr>"

definition chip_ready :: "chip \<Rightarrow> bool" where
  "chip_ready c \<longleftrightarrow> \<not> w_sel c \<and> w_busy c = 0"

definition chip_settling :: "chip \<Rightarrow> bool" where
  "chip_settling c \<longleftrightarrow> \<not> w_sel c"

definition blank_chip :: chip where
  "blank_chip = \<lparr>w_mem = (\<lambda>_. 0xFF), w_sel = False, w_wel = False, w_cmd = [], w_busy = 0\<rparr>"

lemma addr_byte_high: "unat (ucast (drop_bit 16 ((a::u32) AND 0xFF0000)) :: u8) = unat a div 65536 mod 256"
  and addr_byte_mid: "unat (ucast (drop_bit 8 (a AND 0xFF00)) :: u8) = unat a div 256 mod 256"
  and addr_byte_low: "unat (ucast (a AND 0xFF) :: u8) = unat a mod 256"
proof -
  have lt: "unat a < 4294967296" using unsigned_less [of a] by simp
  have m: "(0xFF :: u32) = mask 8" by (simp add: mask_eq_exp_minus_1)
  have "drop_bit 16 (0xFF0000 :: u32) = mask 8" "drop_bit 8 (0xFF00 :: u32) = mask 8"
    by (simp_all add: mask_eq_exp_minus_1)
  then show "unat (ucast (drop_bit 16 ((a::u32) AND 0xFF0000)) :: u8) = unat a div 65536 mod 256"
    "unat (ucast (drop_bit 8 (a AND 0xFF00)) :: u8) = unat a div 256 mod 256"
    by (simp_all only: drop_bit_and take_bit_eq_mask [symmetric] unsigned_ucast_eq unsigned_take_bit_eq unsigned_drop_bit_eq)
      (simp_all add: take_bit_eq_mod drop_bit_eq_div mod_less [OF lt])
  show "unat (ucast (a AND 0xFF) :: u8) = unat a mod 256"
    unfolding m by (simp only: take_bit_eq_mask [symmetric] unsigned_ucast_eq unsigned_take_bit_eq) (simp add: take_bit_eq_mod)
qed

lemma chip_addr_bytes:
  assumes "unat a < 16777216" "addr_bytes a = [h, m, l]"
  shows "chip_addr h m l = unat a"
proof -
  have bytes: "h = ucast (drop_bit 16 (a AND 0xFF0000))" "m = ucast (drop_bit 8 (a AND 0xFF00))" "l = ucast (a AND 0xFF)"
    using assms(2) unfolding addr_bytes_def by simp_all
  have "chip_addr h m l = unat a div 65536 mod 256 * 65536 + unat a div 256 mod 256 * 256 + unat a mod 256"
    unfolding chip_addr_def bytes addr_byte_high addr_byte_mid addr_byte_low ..
  moreover have "unat a div 65536 mod 256 = unat a div 65536" using assms(1) by auto
  moreover have "unat a div 65536 = unat a div 256 div 256" by (simp add: div_mult2_eq [symmetric])
  ultimately show ?thesis
    using div_mult_mod_eq [of "unat a" 256] div_mult_mod_eq [of "unat a div 256" 256] by linarith
qed

lemma chip_program_prog: "a mod 256 + length d \<le> 256 \<Longrightarrow> chip_program m a d = prog m a d"
proof (induction d arbitrary: m a)
  case Nil
  then show ?case by simp
next
  case (Cons v vs)
  have step: "prog m a (v # vs) = prog (m(a := m a AND v)) (a + 1) vs"
    by (auto simp: prog_def fun_eq_iff nth_Cons' le_Suc_eq Suc_le_eq)
  show ?case
  proof (cases "vs = []")
    case True
    then show ?thesis using step by simp
  next
    case False
    then have pos: "0 < length vs" by simp
    have "a mod 256 + 1 < 256" using Cons.prems pos unfolding length_Cons by linarith
    then have nw: "(a + 1) mod 256 = a mod 256 + 1" by (simp add: mod_Suc)
    then show ?thesis using Cons.IH [of "a + 1"] Cons.prems step by simp
  qed
qed

lemma chip_sends: "w_sel c \<Longrightarrow> w_cmd c \<noteq> [] \<Longrightarrow> hd (w_cmd c) \<noteq> 0x05 \<Longrightarrow>
    put_bytes ref_bus SPI1 xs c = c\<lparr>w_cmd := w_cmd c @ xs\<rparr>"
  by (induction xs arbitrary: c)
    (simp_all add: put_byte_def SPI_FLASH_SendByte_def ref_bus_def chip_xfer_def)

lemma chip_next_byte: "w_sel c \<Longrightarrow> w_cmd c \<noteq> [] \<Longrightarrow> hd (w_cmd c) \<noteq> 0x05 \<Longrightarrow>
    put_byte ref_bus SPI1 x c = c\<lparr>w_cmd := w_cmd c @ [x]\<rparr>"
  by (simp add: put_byte_def SPI_FLASH_SendByte_def ref_bus_def chip_xfer_def)

lemma chip_first_byte: "put_byte ref_bus SPI1 x (c\<lparr>w_sel := True, w_cmd := []\<rparr>) = c\<lparr>w_sel := True, w_cmd := [x]\<rparr>"
  by (simp add: put_byte_def SPI_FLASH_SendByte_def ref_bus_def chip_xfer_def)

lemma chip_select: "\<not> w_sel c \<Longrightarrow> Flah_Chip_Select ref_bus SPI1 0 c = c\<lparr>w_sel := True, w_cmd := []\<rparr>"
  and chip_deselect: "w_sel c \<Longrightarrow> Flah_Chip_Select ref_bus SPI1 1 c = chip_exec (c\<lparr>w_sel := False\<rparr>)"
  by (simp_all add: Flah_Chip_Select_def ref_bus_def chip_gpio_def)

lemma chip_frame: "\<not> w_sel c \<Longrightarrow> x \<noteq> 0x05 \<Longrightarrow>
    frame ref_bus SPI1 (x # xs) c = chip_exec (c\<lparr>w_cmd := x # xs, w_sel := False\<rparr>)"
  unfolding frame_def by (simp add: chip_select chip_first_byte chip_sends chip_deselect)

lemma chip_reply_of_send: "w_sel c \<Longrightarrow> fst (SPI_FLASH_SendByte ref_bus SPI1 x c) = chip_reply c"
  by (simp add: SPI_FLASH_SendByte_def ref_bus_def chip_xfer_def)

lemma chip_polls: "w_sel c \<Longrightarrow> w_cmd c \<noteq> [] \<Longrightarrow> hd (w_cmd c) = 0x05 \<Longrightarrow>
    polls ref_bus SPI1 n c = c\<lparr>w_cmd := w_cmd c @ replicate n 0, w_busy := w_busy c - n\<rparr>"
proof (induction n arbitrary: c)
  case 0
  then show ?case by simp
next
  case (Suc n)
  have "put_byte ref_bus SPI1 0 c = c\<lparr>w_cmd := w_cmd c @ [0], w_busy := w_busy c - 1\<rparr>"
    using Suc.prems by (simp add: put_byte_def SPI_FLASH_SendByte_def ref_bus_def chip_xfer_def)
  then show ?case using Suc.IH [of "put_byte ref_bus SPI1 0 c"] Suc.prems by simp
qed

lemma chip_reads: "w_sel c \<Longrightarrow> w_cmd c = 0x03 # h # m # l # ds \<Longrightarrow> w_busy c = 0 \<Longrightarrow>
    chip_addr h m l + length ds + n \<le> chip_cap \<Longrightarrow>
    get_bytes ref_bus SPI1 n c =
      (window (w_mem c) (chip_addr h m l + length ds) n, c\<lparr>w_cmd := w_cmd c @ replicate n 0\<rparr>)"
proof (induction n arbitrary: c ds)
  case 0
  then show ?case by (simp add: window_def)
next
  case (Suc n)
  let ?A = "chip_addr h m l + length ds"
  have x: "SPI_FLASH_SendByte ref_bus SPI1 0 c = (w_mem c ?A, c\<lparr>w_cmd := w_cmd c @ [0]\<rparr>)"
    using Suc.prems by (simp add: SPI_FLASH_SendByte_def ref_bus_def chip_xfer_def chip_reply_def)
  have w: "window (w_mem c) ?A (Suc n) = w_mem c ?A # window (w_mem c) (Suc ?A) n"
    by (simp add: window_def upt_conv_Cons del: upt_Suc)
  show ?case using Suc.IH [of "c\<lparr>w_cmd := w_cmd c @ [0]\<rparr>" "ds @ [0]"] Suc.prems x w by simp
qed

lemma addr_bytes_cases: obtains h m l where "addr_bytes a = [h, m, l]"
  by (simp add: addr_bytes_def)

interpretation ref: flash_chip ref_bus SPI1 chip_cap w_mem chip_ready w_wel chip_settling
proof
  show "chip_cap \<le> 2 ^ 24" "4096 dvd chip_cap" by (simp_all add: chip_cap_def)
next
  fix c assume "SPI1 = SPI2" "chip_ready c"
  then show "chip_ready (bus_pins ref_bus 0 c) \<and> w_mem (bus_pins ref_bus 0 c) = w_mem c" by simp
next
  fix c assume "chip_ready c"
  then show "chip_ready (frame ref_bus SPI1 [0x06] c) \<and> w_wel (frame ref_bus SPI1 [0x06] c)
      \<and> w_mem (frame ref_bus SPI1 [0x06] c) = w_mem c"
    by (simp add: chip_ready_def chip_frame chip_exec_def)
next
  fix c and d :: "u8 list" and a :: u32
  assume c: "chip_ready c" "w_wel c" and d: "d \<noteq> []" "unat a mod 256 + length d \<le> 256" "unat a + length d \<le> chip_cap"
  obtain h m l where a: "addr_bytes a = [h, m, l]" by (rule addr_bytes_cases)
  have "0 < length d" using d(1) by simp
  then have lt: "unat a < chip_cap" using d(3) by linarith
  then have "chip_addr h m l = unat a" by (intro chip_addr_bytes [OF _ a]) (simp add: chip_cap_def)
  then show "chip_settling (frame ref_bus SPI1 (0x02 # addr_bytes a @ d) c)
      \<and> w_mem (frame ref_bus SPI1 (0x02 # addr_bytes a @ d) c) = prog (w_mem c) (unat a) d"
    using c d lt by (simp add: a chip_ready_def chip_settling_def chip_frame chip_exec_def chip_program_prog)
next
  fix c and a :: u32 assume c: "chip_ready c"
  obtain h m l where a: "addr_bytes a = [h, m, l]" by (rule addr_bytes_cases)
  from c show "chip_settling (frame ref_bus SPI1 (0x02 # addr_bytes a) c)
      \<and> w_mem (frame ref_bus SPI1 (0x02 # addr_bytes a) c) = w_mem c"
    by (simp add: a chip_ready_def chip_settling_def chip_frame chip_exec_def)
next
  fix c and a :: u32 assume c: "chip_ready c" "w_wel c" and lt: "unat a < chip_cap"
  obtain h m l where a: "addr_bytes a = [h, m, l]" by (rule addr_bytes_cases)
  have "chip_addr h m l = unat a" using lt by (intro chip_addr_bytes [OF _ a]) (simp add: chip_cap_def)
  then show "chip_settling (frame ref_bus SPI1 (0x20 # addr_bytes a) c)
      \<and> w_mem (frame ref_bus SPI1 (0x20 # addr_bytes a) c) = erase (w_mem c) (unat a div 4096 * 4096) 4096"
    using c lt by (simp add: a chip_ready_def chip_settling_def chip_frame chip_exec_def)
next
  fix c assume c: "chip_settling c"
  let ?s = "put_byte ref_bus SPI1 0x05 (Flah_Chip_Select ref_bus SPI1 0 c)"
  have s: "?s = c\<lparr>w_sel := True, w_cmd := [0x05]\<rparr>"
    using c by (simp add: chip_settling_def chip_select chip_first_byte)
  have busy: "poll_busy ref_bus SPI1 k ?s \<longleftrightarrow> k < w_busy c" for k
    unfolding s poll_busy_def
    by (simp add: chip_polls chip_reply_of_send chip_reply_def)
  have fin: "Flah_Chip_Select ref_bus SPI1 1 (polls ref_bus SPI1 (Suc (w_busy c)) ?s)
      = c\<lparr>w_cmd := [0x05] @ replicate (Suc (w_busy c)) 0, w_busy := 0, w_sel := False\<rparr>"
    unfolding s by (subst chip_polls) (simp_all add: chip_deselect chip_exec_def split: list.split)
  show "\<exists>n. let s = put_byte ref_bus SPI1 0x05 (Flah_Chip_Select ref_bus SPI1 0 c);
                  c' = Flah_Chip_Select ref_bus SPI1 1 (polls ref_bus SPI1 (Suc n) s)
              in (\<forall>k<n. poll_busy ref_bus SPI1 k s) \<and> \<not> poll_busy ref_bus SPI1 n s \<and> chip_ready c' \<and> w_mem c' = w_mem c"
    unfolding Let_def by (rule exI [of _ "w_busy c"]) (simp only: busy fin, simp add: chip_ready_def)
next
  fix c n and a :: u32 assume c: "chip_ready c" and le: "unat a + n \<le> chip_cap"
  obtain h m l where a: "addr_bytes a = [h, m, l]" by (rule addr_bytes_cases)
  have ad: "chip_addr h m l = unat a" using le by (intro chip_addr_bytes [OF _ a]) (simp add: chip_cap_def)
  have "put_bytes ref_bus SPI1 (0x03 # addr_bytes a) (Flah_Chip_Select ref_bus SPI1 0 c) = c\<lparr>w_sel := True, w_cmd := [0x03, h, m, l]\<rparr>"
    using c by (simp add: chip_ready_def chip_select chip_first_byte chip_next_byte a)
  then show "let r = get_bytes ref_bus SPI1 n (put_bytes ref_bus SPI1 (0x03 # addr_bytes a) (Flah_Chip_Select ref_bus SPI1 0 c))
          in fst r = window (w_mem c) (unat a) n
             \<and> chip_ready (Flah_Chip_Select ref_bus SPI1 1 (snd r)) \<and> w_mem (Flah_Chip_Select ref_bus SPI1 1 (snd r)) = w_mem c"
    using c le ad by (simp add: Let_def chip_reads [where ds = "[]"] chip_deselect chip_ready_def chip_exec_def)
qed

section \<open>Properties of the driver\<close>

lemma wait_loop_ends: "wait_loop b sp c = Some r \<Longrightarrow> \<exists>k. \<not> poll_busy b sp k c"
proof (rule wait_loop.raw_induct [where P = "\<lambda>b sp c r. \<exists>k. \<not> poll_busy b sp k c"])
  fix wl :: "'a spi_bus \<Rightarrow> spi \<Rightarrow> 'a \<Rightarrow> 'a option" and b sp c r
  assume IH: "\<And>b sp c r. wl b sp c = Some r \<Longrightarrow> \<exists>k. \<not> poll_busy b sp k c"
    and eq: "(let r = SPI_FLASH_SendByte b sp 0x00 c
      in if fst r AND 0x01 = 1 then wl b sp (snd r) else Some (snd r)) = Some r"
  show "\<exists>k. \<not> poll_busy b sp k c"
  proof (cases "poll_busy b sp 0 c")
    case True
    then have "wl b sp (put_byte b sp 0 c) = Some r"
      using eq by (simp add: Let_def poll_busy_def put_byte_def)
    from IH [OF this] obtain k where "\<not> poll_busy b sp k (put_byte b sp 0 c)" ..
    then have "\<not> poll_busy b sp (Suc k) c" by (simp add: poll_busy_def)
    then show ?thesis ..
  next
    case False
    then show ?thesis ..
  qed
qed

lemma wait_loop_None: "\<forall>k. poll_busy b sp k c \<Longrightarrow> wait_loop b sp c = None"
  using wait_loop_ends [of b sp c] by (cases "wait_loop b sp c") auto

text \<open>C24: Waiting for the end of a write returns exactly when some poll shows the busy flag
  clear: then it has polled up to and including the first such answer and released the chip; a
  chip whose busy flag never clears keeps the driver waiting forever.\<close>

theorem WaitForWriteEnd_complete:
  "SPI_FLASH_WaitForWriteEnd b sp c =
     (let s = put_byte b sp 0x05 (Flah_Chip_Select b sp 0 c)
      in if \<forall>k. poll_busy b sp k s then None
         else Some (Flah_Chip_Select b sp 1 (polls b sp (Suc (LEAST n. \<not> poll_busy b sp n s)) s)))"
proof -
  let ?s = "put_byte b sp 0x05 (Flah_Chip_Select b sp 0 c)"
  let ?n = "LEAST n. \<not> poll_busy b sp n ?s"
  show ?thesis
  proof (cases "\<forall>k. poll_busy b sp k ?s")
    case True
    then show ?thesis using wait_loop_None [OF True]
      by (simp add: SPI_FLASH_WaitForWriteEnd_def Let_def)
  next
    case False
    then have "\<exists>n. \<not> poll_busy b sp n ?s" by blast
    then have least: "\<not> poll_busy b sp ?n ?s" by (rule LeastI_ex)
    have "\<forall>k<?n. poll_busy b sp k ?s"
    proof (intro allI impI)
      fix k assume "k < ?n"
      from not_less_Least [OF this] show "poll_busy b sp k ?s" by (rule notnotD)
    qed
    from wait_loop_polls [OF this least] False show ?thesis
      by (simp add: SPI_FLASH_WaitForWriteEnd_def Let_def)
  qed
qed

text \<open>C21: On a chip that behaves as its data sheet says, \<open>SPI_FLASH_BufferWrite\<close> returns with the
  chip idle, having programmed exactly the bytes of the buffer at exactly the addresses asked
  for, whatever the alignment of the address and the size (its page programs never wrap).\<close>

theorem BufferWrite_programs:
  assumes "flash_chip b sp cap mem ready wel settling" and "ready c"
    and "unat a + unat n \<le> cap" and "unat n \<le> length buf"
  shows "\<exists>c'. SPI_FLASH_BufferWrite b sp buf a n c = Some c' \<and> ready c'
           \<and> mem c' = prog (mem c) (unat a) (take (unat n) buf)"
  by (rule flash_chip.write_ok [OF assms])

theorem BufferWrite_programs_witness:
  "\<exists>c'. SPI_FLASH_BufferWrite ref_bus SPI1 (replicate 600 7) 250 600 blank_chip = Some c' \<and> chip_ready c'
           \<and> w_mem c' = prog (w_mem blank_chip) (unat (250::u32)) (take (unat (600::u16)) (replicate 600 7))"
  by (rule BufferWrite_programs [OF ref.flash_chip_axioms])
    (simp_all add: chip_ready_def blank_chip_def chip_cap_def)

text \<open>C25: Erasing a sector, writing a buffer to its start and reading it back returns the
  buffer, and no byte outside the sector has changed.\<close>

theorem sector_rewrite_roundtrip:
  assumes "flash_chip b sp cap mem ready wel settling" and "ready c"
    and "unat a mod 4096 = 0" and "unat a + 4096 \<le> cap" and "unat n \<le> 4096" and "unat n \<le> length buf"
  shows "\<exists>c1 c2. SPI_FLASH_Sector4kErase b sp a c = Some c1 \<and> SPI_FLASH_BufferWrite b sp buf a n c1 = Some c2
           \<and> fst (SPI_FLASH_BufferRead b sp a n c2) = take (unat n) buf
           \<and> (\<forall>x. x < unat a \<or> unat a + 4096 \<le> x \<longrightarrow> mem c2 x = mem c x)"
proof -
  obtain c1 c2 where c: "SPI_FLASH_Sector4kErase b sp a c = Some c1" "SPI_FLASH_BufferWrite b sp buf a n c1 = Some c2"
      "ready c2" "window (mem c2) (unat a) (unat n) = take (unat n) buf"
      "\<And>x. x < unat a \<or> unat a + 4096 \<le> x \<Longrightarrow> mem c2 x = mem c x"
    by (rule flash_store.er_then_wr [OF flash_chip.is_store [OF assms(1)] assms(2-6)]) blast
  have "unat a + unat n \<le> cap" using assms(4,5) by simp
  from flash_chip.read_ok [OF assms(1) c(3) this] c show ?thesis by auto
qed

theorem sector_rewrite_roundtrip_witness:
  "\<exists>c1 c2. SPI_FLASH_Sector4kErase ref_bus SPI1 0x2000 blank_chip = Some c1
           \<and> SPI_FLASH_BufferWrite ref_bus SPI1 [1, 2, 3] 0x2000 3 c1 = Some c2
           \<and> fst (SPI_FLASH_BufferRead ref_bus SPI1 0x2000 3 c2) = take (unat (3::u16)) [1, 2, 3]
           \<and> (\<forall>x. x < unat (0x2000::u32) \<or> unat (0x2000::u32) + 4096 \<le> x \<longrightarrow> w_mem c2 x = w_mem blank_chip x)"
  by (rule sector_rewrite_roundtrip [OF ref.flash_chip_axioms])
    (simp_all add: chip_ready_def blank_chip_def chip_cap_def)

end
