(* ===== verification/Vtdr_Store.thy ===== *)
theory Vtdr_Store
  imports Vtdr_Clock Vtdr_Flash_Chip
begin

text \<open>
  The record store (the flash part of \<open>DataManager.c\<close>): the partition table, which holds a ring of
  addresses per kind of record and is kept in the data flash itself, the parameters, and the writing of
  records. Structs that go to the flash are modelled with their memory image under the ARM ABI
  (little endian, natural alignment), padding included.
\<close>

section \<open>Data\<close>

record StructPT =
  BaseAddr :: u32
  EndAddr :: u32
  CurPoint :: u32
  finshflag :: u32

record PartitionTable =
  pt_TotalDistance :: u32
  pt_DriverCode :: u32
  pt_Available :: u16
  pt_padding :: u16
  DoubtPointData :: StructPT
  LocationData :: StructPT
  OverSpeedRecord :: StructPT
  PowerOffRunRecord :: StructPT
  ModifyRecord :: StructPT
  BaseData :: StructPT
  DriverReRecord :: StructPT
  journalRecord :: StructPT
  pt_LastUploadTime :: "u8 list"
  pt_DriverLisenseCode :: "u8 list"

definition le16 :: "u16 \<Rightarrow> u8 list" where
  "le16 x = [ucast x, ucast (drop_bit 8 x)]"

definition le32 :: "u32 \<Rightarrow> u8 list" where
  "le32 x = [ucast x, ucast (drop_bit 8 x), ucast (drop_bit 16 x), ucast (drop_bit 24 x)]"

definition of_le16 :: "u8 list \<Rightarrow> u16" where
  "of_le16 bs = ucast (bs ! 0) OR push_bit 8 (ucast (bs ! 1))"

definition of_le32 :: "u8 list \<Rightarrow> u32" where
  "of_le32 bs = ucast (bs ! 0) OR push_bit 8 (ucast (bs ! 1)) OR push_bit 16 (ucast (bs ! 2)) OR push_bit 24 (ucast (bs ! 3))"

definition ring_bytes :: "StructPT \<Rightarrow> u8 list" where
  "ring_bytes r = le32 (BaseAddr r) @ le32 (EndAddr r) @ le32 (CurPoint r) @ le32 (finshflag r)"

definition bytes_ring :: "u8 list \<Rightarrow> StructPT" where
  "bytes_ring bs = \<lparr>BaseAddr = of_le32 bs, EndAddr = of_le32 (drop 4 bs), CurPoint = of_le32 (drop 8 bs), finshflag = of_le32 (drop 12 bs)\<rparr>"

definition table_bytes :: "PartitionTable \<Rightarrow> u8 list" where
  "table_bytes t = le32 (pt_TotalDistance t) @ le32 (pt_DriverCode t) @ le16 (pt_Available t) @ le16 (pt_padding t)
     @ ring_bytes (DoubtPointData t) @ ring_bytes (LocationData t) @ ring_bytes (OverSpeedRecord t) @ ring_bytes (PowerOffRunRecord t)
     @ ring_bytes (ModifyRecord t) @ ring_bytes (BaseData t) @ ring_bytes (DriverReRecord t) @ ring_bytes (journalRecord t)
     @ pt_LastUploadTime t @ pt_DriverLisenseCode t"

definition bytes_table :: "u8 list \<Rightarrow> PartitionTable" where
  "bytes_table bs = \<lparr>pt_TotalDistance = of_le32 bs, pt_DriverCode = of_le32 (drop 4 bs), pt_Available = of_le16 (drop 8 bs),
     pt_padding = of_le16 (drop 10 bs), DoubtPointData = bytes_ring (drop 12 bs), LocationData = bytes_ring (drop 28 bs),
     OverSpeedRecord = bytes_ring (drop 44 bs), PowerOffRunRecord = bytes_ring (drop 60 bs), ModifyRecord = bytes_ring (drop 76 bs),
     BaseData = bytes_ring (drop 92 bs), DriverReRecord = bytes_ring (drop 108 bs), journalRecord = bytes_ring (drop 124 bs),
     pt_LastUploadTime = take 6 (drop 140 bs), pt_DriverLisenseCode = take 18 (drop 146 bs)\<rparr>"

definition put_at :: "nat \<Rightarrow> u8 list \<Rightarrow> u8 list \<Rightarrow> u8 list" where
  "put_at a xs bs = take a bs @ xs @ drop (a + length xs) bs"

text \<open>The flash, the partition table, the image of the parameters and the 8 KiB of \<open>LargeDataBuffer\<close>.\<close>

record 'c store =
  st_chip :: 'c
  st_table :: PartitionTable
  st_Parameter :: "u8 list"
  st_large :: "u8 list"

section \<open>Operations\<close>

definition WriteParameterTable :: "'c spi_bus \<Rightarrow> u8 list \<Rightarrow> 'c \<Rightarrow> 'c option" where
  "WriteParameterTable b para c = do {
     c \<leftarrow> SPI_FLASH_Sector4kErase b SPI1 0 c;
     SPI_FLASH_BufferWrite b SPI1 para 0 648 c }"

definition WritePartitionTable :: "'c spi_bus \<Rightarrow> PartitionTable \<Rightarrow> 'c \<Rightarrow> (PartitionTable \<times> 'c) option" where
  "WritePartitionTable b ptt c = do {
     c \<leftarrow> SPI_FLASH_Sector4kErase b SPI1 0x1000 c;
     let ptt = (if pt_TotalDistance ptt = 0xffffffff then ptt\<lparr>pt_TotalDistance := 0\<rparr> else ptt);
     c \<leftarrow> SPI_FLASH_BufferWrite b SPI1 (table_bytes ptt) 0x1000 164 c;
     Some (ptt, c) }"

definition fresh_ring :: "u32 \<Rightarrow> u32 \<Rightarrow> StructPT \<Rightarrow> StructPT" where
  "fresh_ring a e r = r\<lparr>BaseAddr := a, EndAddr := e, CurPoint := a\<rparr>"

definition ascii :: "string \<Rightarrow> u8 list" where
  "ascii = List.map of_char"

text \<open>The condition reads \<open>pTable.Available != PartitionTableFlag\<close>, and the macro is not in parentheses.\<close>

definition table_foreign :: "PartitionTable \<Rightarrow> bool" where
  "table_foreign t \<longleftrightarrow> ((if pt_Available t \<noteq> push_bit 0 1 then 1 else 0 :: u32)
     OR push_bit 1 0 OR push_bit 3 1 OR push_bit 4 1 OR push_bit 6 0 OR push_bit 9 0) \<noteq> 0"

definition PartitionTableFlag :: u16 where
  "PartitionTableFlag = push_bit 0 1 OR push_bit 1 0 OR push_bit 3 1 OR push_bit 4 1 OR push_bit 6 0 OR push_bit 9 0"

definition default_parameters :: "u8 list \<Rightarrow> u8 list" where
  "default_parameters p =
     (let p = put_at 12 (le16 0xaeae) p;
          p = put_at 462 (0xbe # 0xa9 # ascii ''A12345'') p;
          p = put_at 474 (ascii ''EQ1195GX24D1'') p;
          p = put_at 445 (ascii ''XTA210900N1093188'') p
      in put_at 170 (ascii ''440781198602126403'') p)"

definition InitializeTable :: "'c spi_bus \<Rightarrow> 'c store \<Rightarrow> 'c store option" where
  "InitializeTable b s = do {
     let (t, c) = SPI_FLASH_BufferRead b SPI1 0x1000 164 (st_chip s);
     let (p, c) = SPI_FLASH_BufferRead b SPI1 0 648 c;
     let t = bytes_table t;
     let p = put_at 0 (le32 0x45678961) p;
     (p, c) \<leftarrow> (if of_le16 (drop 12 p) \<noteq> 0xaeae
        then do { c \<leftarrow> WriteParameterTable b (default_parameters p) c; Some (default_parameters p, c) }
        else Some (p, c));
     if table_foreign t
     then do {
       let t = t\<lparr>pt_Available := PartitionTableFlag,
         DoubtPointData := fresh_ring 0x5b000 0x60fff (DoubtPointData t),
         BaseData := fresh_ring 0x02000 0x5afff (BaseData t),
         DriverReRecord := fresh_ring 0x9e000 0x9ffff (DriverReRecord t),
         LocationData := fresh_ring 0x63000 0x9dfff (LocationData t),
         OverSpeedRecord := fresh_ring 0x61000 0x62fff (OverSpeedRecord t),
         ModifyRecord := fresh_ring 0xa1000 0xa1fff (ModifyRecord t),
         PowerOffRunRecord := fresh_ring 0xa0000 0xa0fff (PowerOffRunRecord t),
         journalRecord := fresh_ring 0xa2000 0xa2fff (journalRecord t)\<rparr>;
       let p = put_at 168 (le16 5500) p;
       (t, c) \<leftarrow> WritePartitionTable b t c;
       Some (s\<lparr>st_chip := c, st_table := t, st_Parameter := p\<rparr>) }
     else Some (s\<lparr>st_chip := c, st_table := t, st_Parameter := p\<rparr>) }"

definition IsPartitionTableCorrect :: "PartitionTable \<Rightarrow> int" where
  "IsPartitionTableCorrect t =
     (if pt_Available t \<noteq> PartitionTableFlag then 0
      else if BaseAddr (DoubtPointData t) \<noteq> 0x5b000 then 0
      else if EndAddr (DoubtPointData t) \<noteq> 0x60fff then 0
      else if BaseAddr (BaseData t) \<noteq> 0x02000 then 0
      else if EndAddr (BaseData t) \<noteq> 0x5afff then 0
      else if CurPoint (DoubtPointData t) < 0x5b000 \<or> 0x60fff - 110 < CurPoint (DoubtPointData t) then - 1
      else if CurPoint (BaseData t) < 0x02000 \<or> 0x5afff < CurPoint (BaseData t) then - 3
      else 1)"

text \<open>
  Reading a sector into the buffer and erasing it; the part in front of \<open>p\<close> is written back. The index
  \<open>i\<close> of the buffer is never set: it is what the stack holds.
\<close>

definition UpdateFlashTimes :: u8 where "UpdateFlashTimes = 0"
definition UpdateFlashOnce :: u8 where "UpdateFlashOnce = 1"
definition UpdateFlashAll :: u8 where "UpdateFlashAll = 2"

definition Update4k :: "'c spi_bus \<Rightarrow> u16 \<Rightarrow> u32 \<Rightarrow> nat \<Rightarrow> u8 \<Rightarrow> 'c store \<Rightarrow> 'c store option" where
  "Update4k b i p buf typ s =
     (let sector_addr = p AND 0xfffff000;
          (bs, c) = SPI_FLASH_BufferRead b SPI1 sector_addr 4096 (st_chip s);
          s = s\<lparr>st_chip := c, st_large := put_at buf bs (st_large s)\<rparr>
      in if typ = UpdateFlashOnce then Some s
         else do {
           c \<leftarrow> SPI_FLASH_Sector4kErase b SPI1 sector_addr (st_chip s);
           c \<leftarrow> (if typ = UpdateFlashTimes
                 then SPI_FLASH_BufferWrite b SPI1 (drop (buf + unat i) (st_large s)) sector_addr (ucast (p - sector_addr)) c
                 else Some c);
           Some (s\<lparr>st_chip := c\<rparr>) })"

definition erase4kflash :: "'c spi_bus \<Rightarrow> u32 \<Rightarrow> u32 \<Rightarrow> 'c \<Rightarrow> (int \<times> 'c) option" where
  "erase4kflash b p num c =
     (if num = 0 then Some (0, c)
      else if p AND 0xfff = 0 then do { c \<leftarrow> SPI_FLASH_Sector4kErase b SPI1 p c; Some (1, c) }
      else if (p + num) AND 0xfff < num
      then do { c \<leftarrow> SPI_FLASH_Sector4kErase b SPI1 ((p + num) AND 0xfffff000) c; Some (1, c) }
      else Some (1, c))"

definition AddPointer :: "StructPT \<Rightarrow> int \<Rightarrow> u32" where
  "AddPointer pt inc =
     (let result = CurPoint pt + of_int inc
      in if 0 \<le> inc then (if EndAddr pt < result then BaseAddr pt + (result - EndAddr pt) - 1 else result)
         else (if result < BaseAddr pt then EndAddr pt - (BaseAddr pt - result) + 1 else result))"

text \<open>The ring is passed by value: what is written to the flash is the table as it was.\<close>

definition MovePtablePtr :: "'c spi_bus \<Rightarrow> StructPT \<Rightarrow> u32 \<Rightarrow> 'c store \<Rightarrow> 'c store option" where
  "MovePtablePtr b ptr movesize s =
     (let ptr = ptr\<lparr>CurPoint := CurPoint ptr + movesize\<rparr>;
          ptr = ptr\<lparr>finshflag := finshflag ptr OR 0xea\<rparr>;
          ptr = (if EndAddr ptr < CurPoint ptr + movesize then ptr\<lparr>CurPoint := BaseAddr ptr, finshflag := 0xeaea\<rparr> else ptr)
      in do { (t, c) \<leftarrow> WritePartitionTable b (st_table s) (st_chip s);
              Some (s\<lparr>st_table := t, st_chip := c\<rparr>) })"

text \<open>A record that stays in its sector, and one that goes on in the next; \<open>junk\<close> is what \<open>Update4k\<close> finds on the stack.\<close>

definition write_in_sector :: "'c spi_bus \<Rightarrow> u16 \<Rightarrow> u32 \<Rightarrow> u8 list \<Rightarrow> u32 \<Rightarrow> 'c store \<Rightarrow> 'c store option" where
  "write_in_sector b junk p buff num s = do {
     s \<leftarrow> Update4k b junk p 0 UpdateFlashTimes s;
     c \<leftarrow> SPI_FLASH_BufferWrite b SPI1 buff p (ucast num) (st_chip s);
     let num_addr = 4096 - (p AND 0xfff) - num;
     c \<leftarrow> SPI_FLASH_BufferWrite b SPI1 (drop (unat num) (st_large s)) (p + num) (ucast num_addr) c;
     Some (s\<lparr>st_chip := c\<rparr>) }"

definition write_across :: "'c spi_bus \<Rightarrow> (nat \<Rightarrow> u16) \<Rightarrow> u32 \<Rightarrow> u8 list \<Rightarrow> u32 \<Rightarrow> 'c store \<Rightarrow> 'c store option" where
  "write_across b junk p buff num s = do {
     s \<leftarrow> Update4k b (junk 0) p 0 UpdateFlashTimes s;
     let num_addr = 4096 - (p AND 0xfff);
     c \<leftarrow> SPI_FLASH_BufferWrite b SPI1 buff p (ucast num_addr) (st_chip s);
     s \<leftarrow> Update4k b (junk 1) ((p + num) AND 0xfffff000) 0 UpdateFlashTimes (s\<lparr>st_chip := c\<rparr>);
     c \<leftarrow> SPI_FLASH_BufferWrite b SPI1 (drop (unat num_addr) buff) ((p + num) AND 0xfffff000) (ucast (num - num_addr)) (st_chip s);
     let bnum_addr = 4096 + num_addr - num;
     let star_addr = (p + num) AND (0xfffff000 + num - num_addr);
     c \<leftarrow> SPI_FLASH_BufferWrite b SPI1 (drop (unat (num - num_addr)) (st_large s)) star_addr (ucast bnum_addr) c;
     Some (s\<lparr>st_chip := c\<rparr>) }"

definition WriteRecordData2Flash :: "'c spi_bus \<Rightarrow> (nat \<Rightarrow> u16) \<Rightarrow> StructPT \<Rightarrow> u8 list \<Rightarrow> u32 \<Rightarrow> 'c store \<Rightarrow> 'c store option" where
  "WriteRecordData2Flash b junk ptbl buff num s =
     (let p = CurPoint ptbl in do {
        s \<leftarrow> (if (p AND 0xfff) + num < 0x1000 then write_in_sector b (junk 0) p buff num s
              else write_across b junk p buff num s);
        MovePtablePtr b ptbl num s })"

section \<open>Images of structs\<close>

lemma le_simps [simp]: "length (le16 x) = 2" "length (le32 y) = 4" "length (ring_bytes r) = 16"
  by (simp_all add: le16_def le32_def ring_bytes_def)

lemma of_le16_le16 [simp]: "of_le16 (le16 x @ bs) = x"
  by (rule bit_word_eqI) (auto simp: of_le16_def le16_def bit_or_iff bit_push_bit_iff bit_unsigned_iff bit_drop_bit_eq)

lemma of_le32_le32 [simp]: "of_le32 (le32 x @ bs) = x"
proof (rule bit_word_eqI)
  fix n :: nat assume n: "n < LENGTH(32)"
  show "bit (of_le32 (le32 x @ bs)) n = bit x n"
  proof -
    have c: "n < 8 \<or> 8 \<le> n \<and> n < 16 \<or> 16 \<le> n \<and> n < 24 \<or> 24 \<le> n" by linarith
    show ?thesis using c n
      by (elim disjE) (auto simp: of_le32_def le32_def bit_or_iff bit_push_bit_iff bit_unsigned_iff bit_drop_bit_eq)
  qed
qed

lemma bytes_ring_bytes [simp]: "bytes_ring (ring_bytes r @ bs) = r"
  by (simp add: bytes_ring_def ring_bytes_def)

lemma length_put_at [simp]: "a + length xs \<le> length bs \<Longrightarrow> length (put_at a xs bs) = length bs"
  by (simp add: put_at_def)

lemma length_default [simp]: "length p = 648 \<Longrightarrow> length (default_parameters p) = 648"
  by (simp add: default_parameters_def Let_def ascii_def)

lemma length_table_bytes:
  "length (pt_LastUploadTime t) = 6 \<Longrightarrow> length (pt_DriverLisenseCode t) = 18 \<Longrightarrow> length (table_bytes t) = 164"
  by (simp add: table_bytes_def)

lemma bytes_table_bytes:
  assumes "length (pt_LastUploadTime t) = 6" "length (pt_DriverLisenseCode t) = 18"
  shows "bytes_table (table_bytes t) = t"
  using assms by (simp add: bytes_table_def table_bytes_def drop_append del: append_assoc)

section \<open>On a flash that works\<close>

lemma unat_u32_u16: "unat (ucast x :: u16) = unat x mod 65536" for x :: u32
  unfolding unsigned_ucast_eq unsigned_take_bit_eq by (simp add: take_bit_eq_mod)

lemma sector_of: "unat (p AND 0xfffff000 :: u32) = unat p div 4096 * 4096" "unat (p AND 0xfff :: u32) = unat p mod 4096"
proof -
  have "(0xfffff000 :: u32) = NOT (mask 12)" by (simp add: mask_eq_exp_minus_1)
  then show "unat (p AND 0xfffff000) = unat p div 4096 * 4096" using unat_and_not_mask [of p 12] by simp
  have "(0xfff :: u32) = mask 12" by (simp add: mask_eq_exp_minus_1)
  then show "unat (p AND 0xfff) = unat p mod 4096" using unat_and_mask [of p 12] by simp
qed

text \<open>The partition table as it is written.\<close>

definition stored :: "PartitionTable \<Rightarrow> PartitionTable" where
  "stored t = (if pt_TotalDistance t = 0xffffffff then t\<lparr>pt_TotalDistance := 0\<rparr> else t)"

definition table_wf :: "PartitionTable \<Rightarrow> bool" where
  "table_wf t \<longleftrightarrow> length (pt_LastUploadTime t) = 6 \<and> length (pt_DriverLisenseCode t) = 18"

text \<open>The rings, where each starts, and what \<open>InitializeTable\<close> leaves of them.\<close>

datatype ring = RDoubt | RLocation | ROverSpeed | RPowerOff | RModify | RBase | RDriver | RJournal

fun ring_of :: "ring \<Rightarrow> PartitionTable \<Rightarrow> StructPT" where
  "ring_of RDoubt = DoubtPointData"
| "ring_of RLocation = LocationData"
| "ring_of ROverSpeed = OverSpeedRecord"
| "ring_of RPowerOff = PowerOffRunRecord"
| "ring_of RModify = ModifyRecord"
| "ring_of RBase = BaseData"
| "ring_of RDriver = DriverReRecord"
| "ring_of RJournal = journalRecord"

fun ring_start :: "ring \<Rightarrow> u32" where
  "ring_start RDoubt = 0x5b000"
| "ring_start RLocation = 0x63000"
| "ring_start ROverSpeed = 0x61000"
| "ring_start RPowerOff = 0xa0000"
| "ring_start RModify = 0xa1000"
| "ring_start RBase = 0x02000"
| "ring_start RDriver = 0x9e000"
| "ring_start RJournal = 0xa2000"

definition rings_fresh :: "PartitionTable \<Rightarrow> bool" where
  "rings_fresh t \<longleftrightarrow> (\<forall>g. CurPoint (ring_of g t) = ring_start g \<and> BaseAddr (ring_of g t) = ring_start g)"

lemma ring_start_bounds:
  "unat (ring_start g) mod 4096 = 0" "0x2000 \<le> unat (ring_start g)" "unat (ring_start g) + 4096 \<le> 0xa3000"
  by (cases g; simp)+

lemma ring_start_apart:
  "g \<noteq> g' \<Longrightarrow> unat (ring_start g) + 4096 \<le> unat (ring_start g') \<or> unat (ring_start g') + 4096 \<le> unat (ring_start g)"
  by (cases g; cases g'; simp)

lemma ring_of_stored [simp]: "ring_of g (stored t) = ring_of g t"
  by (cases g; simp add: stored_def)

lemma stored_simps [simp]:
  "table_wf (stored t) = table_wf t" "rings_fresh (stored t) = rings_fresh t" "stored (stored t) = stored t"
  "pt_Available (stored t) = pt_Available t"
  by (simp_all add: table_wf_def rings_fresh_def) (simp_all add: stored_def)

text \<open>The unparenthesised flag makes the test true whatever the table holds.\<close>

lemma table_foreign_always: "table_foreign t"
  by (simp add: table_foreign_def)

text \<open>The store between two operations: the flash idle, its copy of the table up to date.\<close>

definition store_ok :: "('c \<Rightarrow> bool) \<Rightarrow> 'c store \<Rightarrow> bool" where
  "store_ok ready s \<longleftrightarrow> ready (st_chip s) \<and> length (st_large s) = 8192 \<and> table_wf (st_table s)"

definition synced :: "('c \<Rightarrow> nat \<Rightarrow> u8) \<Rightarrow> 'c store \<Rightarrow> bool" where
  "synced mem s \<longleftrightarrow> window (mem (st_chip s)) 0x1000 164 = table_bytes (st_table s)"

text \<open>One record after another.\<close>

primrec write_all :: "'c spi_bus \<Rightarrow> (nat \<Rightarrow> u16) \<Rightarrow> (ring \<times> u8 list) list \<Rightarrow> 'c store \<Rightarrow> 'c store option" where
  "write_all b junk [] s = Some s"
| "write_all b junk (r # rs) s =
     do { s \<leftarrow> WriteRecordData2Flash b junk (ring_of (fst r) (st_table s)) (snd r) (of_nat (length (snd r))) s;
          write_all b junk rs s }"

lemma write_all_append: "write_all b junk (rs @ qs) s = do { s \<leftarrow> write_all b junk rs s; write_all b junk qs s }"
proof (induction rs arbitrary: s)
  case (Cons r rs)
  then show ?case by (simp add: Option.bind_assoc)
qed simp

text \<open>The data flash of the recorder: a chip on the first bus, large enough for every ring.\<close>

locale recorder_flash =
  flash_chip b SPI1 cap mem ready wel settling
  for b :: "'c spi_bus" and cap :: nat and mem :: "'c \<Rightarrow> nat \<Rightarrow> u8" and ready wel settling :: "'c \<Rightarrow> bool" +
  assumes room: "0xa4000 \<le> cap"
begin

lemma cap_small: "cap \<le> 16777216"
  using cap_addr by simp

lemma erase_at:
  assumes "ready c" "unat a mod 4096 = 0" "unat a + 4096 \<le> cap"
  obtains c' where "SPI_FLASH_Sector4kErase b SPI1 a c = Some c'" "ready c'" "mem c' = erase (mem c) (unat a) 4096"
proof -
  have "unat a div 4096 * 4096 = unat a" using assms(2) by auto
  then show ?thesis using er_law [of c a] assms that by auto
qed

lemma write_table_ok:
  assumes "ready c" "table_wf t"
  shows "\<exists>c'. WritePartitionTable b t c = Some (stored t, c') \<and> ready c' \<and> window (mem c') 0x1000 164 = table_bytes (stored t)
     \<and> (\<forall>x. x < 0x1000 \<or> 0x2000 \<le> x \<longrightarrow> mem c' x = mem c x)"
proof -
  have len: "length (table_bytes (stored t)) = 164" using assms(2) by (intro length_table_bytes) (simp_all add: stored_def table_wf_def)
  obtain c1 c2 where c: "SPI_FLASH_Sector4kErase b SPI1 0x1000 c = Some c1" "ready c1"
    "SPI_FLASH_BufferWrite b SPI1 (table_bytes (stored t)) 0x1000 164 c1 = Some c2" "ready c2"
    "window (mem c2) (unat (0x1000 :: u32)) (unat (164 :: u16)) = take (unat (164 :: u16)) (table_bytes (stored t))"
    "\<And>x. x < unat (0x1000 :: u32) \<or> unat (0x1000 :: u32) + 4096 \<le> x \<Longrightarrow> mem c2 x = mem c x"
    by (rule er_then_wr [of c "0x1000" 164 "table_bytes (stored t)"]) (use assms(1) len room in simp_all)
  have "WritePartitionTable b t c = Some (stored t, c2)" using c(1,3) by (simp add: WritePartitionTable_def stored_def)
  then show ?thesis using c(4,5,6) len by auto
qed

lemma update_aligned:
  assumes "ready (st_chip s)" "unat p mod 4096 = 0" "unat p + 4096 \<le> cap" "length (st_large s) = 8192"
  shows "\<exists>s'. Update4k b i p 0 UpdateFlashTimes s = Some s' \<and> ready (st_chip s') \<and> st_table s' = st_table s
     \<and> st_Parameter s' = st_Parameter s \<and> length (st_large s') = 8192
     \<and> take 4096 (st_large s') = window (mem (st_chip s)) (unat p) 4096
     \<and> mem (st_chip s') = erase (mem (st_chip s)) (unat p) 4096"
proof -
  have p: "p AND 0xfffff000 = p" using sector_of(1) [of p] assms(2) by (simp add: word_unat_eq_iff) auto
  let ?r = "SPI_FLASH_BufferRead b SPI1 p 4096 (st_chip s)"
  have r: "fst ?r = window (mem (st_chip s)) (unat p) 4096" "ready (snd ?r)" "mem (snd ?r) = mem (st_chip s)"
    using rd_law [of "st_chip s" p 4096] assms(1,3) by simp_all
  let ?l = "put_at 0 (fst ?r) (st_large s)"
  have l: "length ?l = 8192" "take 4096 ?l = window (mem (st_chip s)) (unat p) 4096"
    using assms(4) by (simp_all add: put_at_def r(1))
  obtain c1 where c1: "SPI_FLASH_Sector4kErase b SPI1 p (snd ?r) = Some c1" "ready c1"
    "mem c1 = erase (mem (st_chip s)) (unat p) 4096"
    using erase_at [OF r(2) assms(2,3)] r(3) by metis
  obtain c2 where c2: "SPI_FLASH_BufferWrite b SPI1 (drop (unat i) ?l) p 0 c1 = Some c2" "ready c2" "mem c2 = mem c1"
    using wr_law [of c1 p 0 "drop (unat i) ?l"] c1(2) assms(3) by auto
  have "Update4k b i p 0 UpdateFlashTimes s = Some (s\<lparr>st_chip := c2, st_large := ?l\<rparr>)"
    using c1(1) c2(1) by (simp add: Update4k_def p Let_def case_prod_beta UpdateFlashTimes_def UpdateFlashOnce_def)
  then show ?thesis using c2 c1(3) l by simp
qed

text \<open>A record at the start of a sector: the record replaces what was there, the rest of the sector stays.\<close>

lemma write_in_sector_ok:
  assumes "ready (st_chip s)" "unat p mod 4096 = 0" "unat p + 4096 \<le> cap" "length (st_large s) = 8192"
    "unat num < 4096" "unat num \<le> length buff"
  shows "\<exists>s'. write_in_sector b i p buff num s = Some s' \<and> ready (st_chip s') \<and> st_table s' = st_table s
     \<and> st_Parameter s' = st_Parameter s \<and> length (st_large s') = 8192
     \<and> mem (st_chip s') = (\<lambda>x. if unat p \<le> x \<and> x < unat p + unat num then buff ! (x - unat p) else mem (st_chip s) x)"
proof -
  let ?m = "mem (st_chip s)" and ?p = "unat p" and ?n = "unat num"
  obtain s1 where s1: "Update4k b i p 0 UpdateFlashTimes s = Some s1" "ready (st_chip s1)" "st_table s1 = st_table s"
    "st_Parameter s1 = st_Parameter s" "length (st_large s1) = 8192"
    "take 4096 (st_large s1) = window ?m ?p 4096" "mem (st_chip s1) = erase ?m ?p 4096"
    using update_aligned [OF assms(1-4)] by blast
  have "p AND 0xfff = 0" using sector_of(2) [of p] assms(2) by (simp add: unsigned_eq_0_iff)
  then have na: "4096 - (p AND 0xfff) - num = 4096 - num" by simp
  have n16: "unat (ucast num :: u16) = ?n" using assms(5) by (simp add: unat_u32_u16)
  have un: "unat (4096 - num) = 4096 - ?n" using assms(5) unat_sub [of num 4096] by (simp add: word_le_nat_alt)
  then have k16: "unat (ucast (4096 - num) :: u16) = 4096 - ?n" by (simp add: unat_u32_u16)
  have pn: "unat (p + num) = ?p + ?n" using assms(3,5) cap_small by (simp add: unat_word_ariths)
  obtain c1 where c1: "SPI_FLASH_BufferWrite b SPI1 buff p (ucast num) (st_chip s1) = Some c1" "ready c1"
    "mem c1 = prog (erase ?m ?p 4096) ?p (take ?n buff)"
    using wr_law [of "st_chip s1" p "ucast num" buff] s1(2,7) assms(3,5,6) n16 by auto
  have lt: "4096 - ?n \<le> 8192 - ?n" by (rule diff_le_mono) simp
  obtain c2 where c2: "SPI_FLASH_BufferWrite b SPI1 (drop ?n (st_large s1)) (p + num) (ucast (4096 - num)) c1 = Some c2" "ready c2"
    "mem c2 = prog (mem c1) (?p + ?n) (take (4096 - ?n) (drop ?n (st_large s1)))"
    using wr_law [of c1 "p + num" "ucast (4096 - num)" "drop ?n (st_large s1)"] c1(2) assms(3,5) s1(5) pn k16 lt by auto
  have tail: "take (4096 - ?n) (drop ?n (st_large s1)) = drop ?n (window ?m ?p 4096)"
    using s1(6) by (metis take_drop drop_take)
  have "write_in_sector b i p buff num s = Some (s1\<lparr>st_chip := c2\<rparr>)"
    using s1(1) c1(1) c2(1) by (simp add: write_in_sector_def na)
  moreover have "mem c2 = (\<lambda>x. if ?p \<le> x \<and> x < ?p + ?n then buff ! (x - ?p) else ?m x)"
    using assms(5,6) unfolding c2(3) c1(3) tail
    by (auto simp: fun_eq_iff prog_def erase_def window_def u8_all_ones)
  ultimately show ?thesis using s1 c2(2) by simp
qed

text \<open>Rewriting the parameters.\<close>

lemma write_parameters_ok:
  assumes "ready c" "length p = 648"
  shows "\<exists>c'. WriteParameterTable b p c = Some c' \<and> ready c' \<and> window (mem c') 0 648 = p \<and> (\<forall>x. 0x1000 \<le> x \<longrightarrow> mem c' x = mem c x)"
proof -
  obtain c1 c2 where c: "SPI_FLASH_Sector4kErase b SPI1 0 c = Some c1" "ready c1"
    "SPI_FLASH_BufferWrite b SPI1 p 0 648 c1 = Some c2" "ready c2"
    "window (mem c2) (unat (0 :: u32)) (unat (648 :: u16)) = take (unat (648 :: u16)) p"
    "\<And>x. x < unat (0 :: u32) \<or> unat (0 :: u32) + 4096 \<le> x \<Longrightarrow> mem c2 x = mem c x"
    by (rule er_then_wr [of c 0 648 p]) (use assms room in simp_all)
  then show ?thesis using assms(2) by (auto simp: WriteParameterTable_def)
qed

lemma write_record_ok:
  assumes ok: "store_ok ready s" and p: "unat (CurPoint r) mod 4096 = 0" "0x2000 \<le> unat (CurPoint r)" "unat (CurPoint r) + 4096 \<le> cap"
    and num: "unat num < 4096" "unat num \<le> length buff"
  shows "\<exists>s'. WriteRecordData2Flash b junk r buff num s = Some s' \<and> store_ok ready s' \<and> synced mem s' \<and> st_table s' = stored (st_table s)
     \<and> st_Parameter s' = st_Parameter s
     \<and> (\<forall>x. x < 0x1000 \<or> 0x2000 \<le> x \<longrightarrow> mem (st_chip s') x
          = (if unat (CurPoint r) \<le> x \<and> x < unat (CurPoint r) + unat num then buff ! (x - unat (CurPoint r)) else mem (st_chip s) x))"
proof -
  have "CurPoint r AND 0xfff = 0" using sector_of(2) [of "CurPoint r"] p(1) by (simp add: unsigned_eq_0_iff)
  then have short: "(CurPoint r AND 0xfff) + num < 0x1000" using num(1) by (simp add: word_less_nat_alt)
  obtain s1 where s1: "write_in_sector b (junk 0) (CurPoint r) buff num s = Some s1" "ready (st_chip s1)" "st_table s1 = st_table s"
    "st_Parameter s1 = st_Parameter s" "length (st_large s1) = 8192"
    "mem (st_chip s1) = (\<lambda>x. if unat (CurPoint r) \<le> x \<and> x < unat (CurPoint r) + unat num
        then buff ! (x - unat (CurPoint r)) else mem (st_chip s) x)"
    using write_in_sector_ok [OF _ p(1,3) _ num] ok unfolding store_ok_def by blast
  obtain c where c: "WritePartitionTable b (st_table s1) (st_chip s1) = Some (stored (st_table s1), c)" "ready c"
    "window (mem c) 0x1000 164 = table_bytes (stored (st_table s1))"
    "\<forall>x. x < 0x1000 \<or> 0x2000 \<le> x \<longrightarrow> mem c x = mem (st_chip s1) x"
    using write_table_ok [OF s1(2), of "st_table s1"] ok s1(3) by (auto simp: store_ok_def)
  have "WriteRecordData2Flash b junk r buff num s = Some (s1\<lparr>st_table := stored (st_table s), st_chip := c\<rparr>)"
    using s1(1,3) c(1) short by (simp add: WriteRecordData2Flash_def MovePtablePtr_def Let_def)
  then show ?thesis using s1 c ok by (simp add: store_ok_def synced_def)
qed

text \<open>What a start of the recorder does to the table.\<close>

lemma init_table_ok:
  assumes "ready (st_chip s)" "length (st_large s) = 8192"
  shows "\<exists>s'. InitializeTable b s = Some s' \<and> store_ok ready s' \<and> synced mem s' \<and> rings_fresh (st_table s')
     \<and> IsPartitionTableCorrect (st_table s') = 1 \<and> length (st_Parameter s') = 648
     \<and> (\<forall>x. 0x2000 \<le> x \<longrightarrow> mem (st_chip s') x = mem (st_chip s) x)"
proof -
  let ?r = "SPI_FLASH_BufferRead b SPI1 0x1000 164 (st_chip s)"
  have r: "fst ?r = window (mem (st_chip s)) 0x1000 164" "ready (snd ?r)" "mem (snd ?r) = mem (st_chip s)"
    using rd_law [of "st_chip s" "0x1000" 164] assms(1) room by simp_all
  let ?q = "SPI_FLASH_BufferRead b SPI1 0 648 (snd ?r)"
  have q: "fst ?q = window (mem (st_chip s)) 0 648" "ready (snd ?q)" "mem (snd ?q) = mem (st_chip s)"
    using rd_law [of "snd ?r" 0 648] r room by simp_all
  let ?p0 = "put_at 0 (le32 0x45678961) (fst ?q)"
  obtain p c where pc: "(if of_le16 (drop 12 ?p0) \<noteq> 0xaeae
        then do { c \<leftarrow> WriteParameterTable b (default_parameters ?p0) (snd ?q); Some (default_parameters ?p0, c) }
        else Some (?p0, snd ?q)) = Some (p, c)"
    "ready c" "\<forall>x. 0x1000 \<le> x \<longrightarrow> mem c x = mem (st_chip s) x" "length p = 648"
  proof (cases "of_le16 (drop 12 ?p0) \<noteq> 0xaeae")
    case True
    have "length (default_parameters ?p0) = 648" using q(1) by simp
    from write_parameters_ok [OF q(2) this] obtain c where
      "WriteParameterTable b (default_parameters ?p0) (snd ?q) = Some c" "ready c"
      "\<forall>x. 0x1000 \<le> x \<longrightarrow> mem c x = mem (snd ?q) x" by blast
    with True q show ?thesis by (intro that [of "default_parameters ?p0" c]) simp_all
  next
    case False
    with q show ?thesis by (intro that [of ?p0 "snd ?q"]) simp_all
  qed
  let ?t = "bytes_table (fst ?r)"
  let ?t1 = "?t\<lparr>pt_Available := PartitionTableFlag,
         DoubtPointData := fresh_ring 0x5b000 0x60fff (DoubtPointData ?t),
         BaseData := fresh_ring 0x02000 0x5afff (BaseData ?t),
         DriverReRecord := fresh_ring 0x9e000 0x9ffff (DriverReRecord ?t),
         LocationData := fresh_ring 0x63000 0x9dfff (LocationData ?t),
         OverSpeedRecord := fresh_ring 0x61000 0x62fff (OverSpeedRecord ?t),
         ModifyRecord := fresh_ring 0xa1000 0xa1fff (ModifyRecord ?t),
         PowerOffRunRecord := fresh_ring 0xa0000 0xa0fff (PowerOffRunRecord ?t),
         journalRecord := fresh_ring 0xa2000 0xa2fff (journalRecord ?t)\<rparr>"
  have wf: "table_wf ?t1" by (simp add: table_wf_def bytes_table_def r(1))
  have fresh: "rings_fresh ?t1" unfolding rings_fresh_def by (intro allI, rename_tac g, case_tac g) (simp_all add: fresh_ring_def)
  have ends: "IsPartitionTableCorrect (stored ?t1) = 1" by (simp add: IsPartitionTableCorrect_def stored_def fresh_ring_def)
  obtain c' where c': "WritePartitionTable b ?t1 c = Some (stored ?t1, c')" "ready c'"
    "window (mem c') 0x1000 164 = table_bytes (stored ?t1)"
    "\<forall>x. x < 0x1000 \<or> 0x2000 \<le> x \<longrightarrow> mem c' x = mem c x"
    using write_table_ok [OF pc(2) wf] by blast
  have "InitializeTable b s = Some (s\<lparr>st_chip := c', st_table := stored ?t1, st_Parameter := put_at 168 (le16 5500) p\<rparr>)"
    unfolding InitializeTable_def case_prod_beta Let_def [of "SPI_FLASH_BufferRead _ _ _ _ _"] Let_def [of "bytes_table _"] Let_def [of "put_at 0 _ _"]
    using pc(1) c'(1) table_foreign_always by (simp add: case_prod_beta)
  then show ?thesis using c' pc(3,4) wf fresh ends assms(2) by (simp add: store_ok_def synced_def)
qed

text \<open>A run of records after a start: every ring stays at its start, so each record replaces the one before it.\<close>

lemma write_all_ok:
  assumes "store_ok ready s" "rings_fresh (st_table s)" "synced mem s" "\<forall>(g, d)\<in>set rs. length d < 4096"
  shows "\<exists>s'. write_all b junk rs s = Some s' \<and> store_ok ready s' \<and> rings_fresh (st_table s') \<and> synced mem s'
     \<and> (\<forall>g d. map_of (rev rs) g = Some d \<longrightarrow> window (mem (st_chip s')) (unat (ring_start g)) (length d) = d)
     \<and> (\<forall>x. 0x2000 \<le> x \<longrightarrow> (\<forall>(g, d)\<in>set rs. x \<notin> {unat (ring_start g)..<unat (ring_start g) + length d})
          \<longrightarrow> mem (st_chip s') x = mem (st_chip s) x)"
  using assms(4)
proof (induction rs rule: rev_induct)
  case Nil
  then show ?case using assms(1-3) by simp
next
  case (snoc r rs)
  obtain g d where r: "r = (g, d)" by fastforce
  from snoc obtain s1 where s1: "write_all b junk rs s = Some s1" "store_ok ready s1" "rings_fresh (st_table s1)" "synced mem s1"
    "\<forall>g d. map_of (rev rs) g = Some d \<longrightarrow> window (mem (st_chip s1)) (unat (ring_start g)) (length d) = d"
    "\<forall>x. 0x2000 \<le> x \<longrightarrow> (\<forall>(g, d)\<in>set rs. x \<notin> {unat (ring_start g)..<unat (ring_start g) + length d})
          \<longrightarrow> mem (st_chip s1) x = mem (st_chip s) x" by auto
  have len: "length d < 4096" using snoc.prems r by simp
  have cp: "CurPoint (ring_of g (st_table s1)) = ring_start g" using s1(3) by (simp add: rings_fresh_def)
  have num: "unat (of_nat (length d) :: u32) = length d" using len by (simp add: unat_of_nat)
  note sb = ring_start_bounds [of g]
  obtain s2 where s2: "WriteRecordData2Flash b junk (ring_of g (st_table s1)) d (of_nat (length d)) s1 = Some s2"
    "store_ok ready s2" "synced mem s2" "st_table s2 = stored (st_table s1)"
    "\<forall>x. x < 0x1000 \<or> 0x2000 \<le> x \<longrightarrow> mem (st_chip s2) x
          = (if unat (ring_start g) \<le> x \<and> x < unat (ring_start g) + length d then d ! (x - unat (ring_start g)) else mem (st_chip s1) x)"
    using write_record_ok [OF s1(2), of "ring_of g (st_table s1)" "of_nat (length d)" d junk] sb room len by (auto simp: cp num)
  have run: "write_all b junk (rs @ [r]) s = Some s2" using s1(1) s2(1) r by (simp add: write_all_append)
  have own: "window (mem (st_chip s2)) (unat (ring_start g)) (length d) = d"
    by (rule nth_equalityI) (use sb(2) s2(5) in \<open>auto simp: window_def\<close>)
  have others: "window (mem (st_chip s2)) (unat (ring_start g')) n = window (mem (st_chip s1)) (unat (ring_start g')) n"
    if "g' \<noteq> g" "n < 4096" for g' n
    by (rule window_cong) (use ring_start_apart [OF that(1)] ring_start_bounds(2) [of g'] that(2) len s2(5) in auto)
  have last: "window (mem (st_chip s2)) (unat (ring_start g')) (length d') = d'" if "map_of (rev (rs @ [r])) g' = Some d'" for g' d'
  proof (cases "g' = g")
    case True
    then show ?thesis using that own r by simp
  next
    case False
    then have m: "map_of (rev rs) g' = Some d'" using that r by simp
    then have "length d' < 4096" using snoc.prems map_of_SomeD [OF m] by auto
    then show ?thesis using others [OF False] s1(5) m by simp
  qed
  have frame: "mem (st_chip s2) x = mem (st_chip s) x"
    if "0x2000 \<le> x" "\<forall>(g, d)\<in>set (rs @ [r]). x \<notin> {unat (ring_start g)..<unat (ring_start g) + length d}" for x
    using s2(5) s1(6) that r by auto
  show ?case
    by (intro exI [of _ s2] conjI run s2(2,3)) (use s1(3) s2(4) last frame in auto)
qed

end

interpretation ref_recorder: recorder_flash ref_bus chip_cap w_mem chip_ready w_wel chip_settling
  by unfold_locales (simp add: chip_cap_def)

end
