(* ===== verification/Vtdr_State.thy ===== *)
theory Vtdr_State
  imports Vtdr_Store
begin

text \<open>
  The global variables of the recorder application (\<open>DataManager.c\<close>, \<open>GetData.c\<close>) as one record, and
  the inputs it reads. Blocks of data are kept as the lists of bytes or the clocks they consist of;
  \<open>sizeof\<close> and offsets are those of the ARM ABI.
\<close>

datatype CMD_VER = VER_NONE | VER_ENTER | VER_MIL | VER_PLUS | VER_TIME
datatype Key_status = KEY_NONE | MENU_KEY | SELE_UP_KEY | SELE_DOWN_KEY | ENTER_KEY | PRIN_KEY
datatype CMD_JOURNAL = NONE_OPR | NORMAL | ABORT | RECORD_STARTTIME | RECORD_DATA
datatype CMD_DB = NONE_DB | DBRECORD_START | DBRECORD_END

record 'c recorder =
  rc_store :: "'c store"
  curTime :: CLOCK
  startdriverclk :: CLOCK
  enddriverclk :: CLOCK
  CurPN :: u32
  LastPN20ms :: u32
  LastPN1s :: u32
  LastPN1min :: u32
  RsSpeed :: u32
  CurSpeed :: u16
  Curspeed1s :: u32
  Curspeed1min :: u32
  radionum :: u8
  CurStatus :: u8
  Time6sCnt :: u8
  Time30mincnt1 :: u8
  Time30mincnt2 :: u8
  Time30mincnt3 :: u8
  Time30mincnt4 :: u8
  Time10sCnts :: u8
  Time10sCnte :: u8
  Time20sCnt1 :: u8
  Time20sCnt2 :: u8
  Time200msflag :: bool
  Time1sflag :: bool
  Ver1sflag :: bool
  Time1minflag :: bool
  Time1msCnt :: u8
  Time200msCnt :: nat
  Time1sCnt :: nat
  Time5minCnt :: nat
  Verificationstatus :: CMD_VER
  insertcount :: u16
  keyval :: Key_status
  keyvalbak :: Key_status
  keyvalcount :: u16
  TimeChange :: u8
  DriverStatus :: u8
  AlarmFlag :: u8
  DriverRegstatus :: u8
  DisplayMin :: u8
  keepstart10s :: bool
  keepstop10s :: bool
  keepspeed5min :: bool
  keeprestatus :: bool
  keepthespeed :: bool
  locationchagestatus :: bool
  speeddel :: u8
  DoubltPointstatus :: CMD_DB
  JournalRecordstatus :: CMD_JOURNAL
  powerstatus :: u8
  paramodifystatus :: u8
  InRecordCycle :: u8
  STATUS1min :: u8
  location :: "u8 list"
  ddb_head :: "u8 list"
  ddb_data :: "(u8 \<times> u8) list"
  ddb_validlocation :: "u8 list"
  DBcnt :: u32
  ddbspeed :: "u8 list"
  ddbstatus :: "u8 list"
  basedataclk :: CLOCK
  base_speed :: "u8 list"
  base_status :: "u8 list"
  lclk :: CLOCK
  Lsizedata :: "u8 list list"
  speed1min :: "u8 list"
  over_license :: "u8 list"
  startdrivertime :: CLOCK
  enddrivertime :: CLOCK
  startlocation :: "u8 list"
  endlocation :: "u8 list"
  reg_head :: "u8 list"
  registerstatus :: u8
  power_status :: u8
  modifydata :: "u8 list"
  journal_speedstatus :: u8
  journal_times :: "u8 list"
  journal_speed :: "u8 list"
  journal_rspeed :: "u8 list"
  JNcnt :: u32

text \<open>What the ports read: the four keys and the card switch, true when the level is high.\<close>

datatype in_pin = PD14 | PD15 | PC6 | PC7 | PD4
type_synonym pins = "in_pin \<Rightarrow> bool"

text \<open>The parameters are an image of 648 bytes; these are the fields the application reads and writes.\<close>

definition upd_parameter :: "(u8 list \<Rightarrow> u8 list) \<Rightarrow> 'c recorder \<Rightarrow> 'c recorder" where
  "upd_parameter f s = s\<lparr>rc_store := (rc_store s)\<lparr>st_Parameter := f (st_Parameter (rc_store s))\<rparr>\<rparr>"

definition parameter :: "'c recorder \<Rightarrow> u8 list" where
  "parameter s = st_Parameter (rc_store s)"

definition DriverDistace :: "u8 list \<Rightarrow> u32" where "DriverDistace p = of_le32 p"
definition LimitSpeed :: "u8 list \<Rightarrow> u32" where "LimitSpeed p = of_le32 (drop 8 p)"
definition PulseNumber :: "u8 list \<Rightarrow> u8" where "PulseNumber p = p ! 167"
definition PulseCoff :: "u8 list \<Rightarrow> u16" where "PulseCoff p = of_le16 (drop 168 p)"
definition license_of :: "u8 list \<Rightarrow> u8 list" where "license_of p = take 18 (drop 170 p)"

definition clock_bytes :: "CLOCK \<Rightarrow> u8 list" where
  "clock_bytes c = [c_year c, c_month c, c_day c, c_hour c, c_minute c, c_second c]"

definition bytes_clock :: "u8 list \<Rightarrow> CLOCK" where
  "bytes_clock bs = \<lparr>c_year = bs ! 0, c_month = bs ! 1, c_day = bs ! 2, c_hour = bs ! 3, c_minute = bs ! 4, c_second = bs ! 5\<rparr>"

lemma bytes_clock_bytes [simp]: "bytes_clock (clock_bytes c) = c" "length (clock_bytes c) = 6"
  by (simp_all add: bytes_clock_def clock_bytes_def)

lemma upd_parameter_simps [simp]:
  "parameter (upd_parameter f s) = f (parameter s)"
  "st_chip (rc_store (upd_parameter f s)) = st_chip (rc_store s)"
  "st_table (rc_store (upd_parameter f s)) = st_table (rc_store s)"
  "st_large (rc_store (upd_parameter f s)) = st_large (rc_store s)"
  by (simp_all add: upd_parameter_def parameter_def)

end
