(* ===== verification/Vtdr_Inputs.thy ===== *)
theory Vtdr_Inputs
  imports Vtdr_State
begin

text \<open>
  The interrupts and inputs of \<open>GetData.c\<close>: the pulse of the wheel, the 1 ms timer with the counters it
  drives, the keys, the driver card and the sentences of the satellite receiver.
\<close>

section \<open>Pulses and the millisecond timer\<close>

definition Getthepluse :: "'c recorder \<Rightarrow> 'c recorder" where
  "Getthepluse s = upd_parameter (\<lambda>p. p[167 := PulseNumber p + 1]) (s\<lparr>CurPN := CurPN s + 1\<rparr>)"

definition scanned_key :: "pins \<Rightarrow> Key_status" where
  "scanned_key pins =
     (if \<not> pins PD14 then MENU_KEY else if \<not> pins PD15 then SELE_UP_KEY
      else if \<not> pins PC6 then SELE_DOWN_KEY else if \<not> pins PC7 then ENTER_KEY else KEY_NONE)"

definition keyscanhandler :: "pins \<Rightarrow> 'c recorder \<Rightarrow> 'c recorder" where
  "keyscanhandler pins s =
     (let tempkey = scanned_key pins
      in if tempkey \<noteq> KEY_NONE then
           (if tempkey = keyvalbak s then
              (let s = (if keyvalcount s \<noteq> 0xffff then s\<lparr>keyvalcount := keyvalcount s + 1\<rparr> else s)
               in if keyvalcount s = 300 \<and> keyvalbak s = ENTER_KEY then s\<lparr>keyval := PRIN_KEY\<rparr> else s)
            else s\<lparr>keyvalcount := 1, keyvalbak := tempkey\<rparr>)
         else
           (let s = (if 15 < keyvalcount s then
                       (let s = (if 300 < keyvalcount s \<and> keyvalbak s = ENTER_KEY
                                 then (if keyval s = KEY_NONE then s\<lparr>keyval := KEY_NONE\<rparr> else s)
                                 else s\<lparr>keyval := keyvalbak s\<rparr>)
                        in s\<lparr>keyvalcount := 0\<rparr>)
                     else s)
            in s\<lparr>keyvalcount := 0, keyvalbak := KEY_NONE\<rparr>))"

text \<open>The parts of the timer interrupt that run every five minutes, every minute and every second; the
  warnings it plays are sound only.\<close>

definition isr_five_minutes :: "'c recorder \<Rightarrow> 'c recorder" where
  "isr_five_minutes s =
     (let s = (if Time30mincnt1 s \<noteq> 0xff \<and> Time30mincnt1 s \<noteq> 0
               then let s = s\<lparr>Time30mincnt1 := Time30mincnt1 s - 1, Time20sCnt1 := 20\<rparr>
                    in if Time30mincnt1 s = 0 then s\<lparr>Time30mincnt1 := 0xff\<rparr> else s
               else s);
          s = (if Time30mincnt2 s \<noteq> 0xff \<and> Time30mincnt2 s \<noteq> 0
               then let s = s\<lparr>Time30mincnt2 := Time30mincnt2 s - 1, Time20sCnt2 := 20\<rparr>
                    in if Time30mincnt2 s = 0 then s\<lparr>Time30mincnt2 := 0xff\<rparr> else s
               else s)
      in if Time30mincnt3 s \<noteq> 0xff \<and> Time30mincnt3 s \<noteq> 0
         then let s = s\<lparr>Time30mincnt3 := Time30mincnt3 s - 1\<rparr>
              in if Time30mincnt3 s = 0 then s\<lparr>Time30mincnt3 := 0xff\<rparr> else s
         else s)"

definition isr_minute :: "'c recorder \<Rightarrow> 'c recorder" where
  "isr_minute s =
     (let s = s\<lparr>Time1minflag := True, Time1sCnt := 0\<rparr>;
          s = (if Time30mincnt4 s \<noteq> 0 \<and> Time30mincnt4 s \<noteq> 1 then s\<lparr>Time30mincnt4 := Time30mincnt4 s - 1\<rparr> else s);
          s = s\<lparr>Time5minCnt := (Time5minCnt s + 1) mod 128\<rparr>
      in if 4 < Time5minCnt s then isr_five_minutes (s\<lparr>Time5minCnt := 0\<rparr>) else s)"

text \<open>The seconds it counts down: for the answer of the verification, for a start and a stop, and for the
  two warnings on the display.\<close>

definition count_verification :: "'c recorder \<Rightarrow> 'c recorder" where
  "count_verification s =
     (if Time6sCnt s \<noteq> 0
      then let s = s\<lparr>Time6sCnt := Time6sCnt s - 1\<rparr>
           in if Time6sCnt s = 0 \<and> Verificationstatus s = VER_ENTER then s\<lparr>Verificationstatus := VER_NONE\<rparr> else s
      else s)"

definition count_start :: "'c recorder \<Rightarrow> 'c recorder" where
  "count_start s =
     (if Time10sCnts s \<noteq> 0
      then let s = s\<lparr>Time10sCnts := Time10sCnts s - 1\<rparr> in if Time10sCnts s = 0 then s\<lparr>keepstart10s := True\<rparr> else s
      else s)"

definition count_stop :: "'c recorder \<Rightarrow> 'c recorder" where
  "count_stop s =
     (if Time10sCnte s \<noteq> 0
      then let s = s\<lparr>Time10sCnte := Time10sCnte s - 1\<rparr> in if Time10sCnte s = 0 then s\<lparr>keepstop10s := True\<rparr> else s
      else s)"

definition count_display :: "'c recorder \<Rightarrow> 'c recorder" where
  "count_display s =
     (let s = (if Time20sCnt1 s \<noteq> 0 then s\<lparr>Time20sCnt1 := Time20sCnt1 s - 1\<rparr> else s)
      in if Time20sCnt2 s \<noteq> 0 then s\<lparr>Time20sCnt2 := Time20sCnt2 s - 1\<rparr> else s)"

definition isr_second :: "'c recorder \<Rightarrow> 'c recorder" where
  "isr_second s =
     (let s = s\<lparr>Time1sflag := True, Ver1sflag := True, Time200msCnt := 0, Time1sCnt := (Time1sCnt s + 1) mod 64\<rparr>;
          s = count_display (count_stop (count_start (count_verification s)))
      in if 59 < Time1sCnt s then isr_minute s else s)"

definition isr_scan :: "pins \<Rightarrow> 'c recorder \<Rightarrow> 'c recorder" where
  "isr_scan pins s =
     (let s = s\<lparr>Time1msCnt := Time1msCnt s + 1\<rparr>
      in if Time1msCnt s mod 10 = 0 then keyscanhandler pins s else s)"

definition Time3_irg_handler :: "pins \<Rightarrow> 'c recorder \<Rightarrow> 'c recorder" where
  "Time3_irg_handler pins s =
     (let s = isr_scan pins s
      in if 199 < Time1msCnt s
         then let s = s\<lparr>Time1msCnt := 0, Time200msflag := True, Time200msCnt := (Time200msCnt s + 1) mod 8\<rparr>
              in if 4 < Time200msCnt s then isr_second s else s
         else s)"

section \<open>Speed\<close>

text \<open>Dividing by a pulse coefficient of 0 is undefined.\<close>

definition ComputeSpeed :: "u8 list \<Rightarrow> u32 \<Rightarrow> u32 option" where
  "ComputeSpeed para pulse =
     (if PulseCoff para = 0 then None
      else
        (let T = 7200000 div ucast (PulseCoff para) :: u32;
             T = (T * 10) div 2;
             spe = T * pulse div 2000;
             spe = (if 5 \<le> spe mod 10 then spe div 10 + 1 else spe div 10)
         in Some (if 255 < spe then 255 else spe)))"

section \<open>Driver card\<close>

definition IckaHandler :: "pins \<Rightarrow> u8 list \<Rightarrow> 'c recorder \<Rightarrow> 'c recorder" where
  "IckaHandler pins licence s =
     (if pins PD4 \<and> \<not> keeprestatus s then
        (let s = s\<lparr>insertcount := insertcount s + 1\<rparr>
         in if insertcount s = 100
            then upd_parameter (put_at 170 licence)
                   (s\<lparr>insertcount := 0, keeprestatus := True, DriverRegstatus := 0x01,
                      AlarmFlag := AlarmFlag s AND NOT 0x02, Time30mincnt2 := 0\<rparr>)
            else s)
      else if keeprestatus s \<and> \<not> pins PD4 then
        s\<lparr>keeprestatus := False, DriverRegstatus := 0x02,
          DriverStatus := ((DriverStatus s AND NOT 0x01) OR 0x04) AND NOT 0x08,
          AlarmFlag := AlarmFlag s AND NOT 0x01, Time30mincnt1 := 0\<rparr>
      else if \<not> pins PD4 then
        (let s = s\<lparr>insertcount := 0\<rparr>
         in if AlarmFlag s AND 0x02 \<noteq> 0x02 then s\<lparr>AlarmFlag := AlarmFlag s OR 0x02\<rparr> else s)
      else s)"

section \<open>Satellite receiver\<close>

definition ASCII2char :: "u8 \<Rightarrow> u8" where
  "ASCII2char number = (if number < 58 \<and> 47 < number then number - 48 else 0)"

definition CountTime :: "CLOCK \<Rightarrow> u32" where
  "CountTime t = ucast (c_hour t) * 3600 + ucast (c_minute t) * 60 + ucast (c_second t)"

text \<open>The difference of the two times is kept in 8 bits.\<close>

definition GetTheGPSTime :: "u8 list \<Rightarrow> 'c recorder \<Rightarrow> 'c recorder" where
  "GetTheGPSTime tbuf s =
     (let part = (\<lambda>i. 16 * ASCII2char (tbuf ! (2 * i)) + ASCII2char (tbuf ! (2 * i + 1)));
          h = part 0; m = part 1; sec = part 2;
          nwtime = CountTime (curTime s);
          gtime = CountTime ((curTime s)\<lparr>c_hour := h, c_minute := m, c_second := sec\<rparr>);
          dtime = (if nwtime < gtime then ucast (gtime - nwtime) else ucast (nwtime - gtime)) :: u8
      in if 10 < dtime \<and> dtime < 200
         then s\<lparr>curTime := (curTime s)\<lparr>c_hour := h, c_minute := m, c_second := sec\<rparr>\<rparr>
         else s)"

text \<open>Decimal digits, a point left out.\<close>

definition read_digits :: "u8 list \<Rightarrow> nat list \<Rightarrow> u32" where
  "read_digits tbuf is = foldl (\<lambda>v i. ucast (ASCII2char (tbuf ! i)) + 10 * v) 0 is"

definition GetGPSLocation1 :: "u8 list \<Rightarrow> 'c recorder \<Rightarrow> 'c recorder" where
  "GetGPSLocation1 tbuf s = s\<lparr>location := put_at 0 (le32 (read_digits tbuf (filter (\<lambda>i. i \<noteq> 4) [0..<9]))) (location s)\<rparr>"

definition GetGPSLocation2 :: "u8 list \<Rightarrow> 'c recorder \<Rightarrow> 'c recorder" where
  "GetGPSLocation2 tbuf s = s\<lparr>location := put_at 4 (le32 (read_digits tbuf (filter (\<lambda>i. i \<noteq> 5) [0..<10]))) (location s)\<rparr>"

text \<open>The index of the next two loops is one byte: with a length over 255 they run for ever, unless the
  second one meets a point.\<close>

definition GetGPSLocation3 :: "u8 list \<Rightarrow> u16 \<Rightarrow> 'c recorder \<Rightarrow> 'c recorder option" where
  "GetGPSLocation3 tbuf lenth s =
     (if 255 < lenth then None
      else
        (let k = (if tbuf ! 0 = 45 then 1 else 0);
             v = foldl (\<lambda>v i. if tbuf ! i \<noteq> 46 then ucast (ASCII2char (tbuf ! i)) + 10 * v else v) (0 :: u16) [k..<unat lenth];
             v = (if k = 1 then 0 - v else v)
         in Some (s\<lparr>location := put_at 8 (le16 v) (location s)\<rparr>)))"

fun speed_digits :: "u8 list \<Rightarrow> u32 \<Rightarrow> u32" where
  "speed_digits [] v = v"
| "speed_digits (x # xs) v = (if x = 46 then v else speed_digits xs (ucast (ASCII2char x) + 10 * v))"

definition GetGPSSpeed :: "u8 list \<Rightarrow> u32 \<Rightarrow> 'c recorder \<Rightarrow> 'c recorder option" where
  "GetGPSSpeed tbuf lenth s =
     (if 255 < lenth \<and> \<not> List.member (take 256 tbuf) 46 then None
      else Some (s\<lparr>RsSpeed := speed_digits (take (unat lenth) tbuf) 0\<rparr>))"

definition GettheSinaldata :: "u8 list \<Rightarrow> 'c recorder \<Rightarrow> 'c recorder" where
  "GettheSinaldata tbuf s = s\<lparr>radionum := 10 * ASCII2char (tbuf ! 0) + ASCII2char (tbuf ! 1)\<rparr>"

end
