(* ===== verification/Vtdr_Handlers.thy ===== *)
theory Vtdr_Handlers
  imports Vtdr_Inputs
begin

text \<open>
  The handlers of \<open>DataManager.c\<close> that the main loop of \<open>application.c\<close> calls, with \<open>GetSpeedandTime\<close> of
  \<open>GetData.c\<close>. They turn the speed, the signals and the clock into the records of the store. A copy loop
  written \<open>for (i = 0; i++; i < n)\<close> tests \<open>i++\<close>, which is 0, and copies nothing: it has no counterpart
  here. The result is \<open>None\<close> where the code leaves an array or divides by zero. \<open>CurSpeed\<close> is a \<open>short\<close>
  that \<open>DataManager.c\<close> declares as a \<open>long\<close>; the two bytes after it are padding, read as zero.
\<close>

section \<open>Parts the handlers share\<close>

definition put_record :: "'c spi_bus \<Rightarrow> (nat \<Rightarrow> u16) \<Rightarrow> (PartitionTable \<Rightarrow> StructPT) \<Rightarrow> u8 list \<Rightarrow> u32 \<Rightarrow> 'c recorder \<Rightarrow> 'c recorder option" where
  "put_record b junk ring buff num s = do {
     st \<leftarrow> WriteRecordData2Flash b junk (ring (st_table (rc_store s))) buff num (rc_store s);
     Some (s\<lparr>rc_store := st\<rparr>) }"

definition set_nth :: "nat \<Rightarrow> 'a \<Rightarrow> 'a list \<Rightarrow> 'a list option" where
  "set_nth i x xs = (if i < length xs then Some (xs[i := x]) else None)"

text \<open>\<open>memcpy\<close> of a clock with \<open>strlen\<close> as its length: the bytes before the first zero. The byte behind
  \<open>curTime\<close> is taken to be zero.\<close>

definition copy_clock :: "CLOCK \<Rightarrow> CLOCK \<Rightarrow> CLOCK" where
  "copy_clock dst src =
     (let n = length (takeWhile (\<lambda>x. x \<noteq> 0) (clock_bytes src))
      in bytes_clock (take n (clock_bytes src) @ drop n (clock_bytes dst)))"

text \<open>\<open>mktime\<close> of the C library in a time zone without daylight saving: fields out of range carry over;
  the year counts from 1900, the month from 0.\<close>

definition days_of_civil :: "int \<Rightarrow> int \<Rightarrow> int \<Rightarrow> int" where
  "days_of_civil y m d =
     (let y' = y + m div 12; m' = m mod 12; p = y' - 1;
          leap = 4 dvd y' \<and> (\<not> 100 dvd y' \<or> 400 dvd y')
      in 365 * (y' - 1970) + (p div 4 - p div 100 + p div 400 - 477)
         + [0, 31, 59, 90, 120, 151, 181, 212, 243, 273, 304, 334] ! nat m' + (if 1 < m' \<and> leap then 1 else 0) + (d - 1))"

definition mktime :: "int \<Rightarrow> int \<Rightarrow> int \<Rightarrow> int \<Rightarrow> int \<Rightarrow> int \<Rightarrow> int" where
  "mktime year mon mday hour mins sec = 86400 * days_of_civil (1900 + year) mon mday + 3600 * hour + 60 * mins + sec"

definition timechange :: "CLOCK \<Rightarrow> u32" where
  "timechange t = word_of_int (mktime (uint (BCD2Char (c_year t)) + 100) (uint (BCD2Char (c_month t)) - 1) (uint (BCD2Char (c_day t)))
     (uint (BCD2Char (c_hour t))) (uint (BCD2Char (c_minute t))) 0)"

section \<open>The status of the vehicle\<close>

text \<open>The ten seconds a start or a stop must last.\<close>

definition watch_motion :: "'c recorder \<Rightarrow> 'c recorder" where
  "watch_motion s =
     (if 0 < CurSpeed s \<and> \<not> keepstart10s s then
        (if Time10sCnts s = 0 then s\<lparr>Time10sCnts := 10, Time10sCnte := 0, keepstop10s := False\<rparr> else s)
      else if CurSpeed s = 0 \<and> \<not> keepstop10s s then
        (if Time10sCnte s = 0 then s\<lparr>Time10sCnte := 10, Time10sCnts := 0, keepstart10s := False\<rparr> else s)
      else s)"

text \<open>Driving and the time driven. When the vehicle has stopped the code reads \<open>timenowmin\<close>, which
  nothing has set: \<open>stale\<close> is what it finds.\<close>

definition drive_on :: "'c recorder \<Rightarrow> 'c recorder" where
  "drive_on s =
     (let s = (if DriverStatus s AND 0x01 = 0 then s\<lparr>startdriverclk := copy_clock (startdriverclk s) (curTime s)\<rparr> else s)
      in s\<lparr>DriverStatus := ((DriverStatus s OR 0x01) AND NOT 0x02) AND NOT 0x04\<rparr>)"

definition drive_time :: "'c recorder \<Rightarrow> 'c recorder" where
  "drive_time s =
     (let driven = timechange (curTime s) - timechange (startdriverclk s);
          s = (if 225 < driven then
                 (let s = s\<lparr>DisplayMin := ucast driven\<rparr>
                  in if AlarmFlag s AND 0x01 \<noteq> 0x01 then s\<lparr>AlarmFlag := AlarmFlag s OR 0x01\<rparr> else s)
               else s)
      in if 15 < driven then s\<lparr>DriverStatus := DriverStatus s OR 0x08\<rparr> else s)"

definition drive_stop :: "u32 \<Rightarrow> 'c recorder \<Rightarrow> 'c recorder" where
  "drive_stop stale s =
     (let s = (if DriverStatus s AND 0x02 = 0 then s\<lparr>enddriverclk := copy_clock (enddriverclk s) (curTime s)\<rparr> else s);
          s = s\<lparr>DriverStatus := DriverStatus s OR 0x02\<rparr>
      in if 10 < stale - timechange (curTime s)
         then s\<lparr>DriverStatus := ((DriverStatus s AND NOT 0x01) OR 0x04) AND NOT 0x08,
                AlarmFlag := AlarmFlag s AND NOT 0x01, Time30mincnt1 := 0\<rparr>
         else s)"

definition watch_driving :: "u32 \<Rightarrow> 'c recorder \<Rightarrow> 'c recorder" where
  "watch_driving stale s =
     (if keepstart10s s then drive_time (drive_on s)
      else if keepstop10s s then drive_stop stale s
      else s)"

definition watch_doubt :: "'c recorder \<Rightarrow> 'c recorder" where
  "watch_doubt s =
     (if (locationchagestatus s \<and> DriverStatus s AND 0x01 \<noteq> 0) \<or> DriverStatus s AND 0x02 \<noteq> 0
      then (if DoubltPointstatus s = DBRECORD_START then s\<lparr>DoubltPointstatus := DBRECORD_END\<rparr> else s)
      else if DriverStatus s AND 0x01 \<noteq> 0
      then (if DoubltPointstatus s \<noteq> DBRECORD_START then s\<lparr>DoubltPointstatus := DBRECORD_START\<rparr> else s)
      else (if DoubltPointstatus s \<noteq> NONE_DB then s\<lparr>DoubltPointstatus := NONE_DB\<rparr> else s))"

definition watch_journal :: "'c recorder \<Rightarrow> 'c recorder" where
  "watch_journal s =
     (if 40 < CurSpeed s then
        (if \<not> keepthespeed s then s\<lparr>keepthespeed := True, JournalRecordstatus := RECORD_STARTTIME\<rparr>
         else if keepspeed5min s then
           (if speeddel s < 11
            then s\<lparr>JournalRecordstatus := NORMAL, AlarmFlag := AlarmFlag s AND NOT 0x08, Time30mincnt4 := 0\<rparr>
            else s\<lparr>JournalRecordstatus := ABORT, AlarmFlag := AlarmFlag s OR 0x08\<rparr>)
         else s)
      else s)"

definition watch_limit :: "'c recorder \<Rightarrow> 'c recorder" where
  "watch_limit s =
     (if LimitSpeed (parameter s) - 5 < ucast (CurSpeed s)
      then (if AlarmFlag s AND 0x04 \<noteq> 0x04 then s\<lparr>AlarmFlag := AlarmFlag s OR 0x04\<rparr> else s)
      else s\<lparr>AlarmFlag := AlarmFlag s AND NOT 0x04\<rparr>)"

definition ValueStatusHandler :: "u32 \<Rightarrow> pins \<Rightarrow> u8 list \<Rightarrow> 'c recorder \<Rightarrow> 'c recorder" where
  "ValueStatusHandler stale pins licence s =
     watch_limit (watch_journal (IckaHandler pins licence (watch_doubt (watch_driving stale (watch_motion s)))))"

definition AlarmHandler :: "'c recorder \<Rightarrow> 'c recorder" where
  "AlarmHandler s =
     (let s = (if AlarmFlag s AND 0x01 = 0x01 \<and> Time30mincnt1 s = 0 then s\<lparr>Time30mincnt1 := 5, Time20sCnt1 := 20\<rparr> else s);
          s = (if AlarmFlag s AND 0x02 = 0x02 \<and> Time30mincnt2 s = 0 then s\<lparr>Time30mincnt2 := 5, Time20sCnt2 := 20\<rparr> else s);
          s = (if AlarmFlag s AND 0x04 = 0x04 \<and> Time30mincnt3 s = 0 then s\<lparr>Time30mincnt3 := 5\<rparr> else s)
      in if AlarmFlag s AND 0x08 = 0x08 \<and> Time30mincnt4 s = 0 then s\<lparr>Time30mincnt4 := 5\<rparr> else s)"

end
