(* ===== verification/Vtdr_Records.thy ===== *)
theory Vtdr_Records
  imports Vtdr_Handlers
begin

text \<open>The handlers of \<open>DataManager.c\<close> that collect a record and write it, and the main loop.\<close>

section \<open>Speed by the second, position by the minute\<close>

definition base_bytes :: "'c recorder \<Rightarrow> u8 list" where
  "base_bytes s = clock_bytes (basedataclk s) @ base_speed s @ base_status s"

definition base_put :: "nat \<Rightarrow> u8 \<Rightarrow> u8 \<Rightarrow> 'c recorder \<Rightarrow> 'c recorder option" where
  "base_put i speed status s = do {
     sp \<leftarrow> set_nth i speed (base_speed s);
     st \<leftarrow> set_nth i status (base_status s);
     Some (s\<lparr>base_speed := sp, base_status := st\<rparr>) }"

definition base_write :: "'c spi_bus \<Rightarrow> (nat \<Rightarrow> u16) \<Rightarrow> 'c recorder \<Rightarrow> 'c recorder option" where
  "base_write b junk s = put_record b junk BaseData (base_bytes s) 126 s"

definition base_driving :: "'c spi_bus \<Rightarrow> (nat \<Rightarrow> u16) \<Rightarrow> 'c recorder \<Rightarrow> 'c recorder option" where
  "base_driving b junk s =
     (if c_second (curTime s) = 0 then do {
        s \<leftarrow> (if InRecordCycle s AND 0x10 \<noteq> 0
              then do { s \<leftarrow> base_put 59 (ucast (Curspeed1s s)) (CurStatus s) s; base_write b junk s }
              else Some s);
        Some (s\<lparr>basedataclk := curTime s, InRecordCycle := InRecordCycle s OR 0x10\<rparr>) }
      else base_put (unat (BCD2Char (c_second (curTime s))) - 1) (ucast (Curspeed1s s)) (CurStatus s) s)"

definition base_standing :: "'c spi_bus \<Rightarrow> (nat \<Rightarrow> u16) \<Rightarrow> 'c recorder \<Rightarrow> 'c recorder option" where
  "base_standing b junk s =
     (if c_second (curTime s) \<noteq> 0 then base_put (unat (BCD2Char (c_second (curTime s)))) 0xff 0xff s
      else do { s \<leftarrow> base_write b junk s; Some (s\<lparr>InRecordCycle := InRecordCycle s AND NOT 0x10\<rparr>) })"

definition BaseDataHandler :: "'c spi_bus \<Rightarrow> (nat \<Rightarrow> u16) \<Rightarrow> 'c recorder \<Rightarrow> 'c recorder option" where
  "BaseDataHandler b junk s =
     (if DriverStatus s AND 0x01 \<noteq> 0 then
        (let s = s\<lparr>STATUS1min := CurStatus s\<rparr>
         in if TimeChange s AND 0x20 \<noteq> 0
            then do { s \<leftarrow> base_driving b junk (s\<lparr>TimeChange := TimeChange s AND NOT 0x20\<rparr>); Some (s\<lparr>STATUS1min := 0\<rparr>) }
            else Some s)
      else if InRecordCycle s AND 0x10 \<noteq> 0 \<and> TimeChange s AND 0x20 \<noteq> 0
      then base_standing b junk (s\<lparr>TimeChange := TimeChange s AND NOT 0x20\<rparr>)
      else Some s)"

definition location_bytes :: "'c recorder \<Rightarrow> u8 list" where
  "location_bytes s = clock_bytes (lclk s) @ concat (Lsizedata s) @ speed1min s"

definition location_put :: "nat \<Rightarrow> u8 list \<Rightarrow> u8 \<Rightarrow> 'c recorder \<Rightarrow> 'c recorder option" where
  "location_put i place speed s = do {
     ls \<leftarrow> set_nth i place (Lsizedata s);
     sp \<leftarrow> set_nth i speed (speed1min s);
     Some (s\<lparr>Lsizedata := ls, speed1min := sp\<rparr>) }"

definition location_write :: "'c spi_bus \<Rightarrow> (nat \<Rightarrow> u16) \<Rightarrow> 'c recorder \<Rightarrow> 'c recorder option" where
  "location_write b junk s = put_record b junk LocationData (location_bytes s) 666 s"

definition location_driving :: "'c spi_bus \<Rightarrow> (nat \<Rightarrow> u16) \<Rightarrow> 'c recorder \<Rightarrow> 'c recorder option" where
  "location_driving b junk s =
     (if c_minute (curTime s) = 0 then do {
        s \<leftarrow> (if InRecordCycle s AND 0x20 \<noteq> 0
              then do { s \<leftarrow> location_put 59 (location s) (ucast (Curspeed1min s)) s; location_write b junk s }
              else Some s);
        Some (s\<lparr>lclk := curTime s, InRecordCycle := InRecordCycle s OR 0x20\<rparr>) }
      else location_put (unat (c_minute (curTime s)) - 1) (location s) (ucast (Curspeed1min s)) s)"

definition location_standing :: "'c spi_bus \<Rightarrow> (nat \<Rightarrow> u16) \<Rightarrow> 'c recorder \<Rightarrow> 'c recorder option" where
  "location_standing b junk s =
     (if c_minute (curTime s) \<noteq> 0 then location_put (unat (c_minute (curTime s)) - 1) (replicate 10 0xff) 0x7f s
      else do { s \<leftarrow> location_write b junk s; Some (s\<lparr>InRecordCycle := InRecordCycle s AND NOT 0x10\<rparr>) })"

definition LocationHandler :: "'c spi_bus \<Rightarrow> (nat \<Rightarrow> u16) \<Rightarrow> 'c recorder \<Rightarrow> 'c recorder option" where
  "LocationHandler b junk s =
     (if DriverStatus s AND 0x01 \<noteq> 0 then
        (if TimeChange s AND 0x10 \<noteq> 0 then location_driving b junk (s\<lparr>TimeChange := TimeChange s AND NOT 0x10\<rparr>) else Some s)
      else if InRecordCycle s AND 0x20 \<noteq> 0 \<and> TimeChange s AND 0x10 \<noteq> 0
      then location_standing b junk (s\<lparr>TimeChange := TimeChange s AND NOT 0x10\<rparr>)
      else Some s)"

section \<open>Driving too long, cards, power and parameters\<close>

definition OverDriverHandler :: "'c spi_bus \<Rightarrow> (nat \<Rightarrow> u16) \<Rightarrow> 'c recorder \<Rightarrow> 'c recorder option" where
  "OverDriverHandler b junk s =
     (if DriverStatus s AND 0x08 \<noteq> 0 then
        (let s = s\<lparr>startdrivertime := startdriverclk s, over_license := license_of (parameter s), startlocation := location s\<rparr>
         in if DriverStatus s AND 0x04 \<noteq> 0 then
              (let s = s\<lparr>enddrivertime := enddriverclk s, endlocation := location s\<rparr>
               in put_record b junk OverSpeedRecord
                    (over_license s @ clock_bytes (startdrivertime s) @ clock_bytes (enddrivertime s) @ startlocation s @ endlocation s) 50 s)
            else Some s)
      else Some s)"

definition register_record :: "'c spi_bus \<Rightarrow> (nat \<Rightarrow> u16) \<Rightarrow> 'c recorder \<Rightarrow> 'c recorder option" where
  "register_record b junk s = do {
     s \<leftarrow> put_record b junk DriverReRecord (reg_head s @ [registerstatus s]) 25 s;
     Some (s\<lparr>DriverRegstatus := 0\<rparr>) }"

definition DrvierRegisterHandler :: "'c spi_bus \<Rightarrow> (nat \<Rightarrow> u16) \<Rightarrow> 'c recorder \<Rightarrow> 'c recorder option" where
  "DrvierRegisterHandler b junk s =
     (if DriverRegstatus s AND 0x01 \<noteq> 0 \<or> DriverRegstatus s AND 0x02 \<noteq> 0
      then register_record b junk (s\<lparr>registerstatus := (if DriverRegstatus s AND 0x01 \<noteq> 0 then 0x01 else 0x02)\<rparr>)
      else Some s)"

definition PowerHandle :: "'c spi_bus \<Rightarrow> (nat \<Rightarrow> u16) \<Rightarrow> 'c recorder \<Rightarrow> 'c recorder option" where
  "PowerHandle b junk s =
     (if powerstatus s AND 0x01 \<noteq> 0 \<or> DriverRegstatus s AND 0x02 \<noteq> 0
      then put_record b junk PowerOffRunRecord (modifydata s) 7 (s\<lparr>power_status := powerstatus s, powerstatus := 0\<rparr>)
      else Some s)"

definition ModifyHandle :: "'c spi_bus \<Rightarrow> (nat \<Rightarrow> u16) \<Rightarrow> 'c recorder \<Rightarrow> 'c recorder option" where
  "ModifyHandle b junk s =
     (if paramodifystatus s \<noteq> 0 then put_record b junk ModifyRecord (modifydata s) 7 (s\<lparr>paramodifystatus := 0\<rparr>) else Some s)"

section \<open>Doubtful points and the journal\<close>

definition ddb_bytes :: "'c recorder \<Rightarrow> u8 list" where
  "ddb_bytes s = ddb_head s @ concat (List.map (\<lambda>(v, st). [v, st]) (ddb_data s)) @ ddb_validlocation s"

definition DoubltPointHandler :: "'c spi_bus \<Rightarrow> (nat \<Rightarrow> u16) \<Rightarrow> 'c recorder \<Rightarrow> 'c recorder option" where
  "DoubltPointHandler b junk s =
     (case DoubltPointstatus s of
        DBRECORD_START \<Rightarrow> do {
          let n = (if DBcnt s = 0 then 100 else DBcnt s) - 1;
          sp \<leftarrow> set_nth (unat n) (ucast (CurSpeed s)) (ddbspeed s);
          st \<leftarrow> set_nth (unat n) (CurStatus s) (ddbstatus s);
          Some (s\<lparr>DBcnt := n, ddbspeed := sp, ddbstatus := st\<rparr>) }
      | DBRECORD_END \<Rightarrow>
          (if unat (DBcnt s) < 100 then do {
             let k = unat (DBcnt s);
             let s = s\<lparr>ddb_data := replicate 100 (ddbspeed s ! k, ddbstatus s ! k)\<rparr>;
             s \<leftarrow> put_record b junk DoubtPointData (ddb_bytes s) 234 s;
             Some (s\<lparr>DoubltPointstatus := NONE_DB\<rparr>) }
           else None)
      | NONE_DB \<Rightarrow> Some s)"

definition journal_bytes :: "'c recorder \<Rightarrow> u8 list" where
  "journal_bytes s = journal_speedstatus s # journal_times s @ journal_speed s @ journal_rspeed s"

definition journal_sample :: "'c recorder \<Rightarrow> 'c recorder option" where
  "journal_sample s = do {
     r \<leftarrow> set_nth (unat (JNcnt s)) (ucast (RsSpeed s)) (journal_rspeed s);
     v \<leftarrow> set_nth (unat (JNcnt s)) (ucast (CurSpeed s)) (journal_speed s);
     Some (s\<lparr>journal_rspeed := r, journal_speed := v\<rparr>) }"

definition journal_end :: "'c spi_bus \<Rightarrow> (nat \<Rightarrow> u16) \<Rightarrow> u8 \<Rightarrow> 'c recorder \<Rightarrow> 'c recorder option" where
  "journal_end b junk code s =
     (let s = s\<lparr>journal_speedstatus := code, JournalRecordstatus := NONE_OPR\<rparr>
      in put_record b junk journalRecord (journal_bytes s) 133 s)"

definition JournalHandle :: "'c spi_bus \<Rightarrow> (nat \<Rightarrow> u16) \<Rightarrow> 'c recorder \<Rightarrow> 'c recorder option" where
  "JournalHandle b junk s =
     (case JournalRecordstatus s of
        NORMAL \<Rightarrow> journal_end b junk 1 s
      | ABORT \<Rightarrow> journal_end b junk 2 s
      | RECORD_STARTTIME \<Rightarrow>
          do { s \<leftarrow> journal_sample (s\<lparr>JNcnt := 0\<rparr>); Some (s\<lparr>JNcnt := 1, JournalRecordstatus := RECORD_DATA\<rparr>) }
      | RECORD_DATA \<Rightarrow>
          do { s \<leftarrow> journal_sample s;
               Some (if JNcnt s = 59 then s\<lparr>JNcnt := 0, JournalRecordstatus := NONE_OPR\<rparr> else s) }
      | NONE_OPR \<Rightarrow> Some s)"

section \<open>The main loop\<close>

text \<open>The pulses since the last look, unless the last look saw none at all.\<close>

definition pulses_since :: "u32 \<Rightarrow> 'c recorder \<Rightarrow> u32" where
  "pulses_since before s = (if before = 0 then CurPN s else CurPN s - before)"

definition odometer :: "u32 \<Rightarrow> u32" where
  "odometer d = 1000000 * ucast (BCD2Char (ucast (drop_bit 24 d))) + (10000 * ucast (BCD2Char (ucast (drop_bit 16 d)))
     + (ucast (BCD2Char (ucast d)) + 100 * ucast (BCD2Char (ucast (drop_bit 8 d)))))"

definition odometer_bcd :: "u32 \<Rightarrow> u32" where
  "odometer_bcd t = ucast (Char2BCD (ucast (t mod 100))) + ucast (Char2BCD (ucast (t mod 10000 div 100))) * 256
     + ucast (Char2BCD (ucast (t mod 1000000 div 10000))) * 65536 + ucast (Char2BCD (ucast (t mod 100000000 div 1000000))) * 16777216"

definition at_200ms :: "'c spi_bus \<Rightarrow> (nat \<Rightarrow> u16) \<Rightarrow> 'c recorder \<Rightarrow> 'c recorder option" where
  "at_200ms b junk s =
     (if Time200msflag s then do {
        v \<leftarrow> ComputeSpeed (parameter s) (pulses_since (LastPN20ms s) s);
        DoubltPointHandler b junk (s\<lparr>Time200msflag := False, LastPN20ms := CurPN s, CurSpeed := ucast v\<rparr>) }
      else Some s)"

definition at_second :: "'c spi_bus \<Rightarrow> (nat \<Rightarrow> u16) \<Rightarrow> CLOCK \<Rightarrow> 'c recorder \<Rightarrow> 'c recorder option" where
  "at_second b junk now s =
     (if Time1sflag s then do {
        let s = s\<lparr>curTime := now, TimeChange := TimeChange s OR 0x20\<rparr>;
        v \<leftarrow> ComputeSpeed (parameter s) (pulses_since (LastPN1s s) s);
        JournalHandle b junk (s\<lparr>LastPN1s := CurPN s, Time1sflag := False, Curspeed1s := v div 5\<rparr>) }
      else Some s)"

definition at_minute :: "'c recorder \<Rightarrow> 'c recorder option" where
  "at_minute s =
     (if Time1minflag s then do {
        let pulse = pulses_since (LastPN1min s) s;
        let s = s\<lparr>LastPN1min := CurPN s, Time1minflag := False, TimeChange := TimeChange s OR 0x10\<rparr>;
        v \<leftarrow> ComputeSpeed (parameter s) pulse;
        let s = s\<lparr>Curspeed1min := v div 300\<rparr>;
        let t = Curspeed1min s div 6 + odometer (DriverDistace (parameter s));
        Some (upd_parameter (put_at 0 (le32 (odometer_bcd t))) s) }
      else Some s)"

definition GetSpeedandTime :: "'c spi_bus \<Rightarrow> (nat \<Rightarrow> nat \<Rightarrow> u16) \<Rightarrow> CLOCK \<Rightarrow> 'c recorder \<Rightarrow> 'c recorder option" where
  "GetSpeedandTime b junk now s = do { s \<leftarrow> at_200ms b (junk 0) s; s \<leftarrow> at_second b (junk 1) now s; at_minute s }"

text \<open>What the peripherals give in one round: the time of the clock chip, the port pins, the licence number on
  the card; and what the stack holds where the code reads variables it has not set, call by call.\<close>

record inputs =
  in_now :: CLOCK
  in_pins :: pins
  in_licence :: "u8 list"
  in_stale :: u32
  in_junk :: "nat \<Rightarrow> nat \<Rightarrow> u16"

definition cycle :: "'c spi_bus \<Rightarrow> inputs \<Rightarrow> 'c recorder \<Rightarrow> 'c recorder option" where
  "cycle b x s = do {
     s \<leftarrow> GetSpeedandTime b (in_junk x) (in_now x) s;
     let s = ValueStatusHandler (in_stale x) (in_pins x) (in_licence x) s;
     let s = AlarmHandler s;
     s \<leftarrow> BaseDataHandler b (in_junk x 2) s;
     s \<leftarrow> LocationHandler b (in_junk x 3) s;
     s \<leftarrow> OverDriverHandler b (in_junk x 4) s;
     s \<leftarrow> DrvierRegisterHandler b (in_junk x 5) s;
     s \<leftarrow> PowerHandle b (in_junk x 6) s;
     ModifyHandle b (in_junk x 7) s }"

end
