(* ===== verification/Vtdr_Safety.thy ===== *)
theory Vtdr_Safety
  imports Vtdr_Records
begin

text \<open>
  What every round of the main loop and every interrupt keep: the store stays in order, the records keep
  their sizes, and the flash changes only where the first record of each ring lies.
\<close>

section \<open>The invariant\<close>

definition flash_inv :: "('c \<Rightarrow> bool) \<Rightarrow> 'c recorder \<Rightarrow> bool" where
  "flash_inv ready s \<longleftrightarrow> store_ok ready (rc_store s) \<and> rings_fresh (st_table (rc_store s))"

definition rec_wf :: "'c recorder \<Rightarrow> bool" where
  "rec_wf s \<longleftrightarrow> length (st_Parameter (rc_store s)) = 648 \<and> length (location s) = 10 \<and> length (ddb_head s) = 24 \<and> length (ddb_data s) = 100 \<and> length (ddb_validlocation s) = 10
     \<and> length (ddbspeed s) = 100 \<and> length (ddbstatus s) = 100 \<and> length (base_speed s) = 60 \<and> length (base_status s) = 60
     \<and> length (Lsizedata s) = 60 \<and> (\<forall>l\<in>set (Lsizedata s). length l = 10) \<and> length (speed1min s) = 60
     \<and> length (reg_head s) = 24 \<and> length (modifydata s) = 7"

text \<open>No journal record comes to its end and no drive is both too long and over.\<close>

definition quiet :: "'c recorder \<Rightarrow> bool" where
  "quiet s \<longleftrightarrow> \<not> keepspeed5min s \<and> JournalRecordstatus s \<noteq> NORMAL \<and> JournalRecordstatus s \<noteq> ABORT
     \<and> \<not> (DriverStatus s AND 0x08 \<noteq> 0 \<and> DriverStatus s AND 0x04 \<noteq> 0)"

fun rec_len :: "ring \<Rightarrow> nat" where
  "rec_len RDoubt = 234"
| "rec_len RLocation = 666"
| "rec_len ROverSpeed = 0"
| "rec_len RPowerOff = 7"
| "rec_len RModify = 7"
| "rec_len RBase = 126"
| "rec_len RDriver = 25"
| "rec_len RJournal = 0"

definition untouched :: "('c \<Rightarrow> nat \<Rightarrow> u8) \<Rightarrow> 'c recorder \<Rightarrow> 'c recorder \<Rightarrow> bool" where
  "untouched mem s s' \<longleftrightarrow> (\<forall>x. 0x2000 \<le> x \<longrightarrow> (\<forall>g. x \<notin> {unat (ring_start g)..<unat (ring_start g) + rec_len g})
     \<longrightarrow> mem (st_chip (rc_store s')) x = mem (st_chip (rc_store s)) x)"

definition rec_inv :: "('c \<Rightarrow> bool) \<Rightarrow> 'c recorder \<Rightarrow> bool" where
  "rec_inv ready s \<longleftrightarrow> flash_inv ready s \<and> rec_wf s \<and> quiet s"

definition keeps :: "('c \<Rightarrow> bool) \<Rightarrow> ('c \<Rightarrow> nat \<Rightarrow> u8) \<Rightarrow> 'c recorder \<Rightarrow> 'c recorder \<Rightarrow> bool" where
  "keeps ready mem s s' \<longleftrightarrow> (rec_inv ready s \<longrightarrow> rec_inv ready s' \<and> untouched mem s s')"

lemma keeps_refl: "keeps ready mem s s"
  by (simp add: keeps_def untouched_def)

lemma keeps_trans: "keeps ready mem s t \<Longrightarrow> keeps ready mem t u \<Longrightarrow> keeps ready mem s u"
  by (auto simp: keeps_def untouched_def)

text \<open>A step that leaves flash and table alone needs to keep the sizes and the status only.\<close>

lemma keeps_store:
  assumes "st_chip (rc_store s') = st_chip (rc_store s)" "st_table (rc_store s') = st_table (rc_store s)"
    "st_large (rc_store s') = st_large (rc_store s)" "rec_wf s \<Longrightarrow> rec_wf s'" "quiet s \<Longrightarrow> quiet s'"
  shows "keeps ready mem s s'"
  using assms by (simp add: keeps_def rec_inv_def flash_inv_def store_ok_def synced_def untouched_def)

lemma set_nth_Some: "set_nth i x xs = Some ys \<longleftrightarrow> i < length xs \<and> ys = xs[i := x]"
  by (auto simp: set_nth_def)

section \<open>The status handlers\<close>

lemma bit_flag: "x AND 0x01 = 0 \<longleftrightarrow> \<not> bit x 0" "x AND 0x02 = 0 \<longleftrightarrow> \<not> bit x 1" "x AND 0x04 = 0 \<longleftrightarrow> \<not> bit x 2"
    "x AND 0x08 = 0 \<longleftrightarrow> \<not> bit x 3" for x :: u8
  using and_exp_eq_0_iff_not_bit [of x 0] and_exp_eq_0_iff_not_bit [of x 1] and_exp_eq_0_iff_not_bit [of x 2]
    and_exp_eq_0_iff_not_bit [of x 3] by simp_all

lemma bit_const: "bit (0x01 :: u8) n \<longleftrightarrow> n = 0" "bit (0x02 :: u8) n \<longleftrightarrow> n = 1" "bit (0x04 :: u8) n \<longleftrightarrow> n = 2" "bit (0x08 :: u8) n \<longleftrightarrow> n = 3"
  using bit_exp_iff [of 0 n, where 'a = "8 word"] bit_exp_iff [of 1 n, where 'a = "8 word"]
    bit_exp_iff [of 2 n, where 'a = "8 word"] bit_exp_iff [of 3 n, where 'a = "8 word"] by auto

lemmas flag_simps = bit_flag bit_const bit_or_iff bit_and_iff bit_not_iff

definition status_only :: "'c recorder \<Rightarrow> 'c recorder \<Rightarrow> bool" where
  "status_only s s' \<longleftrightarrow> st_chip (rc_store s') = st_chip (rc_store s) \<and> st_table (rc_store s') = st_table (rc_store s)
     \<and> st_large (rc_store s') = st_large (rc_store s) \<and> (rec_wf s \<longrightarrow> rec_wf s') \<and> (quiet s \<longrightarrow> quiet s')"

lemma status_only_refl: "status_only s s"
  by (simp add: status_only_def)

lemma status_only_trans: "status_only s t \<Longrightarrow> status_only t u \<Longrightarrow> status_only s u"
  by (simp add: status_only_def)

lemma status_only_keeps: "status_only s s' \<Longrightarrow> keeps ready mem s s'"
  by (rule keeps_store) (simp_all add: status_only_def)

lemma status_only_if: "(P \<Longrightarrow> status_only s t) \<Longrightarrow> (\<not> P \<Longrightarrow> status_only s u) \<Longrightarrow> status_only s (if P then t else u)"
  by simp

text \<open>Fields the invariant does not speak of.\<close>

lemma rec_wf_store: "length (st_Parameter st) = length (st_Parameter (rc_store t)) \<Longrightarrow> rec_wf (t\<lparr>rc_store := st\<rparr>) = rec_wf t"
  by (simp add: rec_wf_def)

lemma quiet_store [simp]: "quiet (t\<lparr>rc_store := st\<rparr>) = quiet t"
  by (simp add: quiet_def)

lemma rec_wf_upd [simp]:
  "rec_wf (t\<lparr>STATUS1min := a0\<rparr>) = rec_wf t"
  "rec_wf (t\<lparr>TimeChange := a1\<rparr>) = rec_wf t"
  "rec_wf (t\<lparr>InRecordCycle := a2\<rparr>) = rec_wf t"
  "rec_wf (t\<lparr>basedataclk := a3\<rparr>) = rec_wf t"
  "rec_wf (t\<lparr>lclk := a4\<rparr>) = rec_wf t"
  "rec_wf (t\<lparr>registerstatus := a5\<rparr>) = rec_wf t"
  "rec_wf (t\<lparr>DriverRegstatus := a6\<rparr>) = rec_wf t"
  "rec_wf (t\<lparr>power_status := a7\<rparr>) = rec_wf t"
  "rec_wf (t\<lparr>powerstatus := a8\<rparr>) = rec_wf t"
  "rec_wf (t\<lparr>paramodifystatus := a9\<rparr>) = rec_wf t"
  "rec_wf (t\<lparr>DoubltPointstatus := a10\<rparr>) = rec_wf t"
  "rec_wf (t\<lparr>startdrivertime := a11\<rparr>) = rec_wf t"
  "rec_wf (t\<lparr>enddrivertime := a12\<rparr>) = rec_wf t"
  "rec_wf (t\<lparr>over_license := a13\<rparr>) = rec_wf t"
  "rec_wf (t\<lparr>startlocation := a14\<rparr>) = rec_wf t"
  "rec_wf (t\<lparr>endlocation := a15\<rparr>) = rec_wf t"
  "rec_wf (t\<lparr>Time10sCnts := a16\<rparr>) = rec_wf t"
  "rec_wf (t\<lparr>Time10sCnte := a17\<rparr>) = rec_wf t"
  "rec_wf (t\<lparr>keepstart10s := a18\<rparr>) = rec_wf t"
  "rec_wf (t\<lparr>keepstop10s := a19\<rparr>) = rec_wf t"
  "rec_wf (t\<lparr>startdriverclk := a20\<rparr>) = rec_wf t"
  "rec_wf (t\<lparr>enddriverclk := a21\<rparr>) = rec_wf t"
  "rec_wf (t\<lparr>DisplayMin := a22\<rparr>) = rec_wf t"
  "rec_wf (t\<lparr>AlarmFlag := a23\<rparr>) = rec_wf t"
  "rec_wf (t\<lparr>Time30mincnt1 := a24\<rparr>) = rec_wf t"
  "rec_wf (t\<lparr>Time30mincnt2 := a25\<rparr>) = rec_wf t"
  "rec_wf (t\<lparr>Time30mincnt3 := a26\<rparr>) = rec_wf t"
  "rec_wf (t\<lparr>Time30mincnt4 := a27\<rparr>) = rec_wf t"
  "rec_wf (t\<lparr>Time20sCnt1 := a28\<rparr>) = rec_wf t"
  "rec_wf (t\<lparr>Time20sCnt2 := a29\<rparr>) = rec_wf t"
  "rec_wf (t\<lparr>keepthespeed := a30\<rparr>) = rec_wf t"
  "rec_wf (t\<lparr>insertcount := a31\<rparr>) = rec_wf t"
  "rec_wf (t\<lparr>keeprestatus := a32\<rparr>) = rec_wf t"
  "rec_wf (t\<lparr>JNcnt := a33\<rparr>) = rec_wf t"
  "rec_wf (t\<lparr>journal_speed := a34\<rparr>) = rec_wf t"
  "rec_wf (t\<lparr>journal_rspeed := a35\<rparr>) = rec_wf t"
  "rec_wf (t\<lparr>journal_speedstatus := a36\<rparr>) = rec_wf t"
  "rec_wf (t\<lparr>DBcnt := a37\<rparr>) = rec_wf t"
  "rec_wf (t\<lparr>curTime := a38\<rparr>) = rec_wf t"
  "rec_wf (t\<lparr>CurSpeed := a39\<rparr>) = rec_wf t"
  "rec_wf (t\<lparr>Curspeed1s := a40\<rparr>) = rec_wf t"
  "rec_wf (t\<lparr>Curspeed1min := a41\<rparr>) = rec_wf t"
  "rec_wf (t\<lparr>LastPN20ms := a42\<rparr>) = rec_wf t"
  "rec_wf (t\<lparr>LastPN1s := a43\<rparr>) = rec_wf t"
  "rec_wf (t\<lparr>LastPN1min := a44\<rparr>) = rec_wf t"
  "rec_wf (t\<lparr>Time200msflag := a45\<rparr>) = rec_wf t"
  "rec_wf (t\<lparr>Time1sflag := a46\<rparr>) = rec_wf t"
  "rec_wf (t\<lparr>Time1minflag := a47\<rparr>) = rec_wf t"
  "rec_wf (t\<lparr>keyval := a48\<rparr>) = rec_wf t"
  "rec_wf (t\<lparr>keyvalbak := a49\<rparr>) = rec_wf t"
  "rec_wf (t\<lparr>keyvalcount := a50\<rparr>) = rec_wf t"
  "rec_wf (t\<lparr>Time6sCnt := a51\<rparr>) = rec_wf t"
  "rec_wf (t\<lparr>Verificationstatus := a52\<rparr>) = rec_wf t"
  "rec_wf (t\<lparr>Ver1sflag := a53\<rparr>) = rec_wf t"
  "rec_wf (t\<lparr>Time1msCnt := a54\<rparr>) = rec_wf t"
  "rec_wf (t\<lparr>Time200msCnt := a55\<rparr>) = rec_wf t"
  "rec_wf (t\<lparr>Time1sCnt := a56\<rparr>) = rec_wf t"
  "rec_wf (t\<lparr>Time5minCnt := a57\<rparr>) = rec_wf t"
  "rec_wf (t\<lparr>CurPN := a58\<rparr>) = rec_wf t"
  "rec_wf (t\<lparr>RsSpeed := a59\<rparr>) = rec_wf t"
  "rec_wf (t\<lparr>radionum := a60\<rparr>) = rec_wf t"
  by (simp_all add: rec_wf_def)

lemma quiet_upd [simp]:
  "quiet (t\<lparr>STATUS1min := a0\<rparr>) = quiet t"
  "quiet (t\<lparr>TimeChange := a1\<rparr>) = quiet t"
  "quiet (t\<lparr>InRecordCycle := a2\<rparr>) = quiet t"
  "quiet (t\<lparr>basedataclk := a3\<rparr>) = quiet t"
  "quiet (t\<lparr>lclk := a4\<rparr>) = quiet t"
  "quiet (t\<lparr>registerstatus := a5\<rparr>) = quiet t"
  "quiet (t\<lparr>DriverRegstatus := a6\<rparr>) = quiet t"
  "quiet (t\<lparr>power_status := a7\<rparr>) = quiet t"
  "quiet (t\<lparr>powerstatus := a8\<rparr>) = quiet t"
  "quiet (t\<lparr>paramodifystatus := a9\<rparr>) = quiet t"
  "quiet (t\<lparr>DoubltPointstatus := a10\<rparr>) = quiet t"
  "quiet (t\<lparr>startdrivertime := a11\<rparr>) = quiet t"
  "quiet (t\<lparr>enddrivertime := a12\<rparr>) = quiet t"
  "quiet (t\<lparr>over_license := a13\<rparr>) = quiet t"
  "quiet (t\<lparr>startlocation := a14\<rparr>) = quiet t"
  "quiet (t\<lparr>endlocation := a15\<rparr>) = quiet t"
  "quiet (t\<lparr>Time10sCnts := a16\<rparr>) = quiet t"
  "quiet (t\<lparr>Time10sCnte := a17\<rparr>) = quiet t"
  "quiet (t\<lparr>keepstart10s := a18\<rparr>) = quiet t"
  "quiet (t\<lparr>keepstop10s := a19\<rparr>) = quiet t"
  "quiet (t\<lparr>startdriverclk := a20\<rparr>) = quiet t"
  "quiet (t\<lparr>enddriverclk := a21\<rparr>) = quiet t"
  "quiet (t\<lparr>DisplayMin := a22\<rparr>) = quiet t"
  "quiet (t\<lparr>AlarmFlag := a23\<rparr>) = quiet t"
  "quiet (t\<lparr>Time30mincnt1 := a24\<rparr>) = quiet t"
  "quiet (t\<lparr>Time30mincnt2 := a25\<rparr>) = quiet t"
  "quiet (t\<lparr>Time30mincnt3 := a26\<rparr>) = quiet t"
  "quiet (t\<lparr>Time30mincnt4 := a27\<rparr>) = quiet t"
  "quiet (t\<lparr>Time20sCnt1 := a28\<rparr>) = quiet t"
  "quiet (t\<lparr>Time20sCnt2 := a29\<rparr>) = quiet t"
  "quiet (t\<lparr>keepthespeed := a30\<rparr>) = quiet t"
  "quiet (t\<lparr>insertcount := a31\<rparr>) = quiet t"
  "quiet (t\<lparr>keeprestatus := a32\<rparr>) = quiet t"
  "quiet (t\<lparr>JNcnt := a33\<rparr>) = quiet t"
  "quiet (t\<lparr>journal_speed := a34\<rparr>) = quiet t"
  "quiet (t\<lparr>journal_rspeed := a35\<rparr>) = quiet t"
  "quiet (t\<lparr>journal_speedstatus := a36\<rparr>) = quiet t"
  "quiet (t\<lparr>DBcnt := a37\<rparr>) = quiet t"
  "quiet (t\<lparr>curTime := a38\<rparr>) = quiet t"
  "quiet (t\<lparr>CurSpeed := a39\<rparr>) = quiet t"
  "quiet (t\<lparr>Curspeed1s := a40\<rparr>) = quiet t"
  "quiet (t\<lparr>Curspeed1min := a41\<rparr>) = quiet t"
  "quiet (t\<lparr>LastPN20ms := a42\<rparr>) = quiet t"
  "quiet (t\<lparr>LastPN1s := a43\<rparr>) = quiet t"
  "quiet (t\<lparr>LastPN1min := a44\<rparr>) = quiet t"
  "quiet (t\<lparr>Time200msflag := a45\<rparr>) = quiet t"
  "quiet (t\<lparr>Time1sflag := a46\<rparr>) = quiet t"
  "quiet (t\<lparr>Time1minflag := a47\<rparr>) = quiet t"
  "quiet (t\<lparr>keyval := a48\<rparr>) = quiet t"
  "quiet (t\<lparr>keyvalbak := a49\<rparr>) = quiet t"
  "quiet (t\<lparr>keyvalcount := a50\<rparr>) = quiet t"
  "quiet (t\<lparr>Time6sCnt := a51\<rparr>) = quiet t"
  "quiet (t\<lparr>Verificationstatus := a52\<rparr>) = quiet t"
  "quiet (t\<lparr>Ver1sflag := a53\<rparr>) = quiet t"
  "quiet (t\<lparr>Time1msCnt := a54\<rparr>) = quiet t"
  "quiet (t\<lparr>Time200msCnt := a55\<rparr>) = quiet t"
  "quiet (t\<lparr>Time1sCnt := a56\<rparr>) = quiet t"
  "quiet (t\<lparr>Time5minCnt := a57\<rparr>) = quiet t"
  "quiet (t\<lparr>CurPN := a58\<rparr>) = quiet t"
  "quiet (t\<lparr>RsSpeed := a59\<rparr>) = quiet t"
  "quiet (t\<lparr>radionum := a60\<rparr>) = quiet t"
  by (simp_all add: quiet_def)

lemma status_only_upd:
  assumes "status_only s t"
  shows
  "status_only s (t\<lparr>STATUS1min := a0\<rparr>)"
  "status_only s (t\<lparr>TimeChange := a1\<rparr>)"
  "status_only s (t\<lparr>InRecordCycle := a2\<rparr>)"
  "status_only s (t\<lparr>basedataclk := a3\<rparr>)"
  "status_only s (t\<lparr>lclk := a4\<rparr>)"
  "status_only s (t\<lparr>registerstatus := a5\<rparr>)"
  "status_only s (t\<lparr>DriverRegstatus := a6\<rparr>)"
  "status_only s (t\<lparr>power_status := a7\<rparr>)"
  "status_only s (t\<lparr>powerstatus := a8\<rparr>)"
  "status_only s (t\<lparr>paramodifystatus := a9\<rparr>)"
  "status_only s (t\<lparr>DoubltPointstatus := a10\<rparr>)"
  "status_only s (t\<lparr>startdrivertime := a11\<rparr>)"
  "status_only s (t\<lparr>enddrivertime := a12\<rparr>)"
  "status_only s (t\<lparr>over_license := a13\<rparr>)"
  "status_only s (t\<lparr>startlocation := a14\<rparr>)"
  "status_only s (t\<lparr>endlocation := a15\<rparr>)"
  "status_only s (t\<lparr>Time10sCnts := a16\<rparr>)"
  "status_only s (t\<lparr>Time10sCnte := a17\<rparr>)"
  "status_only s (t\<lparr>keepstart10s := a18\<rparr>)"
  "status_only s (t\<lparr>keepstop10s := a19\<rparr>)"
  "status_only s (t\<lparr>startdriverclk := a20\<rparr>)"
  "status_only s (t\<lparr>enddriverclk := a21\<rparr>)"
  "status_only s (t\<lparr>DisplayMin := a22\<rparr>)"
  "status_only s (t\<lparr>AlarmFlag := a23\<rparr>)"
  "status_only s (t\<lparr>Time30mincnt1 := a24\<rparr>)"
  "status_only s (t\<lparr>Time30mincnt2 := a25\<rparr>)"
  "status_only s (t\<lparr>Time30mincnt3 := a26\<rparr>)"
  "status_only s (t\<lparr>Time30mincnt4 := a27\<rparr>)"
  "status_only s (t\<lparr>Time20sCnt1 := a28\<rparr>)"
  "status_only s (t\<lparr>Time20sCnt2 := a29\<rparr>)"
  "status_only s (t\<lparr>keepthespeed := a30\<rparr>)"
  "status_only s (t\<lparr>insertcount := a31\<rparr>)"
  "status_only s (t\<lparr>keeprestatus := a32\<rparr>)"
  "status_only s (t\<lparr>JNcnt := a33\<rparr>)"
  "status_only s (t\<lparr>journal_speed := a34\<rparr>)"
  "status_only s (t\<lparr>journal_rspeed := a35\<rparr>)"
  "status_only s (t\<lparr>journal_speedstatus := a36\<rparr>)"
  "status_only s (t\<lparr>DBcnt := a37\<rparr>)"
  "status_only s (t\<lparr>curTime := a38\<rparr>)"
  "status_only s (t\<lparr>CurSpeed := a39\<rparr>)"
  "status_only s (t\<lparr>Curspeed1s := a40\<rparr>)"
  "status_only s (t\<lparr>Curspeed1min := a41\<rparr>)"
  "status_only s (t\<lparr>LastPN20ms := a42\<rparr>)"
  "status_only s (t\<lparr>LastPN1s := a43\<rparr>)"
  "status_only s (t\<lparr>LastPN1min := a44\<rparr>)"
  "status_only s (t\<lparr>Time200msflag := a45\<rparr>)"
  "status_only s (t\<lparr>Time1sflag := a46\<rparr>)"
  "status_only s (t\<lparr>Time1minflag := a47\<rparr>)"
  "status_only s (t\<lparr>keyval := a48\<rparr>)"
  "status_only s (t\<lparr>keyvalbak := a49\<rparr>)"
  "status_only s (t\<lparr>keyvalcount := a50\<rparr>)"
  "status_only s (t\<lparr>Time6sCnt := a51\<rparr>)"
  "status_only s (t\<lparr>Verificationstatus := a52\<rparr>)"
  "status_only s (t\<lparr>Ver1sflag := a53\<rparr>)"
  "status_only s (t\<lparr>Time1msCnt := a54\<rparr>)"
  "status_only s (t\<lparr>Time200msCnt := a55\<rparr>)"
  "status_only s (t\<lparr>Time1sCnt := a56\<rparr>)"
  "status_only s (t\<lparr>Time5minCnt := a57\<rparr>)"
  "status_only s (t\<lparr>CurPN := a58\<rparr>)"
  "status_only s (t\<lparr>RsSpeed := a59\<rparr>)"
  "status_only s (t\<lparr>radionum := a60\<rparr>)"
  using assms by (simp_all add: status_only_def)

lemma status_only_parameter:
  assumes "status_only s t" "\<And>p. length p = 648 \<Longrightarrow> length (f p) = 648"
  shows "status_only s (upd_parameter f t)"
proof -
  have "rec_wf t \<Longrightarrow> rec_wf (upd_parameter f t)" using assms(2) [of "st_Parameter (rc_store t)"] by (auto simp: upd_parameter_def rec_wf_def)
  then show ?thesis using assms(1) by (simp add: status_only_def upd_parameter_def)
qed

lemmas onlyI = status_only_refl status_only_upd status_only_if

lemma watch_motion_only: "status_only s (watch_motion s)"
  unfolding watch_motion_def by (intro onlyI)

text \<open>After the start the vehicle is driving and has not stopped.\<close>

lemma drive_on_bits: "\<not> bit (DriverStatus (drive_on s)) 2" "bit (DriverStatus (drive_on s)) 0"
  by (simp_all add: drive_on_def Let_def flag_simps)

lemma drive_on_only: "status_only s (drive_on s)"
  by (simp add: status_only_def rec_wf_def quiet_def drive_on_def Let_def flag_simps)

lemma drive_time_only: "\<not> bit (DriverStatus s) 2 \<Longrightarrow> status_only s (drive_time s)"
  unfolding drive_time_def Let_def by (simp add: status_only_def rec_wf_def quiet_def flag_simps)

lemma drive_stop_only: "status_only s (drive_stop stale s)"
  unfolding drive_stop_def Let_def by (simp add: status_only_def rec_wf_def quiet_def flag_simps)

lemma watch_driving_only: "status_only s (watch_driving stale s)"
  unfolding watch_driving_def
  by (intro status_only_if status_only_trans [OF drive_on_only drive_time_only [OF drive_on_bits(1)]] drive_stop_only status_only_refl)

lemma watch_doubt_only: "status_only s (watch_doubt s)"
  unfolding watch_doubt_def by (intro onlyI)

lemma watch_journal_only: "status_only s (watch_journal s)"
  by (simp add: status_only_def rec_wf_def quiet_def watch_journal_def)

lemma watch_limit_only: "status_only s (watch_limit s)"
  unfolding watch_limit_def by (intro onlyI)

lemma IckaHandler_only: "length licence = 18 \<Longrightarrow> status_only s (IckaHandler pins licence s)"
  by (simp add: status_only_def rec_wf_def quiet_def IckaHandler_def Let_def flag_simps upd_parameter_def)

lemma ValueStatusHandler_only: "length licence = 18 \<Longrightarrow> status_only s (ValueStatusHandler stale pins licence s)"
  unfolding ValueStatusHandler_def
  by (meson status_only_trans watch_motion_only watch_driving_only watch_doubt_only watch_journal_only watch_limit_only IckaHandler_only)

lemma AlarmHandler_only: "status_only s (AlarmHandler s)"
  unfolding AlarmHandler_def Let_def by (intro onlyI)

section \<open>The handlers that write\<close>

context recorder_flash
begin

lemma put_keeps:
  assumes put: "put_record b junk (ring_of g) buff num s = Some s'" and len: "rec_inv ready s \<Longrightarrow> length buff = rec_len g" and num: "unat num = rec_len g"
  shows "keeps ready mem s s'" "s' = s\<lparr>rc_store := rc_store s'\<rparr>"
proof -
  obtain st where st: "WriteRecordData2Flash b junk (ring_of g (st_table (rc_store s))) buff num (rc_store s) = Some st" "s' = s\<lparr>rc_store := st\<rparr>"
    using put by (auto simp: put_record_def bind_eq_Some_conv)
  then show "s' = s\<lparr>rc_store := rc_store s'\<rparr>" by simp
  show "keeps ready mem s s'" unfolding keeps_def
  proof
    assume i: "rec_inv ready s"
    then have ok: "store_ok ready (rc_store s)" and cp: "CurPoint (ring_of g (st_table (rc_store s))) = ring_start g"
      by (simp_all add: rec_inv_def flash_inv_def rings_fresh_def)
    have small: "rec_len g < 4096" by (cases g) simp_all
    note sb = ring_start_bounds [of g]
    obtain s2 where s2: "WriteRecordData2Flash b junk (ring_of g (st_table (rc_store s))) buff num (rc_store s) = Some s2"
      "store_ok ready s2" "st_Parameter s2 = st_Parameter (rc_store s)" "st_table s2 = stored (st_table (rc_store s))"
      "\<forall>x. x < 0x1000 \<or> 0x2000 \<le> x \<longrightarrow> mem (st_chip s2) x
          = (if unat (ring_start g) \<le> x \<and> x < unat (ring_start g) + rec_len g then buff ! (x - unat (ring_start g)) else mem (st_chip (rc_store s)) x)"
      using write_record_ok [OF ok, of "ring_of g (st_table (rc_store s))" num buff junk] sb room small len [OF i] by (auto simp: cp num)
    have "s2 = st" using s2(1) st(1) by simp
    then have "flash_inv ready s'" using s2 i st(2) by (simp add: flash_inv_def rec_inv_def rings_fresh_def)
    moreover have "rec_wf s'" "quiet s'" using i st(2) s2(3) \<open>s2 = st\<close> by (simp_all add: rec_inv_def rec_wf_def quiet_def)
    moreover have "untouched mem s s'" using s2(5) \<open>s2 = st\<close> st(2) by (auto simp: untouched_def)
    ultimately show "rec_inv ready s' \<and> untouched mem s s'" by (simp add: rec_inv_def)
  qed
qed

lemma inv_lengths:
  assumes "rec_inv ready s"
  shows "length (base_bytes s) = 126" "length (location_bytes s) = 666" "length (ddb_bytes s) = 234" "length (modifydata s) = 7"
    "length (reg_head s) = 24"
proof -
  have w: "rec_wf s" using assms by (simp add: rec_inv_def)
  then show "length (base_bytes s) = 126" "length (modifydata s) = 7" "length (reg_head s) = 24" by (simp_all add: base_bytes_def rec_wf_def)
  have "length (concat ls) = 10 * length ls" if "\<forall>l\<in>set ls. length l = 10" for ls :: "u8 list list"
    using that by (induction ls) simp_all
  then show "length (location_bytes s) = 666" using w by (simp add: location_bytes_def rec_wf_def)
  have "length (concat (List.map (\<lambda>(v, st). [v, st]) ps)) = 2 * length ps" for ps :: "(u8 \<times> u8) list"
    by (induction ps) auto
  then show "length (ddb_bytes s) = 234" using w by (simp add: ddb_bytes_def rec_wf_def)
qed

text \<open>A handler is a chain of updates and writes.\<close>

lemma keeps_bind:
  assumes "m \<bind> f = Some s'" "\<And>t. m = Some t \<Longrightarrow> keeps ready mem s t" "\<And>t. f t = Some s' \<Longrightarrow> keeps ready mem t s'"
  shows "keeps ready mem s s'"
  using assms by (auto simp: bind_eq_Some_conv intro: keeps_trans)

lemma keeps_after: "status_only s t \<Longrightarrow> keeps ready mem t u \<Longrightarrow> keeps ready mem s u"
  by (blast intro: keeps_trans status_only_keeps)

lemma put_then:
  assumes "put_record b junk (ring_of g) buff num s = Some t" "unat num = rec_len g" "rec_inv ready s \<Longrightarrow> length buff = rec_len g" "status_only t s'"
  shows "keeps ready mem s s'"
  using keeps_trans [OF put_keeps(1) [OF assms(1,3,2)] status_only_keeps [OF assms(4)]] by simp

lemmas only_simps = status_only_def rec_wf_def quiet_def

lemma base_put_only: "base_put i v q s = Some s' \<Longrightarrow> status_only s s'"
  by (auto simp: base_put_def bind_eq_Some_conv set_nth_Some only_simps)

lemma base_write_keeps: "base_write b junk s = Some s' \<Longrightarrow> keeps ready mem s s'"
  unfolding base_write_def by (erule put_then [where g = RBase, unfolded ring_of.simps]) (simp_all add: inv_lengths status_only_refl)

lemma base_driving_keeps: "base_driving b junk s = Some s' \<Longrightarrow> keeps ready mem s s'"
  unfolding base_driving_def
  by (auto split: if_splits elim!: keeps_bind dest: base_put_only base_write_keeps intro: status_only_keeps)
    (auto intro!: status_only_keeps simp: only_simps)

lemma base_standing_keeps: "base_standing b junk s = Some s' \<Longrightarrow> keeps ready mem s s'"
  unfolding base_standing_def
  by (auto split: if_splits elim!: keeps_bind dest: base_put_only base_write_keeps intro: status_only_keeps)
    (auto intro!: status_only_keeps simp: only_simps)

lemma BaseDataHandler_keeps:
  assumes h: "BaseDataHandler b junk s = Some s'"
  shows "keeps ready mem s s'"
proof (cases "DriverStatus s AND 0x01 \<noteq> 0")
  case True
  let ?a = "s\<lparr>STATUS1min := CurStatus s\<rparr>"
  have e: "(if TimeChange ?a AND 0x20 \<noteq> 0
      then do { s \<leftarrow> base_driving b junk (?a\<lparr>TimeChange := TimeChange ?a AND NOT 0x20\<rparr>); Some (s\<lparr>STATUS1min := 0\<rparr>) } else Some ?a) = Some s'"
    using h True by (simp only: BaseDataHandler_def Let_def simp_thms if_True)
  show ?thesis
  proof (cases "TimeChange ?a AND 0x20 \<noteq> 0")
    case on: True
    then obtain u where u: "base_driving b junk (?a\<lparr>TimeChange := TimeChange ?a AND NOT 0x20\<rparr>) = Some u" "s' = u\<lparr>STATUS1min := 0\<rparr>"
      using e by (auto simp only: bind_eq_Some_conv simp_thms if_True option.inject)
    show ?thesis unfolding u(2)
      by (rule keeps_after [OF _ keeps_trans [OF base_driving_keeps [OF u(1)] status_only_keeps]]) (intro onlyI)+
  next
    case False
    then have "s' = ?a" using e by (simp only: simp_thms if_False option.inject)
    then show ?thesis by (simp only:) (intro status_only_keeps onlyI)
  qed
next
  case False
  then have e: "(if InRecordCycle s AND 0x10 \<noteq> 0 \<and> TimeChange s AND 0x20 \<noteq> 0
      then base_standing b junk (s\<lparr>TimeChange := TimeChange s AND NOT 0x20\<rparr>) else Some s) = Some s'"
    using h by (simp only: BaseDataHandler_def simp_thms if_False)
  show ?thesis
  proof (cases "InRecordCycle s AND 0x10 \<noteq> 0 \<and> TimeChange s AND 0x20 \<noteq> 0")
    case True
    then have "base_standing b junk (s\<lparr>TimeChange := TimeChange s AND NOT 0x20\<rparr>) = Some s'" using e by (simp only: simp_thms if_True)
    then show ?thesis by (rule keeps_after [OF _ base_standing_keeps, rotated]) (intro onlyI)
  next
    case False
    then have "Some s = Some s'" using e by (simp only: simp_thms if_False)
    then show ?thesis by (simp add: keeps_refl)
  qed
qed

lemma location_put_only:
  assumes "location_put i l v s = Some s'" "rec_wf s \<longrightarrow> length l = 10"
  shows "status_only s s'"
proof -
  have s': "s' = s\<lparr>Lsizedata := (Lsizedata s)[i := l], speed1min := (speed1min s)[i := v]\<rparr>"
    using assms(1) by (auto simp only: location_put_def bind_eq_Some_conv set_nth_Some option.inject)
  have ls: "\<forall>x\<in>set ((Lsizedata s)[i := l]). length x = 10" if "rec_wf s"
  proof
    fix x assume "x \<in> set ((Lsizedata s)[i := l])"
    then have "x = l \<or> x \<in> set (Lsizedata s)" by (auto dest: set_update_subset_insert [THEN subsetD])
    then show "length x = 10" using that assms(2) by (auto simp: rec_wf_def)
  qed
  have "rec_wf s \<longrightarrow> rec_wf s'"
  proof
    assume w: "rec_wf s"
    show "rec_wf s'" using w ls [OF w] by (simp add: s' rec_wf_def)
  qed
  moreover have "quiet s \<longrightarrow> quiet s'" by (simp add: s' quiet_def)
  ultimately show ?thesis by (simp add: status_only_def s' del: rec_wf_upd)
qed

lemma location_write_keeps: "location_write b junk s = Some s' \<Longrightarrow> keeps ready mem s s'"
  unfolding location_write_def by (erule put_then [where g = RLocation, unfolded ring_of.simps]) (simp_all add: inv_lengths status_only_refl)

lemma location_driving_keeps: "location_driving b junk s = Some s' \<Longrightarrow> keeps ready mem s s'"
  unfolding location_driving_def
  by (auto split: if_splits elim!: keeps_bind dest: location_put_only location_write_keeps intro: status_only_keeps simp: rec_wf_def)
    (auto intro!: status_only_keeps simp: only_simps)

lemma location_standing_keeps: "location_standing b junk s = Some s' \<Longrightarrow> keeps ready mem s s'"
  unfolding location_standing_def
  by (auto split: if_splits elim!: keeps_bind dest: location_put_only location_write_keeps intro: status_only_keeps)
    (auto intro!: status_only_keeps simp: only_simps)

lemma LocationHandler_keeps:
  assumes "LocationHandler b junk s = Some s'"
  shows "keeps ready mem s s'"
proof -
  let ?t = "s\<lparr>TimeChange := TimeChange s AND NOT 0x10\<rparr>"
  have t: "status_only s ?t" by (intro onlyI)
  consider "Some s = Some s'" | (driving) "location_driving b junk ?t = Some s'" | (standing) "location_standing b junk ?t = Some s'"
    using assms unfolding LocationHandler_def
    by (cases "DriverStatus s AND 0x01 \<noteq> 0"; cases "TimeChange s AND 0x10 \<noteq> 0"; cases "InRecordCycle s AND 0x20 \<noteq> 0")
      (simp_all only: simp_thms if_True if_False)
  then show ?thesis
    by cases (auto intro: keeps_refl keeps_after [OF t location_driving_keeps] keeps_after [OF t location_standing_keeps])
qed

lemma OverDriverHandler_keeps:
  assumes "OverDriverHandler b junk s = Some s'" "quiet s"
  shows "keeps ready mem s s'"
proof -
  have "s' = s \<or> s' = s\<lparr>startdrivertime := startdriverclk s, over_license := license_of (parameter s), startlocation := location s\<rparr>"
  proof (cases "DriverStatus s AND 0x08 \<noteq> 0")
    case True
    then have "DriverStatus s AND 0x04 = 0" using assms(2) by (simp add: quiet_def)
    then show ?thesis using assms(1) True by (simp add: OverDriverHandler_def Let_def)
  qed (use assms(1) in \<open>simp add: OverDriverHandler_def\<close>)
  then show ?thesis by (elim disjE) (simp_all only: keeps_refl, intro status_only_keeps onlyI)
qed

lemma register_record_keeps:
  assumes "register_record b junk s = Some s'"
  shows "keeps ready mem s s'"
proof -
  obtain u where u: "put_record b junk DriverReRecord (reg_head s @ [registerstatus s]) 25 s = Some u" "s' = u\<lparr>DriverRegstatus := 0\<rparr>"
    using assms by (auto simp only: register_record_def bind_eq_Some_conv option.inject)
  show ?thesis unfolding u(2)
    by (rule put_then [where g = RDriver, unfolded ring_of.simps, OF u(1)]) (simp, simp add: inv_lengths, intro onlyI)
qed

lemma DrvierRegisterHandler_keeps:
  assumes "DrvierRegisterHandler b junk s = Some s'"
  shows "keeps ready mem s s'"
proof (cases "DriverRegstatus s AND 0x01 \<noteq> 0 \<or> DriverRegstatus s AND 0x02 \<noteq> 0")
  case True
  then have "register_record b junk (s\<lparr>registerstatus := (if DriverRegstatus s AND 0x01 \<noteq> 0 then 0x01 else 0x02)\<rparr>) = Some s'"
    using assms by (simp only: DrvierRegisterHandler_def if_P)
  then show ?thesis by (rule keeps_after [OF _ register_record_keeps, rotated]) (intro onlyI)
qed (use assms in \<open>simp add: DrvierRegisterHandler_def keeps_refl\<close>)

lemma PowerHandle_keeps:
  assumes "PowerHandle b junk s = Some s'"
  shows "keeps ready mem s s'"
proof (cases "powerstatus s AND 0x01 \<noteq> 0 \<or> DriverRegstatus s AND 0x02 \<noteq> 0")
  case True
  let ?t = "s\<lparr>power_status := powerstatus s, powerstatus := 0\<rparr>"
  have "put_record b junk PowerOffRunRecord (modifydata ?t) 7 ?t = Some s'" using assms True by (simp add: PowerHandle_def)
  then have "keeps ready mem ?t s'"
    by (rule put_then [where g = RPowerOff, unfolded ring_of.simps]) (simp_all add: inv_lengths(4) [simplified] status_only_refl rec_inv_def rec_wf_def)
  moreover have "status_only s ?t" by (intro onlyI)
  ultimately show ?thesis by (blast intro: keeps_after)
qed (use assms in \<open>simp add: PowerHandle_def keeps_refl\<close>)

lemma ModifyHandle_keeps:
  assumes "ModifyHandle b junk s = Some s'"
  shows "keeps ready mem s s'"
proof (cases "paramodifystatus s \<noteq> 0")
  case True
  let ?t = "s\<lparr>paramodifystatus := 0\<rparr>"
  have "put_record b junk ModifyRecord (modifydata s) 7 ?t = Some s'" using assms True by (simp add: ModifyHandle_def)
  then have "keeps ready mem ?t s'"
    by (rule put_then [where g = RModify, unfolded ring_of.simps]) (simp_all add: status_only_refl rec_inv_def rec_wf_def)
  moreover have "status_only s ?t" by (intro onlyI)
  ultimately show ?thesis by (blast intro: keeps_after)
qed (use assms in \<open>simp add: ModifyHandle_def keeps_refl\<close>)

lemma DoubltPointHandler_keeps:
  assumes "DoubltPointHandler b junk s = Some s'"
  shows "keeps ready mem s s'"
proof (cases "DoubltPointstatus s")
  case DBRECORD_START
  then have "status_only s s'" using assms by (auto simp: DoubltPointHandler_def Let_def bind_eq_Some_conv set_nth_Some only_simps)
  then show ?thesis by (rule status_only_keeps)
next
  case DBRECORD_END
  let ?t = "s\<lparr>ddb_data := replicate 100 (ddbspeed s ! unat (DBcnt s), ddbstatus s ! unat (DBcnt s))\<rparr>"
  obtain u where u: "put_record b junk DoubtPointData (ddb_bytes ?t) 234 ?t = Some u" "s' = u\<lparr>DoubltPointstatus := NONE_DB\<rparr>"
    using assms DBRECORD_END by (auto simp: DoubltPointHandler_def Let_def bind_eq_Some_conv split: if_splits simp del: recorder.simps)
  have "keeps ready mem ?t s'"
    using u(1) by (rule put_then [where g = RDoubt, unfolded ring_of.simps]) (simp_all add: inv_lengths(3) u(2) only_simps)
  moreover have "status_only s ?t" by (simp add: status_only_def rec_wf_def quiet_def)
  ultimately show ?thesis by (blast intro: keeps_after)
qed (use assms in \<open>simp add: DoubltPointHandler_def keeps_refl\<close>)

lemma JournalHandle_only:
  assumes "JournalHandle b junk s = Some s'" "quiet s"
  shows "status_only s s'"
  using assms
  by (cases "JournalRecordstatus s") (auto simp: JournalHandle_def journal_sample_def bind_eq_Some_conv set_nth_Some only_simps split: if_splits)

lemma keeps_quiet: "(quiet s \<Longrightarrow> keeps ready mem s s') \<Longrightarrow> keeps ready mem s s'"
  by (auto simp: keeps_def rec_inv_def)

lemma at_200ms_keeps:
  assumes h: "at_200ms b junk s = Some s'"
  shows "keeps ready mem s s'"
proof (cases "Time200msflag s")
  case True
  then obtain v :: u32 where "DoubltPointHandler b junk (s\<lparr>Time200msflag := False, LastPN20ms := CurPN s, CurSpeed := ucast v\<rparr>) = Some s'"
    using h by (auto simp only: at_200ms_def bind_eq_Some_conv if_True)
  from DoubltPointHandler_keeps [OF this] show ?thesis by (rule keeps_after [rotated]) (intro onlyI)
qed (use h in \<open>simp add: at_200ms_def keeps_refl\<close>)

lemma at_second_keeps:
  assumes h: "at_second b junk now s = Some s'"
  shows "keeps ready mem s s'"
proof (cases "Time1sflag s")
  case True
  let ?t = "s\<lparr>curTime := now, TimeChange := TimeChange s OR 0x20\<rparr>"
  obtain v where v: "JournalHandle b junk (?t\<lparr>LastPN1s := CurPN ?t, Time1sflag := False, Curspeed1s := v div 5\<rparr>) = Some s'"
    using h True by (auto simp only: at_second_def Let_def bind_eq_Some_conv if_True)
  let ?u = "?t\<lparr>LastPN1s := CurPN ?t, Time1sflag := False, Curspeed1s := v div 5\<rparr>"
  have "keeps ready mem ?u s'" by (rule keeps_quiet) (rule status_only_keeps, rule JournalHandle_only [OF v])
  then show ?thesis by (rule keeps_after [rotated]) (intro onlyI)
qed (use h in \<open>simp add: at_second_def keeps_refl\<close>)

lemma at_minute_keeps:
  assumes h: "at_minute s = Some s'"
  shows "keeps ready mem s s'"
proof (cases "Time1minflag s")
  case True
  then obtain v t where "s' = upd_parameter (put_at 0 (le32 t)) (s\<lparr>LastPN1min := CurPN s, Time1minflag := False, TimeChange := TimeChange s OR 0x10, Curspeed1min := v div 300\<rparr>)"
    using h by (auto simp only: at_minute_def Let_def bind_eq_Some_conv if_True option.inject)
  then show ?thesis by (simp only:) (intro status_only_keeps status_only_parameter onlyI, simp)
qed (use h in \<open>simp add: at_minute_def keeps_refl\<close>)

lemma GetSpeedandTime_keeps: "GetSpeedandTime b junk now s = Some s' \<Longrightarrow> keeps ready mem s s'"
  unfolding GetSpeedandTime_def by (blast intro: keeps_bind at_200ms_keeps at_second_keeps at_minute_keeps)

lemma cycle_keeps:
  assumes "cycle b x s = Some s'" "length (in_licence x) = 18"
  shows "keeps ready mem s s'"
proof -
  let ?v = "ValueStatusHandler (in_stale x) (in_pins x) (in_licence x)"
  obtain s1 s2 s3 s4 s5 s6 where c: "GetSpeedandTime b (in_junk x) (in_now x) s = Some s1"
    "BaseDataHandler b (in_junk x 2) (AlarmHandler (?v s1)) = Some s2" "LocationHandler b (in_junk x 3) s2 = Some s3"
    "OverDriverHandler b (in_junk x 4) s3 = Some s4" "DrvierRegisterHandler b (in_junk x 5) s4 = Some s5"
    "PowerHandle b (in_junk x 6) s5 = Some s6" "ModifyHandle b (in_junk x 7) s6 = Some s'"
    using assms(1) by (auto simp only: cycle_def Let_def bind_eq_Some_conv)
  have "keeps ready mem s1 (AlarmHandler (?v s1))"
    by (rule status_only_keeps, rule status_only_trans [OF ValueStatusHandler_only [OF assms(2)] AlarmHandler_only])
  moreover have "keeps ready mem s3 s4" using OverDriverHandler_keeps [OF c(4)] by (rule keeps_quiet)
  ultimately show ?thesis
    using GetSpeedandTime_keeps [OF c(1)] BaseDataHandler_keeps [OF c(2)] LocationHandler_keeps [OF c(3)]
      DrvierRegisterHandler_keeps [OF c(5)] PowerHandle_keeps [OF c(6)] ModifyHandle_keeps [OF c(7)]
    by (blast intro: keeps_trans)
qed

end

section \<open>Runs\<close>

text \<open>What happens to the recorder: a pulse of the wheel, a tick of the millisecond timer, a field of a
  satellite sentence, a round of the main loop. Each is one step; a step that leaves the defined behaviour
  of C has no result.\<close>

datatype event = Pulse | Tick pins | GpsTime "u8 list" | GpsLongitude "u8 list" | GpsLatitude "u8 list"
  | GpsAltitude "u8 list" u16 | GpsSpeed "u8 list" u32 | GpsSignal "u8 list" | Round inputs

fun rec_step :: "'c spi_bus \<Rightarrow> event \<Rightarrow> 'c recorder \<Rightarrow> 'c recorder option" where
  "rec_step b Pulse s = Some (Getthepluse s)"
| "rec_step b (Tick p) s = Some (Time3_irg_handler p s)"
| "rec_step b (GpsTime t) s = Some (GetTheGPSTime t s)"
| "rec_step b (GpsLongitude t) s = Some (GetGPSLocation1 t s)"
| "rec_step b (GpsLatitude t) s = Some (GetGPSLocation2 t s)"
| "rec_step b (GpsAltitude t n) s = GetGPSLocation3 t n s"
| "rec_step b (GpsSpeed t n) s = GetGPSSpeed t n s"
| "rec_step b (GpsSignal t) s = Some (GettheSinaldata t s)"
| "rec_step b (Round x) s = cycle b x s"

fun rec_run :: "'c spi_bus \<Rightarrow> event list \<Rightarrow> 'c recorder \<Rightarrow> 'c recorder option" where
  "rec_run b [] s = Some s"
| "rec_run b (e # es) s = do { s \<leftarrow> rec_step b e s; rec_run b es s }"

text \<open>A licence number has 18 characters.\<close>

fun event_ok :: "event \<Rightarrow> bool" where
  "event_ok (Round x) \<longleftrightarrow> length (in_licence x) = 18"
| "event_ok _ \<longleftrightarrow> True"

lemma Getthepluse_only: "status_only s (Getthepluse s)"
  unfolding Getthepluse_def by (intro status_only_parameter onlyI) simp

lemma keyscan_only: "status_only s (keyscanhandler p s)"
  unfolding keyscanhandler_def Let_def by (intro onlyI)

lemma isr_five_minutes_only: "status_only s (isr_five_minutes s)"
  unfolding isr_five_minutes_def Let_def by (intro onlyI)

lemma isr_minute_only: "status_only s (isr_minute s)"
  unfolding isr_minute_def Let_def
  by (intro status_only_if status_only_trans [OF _ isr_five_minutes_only] status_only_upd status_only_refl)

lemma countdowns_only: "status_only s (count_verification s)" "status_only s (count_start s)" "status_only s (count_stop s)" "status_only s (count_display s)"
  unfolding count_verification_def count_start_def count_stop_def count_display_def Let_def by (intro onlyI)+

lemma isr_second_only: "status_only s (isr_second s)"
proof -
  let ?t = "s\<lparr>Time1sflag := True, Ver1sflag := True, Time200msCnt := 0, Time1sCnt := (Time1sCnt s + 1) mod 64\<rparr>"
  let ?u = "count_display (count_stop (count_start (count_verification ?t)))"
  have "status_only s ?t" by (intro onlyI)
  then have u: "status_only s ?u" by (meson status_only_trans countdowns_only)
  have "isr_second s = (if 59 < Time1sCnt ?u then isr_minute ?u else ?u)" by (simp only: isr_second_def Let_def)
  then show ?thesis using u status_only_trans [OF u isr_minute_only] by (simp only:) (intro status_only_if)
qed

lemma tick_only: "status_only s (Time3_irg_handler p s)"
proof -
  have scan: "status_only s (isr_scan p s)"
  proof -
    have "status_only s (s\<lparr>Time1msCnt := Time1msCnt s + 1\<rparr>)" by (intro onlyI)
    then show ?thesis unfolding isr_scan_def Let_def using status_only_trans keyscan_only by (intro status_only_if) blast+
  qed
  let ?u = "(isr_scan p s)\<lparr>Time1msCnt := 0, Time200msflag := True, Time200msCnt := (Time200msCnt (isr_scan p s) + 1) mod 8\<rparr>"
  have u: "status_only s ?u" using scan by (intro status_only_upd)
  have "Time3_irg_handler p s = (if 199 < Time1msCnt (isr_scan p s) then if 4 < Time200msCnt ?u then isr_second ?u else ?u else isr_scan p s)"
    by (simp only: Time3_irg_handler_def Let_def)
  then show ?thesis using u scan status_only_trans [OF u isr_second_only] by (simp only:) (intro status_only_if)
qed

lemma location_only: "a + length xs \<le> 10 \<Longrightarrow> status_only s (s\<lparr>location := put_at a xs (location s)\<rparr>)"
  by (simp add: status_only_def rec_wf_def quiet_def)

lemma sentence_only:
  "status_only s (GetTheGPSTime t s)" "status_only s (GetGPSLocation1 t s)" "status_only s (GetGPSLocation2 t s)" "status_only s (GettheSinaldata t s)"
  unfolding GetTheGPSTime_def GetGPSLocation1_def GetGPSLocation2_def GettheSinaldata_def Let_def
  by (intro onlyI location_only; simp)+

lemma sentence_Some_only:
  "GetGPSLocation3 t n s = Some s' \<Longrightarrow> status_only s s'" "GetGPSSpeed t m s = Some s' \<Longrightarrow> status_only s s'"
proof -
  show "status_only s s'" if "GetGPSSpeed t m s = Some s'"
  proof -
    have "s' = s\<lparr>RsSpeed := speed_digits (take (unat m) t) 0\<rparr>" using that by (auto simp: GetGPSSpeed_def split: if_split_asm)
    then show ?thesis by (simp only:) (intro onlyI)
  qed
  assume "GetGPSLocation3 t n s = Some s'"
  then obtain v where "s' = s\<lparr>location := put_at 8 (le16 v) (location s)\<rparr>"
    by (auto simp only: GetGPSLocation3_def Let_def option.inject split: if_split_asm)
  then show "status_only s s'" using location_only [of 8 "le16 v" s] by simp
qed

context recorder_flash
begin

lemma rec_step_keeps: "rec_step b e s = Some s' \<Longrightarrow> event_ok e \<Longrightarrow> keeps ready mem s s'"
  by (cases e) (auto intro: status_only_keeps Getthepluse_only tick_only sentence_only sentence_Some_only cycle_keeps)

lemma rec_run_keeps: "rec_run b es s = Some s' \<Longrightarrow> \<forall>e\<in>set es. event_ok e \<Longrightarrow> keeps ready mem s s'"
proof (induction es arbitrary: s)
  case Nil
  then show ?case by (simp add: keeps_refl)
next
  case (Cons e es)
  then show ?case by (auto simp: bind_eq_Some_conv intro: keeps_trans rec_step_keeps)
qed

end

end
