(* ===== verification/Vtdr_Drive.thy ===== *)
theory Vtdr_Drive
  imports Vtdr_Safety
begin

text \<open>
  What the handlers come to over time: the seconds of a drive by the calendar of the clock, the record of
  a minute, the odometer.
\<close>

section \<open>Seconds since 1970 and the calendar\<close>

text \<open>From 2000 to 2099 the days of the C library are the days of the BCD clock.\<close>

lemma days_of_civil_2000:
  assumes "0 \<le> y" "y \<le> 99" "m \<in> {1..12}"
  shows "days_of_civil (2000 + y) (m - 1) d = day_number y m d + 10956"
proof -
  have q: "(1999 + y) div 4 = 499 + leaps_before y" by (simp add: leaps_before_def)
  have c: "(1999 + y) div 400 - (1999 + y) div 100 = - 15"
  proof (cases "y = 0")
    case False
    then have "(1999 + y) div 400 = 5" "(1999 + y) div 100 = 20" using assms(1,2) by linarith+
    then show ?thesis by simp
  qed simp
  have l: "(4 dvd 2000 + y \<and> (\<not> 100 dvd 2000 + y \<or> 400 dvd 2000 + y)) \<longleftrightarrow> 4 dvd y"
  proof (cases "y = 0")
    case False
    then have "\<not> 100 dvd y" using assms(1,2) zdvd_not_zless by auto
    then have "\<not> 100 dvd 2000 + y" by presburger
    then show ?thesis by presburger
  qed simp
  have m: "(m - 1) div 12 = 0" "(m - 1) mod 12 = m - 1" using assms(3) by simp_all
  have mm: "[0, 31, 59, 90, 120, 151, 181, 212, 243, 273, 304, 334] ! nat (m - 1) + (if 1 < m - 1 \<and> 4 dvd y then 1 else 0) = days_before_month y m"
    using assms(3) by (rule month_cases) (simp_all add: days_before_month_def)
  show ?thesis
    unfolding days_of_civil_def Let_def m add_0_right l day_number_def mm [symmetric] using q c by simp
qed

lemma timechange_minutes:
  assumes "good_clock c"
  shows "timechange c = word_of_int (60 * (abs_minutes (decode_clock c) + 15776640))"
proof -
  have g: "dec (c_year c) \<le> 99" "dec (c_month c) \<in> {1..12}"
    using assms by (simp_all add: good_clock_def valid_dt_def valid_date_def decode_clock_def dec_le_99)
  have d: "days_of_civil (1900 + (dec (c_year c) + 100)) (dec (c_month c) - 1) (dec (c_day c))
      = day_number (dec (c_year c)) (dec (c_month c)) (dec (c_day c)) + 10956"
    using days_of_civil_2000 [OF dec_nonneg g] by (simp add: algebra_simps)
  show ?thesis
    unfolding timechange_def mktime_def dec_def [symmetric] d abs_minutes_def decode_clock_def by (simp add: algebra_simps)
qed

text \<open>The time the code takes for minutes is in seconds.\<close>

lemma driven_seconds:
  assumes "good_clock a" "good_clock b" "0 \<le> abs_minutes (decode_clock b) - abs_minutes (decode_clock a)"
    "abs_minutes (decode_clock b) - abs_minutes (decode_clock a) < 71582788"
  shows "unat (timechange b - timechange a) = nat (60 * (abs_minutes (decode_clock b) - abs_minutes (decode_clock a)))"
proof -
  let ?d = "abs_minutes (decode_clock b) - abs_minutes (decode_clock a)"
  have "timechange b - timechange a = word_of_int (60 * ?d)"
    unfolding timechange_minutes [OF assms(1)] timechange_minutes [OF assms(2)] by (simp add: algebra_simps)
  then have "uint (timechange b - timechange a) = 60 * ?d mod 2 ^ LENGTH(32)" by (simp only: uint_word_of_int)
  moreover have "60 * ?d mod 2 ^ LENGTH(32) = 60 * ?d" using assms(3,4) by (intro mod_pos_pos_trivial) simp_all
  ultimately have "uint (timechange b - timechange a) = 60 * ?d" by (rule trans)
  then show ?thesis by (simp add: unat_eq_nat_uint)
qed

section \<open>The alarm for driving too long\<close>

lemma flag_or_bit: "bit (x OR 0x01) n \<longleftrightarrow> bit x n \<or> n = 0" "bit (x OR 0x08) n \<longleftrightarrow> bit x n \<or> n = 3" for x :: u8
  unfolding bit_or_iff bit_const by simp_all

lemma drive_time_flags:
  "bit (AlarmFlag (drive_time s)) 0 \<longleftrightarrow> bit (AlarmFlag s) 0 \<or> 225 < unat (timechange (curTime s) - timechange (startdriverclk s))"
  "bit (DriverStatus (drive_time s)) 3 \<longleftrightarrow> bit (DriverStatus s) 3 \<or> 15 < unat (timechange (curTime s) - timechange (startdriverclk s))"
proof -
  have "AlarmFlag s AND 0x01 = 0x01 \<longleftrightarrow> bit (AlarmFlag s) 0" by (simp add: and_one_eq odd_iff_mod_2_eq_one bit_0)
  then show "bit (AlarmFlag (drive_time s)) 0 \<longleftrightarrow> bit (AlarmFlag s) 0 \<or> 225 < unat (timechange (curTime s) - timechange (startdriverclk s))"
    by (simp add: drive_time_def Let_def flag_or_bit word_less_nat_alt)
  show "bit (DriverStatus (drive_time s)) 3 \<longleftrightarrow> bit (DriverStatus s) 3 \<or> 15 < unat (timechange (curTime s) - timechange (startdriverclk s))"
    by (simp add: drive_time_def Let_def flag_or_bit word_less_nat_alt)
qed

lemma drive_on_again:
  assumes "bit (DriverStatus s) 0"
  shows "curTime (drive_on s) = curTime s" "startdriverclk (drive_on s) = startdriverclk s" "AlarmFlag (drive_on s) = AlarmFlag s"
    "bit (DriverStatus (drive_on s)) 3 = bit (DriverStatus s) 3"
  using assms by (simp_all add: drive_on_def Let_def flag_simps)

section \<open>The odometer\<close>

lemma bcd_bytes:
  fixes d :: u32
  defines "b i \<equiv> (ucast (drop_bit (8 * i) d) :: u8)"
  shows "unat d = unat (b 0) + 256 * unat (b 1) + 65536 * unat (b 2) + 16777216 * unat (b 3)"
proof -
  have d: "unat d < 4294967296" using unsigned_less [of d, where ?'a = nat] by simp
  have "unat (b i) = unat d div 2 ^ (8 * i) mod 256" for i
    unfolding b_def unsigned_ucast_eq unsigned_take_bit_eq unsigned_drop_bit_eq by (simp add: take_bit_eq_mod drop_bit_eq_div mod_less [OF d])
  then have b: "unat (b 0) = unat d mod 256" "unat (b 1) = unat d div 256 mod 256"
    "unat (b 2) = unat d div 256 div 256 mod 256" "unat (b 3) = unat d div 256 div 256 div 256 mod 256"
    by (simp_all add: div_mult2_eq [symmetric])
  have "unat d div 256 div 256 div 256 < 256" using d by (simp add: div_mult2_eq [symmetric] less_mult_imp_div_less)
  then have "unat (b 3) = unat d div 256 div 256 div 256" unfolding b by (rule mod_less)
  moreover have "m mod 256 + 256 * (m div 256) = m" for m :: nat by simp
  from this [of "unat d"] this [of "unat d div 256"] this [of "unat d div 256 div 256"]
  have "unat d = unat d mod 256 + 256 * (unat d div 256 mod 256) + 65536 * (unat d div 256 div 256 mod 256) + 16777216 * (unat d div 256 div 256 div 256)"
    by linarith
  ultimately show ?thesis using b by simp
qed

lemma digits8:
  fixes a b c d :: nat
  assumes "a \<le> 99" "b \<le> 99" "c \<le> 99" "d \<le> 99"
  shows "(a + 100 * b + 10000 * c + 1000000 * d) mod 100 = a" "(a + 100 * b + 10000 * c + 1000000 * d) mod 10000 div 100 = b"
    "(a + 100 * b + 10000 * c + 1000000 * d) mod 1000000 div 10000 = c" "(a + 100 * b + 10000 * c + 1000000 * d) mod 100000000 div 1000000 = d"
proof -
  have cut: "(x + p * y) mod p = x" if "x < p" for x p y :: nat using that by simp
  have cutd: "(x + p * y) div p = y" if "x < p" for x p y :: nat using that by simp
  have "a + 100 * b + 10000 * c + 1000000 * d = a + 100 * (b + 100 * c + 10000 * d)" by simp
  moreover have "a < 100" using assms(1) by simp
  ultimately show "(a + 100 * b + 10000 * c + 1000000 * d) mod 100 = a" by (simp only: cut)
  have "a + 100 * b + 10000 * c + 1000000 * d = a + 100 * b + 10000 * (c + 100 * d)" by simp
  moreover have "a + 100 * b < 10000" using assms by simp
  ultimately have "(a + 100 * b + 10000 * c + 1000000 * d) mod 10000 = a + 100 * b" by (simp only: cut)
  then show "(a + 100 * b + 10000 * c + 1000000 * d) mod 10000 div 100 = b" using assms(1) by simp
  have "a + 100 * b + 10000 * c < 1000000" using assms by simp
  then have "(a + 100 * b + 10000 * c + 1000000 * d) mod 1000000 = a + 100 * b + 10000 * c" by (rule cut)
  moreover have "(a + 100 * b + 10000 * c) div 10000 = c" using \<open>a + 100 * b < 10000\<close> by (rule cutd)
  ultimately show "(a + 100 * b + 10000 * c + 1000000 * d) mod 1000000 div 10000 = c" by simp
  have "a + 100 * b + 10000 * c + 1000000 * d < 100000000" using assms by simp
  moreover have "(a + 100 * b + 10000 * c + 1000000 * d) div 1000000 = d" using \<open>a + 100 * b + 10000 * c < 1000000\<close> by (rule cutd)
  ultimately show "(a + 100 * b + 10000 * c + 1000000 * d) mod 100000000 div 1000000 = d" by simp
qed

text \<open>Decoding and encoding a reading of eight decimal digits.\<close>

lemma odometer_roundtrip:
  assumes "\<forall>i<4. bcd_ok (ucast (drop_bit (8 * i) d))"
  shows "odometer_bcd (odometer d) = d"
proof -
  define b where "b i = (ucast (drop_bit (8 * i) d) :: u8)" for i
  let ?B = "\<lambda>i. unat (BCD2Char (b i))"
  have ok: "bcd_ok (b i)" if "i < 4" for i using assms that by (simp add: b_def)
  have le: "?B i \<le> 99" if "i < 4" for i using BCD2Char_le_99_iff [of "b i"] ok [OF that] by (simp add: word_le_nat_alt)
  have B: "?B 0 \<le> 99" "?B 1 \<le> 99" "?B 2 \<le> 99" "?B 3 \<le> 99" using le by simp_all
  let ?N = "?B 0 + 100 * ?B 1 + 10000 * ?B 2 + 1000000 * ?B 3"
  have N: "?N < 2 ^ 32" using B by simp
  have "odometer d = of_nat ?N" by (simp add: odometer_def b_def)
  then have "unat (odometer d) = ?N mod 2 ^ LENGTH(32)" by (simp only: unat_of_nat)
  then have o: "unat (odometer d) = ?N" using N by simp
  have dig: "?N mod 100 = ?B 0" "?N mod 10000 div 100 = ?B 1" "?N mod 1000000 div 10000 = ?B 2" "?N mod 100000000 div 1000000 = ?B 3"
    using digits8 [OF B] by simp_all
  have u8: "(ucast t :: u8) = BCD2Char (b i)" if "unat t = ?B i" for t :: u32 and i
    by (rule u8_eqI) (use that unsigned_less [of "BCD2Char (b i)", where ?'a = nat] in \<open>simp add: unsigned_ucast_eq unsigned_take_bit_eq take_bit_eq_mod\<close>)
  have "Char2BCD (ucast (odometer d mod 100)) = b 0"
    "Char2BCD (ucast (odometer d mod 10000 div 100)) = b 1"
    "Char2BCD (ucast (odometer d mod 1000000 div 10000)) = b 2"
    "Char2BCD (ucast (odometer d mod 100000000 div 1000000)) = b 3"
    using dig ok by (simp_all add: u8 [where i = 0] u8 [where i = 1] u8 [where i = 2] u8 [where i = 3] unat_mod unat_div o Char2BCD_BCD2Char)
  then have "odometer_bcd (odometer d) = of_nat (unat (b 0) + 256 * unat (b 1) + 65536 * unat (b 2) + 16777216 * unat (b 3))"
    unfolding odometer_bcd_def by simp
  also have "\<dots> = d" using bcd_bytes [of d] unfolding b_def [symmetric] by (drule_tac arg_cong [where f = "of_nat :: nat \<Rightarrow> u32"]) simp
  finally show ?thesis .
qed

lemma le32_of_le32: "length bs = 4 \<Longrightarrow> le32 (of_le32 bs) = bs"
proof -
  assume "length bs = 4"
  then obtain a b c d where bs: "bs = [a, b, c, d]" by (auto simp: length_Suc_conv numeral_eq_Suc)
  have "ucast (ucast a OR push_bit 8 (ucast b) OR push_bit 16 (ucast c) OR push_bit 24 (ucast d :: u32)) = a"
    "ucast (drop_bit 8 (ucast a OR push_bit 8 (ucast b) OR push_bit 16 (ucast c) OR push_bit 24 (ucast d :: u32))) = b"
    "ucast (drop_bit 16 (ucast a OR push_bit 8 (ucast b) OR push_bit 16 (ucast c) OR push_bit 24 (ucast d :: u32))) = c"
    "ucast (drop_bit 24 (ucast a OR push_bit 8 (ucast b) OR push_bit 16 (ucast c) OR push_bit 24 (ucast d :: u32))) = d"
    by (rule bit_word_eqI, auto simp: bit_or_iff bit_push_bit_iff bit_unsigned_iff bit_drop_bit_eq dest: bit_imp_le_length)+
  then show ?thesis by (simp add: bs le32_def of_le32_def)
qed

lemma le32_nth: "i < 4 \<Longrightarrow> le32 x ! i = ucast (drop_bit (8 * i) x)"
  by (auto simp: le32_def less_Suc_eq numeral_eq_Suc)

lemma ComputeSpeed_total:
  assumes "0 < PulseCoff para"
  shows "\<exists>v. ComputeSpeed para pulse = Some v \<and> v \<le> 255"
proof -
  have "PulseCoff para \<noteq> 0" using assms by auto
  then show ?thesis by (simp add: ComputeSpeed_def Let_def not_less)
qed

text \<open>A minute ends: the mean speed of it is 0 and the distance is written back as it was.\<close>

lemma at_minute_frozen:
  assumes "Time1minflag s" "0 < PulseCoff (parameter s)" "4 \<le> length (parameter s)" "\<forall>i<4. bcd_ok (parameter s ! i)"
  shows "\<exists>s'. at_minute s = Some s' \<and> Curspeed1min s' = 0 \<and> parameter s' = parameter s"
proof -
  let ?p = "parameter s"
  have four: "of_le32 ?p = of_le32 (take 4 ?p)" by (simp add: of_le32_def)
  have le: "le32 (of_le32 ?p) = take 4 ?p" unfolding four by (rule le32_of_le32) (use assms(3) in simp)
  have byte: "ucast (drop_bit (8 * i) (of_le32 ?p)) = ?p ! i" if "i < 4" for i
    using le32_nth [OF that, of "of_le32 ?p"] that unfolding le by simp
  have "odometer_bcd (odometer (of_le32 ?p)) = of_le32 ?p"
    by (rule odometer_roundtrip) (use assms(4) byte in simp)
  then have put: "put_at 0 (le32 (odometer_bcd (0 + odometer (DriverDistace ?p)))) ?p = ?p"
    using assms(3) by (simp add: DriverDistace_def le put_at_def min_absorb2)
  obtain v where v: "ComputeSpeed ?p (pulses_since (LastPN1min s) s) = Some v" "v \<le> 255"
    using ComputeSpeed_total [OF assms(2)] by blast
  have "v div 300 = 0"
  proof -
    have "unat v < 300" using v(2) by (simp add: word_le_nat_alt)
    then have "unat (v div 300) = 0" by (simp add: unat_div)
    then show ?thesis by (simp only: unsigned_eq_0_iff)
  qed
  then show ?thesis using assms(1) v(1) put by (simp add: at_minute_def Let_def parameter_def upd_parameter_def)
qed


section \<open>The record of a minute\<close>

text \<open>One second of a drive: the clock, the mean speed of the second and the signals, then the handler.\<close>

definition drive_second :: "'c spi_bus \<Rightarrow> (nat \<Rightarrow> u16) \<Rightarrow> CLOCK \<Rightarrow> u8 \<times> u8 \<Rightarrow> 'c recorder \<Rightarrow> 'c recorder option" where
  "drive_second b junk c x s =
     BaseDataHandler b junk (s\<lparr>curTime := c, Curspeed1s := ucast (fst x), CurStatus := snd x, TimeChange := TimeChange s OR 0x20\<rparr>)"

fun drive_seconds :: "'c spi_bus \<Rightarrow> (nat \<Rightarrow> u16) \<Rightarrow> (nat \<Rightarrow> CLOCK) \<Rightarrow> nat \<Rightarrow> (u8 \<times> u8) list \<Rightarrow> 'c recorder \<Rightarrow> 'c recorder option" where
  "drive_seconds b junk clk k [] s = Some s"
| "drive_seconds b junk clk k (x # xs) s = do { s \<leftarrow> drive_second b junk (clk k) x s; drive_seconds b junk clk (Suc k) xs s }"

lemma drive_seconds_append:
  "drive_seconds b junk clk k (xs @ ys) s = do { s \<leftarrow> drive_seconds b junk clk k xs s; drive_seconds b junk clk (k + length xs) ys s }"
proof (induction xs arbitrary: k s)
  case (Cons x xs)
  show ?case by (cases "drive_second b junk (clk k) x s") (simp_all add: Cons.IH)
qed simp

text \<open>The part of the state a minute of driving keeps.\<close>

definition same_drive :: "'c recorder \<Rightarrow> 'c recorder \<Rightarrow> bool" where
  "same_drive s s' \<longleftrightarrow> rc_store s' = rc_store s \<and> DriverStatus s' = DriverStatus s \<and> InRecordCycle s' = InRecordCycle s
     \<and> basedataclk s' = basedataclk s"

lemma u8_of_small: "k < 100 \<Longrightarrow> unat (of_nat k :: u8) = k"
  by (simp add: unat_of_nat)

lemma second_of:
  assumes "k < 60"
  shows "BCD2Char (Char2BCD (of_nat k)) = of_nat k" "Char2BCD (of_nat k) = 0 \<longleftrightarrow> k = 0"
proof -
  have le: "(of_nat k :: u8) \<le> 99" using assms u8_of_small [of k] by (simp add: word_le_nat_alt)
  then show b: "BCD2Char (Char2BCD (of_nat k)) = of_nat k" by (rule BCD2Char_Char2BCD)
  have "BCD2Char 0 = 0" by (simp add: BCD2Char_def)
  then have "Char2BCD (of_nat k) = 0 \<longrightarrow> (of_nat k :: u8) = 0" using b by metis
  moreover have "(of_nat k :: u8) = 0 \<longleftrightarrow> k = 0" 
  proof
    assume z: "(of_nat k :: u8) = 0"
    have "k = unat (of_nat k :: u8)" using u8_of_small [of k] assms by simp
    also have "\<dots> = 0" unfolding z by simp
    finally show "k = 0" .
  qed simp
  moreover have "Char2BCD 0 = 0" by (simp add: Char2BCD_def)
  ultimately show "Char2BCD (of_nat k) = 0 \<longleftrightarrow> k = 0" by auto
qed

lemma ucast_u8_u32_u8: "ucast (ucast x :: u32) = x" for x :: u8
  by (rule bit_word_eqI) (simp add: bit_unsigned_iff)

lemma drive_second_sample:
  assumes "DriverStatus s AND 0x01 \<noteq> 0" "c_second c = Char2BCD (of_nat k)" "0 < k" "k < 60" "length (base_speed s) = 60" "length (base_status s) = 60"
  shows "\<exists>s'. drive_second b junk c x s = Some s' \<and> same_drive s s' \<and> base_speed s' = (base_speed s)[k - 1 := fst x]
    \<and> base_status s' = (base_status s)[k - 1 := snd x]"
proof -
  have sec: "c_second c \<noteq> 0" "unat (BCD2Char (c_second c)) - 1 = k - 1"
    using assms(2-4) second_of [of k] u8_of_small [of k] by simp_all
  have "(TimeChange s OR 0x20) AND 0x20 = (0x20 :: u8)"
    by (rule bit_word_eqI) (auto simp: bit_or_iff bit_and_iff)
  then have tc: "(TimeChange s OR 0x20) AND 0x20 \<noteq> 0" by simp
  let ?t = "s\<lparr>curTime := c, Curspeed1s := ucast (fst x), CurStatus := snd x, TimeChange := TimeChange s OR 0x20\<rparr>"
  let ?u = "?t\<lparr>STATUS1min := CurStatus ?t, TimeChange := TimeChange ?t AND NOT 0x20\<rparr>"
  have d: "base_driving b junk ?u = Some (?u\<lparr>base_speed := (base_speed s)[k - 1 := fst x], base_status := (base_status s)[k - 1 := snd x]\<rparr>)"
    using assms(3-6) sec by (simp add: base_driving_def base_put_def set_nth_def ucast_u8_u32_u8)
  have "BaseDataHandler b junk ?t = do { s \<leftarrow> base_driving b junk ?u; Some (s\<lparr>STATUS1min := 0\<rparr>) }"
    using assms(1) tc by (simp add: BaseDataHandler_def Let_def)
  then show ?thesis unfolding drive_second_def d by (simp add: same_drive_def)
qed

lemma update_drop: "n < length ys \<Longrightarrow> length xs = n \<Longrightarrow> (xs @ drop n ys)[n := y] = xs @ y # drop (Suc n) ys"
  by (simp add: list_update_append Cons_nth_drop_Suc [symmetric])

lemma same_drive_trans: "same_drive s t \<Longrightarrow> same_drive t u \<Longrightarrow> same_drive s u"
  by (simp add: same_drive_def)

lemma drive_seconds_prefix:
  assumes "DriverStatus s AND 0x01 \<noteq> 0" "\<forall>k. c_second (clk k) = Char2BCD (of_nat (k mod 60))"
    and "length (base_speed s) = 60" "length (base_status s) = 60" and "length xs \<le> 59"
  shows "\<exists>s'. drive_seconds b junk clk 1 xs s = Some s' \<and> same_drive s s'
    \<and> base_speed s' = map fst xs @ drop (length xs) (base_speed s) \<and> base_status s' = map snd xs @ drop (length xs) (base_status s)"
  using assms(5)
proof (induction xs rule: rev_induct)
  case Nil
  then show ?case by (simp add: same_drive_def)
next
  case (snoc x xs)
  obtain t where t: "drive_seconds b junk clk 1 xs s = Some t" "same_drive s t"
    "base_speed t = map fst xs @ drop (length xs) (base_speed s)" "base_status t = map snd xs @ drop (length xs) (base_status s)"
    using snoc by auto
  let ?k = "Suc (length xs)"
  have k: "0 < ?k" "?k < 60" "c_second (clk ?k) = Char2BCD (of_nat ?k)" using snoc.prems assms(2) by simp_all
  have d: "DriverStatus t AND 0x01 \<noteq> 0" "length (base_speed t) = 60" "length (base_status t) = 60"
    using t assms(1,3,4) snoc.prems by (simp_all add: same_drive_def)
  obtain u where u: "drive_second b junk (clk ?k) x t = Some u" "same_drive t u" "base_speed u = (base_speed t)[?k - 1 := fst x]"
    "base_status u = (base_status t)[?k - 1 := snd x]"
    using drive_second_sample [OF d(1) k(3,1,2) d(2,3)] by blast
  have "drive_seconds b junk clk 1 (xs @ [x]) s = Some u" using t(1) u(1) by (simp add: drive_seconds_append)
  moreover have "base_speed u = map fst (xs @ [x]) @ drop ?k (base_speed s)" "base_status u = map snd (xs @ [x]) @ drop ?k (base_status s)"
    using u(3,4) t(3,4) assms(3,4) snoc.prems by (simp_all add: update_drop)
  ultimately show ?case using same_drive_trans [OF t(2) u(2)] by simp
qed

context recorder_flash
begin

lemma table_read_back:
  assumes "ready c" "table_wf t"
  shows "\<exists>c'. WritePartitionTable b t c = Some (stored t, c') \<and> ready c'
    \<and> bytes_table (fst (SPI_FLASH_BufferRead b SPI1 0x1000 164 c')) = stored t"
proof -
  obtain c' where c': "WritePartitionTable b t c = Some (stored t, c')" "ready c'" "window (mem c') 0x1000 164 = table_bytes (stored t)"
    using write_table_ok [OF assms] by blast
  have "bytes_table (table_bytes (stored t)) = stored t"
    using assms(2) by (intro bytes_table_bytes) (simp_all add: stored_def table_wf_def)
  moreover have "fst (SPI_FLASH_BufferRead b SPI1 0x1000 164 c') = window (mem c') 0x1000 164"
    using rd_law [of c' "0x1000" 164] c'(2) room by simp
  ultimately show ?thesis using c' by auto
qed

lemma put_record_image:
  assumes "flash_inv ready s" "length buff = rec_len g" "unat num = rec_len g"
  shows "\<exists>st. put_record b junk (ring_of g) buff num s = Some (s\<lparr>rc_store := st\<rparr>) \<and> flash_inv ready (s\<lparr>rc_store := st\<rparr>)
    \<and> window (mem (st_chip st)) (unat (ring_start g)) (rec_len g) = buff"
proof -
  have ok: "store_ok ready (rc_store s)" and cp: "CurPoint (ring_of g (st_table (rc_store s))) = ring_start g"
    using assms(1) by (simp_all add: flash_inv_def rings_fresh_def)
  have small: "rec_len g < 4096" by (cases g) simp_all
  note sb = ring_start_bounds [of g]
  obtain st where st: "WriteRecordData2Flash b junk (ring_of g (st_table (rc_store s))) buff num (rc_store s) = Some st"
    "store_ok ready st" "synced mem st" "st_table st = stored (st_table (rc_store s))"
    "\<forall>x. x < 0x1000 \<or> 0x2000 \<le> x \<longrightarrow> mem (st_chip st) x
        = (if unat (ring_start g) \<le> x \<and> x < unat (ring_start g) + rec_len g then buff ! (x - unat (ring_start g)) else mem (st_chip (rc_store s)) x)"
    using write_record_ok [OF ok, of "ring_of g (st_table (rc_store s))" num buff junk] sb room small assms(2,3) by (auto simp: cp)
  have "window (mem (st_chip st)) (unat (ring_start g)) (rec_len g) = buff"
    by (rule nth_equalityI) (use sb(2) st(5) assms(2) in \<open>auto simp: window_def\<close>)
  then show ?thesis using st assms(1) by (auto simp: put_record_def flash_inv_def rings_fresh_def)
qed

lemma drive_minute_ok:
  assumes "flash_inv ready s" "DriverStatus s AND 0x01 \<noteq> 0" "InRecordCycle s AND 0x10 \<noteq> 0"
    and "\<forall>k. c_second (clk k) = Char2BCD (of_nat (k mod 60))"
    and len: "length (base_speed s) = 60" "length (base_status s) = 60" and xs: "length xs = 60"
  shows "\<exists>s'. drive_seconds b junk clk 1 xs s = Some s' \<and> flash_inv ready s' \<and> basedataclk s' = clk 60
    \<and> window (mem (st_chip (rc_store s'))) 0x2000 126 = clock_bytes (basedataclk s) @ map fst xs @ map snd xs"
proof -
  let ?ys = "take 59 xs" and ?x = "xs ! 59"
  have split: "xs = ?ys @ [?x]" using xs by (simp add: take_Suc_conv_app_nth [symmetric])
  obtain t where t: "drive_seconds b junk clk 1 ?ys s = Some t" "same_drive s t"
    "base_speed t = map fst ?ys @ drop 59 (base_speed s)" "base_status t = map snd ?ys @ drop 59 (base_status s)"
    using drive_seconds_prefix [OF assms(2,4) len, of ?ys b junk] xs by auto
  let ?c = "clk 60"
  have sec: "c_second ?c = 0" using assms(4) second_of(2) [of 0] by simp
  have tc: "(TimeChange t OR 0x20) AND 0x20 \<noteq> (0 :: u8)"
  proof -
    have "(TimeChange t OR 0x20) AND 0x20 = (0x20 :: u8)" by (rule bit_word_eqI) (auto simp: bit_or_iff bit_and_iff)
    then show ?thesis by simp
  qed
  let ?t = "t\<lparr>curTime := ?c, Curspeed1s := ucast (fst ?x), CurStatus := snd ?x, TimeChange := TimeChange t OR 0x20\<rparr>"
  let ?u = "?t\<lparr>STATUS1min := CurStatus ?t, TimeChange := TimeChange ?t AND NOT 0x20\<rparr>"
  let ?w = "?u\<lparr>base_speed := map fst xs, base_status := map snd xs\<rparr>"
  have up: "(base_speed t)[59 := fst ?x] = map fst xs" "(base_status t)[59 := snd ?x] = map snd xs"
    using t(3,4) len xs by (subst (2) split, simp add: update_drop)+
  have p: "base_put 59 (ucast (Curspeed1s ?u)) (CurStatus ?u) ?u = Some ?w"
    using t(3,4) len xs up by (simp add: base_put_def set_nth_def ucast_u8_u32_u8)
  have inv: "flash_inv ready ?w" using assms(1) t(2) by (simp add: flash_inv_def same_drive_def)
  have bytes: "base_bytes ?w = clock_bytes (basedataclk s) @ map fst xs @ map snd xs"
    using t(2) by (simp add: base_bytes_def same_drive_def)
  obtain st where st: "put_record b junk BaseData (base_bytes ?w) 126 ?w = Some (?w\<lparr>rc_store := st\<rparr>)" "flash_inv ready (?w\<lparr>rc_store := st\<rparr>)"
    "window (mem (st_chip st)) 0x2000 126 = base_bytes ?w"
    using put_record_image [OF inv, of "base_bytes ?w" RBase 126 junk] xs bytes by auto
  let ?v = "?w\<lparr>rc_store := st\<rparr>"
  have "base_driving b junk ?u = Some (?v\<lparr>basedataclk := curTime ?v, InRecordCycle := InRecordCycle ?v OR 0x10\<rparr>)"
    using sec p st(1) assms(3) t(2) by (simp add: base_driving_def base_write_def same_drive_def)
  then have "drive_second b junk ?c ?x t = Some (?v\<lparr>basedataclk := ?c, InRecordCycle := InRecordCycle ?v OR 0x10, STATUS1min := 0\<rparr>)"
    using assms(2) t(2) tc by (simp add: drive_second_def BaseDataHandler_def Let_def same_drive_def)
  then have "drive_seconds b junk clk 1 xs s = Some (?v\<lparr>basedataclk := ?c, InRecordCycle := InRecordCycle ?v OR 0x10, STATUS1min := 0\<rparr>)"
    using t(1) xs by (subst split) (simp add: drive_seconds_append)
  then show ?thesis using st(2,3) bytes by (simp add: flash_inv_def)
qed

end

section \<open>A round with nothing to do\<close>

definition same_due :: "'c recorder \<Rightarrow> 'c recorder \<Rightarrow> bool" where
  "same_due s s' \<longleftrightarrow> DriverStatus s' = DriverStatus s \<and> InRecordCycle s' = InRecordCycle s \<and> DriverRegstatus s' = DriverRegstatus s
    \<and> powerstatus s' = powerstatus s \<and> paramodifystatus s' = paramodifystatus s \<and> keeprestatus s' = keeprestatus s \<and> keepstart10s s' = keepstart10s s
    \<and> keepstop10s s' = keepstop10s s"

lemma same_due_trans: "same_due s t \<Longrightarrow> same_due t u \<Longrightarrow> same_due s u"
  by (simp add: same_due_def)

lemma idle_round:
  assumes f: "\<not> Time200msflag s" "\<not> Time1sflag s" "\<not> Time1minflag s" and k: "\<not> keepstart10s s" "\<not> keepstop10s s" "\<not> keeprestatus s"
    and d: "DriverStatus s = 0" "InRecordCycle s = 0" "DriverRegstatus s = 0" "powerstatus s = 0" "paramodifystatus s = 0"
    and i: "insertcount s = 0"
  shows "\<exists>s'. cycle b x s = Some s'"
proof -
  let ?v = "AlarmHandler (ValueStatusHandler (in_stale x) (in_pins x) (in_licence x) s)"
  have g: "GetSpeedandTime b j n s = Some s" for j n using f by (simp add: GetSpeedandTime_def at_200ms_def at_second_def at_minute_def)
  have m: "same_due s (watch_motion s)" "insertcount (watch_motion s) = 0" using k i by (simp_all add: same_due_def watch_motion_def)
  have wd: "watch_driving (in_stale x) (watch_motion s) = watch_motion s" using m k by (simp add: watch_driving_def same_due_def)
  have db: "same_due t (watch_doubt t)" "insertcount (watch_doubt t) = insertcount t" for t :: "'a recorder" by (simp_all add: same_due_def watch_doubt_def)
  have ic: "same_due t (IckaHandler p l t)" if "\<not> keeprestatus t" "insertcount t = 0" for t :: "'a recorder" and p l
    using that by (simp add: same_due_def IckaHandler_def Let_def)
  have jl: "same_due t (watch_limit (watch_journal t))" for t :: "'a recorder"
    by (rule same_due_trans [of _ "watch_journal t"]) (simp_all add: same_due_def watch_limit_def watch_journal_def)
  have al: "same_due t (AlarmHandler t)" for t :: "'a recorder"
    unfolding AlarmHandler_def Let_def by (simp add: same_due_def)
  have "same_due s ?v" unfolding ValueStatusHandler_def wd
    using same_due_trans [OF same_due_trans [OF same_due_trans [OF same_due_trans [OF m(1) db(1)] ic] jl] al] m k db by (simp add: same_due_def)
  then have "BaseDataHandler b j ?v = Some ?v" "LocationHandler b j ?v = Some ?v" "OverDriverHandler b j ?v = Some ?v"
    "DrvierRegisterHandler b j ?v = Some ?v" "PowerHandle b j ?v = Some ?v" "ModifyHandle b j ?v = Some ?v" for j
    using d by (simp_all add: same_due_def BaseDataHandler_def LocationHandler_def OverDriverHandler_def DrvierRegisterHandler_def PowerHandle_def ModifyHandle_def)
  then show ?thesis by (simp add: cycle_def g Let_def)
qed
section \<open>Where a run may have written\<close>

lemma untouched_where:
  assumes "untouched mem s s'" "0x2000 \<le> x"
  shows "mem (st_chip (rc_store s')) x = mem (st_chip (rc_store s)) x
    \<or> (\<exists>g. g \<noteq> RJournal \<and> g \<noteq> ROverSpeed \<and> unat (ring_start g) \<le> x \<and> x < unat (ring_start g) + rec_len g)"
proof (cases "\<forall>g. x \<notin> {unat (ring_start g)..<unat (ring_start g) + rec_len g}")
  case True
  then show ?thesis using assms by (simp add: untouched_def)
next
  case False
  then obtain g where g: "x \<in> {unat (ring_start g)..<unat (ring_start g) + rec_len g}" by blast
  then have "g \<noteq> RJournal" "g \<noteq> ROverSpeed" by auto
  with g show ?thesis by auto
qed

section \<open>Positions in a ring\<close>

lemma uint_small: "0 \<le> k \<Longrightarrow> k < 2 ^ 32 \<Longrightarrow> uint (word_of_int k :: u32) = k"
  by (simp add: uint_word_of_int)

lemma mod_once: "n \<le> x \<Longrightarrow> x < 2 * n \<Longrightarrow> x mod n = x - n" "- n \<le> x \<Longrightarrow> x < 0 \<Longrightarrow> x mod n = x + n" for n x :: int
proof -
  assume "n \<le> x" "x < 2 * n"
  then have "(x - n) mod n = x - n" by (intro mod_pos_pos_trivial) simp_all
  then show "x mod n = x - n" by simp
next
  assume "- n \<le> x" "x < 0"
  then have "(x + n) mod n = x + n" by (intro mod_pos_pos_trivial) simp_all
  then show "x mod n = x + n" by simp
qed

lemma AddPointer_ring:
  assumes "BaseAddr r \<le> CurPoint r" "CurPoint r \<le> EndAddr r" "n = uint (EndAddr r) - uint (BaseAddr r) + 1"
    and "- n \<le> inc" "inc \<le> n" "0 \<le> uint (CurPoint r) + inc" "uint (EndAddr r) + n < 2 ^ 32"
  shows "uint (AddPointer r inc) = uint (BaseAddr r) + (uint (CurPoint r) - uint (BaseAddr r) + inc) mod n"
proof -
  let ?a = "uint (BaseAddr r)" and ?e = "uint (EndAddr r)" and ?c = "uint (CurPoint r)"
  have le: "?a \<le> ?c" "?c \<le> ?e" "0 \<le> ?a" using assms(1,2) by (simp_all add: word_le_def)
  let ?w = "CurPoint r + of_int inc"
  have "?w = word_of_int (?c + inc)" by simp
  then have w: "uint ?w = ?c + inc" using assms(5-7) le by (simp only: uint_small)
  show ?thesis
  proof (cases "0 \<le> inc")
    case pos: True
    show ?thesis
    proof (cases "?c + inc \<le> ?e")
      case True
      then have "AddPointer r inc = ?w" using pos w by (simp add: AddPointer_def Let_def word_less_def)
      moreover have "(?c - ?a + inc) mod n = ?c - ?a + inc" using True le pos assms(3) by (intro mod_pos_pos_trivial) simp_all
      ultimately show ?thesis using w by simp
    next
      case False
      then have "AddPointer r inc = word_of_int (?a + (?c + inc - ?e) - 1)" using pos w by (simp add: AddPointer_def Let_def word_less_def)
      then have "uint (AddPointer r inc) = ?a + (?c + inc - ?e) - 1" using False le assms(3,5,7) by (simp only: uint_small)
      then show ?thesis using mod_once(1) [of n "?c - ?a + inc"] False le assms(3,5) by simp
    qed
  next
    case neg: False
    show ?thesis
    proof (cases "?a \<le> ?c + inc")
      case True
      then have "AddPointer r inc = ?w" using neg w by (simp add: AddPointer_def Let_def word_less_def)
      moreover have "(?c - ?a + inc) mod n = ?c - ?a + inc" using True le neg assms(3) by (intro mod_pos_pos_trivial) simp_all
      ultimately show ?thesis using w by simp
    next
      case False
      then have "AddPointer r inc = word_of_int (?e - (?a - (?c + inc)) + 1)" using neg w by (simp add: AddPointer_def Let_def word_less_def)
      then have "uint (AddPointer r inc) = ?e - (?a - (?c + inc)) + 1" using False le neg assms(3,4,6,7) by (simp only: uint_small)
      then show ?thesis using mod_once(2) [of n "?c - ?a + inc"] False le assms(3,4) by simp
    qed
  qed
qed

end
