(* ===== verification/Vtdr_Ticks.thy ===== *)
theory Vtdr_Ticks
  imports Vtdr_Inputs Complex_Main
begin

text \<open>
  What the inputs of the recorder come to: the counters of the timer interrupt as one count of
  milliseconds, the length of a key press, and the accuracy of the speed.
\<close>

section \<open>The timer interrupt as a count of milliseconds\<close>

definition timer_wf :: "'c recorder \<Rightarrow> bool" where
  "timer_wf s \<longleftrightarrow> Time1msCnt s < 200 \<and> Time200msCnt s < 5 \<and> Time1sCnt s < 60 \<and> Time5minCnt s < 5"

definition millis :: "'c recorder \<Rightarrow> nat" where
  "millis s = unat (Time1msCnt s) + 200 * Time200msCnt s + 1000 * Time1sCnt s + 60000 * Time5minCnt s"

fun timer_ticks :: "pins list \<Rightarrow> 'c recorder \<Rightarrow> 'c recorder" where
  "timer_ticks [] s = s"
| "timer_ticks (p # ps) s = timer_ticks ps (Time3_irg_handler p s)"

lemma keyscan_frame [simp]:
  "Time1msCnt (keyscanhandler p s) = Time1msCnt s" "Time200msCnt (keyscanhandler p s) = Time200msCnt s"
  "Time1sCnt (keyscanhandler p s) = Time1sCnt s" "Time5minCnt (keyscanhandler p s) = Time5minCnt s"
  "Time200msflag (keyscanhandler p s) = Time200msflag s" "Time1sflag (keyscanhandler p s) = Time1sflag s"
  "Time1minflag (keyscanhandler p s) = Time1minflag s"
  by (simp_all add: keyscanhandler_def Let_def)

lemma isr_frame [simp]:
  "Time1msCnt (isr_five_minutes s) = Time1msCnt s" "Time200msCnt (isr_five_minutes s) = Time200msCnt s"
  "Time1sCnt (isr_five_minutes s) = Time1sCnt s" "Time5minCnt (isr_five_minutes s) = Time5minCnt s"
  "Time200msflag (isr_five_minutes s) = Time200msflag s" "Time1sflag (isr_five_minutes s) = Time1sflag s"
  "Time1minflag (isr_five_minutes s) = Time1minflag s"
  by (simp_all add: isr_five_minutes_def Let_def)

text \<open>The counters of the timer and the flags it raises.\<close>

definition same_timer :: "'c recorder \<Rightarrow> 'c recorder \<Rightarrow> bool" where
  "same_timer s s' \<longleftrightarrow> Time1msCnt s' = Time1msCnt s \<and> Time200msCnt s' = Time200msCnt s \<and> Time1sCnt s' = Time1sCnt s
     \<and> Time5minCnt s' = Time5minCnt s \<and> Time200msflag s' = Time200msflag s \<and> Time1sflag s' = Time1sflag s
     \<and> Time1minflag s' = Time1minflag s"

lemma same_timer_trans: "same_timer s t \<Longrightarrow> same_timer t u \<Longrightarrow> same_timer s u"
  by (simp add: same_timer_def)

lemma countdowns_same_timer: "same_timer s (count_display (count_stop (count_start (count_verification s))))"
proof -
  have "same_timer s (count_verification s)" by (simp add: same_timer_def count_verification_def Let_def)
  moreover have "same_timer t (count_start t)" for t :: "'a recorder" by (simp add: same_timer_def count_start_def Let_def)
  moreover have "same_timer t (count_stop t)" for t :: "'a recorder" by (simp add: same_timer_def count_stop_def Let_def)
  moreover have "same_timer t (count_display t)" for t :: "'a recorder" by (simp add: same_timer_def count_display_def Let_def)
  ultimately show ?thesis by (meson same_timer_trans)
qed

lemmas countdowns_frame = countdowns_same_timer [unfolded same_timer_def]

lemma isr_minute_ok:
  assumes "Time5minCnt s < 5"
  shows "Time1msCnt (isr_minute s) = Time1msCnt s" "Time200msCnt (isr_minute s) = Time200msCnt s"
    "Time1sCnt (isr_minute s) = 0" "Time5minCnt (isr_minute s) = (Time5minCnt s + 1) mod 5"
    "Time200msflag (isr_minute s) = Time200msflag s" "Time1sflag (isr_minute s) = Time1sflag s" "Time1minflag (isr_minute s)"
  using assms by (auto simp: isr_minute_def Let_def mod_if)

lemma fifty_nine: "n < 60 \<Longrightarrow> (58 :: nat) < n \<longleftrightarrow> n = 59" "Suc 59 mod 60 = (0 :: nat)"
  by auto

lemma isr_second_ok:
  assumes "Time1sCnt s < 60" "Time5minCnt s < 5"
  shows "Time1msCnt (isr_second s) = Time1msCnt s" "Time200msCnt (isr_second s) = 0"
    "Time1sCnt (isr_second s) = (Time1sCnt s + 1) mod 60"
    "Time5minCnt (isr_second s) = (if Time1sCnt s = 59 then (Time5minCnt s + 1) mod 5 else Time5minCnt s)"
    "Time200msflag (isr_second s) = Time200msflag s" "Time1sflag (isr_second s)"
    "Time1minflag (isr_second s) = (Time1minflag s \<or> Time1sCnt s = 59)"
  using assms by (auto simp: isr_second_def Let_def isr_minute_ok countdowns_frame fifty_nine)

lemma multiples: "x mod 60000 = 0 \<Longrightarrow> x mod 1000 = 0" "x mod 1000 = 0 \<Longrightarrow> x mod 200 = 0" for x :: nat
  using dvd_trans [of 1000 60000 x] dvd_trans [of 200 1000 x] by (simp_all add: mod_eq_0_iff_dvd)

lemma isr_tick_ok:
  assumes "timer_wf s"
  shows "timer_wf (Time3_irg_handler p s)" "millis (Time3_irg_handler p s) = (millis s + 1) mod 300000"
    "Time200msflag (Time3_irg_handler p s) \<longleftrightarrow> Time200msflag s \<or> (millis s + 1) mod 200 = 0"
    "Time1sflag (Time3_irg_handler p s) \<longleftrightarrow> Time1sflag s \<or> (millis s + 1) mod 1000 = 0"
    "Time1minflag (Time3_irg_handler p s) \<longleftrightarrow> Time1minflag s \<or> (millis s + 1) mod 60000 = 0"
proof -
  let ?s = "Time3_irg_handler p s"
  let ?a = "Time1msCnt s" and ?b = "Time200msCnt s" and ?c = "Time1sCnt s" and ?d = "Time5minCnt s"
  have w: "?a < 200" "?b < 5" "?c < 60" "?d < 5" using assms by (simp_all add: timer_wf_def)
  have a: "unat ?a < 200" using w(1) by (simp add: word_less_nat_alt)
  have a1: "unat (?a + 1) = unat ?a + 1" using a by (simp add: unat_word_ariths)
  let ?t = "isr_scan p s"
  have t: "Time1msCnt ?t = ?a + 1" "Time200msCnt ?t = ?b" "Time1sCnt ?t = ?c" "Time5minCnt ?t = ?d"
    "Time200msflag ?t = Time200msflag s" "Time1sflag ?t = Time1sflag s" "Time1minflag ?t = Time1minflag s"
    by (simp_all add: isr_scan_def Let_def)
  let ?u = "?t\<lparr>Time1msCnt := 0, Time200msflag := True, Time200msCnt := (?b + 1) mod 8\<rparr>"
  have ge: "199 < ?a + 1 \<longleftrightarrow> unat ?a = 199" using a by (simp add: word_less_nat_alt a1) linarith
  have eq: "?s = (if unat ?a = 199 then (if 4 < (?b + 1) mod 8 then isr_second ?u else ?u) else ?t)"
    by (simp add: Time3_irg_handler_def Let_def t ge)
  have u: "Time1sCnt ?u < 60" "Time5minCnt ?u < 5" using w t by simp_all
  have m: "millis s = unat ?a + 200 * ?b + 1000 * ?c + 60000 * ?d" by (simp add: millis_def)
  have "200 * ?b \<le> 800" "1000 * ?c \<le> 59000" "60000 * ?d \<le> 240000" using w(2-4) by simp_all
  then have lim: "unat ?a < 199 \<Longrightarrow> millis s + 1 < 300000" "?b < 4 \<Longrightarrow> millis s + 1 < 300000"
      "?c < 59 \<Longrightarrow> millis s + 1 < 300000" "?d < 4 \<Longrightarrow> millis s + 1 < 300000" unfolding m using a by linarith+
  consider (plain) "unat ?a < 199" | (fifth) "unat ?a = 199" "?b < 4" | (second) "unat ?a = 199" "?b = 4" "?c < 59"
    | (minute) "unat ?a = 199" "?b = 4" "?c = 59" "?d < 4" | (five) "unat ?a = 199" "?b = 4" "?c = 59" "?d = 4"
    using a w by linarith
  then have "timer_wf ?s \<and> millis ?s = (millis s + 1) mod 300000
    \<and> (Time200msflag ?s \<longleftrightarrow> Time200msflag s \<or> (millis s + 1) mod 200 = 0)
    \<and> (Time1sflag ?s \<longleftrightarrow> Time1sflag s \<or> (millis s + 1) mod 1000 = 0)
    \<and> (Time1minflag ?s \<longleftrightarrow> Time1minflag s \<or> (millis s + 1) mod 60000 = 0)"
  proof cases
    case plain
    then have s: "?s = ?t" using eq by simp
    have n: "millis s + 1 = (unat ?a + 1) + 200 * (?b + 5 * ?c + 300 * ?d)" "unat ?a + 1 < 200" using m plain by simp_all
    have "(millis s + 1) mod 200 = unat ?a + 1" unfolding n(1) mod_mult_self2 using n(2) by (simp only: mod_less)
    moreover from calculation have "(millis s + 1) mod 200 \<noteq> 0" by (simp only: add_is_0 one_neq_zero simp_thms)
    then have k: "(millis s + 1) mod 1000 \<noteq> 0" "(millis s + 1) mod 60000 \<noteq> 0" by (metis multiples)+
    moreover have "millis s + 1 < 300000" using lim plain by simp
    ultimately show ?thesis using w t a1 plain k by (simp add: s timer_wf_def millis_def word_less_nat_alt k)
  next
    case fifth
    then have s: "?s = ?u" using eq by simp
    have n: "millis s + 1 = 200 * (?b + 1) + 1000 * (?c + 60 * ?d)" "?b + 1 < 5" using m fifth by simp_all
    have "(millis s + 1) mod 1000 = 200 * (?b + 1)" unfolding n(1) mod_mult_self2 using n(2) by (intro mod_less) simp
    moreover have "millis s + 1 = 200 * (?b + 1 + 5 * (?c + 60 * ?d))" using n(1) by simp
    then have "(millis s + 1) mod 200 = 0" by (simp only: mod_mult_self1_is_0)
    moreover have "(millis s + 1) mod 60000 \<noteq> 0"
    proof -
      have "200 * (?b + 1) \<noteq> 0" by simp
      with calculation(1) show ?thesis using multiples(1) by metis
    qed
    moreover have "millis s + 1 < 300000" using lim fifth by simp
    ultimately show ?thesis using w t fifth by (simp add: s timer_wf_def millis_def)
  next
    case second
    then have s: "?s = isr_second ?u" using eq by simp
    have n: "millis s + 1 = 1000 * (?c + 1) + 60000 * ?d" "?c + 1 < 60" using m second by simp_all
    have "(millis s + 1) mod 60000 = 1000 * (?c + 1)" unfolding n(1) mod_mult_self2 using n(2) by (intro mod_less) simp
    moreover have "millis s + 1 = 1000 * (?c + 1 + 60 * ?d)" using n(1) by simp
    then have k: "(millis s + 1) mod 1000 = 0" by (simp only: mod_mult_self1_is_0)
    moreover from k have "(millis s + 1) mod 200 = 0" by (rule multiples(2))
    moreover have "millis s + 1 < 300000" using lim second by simp
    ultimately show ?thesis using w t second isr_second_ok [OF u] by (simp add: s timer_wf_def millis_def)
  next
    case minute
    then have s: "?s = isr_second ?u" using eq by simp
    have n: "millis s + 1 = 60000 * (?d + 1)" using m minute by simp
    have k: "(millis s + 1) mod 60000 = 0" unfolding n by (simp only: mod_mult_self1_is_0)
    moreover note multiples(1) [OF k]
    moreover note multiples(2) [OF multiples(1) [OF k]]
    moreover have "millis s + 1 < 300000" using lim minute by simp
    ultimately show ?thesis using w t minute isr_second_ok [OF u] n by (simp add: s timer_wf_def millis_def)
  next
    case five
    then have s: "?s = isr_second ?u" using eq by simp
    have n: "millis s + 1 = 300000" using m five by simp
    show ?thesis unfolding n using w t five isr_second_ok [OF u] by (simp add: s timer_wf_def millis_def)
  qed
  then show "timer_wf ?s" "millis ?s = (millis s + 1) mod 300000"
    "Time200msflag ?s \<longleftrightarrow> Time200msflag s \<or> (millis s + 1) mod 200 = 0"
    "Time1sflag ?s \<longleftrightarrow> Time1sflag s \<or> (millis s + 1) mod 1000 = 0"
    "Time1minflag ?s \<longleftrightarrow> Time1minflag s \<or> (millis s + 1) mod 60000 = 0" by simp_all
qed

text \<open>A flag with period \<open>P\<close> is raised by the tick that completes a multiple of \<open>P\<close>.\<close>

definition due :: "nat \<Rightarrow> nat \<Rightarrow> nat \<Rightarrow> bool" where
  "due P t n \<longleftrightarrow> (\<exists>k. 0 < k \<and> k \<le> n \<and> (t + k) mod P = 0)"

lemma due_0 [simp]: "\<not> due P t 0"
  by (simp add: due_def)

lemma due_Suc:
  assumes "P dvd 300000"
  shows "due P t (Suc n) \<longleftrightarrow> (t + 1) mod P = 0 \<or> due P ((t + 1) mod 300000) n"
proof -
  have "((t + 1) mod 300000 + k) mod P = (t + Suc k) mod P" for k
  proof -
    have "((t + 1) mod 300000 + k) mod P = ((t + 1) mod 300000 mod P + k) mod P" by (simp only: mod_add_left_eq)
    also have "\<dots> = ((t + 1) mod P + k) mod P" by (simp only: mod_mod_cancel [OF assms])
    also have "\<dots> = (t + 1 + k) mod P" by (simp only: mod_add_left_eq)
    finally show ?thesis by simp
  qed
  then have r: "due P ((t + 1) mod 300000) n \<longleftrightarrow> (\<exists>k. 0 < k \<and> k \<le> n \<and> (t + Suc k) mod P = 0)"
    unfolding due_def by (simp only:)
  show ?thesis unfolding r
  proof
    assume "due P t (Suc n)"
    then obtain k where k: "0 < k" "k \<le> Suc n" "(t + k) mod P = 0" unfolding due_def by (elim exE conjE)
    show "(t + 1) mod P = 0 \<or> (\<exists>k. 0 < k \<and> k \<le> n \<and> (t + Suc k) mod P = 0)"
    proof (cases "k = 1")
      case False
      then have "0 < k - 1" "k - 1 \<le> n" using k(1,2) by simp_all
      moreover have "(t + Suc (k - 1)) mod P = 0" using k(1,3) by simp
      ultimately show ?thesis by (intro disjI2 exI [of _ "k - 1"] conjI)
    qed (use k(3) in simp)
  next
    assume "(t + 1) mod P = 0 \<or> (\<exists>k. 0 < k \<and> k \<le> n \<and> (t + Suc k) mod P = 0)"
    then show "due P t (Suc n)"
    proof (elim disjE exE conjE)
      assume "(t + 1) mod P = 0"
      then show ?thesis unfolding due_def by (intro exI [of _ 1]) simp
    next
      fix k assume "0 < k" "k \<le> n" "(t + Suc k) mod P = 0"
      then show ?thesis unfolding due_def by (intro exI [of _ "Suc k"]) simp
    qed
  qed
qed

lemma timer_ticks_ok:
  assumes "timer_wf s"
  shows "timer_wf (timer_ticks ps s) \<and> millis (timer_ticks ps s) = (millis s + length ps) mod 300000
    \<and> (Time200msflag (timer_ticks ps s) \<longleftrightarrow> Time200msflag s \<or> due 200 (millis s) (length ps))
    \<and> (Time1sflag (timer_ticks ps s) \<longleftrightarrow> Time1sflag s \<or> due 1000 (millis s) (length ps))
    \<and> (Time1minflag (timer_ticks ps s) \<longleftrightarrow> Time1minflag s \<or> due 60000 (millis s) (length ps))"
  using assms
proof (induction ps arbitrary: s)
  case Nil
  have "millis s < 300000"
  proof -
    have "unat (Time1msCnt s) < 200" using Nil by (simp add: timer_wf_def word_less_nat_alt)
    moreover have "200 * Time200msCnt s \<le> 800" "1000 * Time1sCnt s \<le> 59000" "60000 * Time5minCnt s \<le> 240000"
      using Nil by (simp_all add: timer_wf_def)
    ultimately show ?thesis unfolding millis_def by linarith
  qed
  then show ?case using Nil by simp
next
  case (Cons p ps)
  note t = isr_tick_ok [OF Cons.prems, of p]
  have d: "due P (millis s) (length (p # ps)) \<longleftrightarrow> (millis s + 1) mod P = 0 \<or> due P (millis (Time3_irg_handler p s)) (length ps)"
    if "P dvd 300000" for P unfolding t(2) list.size(4) add_Suc_right add_0_right by (rule due_Suc [OF that])
  have m: "((millis s + 1) mod 300000 + length ps) mod 300000 = (millis s + length (p # ps)) mod 300000"
    by (simp add: mod_simps)
  show ?case using Cons.IH [OF t(1)] t m d [of 200] d [of 1000] d [of 60000] by simp
qed

section \<open>The length of a key press\<close>

lemma scan_again:
  assumes k: "scanned_key p = k" "k \<noteq> KEY_NONE" "keyvalbak t = k" and c: "unat (keyvalcount t) = min m 0xffff"
  shows "keyvalbak (keyscanhandler p t) = k" "unat (keyvalcount (keyscanhandler p t)) = min (Suc m) 0xffff"
    "keyval (keyscanhandler p t) = (if k = ENTER_KEY \<and> Suc m = 300 then PRIN_KEY else keyval t)"
proof -
  let ?u = "if keyvalcount t \<noteq> 0xffff then t\<lparr>keyvalcount := keyvalcount t + 1\<rparr> else t"
  have full: "keyvalcount t = 0xffff \<longleftrightarrow> 0xffff \<le> m"
    unfolding word_unat_eq_iff c by (simp add: min_def)
  have cu: "unat (keyvalcount ?u) = min (Suc m) 0xffff"
    using c full by (simp add: unat_word_ariths)
  then have at: "keyvalcount ?u = 300 \<longleftrightarrow> Suc m = 300"
    unfolding word_unat_eq_iff [of "keyvalcount ?u"] cu by (simp add: min_def)
  have s: "keyscanhandler p t = (if keyvalcount ?u = 300 \<and> keyvalbak ?u = ENTER_KEY then ?u\<lparr>keyval := PRIN_KEY\<rparr> else ?u)"
    unfolding keyscanhandler_def Let_def using k by simp
  have u: "keyvalbak ?u = k" "keyval ?u = keyval t" using k(3) by simp_all
  have e: "keyvalbak (if b then ?u\<lparr>keyval := PRIN_KEY\<rparr> else ?u) = keyvalbak ?u"
    "keyvalcount (if b then ?u\<lparr>keyval := PRIN_KEY\<rparr> else ?u) = keyvalcount ?u"
    "keyval (if b then ?u\<lparr>keyval := PRIN_KEY\<rparr> else ?u) = (if b then PRIN_KEY else keyval ?u)" for b
    by (cases b; simp)+
  show "keyvalbak (keyscanhandler p t) = k" unfolding s e u ..
  show "unat (keyvalcount (keyscanhandler p t)) = min (Suc m) 0xffff" unfolding s e cu ..
  show "keyval (keyscanhandler p t) = (if k = ENTER_KEY \<and> Suc m = 300 then PRIN_KEY else keyval t)"
    unfolding s e u at by (simp only: conj_commute)
qed

lemma scan_held:
  assumes "scanned_key p = k" "k \<noteq> KEY_NONE" "keyvalbak s = KEY_NONE"
  shows "keyvalbak ((keyscanhandler p ^^ Suc n) s) = k \<and> unat (keyvalcount ((keyscanhandler p ^^ Suc n) s)) = min (Suc n) 0xffff
    \<and> keyval ((keyscanhandler p ^^ Suc n) s) = (if k = ENTER_KEY \<and> 300 \<le> Suc n then PRIN_KEY else keyval s)"
proof (induction n)
  case 0
  then show ?case using assms by (simp add: keyscanhandler_def)
next
  case (Suc n)
  have f: "(keyscanhandler p ^^ Suc (Suc n)) s = keyscanhandler p ((keyscanhandler p ^^ Suc n) s)" by simp
  note again = scan_again [OF assms(1,2) conjunct1 [OF Suc.IH] conjunct1 [OF conjunct2 [OF Suc.IH]]]
  have "keyval ((keyscanhandler p ^^ Suc (Suc n)) s) = (if k = ENTER_KEY \<and> 300 \<le> Suc (Suc n) then PRIN_KEY else keyval s)"
    unfolding f again(3) using Suc.IH by auto
  then show ?case using again(1,2) unfolding f by blast
qed

lemma key_released:
  assumes "scanned_key r = KEY_NONE"
  shows "keyval (keyscanhandler r s) = (if 15 < keyvalcount s \<and> \<not> (300 < keyvalcount s \<and> keyvalbak s = ENTER_KEY) then keyvalbak s else keyval s)"
    "keyvalbak (keyscanhandler r s) = KEY_NONE" "keyvalcount (keyscanhandler r s) = 0"
  using assms by (simp_all add: keyscanhandler_def Let_def)

section \<open>The accuracy of the speed\<close>

lemma rounded_div: "(if 5 \<le> n mod 10 then n div 10 + 1 else n div 10) = (n + 5) div (10 :: nat)"
proof -
  have "(n + 5) div 10 = n div 10 + (n mod 10 + 5) div 10" using div_add1_eq [of n 5 10] by simp
  moreover have "(n mod 10 + 5) div 10 = (if 5 \<le> n mod 10 then 1 else 0)"
    using mod_less_divisor [of 10 n] by (simp add: le_div_geq)
  ultimately show ?thesis by simp
qed

lemma unat_times_small: "unat x * unat y < 2 ^ 32 \<Longrightarrow> unat (x * y) = unat x * unat y" for x y :: u32
  by (simp add: unat_word_ariths)

lemma capped_round:
  fixes S :: u32
  assumes "unat S < 4294967296 - 10"
  shows "unat (if 255 < (if 5 \<le> S mod 10 then S div 10 + 1 else S div 10) then 255
      else (if 5 \<le> S mod 10 then S div 10 + 1 else S div 10)) = min 255 ((unat S + 5) div 10)"
proof -
  let ?R = "if 5 \<le> S mod 10 then S div 10 + 1 else S div 10"
  have m5: "5 \<le> S mod 10 \<longleftrightarrow> 5 \<le> unat S mod 10" by (simp add: word_le_nat_alt unat_mod)
  have d: "unat (S div 10) = unat S div 10" by (simp add: unat_div)
  have d1: "unat (S div 10 + 1) = unat S div 10 + 1" using assms by (simp add: unat_word_ariths d)
  have r: "unat ?R = (unat S + 5) div 10" unfolding rounded_div [symmetric] m5 [symmetric] using d d1 by (cases "5 \<le> S mod 10") simp_all
  have cap: "unat (if 255 < x then 255 else x) = min 255 (unat x)" for x :: u32 by (simp add: word_less_nat_alt min_def)
  show ?thesis unfolding cap r ..
qed

lemma ComputeSpeed_value:
  assumes "0 < PulseCoff para" "unat pulse * (7200000 div unat (PulseCoff para) * 5) < 2 ^ 32"
  shows "\<exists>v. ComputeSpeed para pulse = Some v
    \<and> unat v = min 255 ((unat pulse * (7200000 div unat (PulseCoff para) * 5) div 2000 + 5) div 10)"
proof -
  let ?K = "unat (PulseCoff para)"
  let ?A = "7200000 div ucast (PulseCoff para) :: u32"
  let ?T = "(?A * 10) div 2"
  have k: "unat (ucast (PulseCoff para) :: u32) = ?K"
    using unsigned_less [of "PulseCoff para", where ?'a = nat] by (simp add: unsigned_ucast_eq unsigned_take_bit_eq take_bit_nat_eq_self)
  have t0: "unat ?A = 7200000 div ?K" by (simp add: unat_div k)
  have le: "7200000 div ?K \<le> 7200000" by simp
  have "7200000 div ?K * 10 < 2 ^ 32" using mult_right_mono [OF le, of 10] by (rule le_less_trans) simp_all
  then have "unat (?A * 10) = 7200000 div ?K * 10" unfolding unat_word_ariths(2) t0 by simp
  then have t: "unat ?T = 7200000 div ?K * 5" unfolding unat_div by simp
  let ?S = "?T * pulse div 2000"
  have s: "unat ?S = unat pulse * (7200000 div ?K * 5) div 2000"
  proof -
    have "unat ?T * unat pulse < 2 ^ 32" unfolding t using assms(2) by (simp only: mult.commute)
    then have m: "unat (?T * pulse) = unat ?T * unat pulse" by (rule unat_times_small)
    have "unat (2000 :: u32) = 2000" by simp
    then show ?thesis by (simp only: unat_div [of "?T * pulse"] m t mult.commute [of "unat pulse"])
  qed
  have small: "unat ?S < 4294967296 - 10" using assms(2) unfolding s by (simp add: less_mult_imp_div_less)
  show ?thesis using assms(1) capped_round [OF small] unfolding s by (auto simp: ComputeSpeed_def Let_def)
qed

lemma real_div_bounds: "0 < x \<Longrightarrow> real (n div x) \<le> real n / real x" "0 < x \<Longrightarrow> real n / real x - 1 \<le> real (n div x)"
proof -
  assume x: "0 < x"
  show "real (n div x) \<le> real n / real x" by (rule of_nat_div_le_of_nat)
  have "n = n div x * x + n mod x" by simp
  also have "\<dots> \<le> n div x * x + x" using mod_less_divisor [OF x, of n] by (intro add_left_mono less_imp_le)
  finally have "n \<le> (n div x + 1) * x" by (simp only: add_mult_distrib mult_1)
  then have "real n \<le> (real (n div x) + 1) * real x" by (metis of_nat_1 of_nat_add of_nat_le_iff of_nat_mult)
  then have "real n / real x \<le> real (n div x) + 1" using x by (simp only: pos_divide_le_eq of_nat_0_less_iff)
  then show "real n / real x - 1 \<le> real (n div x)" by linarith
qed

text \<open>What the two divisions and the rounding lose.\<close>

lemma speed_rounding:
  assumes "0 < K"
  shows "real ((p * (7200000 div K * 5) div 2000 + 5) div 10) \<le> 1800 * real p / real K + 1 / 2"
    "1800 * real p / real K - 1 / 2 - real p / 4000 \<le> real ((p * (7200000 div K * 5) div 2000 + 5) div 10)"
proof -
  let ?q = "7200000 div K"
  let ?N = "p * (?q * 5) div 2000"
  let ?R = "(?N + 5) div 10"
  have q: "real ?q \<le> 7200000 / real K" "7200000 / real K - 1 \<le> real ?q"
    using real_div_bounds [OF assms, of 7200000] by simp_all
  have N: "real ?N \<le> real p * real ?q / 400" "real p * real ?q / 400 - 1 \<le> real ?N"
    using real_div_bounds [of 2000 "p * (?q * 5)"] by simp_all
  have "10 * ?R \<le> ?N + 5" "?N \<le> 10 * ?R + 4" by linarith+
  then have R: "10 * real ?R \<le> real ?N + 5" "real ?N \<le> 10 * real ?R + 4" by linarith+
  have up: "real p * real ?q \<le> real p * (7200000 / real K)" using q(1) by (rule mult_left_mono) simp
  have lo: "real p * (7200000 / real K - 1) \<le> real p * real ?q" using q(2) by (rule mult_left_mono) simp
  have e: "real p * (7200000 / real K) = 4000 * (1800 * real p / real K)" "real p * (7200000 / real K - 1) = 4000 * (1800 * real p / real K) - real p"
    by (simp_all add: algebra_simps)
  show "real ?R \<le> 1800 * real p / real K + 1 / 2" using R(1) N(1) up unfolding e by linarith
  show "1800 * real p / real K - 1 / 2 - real p / 4000 \<le> real ?R" using R(2) N(2) lo unfolding e by linarith
qed

lemma ComputeSpeed_le: "ComputeSpeed para pulse = Some v \<Longrightarrow> v \<le> 255"
  by (auto simp: ComputeSpeed_def Let_def split: if_splits)

end
