(* ===== verification/Vtdr_Guarantees.thy ===== *)
theory Vtdr_Guarantees
  imports Vtdr_Drive Vtdr_Ticks
begin

text \<open>The properties of the recorder application, each with an application to a concrete recorder.\<close>

section \<open>A recorder for the examples\<close>

definition demo_store :: "chip store" where
  "demo_store = \<lparr>st_chip = blank_chip, st_table = bytes_table (replicate 164 0), st_Parameter = replicate 648 0, st_large = replicate 8192 0\<rparr>"

definition demo_clock :: CLOCK where
  "demo_clock = \<lparr>c_year = 0x13, c_month = 0x03, c_day = 0x18, c_hour = 0x08, c_minute = 0x00, c_second = 0x00\<rparr>"

definition demo_recorder :: "chip recorder" where
  "demo_recorder = \<lparr>rc_store = demo_store, curTime = demo_clock, startdriverclk = demo_clock, enddriverclk = demo_clock, CurPN = 0,
     LastPN20ms = 0, LastPN1s = 0, LastPN1min = 0, RsSpeed = 0, CurSpeed = 0, Curspeed1s = 0, Curspeed1min = 0, radionum = 0, CurStatus = 0,
     Time6sCnt = 0, Time30mincnt1 = 0, Time30mincnt2 = 0, Time30mincnt3 = 0, Time30mincnt4 = 0, Time10sCnts = 0, Time10sCnte = 0,
     Time20sCnt1 = 0, Time20sCnt2 = 0, Time200msflag = False, Time1sflag = False, Ver1sflag = False, Time1minflag = False, Time1msCnt = 0,
     Time200msCnt = 0, Time1sCnt = 0, Time5minCnt = 0, Verificationstatus = VER_NONE, insertcount = 0, keyval = KEY_NONE,
     keyvalbak = KEY_NONE, keyvalcount = 0, TimeChange = 0, DriverStatus = 0, AlarmFlag = 0, DriverRegstatus = 0, DisplayMin = 0,
     keepstart10s = False, keepstop10s = False, keepspeed5min = False, keeprestatus = False, keepthespeed = False,
     locationchagestatus = False, speeddel = 0, DoubltPointstatus = NONE_DB, JournalRecordstatus = NONE_OPR, powerstatus = 0,
     paramodifystatus = 0, InRecordCycle = 0, STATUS1min = 0, location = replicate 10 0, ddb_head = replicate 24 0,
     ddb_data = replicate 100 (0, 0), ddb_validlocation = replicate 10 0, DBcnt = 100, ddbspeed = replicate 100 0, ddbstatus = replicate 100 0,
     basedataclk = demo_clock, base_speed = replicate 60 0, base_status = replicate 60 0, lclk = demo_clock,
     Lsizedata = replicate 60 (replicate 10 0), speed1min = replicate 60 0, over_license = replicate 18 0, startdrivertime = demo_clock,
     enddrivertime = demo_clock, startlocation = replicate 10 0, endlocation = replicate 10 0, reg_head = replicate 24 0, registerstatus = 0,
     power_status = 0, modifydata = replicate 7 0, journal_speedstatus = 0, journal_times = replicate 12 0, journal_speed = replicate 60 0,
     journal_rspeed = replicate 60 0, JNcnt = 0\<rparr>"

lemma demo_ready: "chip_ready (st_chip demo_store)" "length (st_large demo_store) = 8192"
  by (simp_all add: demo_store_def chip_ready_def blank_chip_def)

lemma demo_wf: "rec_wf demo_recorder" "quiet demo_recorder"
  by (simp_all add: rec_wf_def quiet_def demo_recorder_def demo_store_def)

lemma demo_recorder_store [simp]: "rc_store demo_recorder = demo_store"
  by (simp add: demo_recorder_def)

section \<open>Runs of the recorder\<close>

text \<open>Whatever happens after a start (pulses, ticks, satellite sentences and rounds of the main loop in any
  order), the store stays in order, every record keeps its size, the rings stay at their starts, and the flash above
  the partition table changes only where the first record of a ring lies; the rings of the journal and of
  drives that were too long are never written at all.\<close>

theorem recorder_run_safe:
  assumes "recorder_flash b cap mem ready wel settling" "ready (st_chip (rc_store s))" "length (st_large (rc_store s)) = 8192"
    and "rec_wf s" "quiet s"
  shows "\<exists>st. InitializeTable b (rc_store s) = Some st \<and> (\<forall>es s'. (\<forall>e\<in>set es. event_ok e) \<longrightarrow> rec_run b es (s\<lparr>rc_store := st\<rparr>) = Some s' \<longrightarrow>
      store_ok ready (rc_store s') \<and> rec_wf s' \<and> (\<forall>g. CurPoint (ring_of g (st_table (rc_store s'))) = ring_start g)
      \<and> (\<forall>x. 0x2000 \<le> x \<longrightarrow> mem (st_chip (rc_store s')) x \<noteq> mem (st_chip (rc_store s)) x \<longrightarrow>
            (\<exists>g. g \<noteq> RJournal \<and> g \<noteq> ROverSpeed \<and> unat (ring_start g) \<le> x \<and> x < unat (ring_start g) + rec_len g)))"
proof -
  obtain st where st: "InitializeTable b (rc_store s) = Some st" "store_ok ready st" "length (st_Parameter st) = 648" "rings_fresh (st_table st)"
    "\<forall>x. 0x2000 \<le> x \<longrightarrow> mem (st_chip st) x = mem (st_chip (rc_store s)) x"
    using recorder_flash.init_table_ok [OF assms(1-3)] by blast
  let ?s = "s\<lparr>rc_store := st\<rparr>"
  have inv: "rec_inv ready ?s" using st(2-4) assms(4,5) by (simp add: rec_inv_def flash_inv_def rec_wf_store [unfolded rec_wf_def] rec_wf_def)
  have "rec_inv ready s' \<and> untouched mem ?s s'" if "\<forall>e\<in>set es. event_ok e" "rec_run b es ?s = Some s'" for es s'
    using recorder_flash.rec_run_keeps [OF assms(1) that(2,1)] inv by (simp add: keeps_def)
  moreover have "\<exists>g. g \<noteq> RJournal \<and> g \<noteq> ROverSpeed \<and> unat (ring_start g) \<le> x \<and> x < unat (ring_start g) + rec_len g"
    if "untouched mem ?s s'" "0x2000 \<le> x" "mem (st_chip (rc_store s')) x \<noteq> mem (st_chip (rc_store s)) x" for s' x
    using untouched_where [OF that(1,2)] that(3) st(5) that(2) by simp
  ultimately show ?thesis using st(1) by (fastforce simp: rec_inv_def flash_inv_def rings_fresh_def)
qed

definition demo_inputs :: inputs where
  "demo_inputs = \<lparr>in_now = demo_clock, in_pins = (\<lambda>_. True), in_licence = replicate 18 0, in_stale = 0, in_junk = (\<lambda>_ _. 0)\<rparr>"

theorem recorder_run_safe_witness:
  "\<exists>st s'. InitializeTable ref_bus demo_store = Some st
    \<and> rec_run ref_bus [Round demo_inputs, Pulse, Tick (\<lambda>_. True), GpsSignal [0x30, 0x37]] (demo_recorder\<lparr>rc_store := st\<rparr>) = Some s'
    \<and> rec_wf s' \<and> w_mem (st_chip (rc_store s')) 0xa2000 = 0xff"
proof -
  obtain st where st: "InitializeTable ref_bus demo_store = Some st" "\<forall>es s'. (\<forall>e\<in>set es. event_ok e) \<longrightarrow> rec_run ref_bus es (demo_recorder\<lparr>rc_store := st\<rparr>) = Some s' \<longrightarrow>
      store_ok chip_ready (rc_store s') \<and> rec_wf s' \<and> (\<forall>g. CurPoint (ring_of g (st_table (rc_store s'))) = ring_start g)
      \<and> (\<forall>x. 0x2000 \<le> x \<longrightarrow> w_mem (st_chip (rc_store s')) x \<noteq> w_mem (st_chip demo_store) x \<longrightarrow>
            (\<exists>g. g \<noteq> RJournal \<and> g \<noteq> ROverSpeed \<and> unat (ring_start g) \<le> x \<and> x < unat (ring_start g) + rec_len g))"
    using recorder_run_safe [OF ref_recorder.recorder_flash_axioms, of demo_recorder] demo_ready demo_wf by auto
  obtain s' where s': "rec_run ref_bus [Round demo_inputs, Pulse, Tick (\<lambda>_. True), GpsSignal [0x30, 0x37]] (demo_recorder\<lparr>rc_store := st\<rparr>) = Some s'"
    using idle_round [of "demo_recorder\<lparr>rc_store := st\<rparr>" ref_bus demo_inputs] by (auto simp: demo_recorder_def)
  have out: "\<not> (\<exists>g. g \<noteq> RJournal \<and> g \<noteq> ROverSpeed \<and> unat (ring_start g) \<le> 0xa2000 \<and> 0xa2000 < unat (ring_start g) + rec_len g)"
    by (rule notI, elim exE conjE, rename_tac g, case_tac g) simp_all
  have ok: "\<forall>e\<in>set [Round demo_inputs, Pulse, Tick (\<lambda>_. True), GpsSignal [0x30, 0x37]]. event_ok e" by (simp add: demo_inputs_def)
  note safe = st(2) [THEN spec, THEN spec, THEN mp, OF ok, THEN mp, OF s']
  have "w_mem (st_chip (rc_store s')) 0xa2000 = w_mem (st_chip demo_store) 0xa2000"
    using conjunct2 [OF conjunct2 [OF conjunct2 [OF safe]], rule_format, of "0xa2000"] out by auto
  then have "w_mem (st_chip (rc_store s')) 0xa2000 = 0xff" by (simp add: demo_store_def blank_chip_def)
  moreover have "rec_wf s'" using safe by blast
  ultimately show ?thesis using st(1) s' by blast
qed

section \<open>The store\<close>

text \<open>C27: Every start of the recorder forgets where its rings stood: whatever table the flash holds, even the correct
  one of the last run, the write position of every ring is its first address again; the table in the
  flash is that table, and no record is changed.\<close>

theorem table_restart:
  assumes "recorder_flash b cap mem ready wel settling" "ready (st_chip s)" "length (st_large s) = 8192"
  shows "\<exists>s'. InitializeTable b s = Some s' \<and> (\<forall>g. CurPoint (ring_of g (st_table s')) = ring_start g)
    \<and> IsPartitionTableCorrect (st_table s') = 1 \<and> window (mem (st_chip s')) 0x1000 164 = table_bytes (st_table s')
    \<and> (\<forall>x. 0x2000 \<le> x \<longrightarrow> mem (st_chip s') x = mem (st_chip s) x)"
  using recorder_flash.init_table_ok [OF assms] by (auto simp: rings_fresh_def synced_def)

theorem table_restart_witness:
  "\<exists>s'. InitializeTable ref_bus demo_store = Some s' \<and> (\<forall>g. CurPoint (ring_of g (st_table s')) = ring_start g)
    \<and> IsPartitionTableCorrect (st_table s') = 1 \<and> window (w_mem (st_chip s')) 0x1000 164 = table_bytes (st_table s')
    \<and> (\<forall>x. 0x2000 \<le> x \<longrightarrow> w_mem (st_chip s') x = w_mem (st_chip demo_store) x)"
  by (rule table_restart [OF ref_recorder.recorder_flash_axioms demo_ready])

text \<open>C11: Of all the records written since a start the flash keeps only the last one of each ring: \<open>MovePtablePtr\<close> moves a
  copy of the ring, so each record is put where the one before it was.\<close>

theorem last_record_kept:
  assumes "recorder_flash b cap mem ready wel settling" "ready (st_chip s)" "length (st_large s) = 8192"
    and "\<forall>(g, d)\<in>set rs. length d < 4096"
  shows "\<exists>s0 s'. InitializeTable b s = Some s0 \<and> write_all b junk rs s0 = Some s'
    \<and> (\<forall>g d. map_of (rev rs) g = Some d \<longrightarrow> window (mem (st_chip s')) (unat (ring_start g)) (length d) = d)
    \<and> (\<forall>x. 0x2000 \<le> x \<longrightarrow> (\<forall>(g, d)\<in>set rs. x \<notin> {unat (ring_start g)..<unat (ring_start g) + length d})
          \<longrightarrow> mem (st_chip s') x = mem (st_chip s) x)"
proof -
  obtain s0 where s0: "InitializeTable b s = Some s0" "store_ok ready s0" "synced mem s0" "rings_fresh (st_table s0)"
    "\<forall>x. 0x2000 \<le> x \<longrightarrow> mem (st_chip s0) x = mem (st_chip s) x"
    using recorder_flash.init_table_ok [OF assms(1-3)] by blast
  obtain s' where "write_all b junk rs s0 = Some s'"
    "\<forall>g d. map_of (rev rs) g = Some d \<longrightarrow> window (mem (st_chip s')) (unat (ring_start g)) (length d) = d"
    "\<forall>x. 0x2000 \<le> x \<longrightarrow> (\<forall>(g, d)\<in>set rs. x \<notin> {unat (ring_start g)..<unat (ring_start g) + length d})
          \<longrightarrow> mem (st_chip s') x = mem (st_chip s0) x"
    using recorder_flash.write_all_ok [OF assms(1) s0(2,4,3) assms(4), of junk] by blast
  with s0 show ?thesis by auto
qed

theorem last_record_kept_witness:
  "\<exists>s0 s'. InitializeTable ref_bus demo_store = Some s0
    \<and> write_all ref_bus (\<lambda>_. 0) [(RPowerOff, [1, 2, 3]), (RPowerOff, [4, 5, 6])] s0 = Some s'
    \<and> window (w_mem (st_chip s')) 0xa0000 3 = [4, 5, 6] \<and> w_mem (st_chip s') 0xa0003 = 0xff"
proof -
  let ?rs = "[(RPowerOff, [1, 2, 3 :: u8]), (RPowerOff, [4, 5, 6])]"
  obtain s0 s' where s: "InitializeTable ref_bus demo_store = Some s0" "write_all ref_bus (\<lambda>_. 0) ?rs s0 = Some s'"
    "\<forall>g d. map_of (rev ?rs) g = Some d \<longrightarrow> window (w_mem (st_chip s')) (unat (ring_start g)) (length d) = d"
    "\<forall>x. 0x2000 \<le> x \<longrightarrow> (\<forall>(g, d)\<in>set ?rs. x \<notin> {unat (ring_start g)..<unat (ring_start g) + length d})
          \<longrightarrow> w_mem (st_chip s') x = w_mem (st_chip demo_store) x"
    using last_record_kept [OF ref_recorder.recorder_flash_axioms demo_ready, of ?rs "\<lambda>_. 0"] by force
  have "window (w_mem (st_chip s')) 0xa0000 3 = [4, 5, 6]" using s(3) [rule_format, of RPowerOff "[4, 5, 6]"] by (simp add: numeral_3_eq_3)
  moreover have "w_mem (st_chip s') 0xa0003 = 0xff" using spec [OF s(4), of "0xa0003"] by (simp add: demo_store_def blank_chip_def)
  ultimately show ?thesis using s(1,2) by blast
qed

text \<open>The partition table that is written is the one that is read back, except that a total distance
  of \<open>0xffffffff\<close> becomes 0.\<close>

theorem table_roundtrip:
  assumes "recorder_flash b cap mem ready wel settling" "ready c" "table_wf t"
  shows "\<exists>c'. WritePartitionTable b t c = Some (stored t, c')
    \<and> bytes_table (fst (SPI_FLASH_BufferRead b SPI1 0x1000 164 c')) = stored t"
  using recorder_flash.table_read_back [OF assms] by blast

theorem table_roundtrip_witness:
  "\<exists>c'. WritePartitionTable ref_bus (st_table demo_store) blank_chip = Some (stored (st_table demo_store), c')
    \<and> bytes_table (fst (SPI_FLASH_BufferRead ref_bus SPI1 0x1000 164 c')) = stored (st_table demo_store)"
  by (rule table_roundtrip [OF ref_recorder.recorder_flash_axioms])
    (simp_all add: chip_ready_def blank_chip_def table_wf_def demo_store_def bytes_table_def)

text \<open>\<open>AddPointer\<close> moves a position around its ring: for a position in a ring of \<open>n\<close> bytes and a distance of at most \<open>n\<close> in
  either direction the result is the position \<open>inc\<close> bytes on, modulo \<open>n\<close>, as long as nothing passes address 0 or
  the end of the address space.\<close>

theorem ring_arithmetic:
  assumes "BaseAddr r \<le> CurPoint r" "CurPoint r \<le> EndAddr r" "n = uint (EndAddr r) - uint (BaseAddr r) + 1"
    and "- n \<le> inc" "inc \<le> n" "0 \<le> uint (CurPoint r) + inc" "uint (EndAddr r) + n < 2 ^ 32"
  shows "uint (AddPointer r inc) = uint (BaseAddr r) + (uint (CurPoint r) - uint (BaseAddr r) + inc) mod n"
  by (rule AddPointer_ring [OF assms])

theorem ring_arithmetic_witness:
  "uint (AddPointer \<lparr>BaseAddr = 0x2000, EndAddr = 0x5afff, CurPoint = 0x5aff0, finshflag = 0\<rparr> 126)
      = uint (0x2000 :: u32) + (uint (0x5aff0 :: u32) - uint (0x2000 :: u32) + 126) mod 0x59000"
  using ring_arithmetic [of "\<lparr>BaseAddr = 0x2000, EndAddr = 0x5afff, CurPoint = 0x5aff0, finshflag = 0\<rparr>" "0x59000" 126] by simp

section \<open>Interrupts and inputs\<close>

text \<open>C16: The counters of the timer interrupt are the digits of one count of milliseconds modulo five minutes, and
  each of its flags is raised by exactly the ticks at which that count reaches a multiple of 200, 1000
  or 60000 milliseconds.\<close>

theorem isr_counts_time:
  assumes "timer_wf s"
  shows "timer_wf (timer_ticks ps s) \<and> millis (timer_ticks ps s) = (millis s + length ps) mod 300000
    \<and> (Time200msflag (timer_ticks ps s) \<longleftrightarrow> Time200msflag s \<or> due 200 (millis s) (length ps))
    \<and> (Time1sflag (timer_ticks ps s) \<longleftrightarrow> Time1sflag s \<or> due 1000 (millis s) (length ps))
    \<and> (Time1minflag (timer_ticks ps s) \<longleftrightarrow> Time1minflag s \<or> due 60000 (millis s) (length ps))"
  by (rule timer_ticks_ok [OF assms])

theorem isr_counts_time_witness:
  "millis (timer_ticks (replicate 200 (\<lambda>_. True)) demo_recorder) = 200 \<and> Time200msflag (timer_ticks (replicate 200 (\<lambda>_. True)) demo_recorder)"
proof -
  have "timer_wf demo_recorder" "millis demo_recorder = 0" by (simp_all add: timer_wf_def millis_def demo_recorder_def)
  moreover have "due 200 0 200" unfolding due_def by (intro exI [of _ 200]) simp
  ultimately show ?thesis using isr_counts_time [of demo_recorder "replicate 200 (\<lambda>_. True)"] by simp
qed

text \<open>A key held for \<open>n\<close> scans and then released gives: nothing for up to 15 scans; the key itself for
  more, except that the enter key held for more than 300 scans gives the print key.\<close>

theorem key_press:
  assumes "scanned_key p = k" "k \<noteq> KEY_NONE" "scanned_key r = KEY_NONE" "keyvalbak s = KEY_NONE" "0 < n"
  shows "keyval (keyscanhandler r ((keyscanhandler p ^^ n) s))
      = (if n \<le> 15 then keyval s else if k = ENTER_KEY \<and> 300 < n then PRIN_KEY else k)
    \<and> keyvalbak (keyscanhandler r ((keyscanhandler p ^^ n) s)) = KEY_NONE \<and> keyvalcount (keyscanhandler r ((keyscanhandler p ^^ n) s)) = 0"
proof -
  obtain m where m: "n = Suc m" using assms(5) gr0_conv_Suc by blast
  note h = scan_held [OF assms(1,2,4), of m]
  have c: "15 < keyvalcount ((keyscanhandler p ^^ n) s) \<longleftrightarrow> 15 < n" "300 < keyvalcount ((keyscanhandler p ^^ n) s) \<longleftrightarrow> 300 < n"
    using h unfolding m word_less_nat_alt by simp_all
  show ?thesis using h unfolding m [symmetric] key_released [OF assms(3)] c by auto
qed

theorem key_press_witness:
  "keyval (keyscanhandler (\<lambda>_. True) ((keyscanhandler (\<lambda>x. x \<noteq> PC7) ^^ 301) demo_recorder)) = PRIN_KEY"
  using key_press [of "\<lambda>x. x \<noteq> PC7" ENTER_KEY "\<lambda>_. True" demo_recorder 301] by (simp add: scanned_key_def demo_recorder_def)

text \<open>C39: The speed is that of the pulses: with a pulse coefficient \<open>k\<close> and as long as the product does not overflow,
  \<open>ComputeSpeed\<close> gives \<open>1800 p / k\<close> to within one half and \<open>p / 4000\<close> below 255, and 255 otherwise caps it.\<close>

theorem speed_accuracy:
  assumes "0 < PulseCoff para" "unat pulse * (7200000 div unat (PulseCoff para) * 5) < 2 ^ 32"
  shows "\<exists>v. ComputeSpeed para pulse = Some v \<and> v \<le> 255
    \<and> real (unat v) \<le> 1800 * real (unat pulse) / real (unat (PulseCoff para)) + 1 / 2
    \<and> (v < 255 \<longrightarrow> 1800 * real (unat pulse) / real (unat (PulseCoff para)) - 1 / 2 - real (unat pulse) / 4000 \<le> real (unat v))"
proof -
  let ?K = "unat (PulseCoff para)" and ?p = "unat pulse"
  have "0 < ?K" using assms(1) by (simp add: word_less_nat_alt)
  note a = speed_rounding [OF this, of ?p]
  define R where "R = (?p * (7200000 div ?K * 5) div 2000 + 5) div 10"
  obtain v where v: "ComputeSpeed para pulse = Some v" "unat v = min 255 R"
    using ComputeSpeed_value [OF assms] unfolding R_def by blast
  have "real (unat v) \<le> real R" "v < 255 \<longrightarrow> real (unat v) = real R" "v \<le> 255"
    using v(2) by (auto simp: word_le_nat_alt word_less_nat_alt simp del: of_nat_unat)
  then show ?thesis using v(1) a [folded R_def] by (intro exI [of _ v]) (auto simp del: of_nat_unat)
qed

theorem speed_accuracy_witness:
  "\<exists>v. ComputeSpeed (put_at 168 (le16 5500) (replicate 648 0)) 100 = Some v \<and> v \<le> 255
    \<and> real (unat v) \<le> 1800 * 100 / 5500 + 1 / 2 \<and> (v < 255 \<longrightarrow> 1800 * 100 / 5500 - 1 / 2 - 100 / 4000 \<le> real (unat v))"
proof -
  have "PulseCoff (put_at 168 (le16 5500) (replicate 648 0)) = 5500" by (simp add: PulseCoff_def put_at_def)
  then show ?thesis using speed_accuracy [of "put_at 168 (le16 5500) (replicate 648 0)" 100] by simp
qed

section \<open>The main loop\<close>

text \<open>The odometer never moves: \<open>ComputeSpeed\<close> is at most 255, so the mean speed of a minute, which is the speed divided by
  300, is 0, and the distance is decoded from BCD, has 0 added and is encoded again.\<close>

theorem odometer_frozen:
  assumes "Time1minflag s" "0 < PulseCoff (parameter s)" "4 \<le> length (parameter s)" "\<forall>i<4. bcd_ok (parameter s ! i)"
  shows "\<exists>s'. at_minute s = Some s' \<and> Curspeed1min s' = 0 \<and> parameter s' = parameter s"
  by (rule at_minute_frozen [OF assms])

definition demo_parameters :: "u8 list" where
  "demo_parameters = [0x61, 0x89, 0x67, 0x45] @ replicate 164 0 @ [0x7c, 0x15] @ replicate 478 0"

lemma demo_parameters: "length demo_parameters = 648" "PulseCoff demo_parameters = 5500"
  by (simp_all add: demo_parameters_def PulseCoff_def of_le16_def)

lemma demo_odometer: "\<forall>i<4. bcd_ok (demo_parameters ! i)"
proof -
  have "bcd_ok (demo_parameters ! 0)" "bcd_ok (demo_parameters ! 1)" "bcd_ok (demo_parameters ! 2)" "bcd_ok (demo_parameters ! 3)"
    by (simp_all add: demo_parameters_def bcd_ok_def)
  moreover have "i = 0 \<or> i = 1 \<or> i = 2 \<or> i = 3" if "i < 4" for i :: nat using that by linarith
  ultimately show ?thesis by blast
qed

theorem odometer_frozen_witness:
  "\<exists>s'. at_minute (demo_recorder\<lparr>rc_store := demo_store\<lparr>st_Parameter := demo_parameters\<rparr>, Time1minflag := True, CurPN := 100000\<rparr>) = Some s'
    \<and> Curspeed1min s' = 0 \<and> parameter s' = demo_parameters"
proof -
  let ?s = "demo_recorder\<lparr>rc_store := demo_store\<lparr>st_Parameter := demo_parameters\<rparr>, Time1minflag := True, CurPN := 100000\<rparr>"
  have p: "parameter ?s = demo_parameters" by (simp add: parameter_def)
  show ?thesis by (rule odometer_frozen [of ?s, unfolded p]) (simp_all add: demo_parameters demo_odometer)
qed

text \<open>The alarm for driving too long is raised after four minutes of a drive, not after 225, and the drive counts as too
  long from its first minute on: the differences of \<open>mktime\<close> are in seconds, the limits in minutes.\<close>

theorem overtime_after_minutes:
  assumes "keepstart10s s" "bit (DriverStatus s) 0" "good_clock (startdriverclk s)" "good_clock (curTime s)"
    and "d = abs_minutes (decode_clock (curTime s)) - abs_minutes (decode_clock (startdriverclk s))" "0 \<le> d" "d < 71582788"
  shows "(bit (AlarmFlag (watch_driving stale s)) 0 \<longleftrightarrow> bit (AlarmFlag s) 0 \<or> 4 \<le> d)
    \<and> (bit (DriverStatus (watch_driving stale s)) 3 \<longleftrightarrow> bit (DriverStatus s) 3 \<or> 1 \<le> d)"
proof -
  have n: "unat (timechange (curTime s) - timechange (startdriverclk s)) = nat (60 * d)"
    using driven_seconds [OF assms(3,4)] assms(5-7) by simp
  have "225 < nat (60 * d) \<longleftrightarrow> 4 \<le> d" "15 < nat (60 * d) \<longleftrightarrow> 1 \<le> d" by linarith+
  then show ?thesis using assms(1) n drive_time_flags [of "drive_on s"] drive_on_again [OF assms(2)] by (simp add: watch_driving_def)
qed

theorem overtime_after_minutes_witness:
  "bit (AlarmFlag (watch_driving 0 (demo_recorder\<lparr>keepstart10s := True, DriverStatus := 1, curTime := demo_clock\<lparr>c_minute := 0x04\<rparr>\<rparr>))) 0"
proof -
  let ?s = "demo_recorder\<lparr>keepstart10s := True, DriverStatus := 1, curTime := demo_clock\<lparr>c_minute := 0x04\<rparr>\<rparr>"
  have s: "startdriverclk ?s = demo_clock" "curTime ?s = demo_clock\<lparr>c_minute := 0x04\<rparr>" by (simp_all add: demo_recorder_def)
  have d: "decode_clock demo_clock = \<lparr>d_year = 13, d_month = 3, d_day = 18, d_time = 480\<rparr>"
    "decode_clock (demo_clock\<lparr>c_minute := 0x04\<rparr>) = \<lparr>d_year = 13, d_month = 3, d_day = 18, d_time = 484\<rparr>"
    by (simp_all add: decode_clock_def demo_clock_def dec_def BCD2Char_def)
  have "good_clock demo_clock" "good_clock (demo_clock\<lparr>c_minute := 0x04\<rparr>)"
    unfolding good_clock_def d by (simp_all add: demo_clock_def bcd_ok_def dec_def BCD2Char_def valid_dt_def valid_date_def days_in_month_def)
  then show ?thesis using overtime_after_minutes [of ?s 4 0] unfolding s d by (simp add: abs_minutes_def)
qed

text \<open>C5: The record of a minute of driving: from the second after the handler wrote the last one it collects sixty
  speeds and signals, and at second 0 writes them behind the clock of the minute to the ring of base data.\<close>

theorem minute_record:
  assumes "recorder_flash b cap mem ready wel settling" "flash_inv ready s" "DriverStatus s AND 0x01 \<noteq> 0" "InRecordCycle s AND 0x10 \<noteq> 0"
    and "\<forall>k. c_second (clk k) = Char2BCD (of_nat (k mod 60))" "length (base_speed s) = 60" "length (base_status s) = 60" "length xs = 60"
  shows "\<exists>s'. drive_seconds b junk clk 1 xs s = Some s' \<and> flash_inv ready s' \<and> basedataclk s' = clk 60
    \<and> window (mem (st_chip (rc_store s'))) 0x2000 126 = clock_bytes (basedataclk s) @ map fst xs @ map snd xs"
  by (rule recorder_flash.drive_minute_ok [OF assms])

definition demo_seconds :: "nat \<Rightarrow> CLOCK" where
  "demo_seconds k = demo_clock\<lparr>c_second := Char2BCD (of_nat (k mod 60))\<rparr>"

theorem minute_record_witness:
  "\<exists>st s'. InitializeTable ref_bus demo_store = Some st
    \<and> drive_seconds ref_bus (\<lambda>_. 0) demo_seconds 1 (replicate 60 (50, 1)) (demo_recorder\<lparr>rc_store := st, DriverStatus := 1, InRecordCycle := 0x10\<rparr>) = Some s'
    \<and> window (w_mem (st_chip (rc_store s'))) 0x2000 126 = clock_bytes demo_clock @ replicate 60 50 @ replicate 60 1"
proof -
  obtain st where st: "InitializeTable ref_bus demo_store = Some st" "store_ok chip_ready st" "synced w_mem st" "rings_fresh (st_table st)"
    using ref_recorder.init_table_ok [OF demo_ready] by blast
  let ?s = "demo_recorder\<lparr>rc_store := st, DriverStatus := 1, InRecordCycle := 0x10\<rparr>"
  have "flash_inv chip_ready ?s" using st by (simp add: flash_inv_def)
  from minute_record [OF ref_recorder.recorder_flash_axioms this, of demo_seconds "replicate 60 (50, 1)" "\<lambda>_. 0"] st(1)
  show ?thesis by (auto simp: demo_seconds_def demo_recorder_def)
qed

text \<open>In the minutes 40 to 59 of an hour a driving recorder leaves its arrays: the BCD minute is used as an index.\<close>

theorem location_overrun:
  assumes "DriverStatus s AND 0x01 \<noteq> 0" "TimeChange s AND 0x10 \<noteq> 0" "length (Lsizedata s) = 60" "length (speed1min s) = 60"
    and "c_minute (curTime s) = Char2BCD (of_nat m)" "0 < m" "m < 60"
  shows "LocationHandler b junk s = None \<longleftrightarrow> 40 \<le> m"
proof -
  have m: "unat (of_nat m :: u8) = m" using assms(7) u8_of_small by simp
  then have u: "unat (c_minute (curTime s)) = 16 * (m div 10) + m mod 10"
    unfolding assms(5) using assms(7) unat_Char2BCD [of "of_nat m"] by (simp add: word_le_nat_alt)
  have nz: "c_minute (curTime s) \<noteq> 0" unfolding assms(5) using second_of(2) [OF assms(7)] assms(6) by simp
  have out: "unat (c_minute (curTime s)) - 1 < 60 \<longleftrightarrow> m < 40" 
  proof (cases "m div 10 \<le> 3")
    case True
    then have "m < 40" "16 * (m div 10) \<le> 48" "m mod 10 \<le> 9" by simp_all
    then show ?thesis unfolding u by simp
  next
    case False
    then have "40 \<le> m" "64 \<le> 16 * (m div 10)" by simp_all
    then show ?thesis unfolding u by linarith
  qed
  let ?s = "s\<lparr>TimeChange := TimeChange s AND NOT 0x10\<rparr>"
  have "LocationHandler b junk s = location_driving b junk ?s" using assms(1,2) by (simp only: LocationHandler_def simp_thms if_True)
  also have "\<dots> = location_put (unat (c_minute (curTime s)) - 1) (location s) (ucast (Curspeed1min s)) ?s"
    using nz by (simp add: location_driving_def)
  also have "\<dots> = None \<longleftrightarrow> \<not> unat (c_minute (curTime s)) - 1 < 60" using assms(3,4) by (simp add: location_put_def set_nth_def)
  finally show ?thesis using out by linarith
qed

theorem location_overrun_witness:
  "LocationHandler ref_bus (\<lambda>_. 0) (demo_recorder\<lparr>DriverStatus := 1, TimeChange := 0x10, curTime := demo_clock\<lparr>c_minute := Char2BCD (of_nat 45)\<rparr>\<rparr>) = None"
  using location_overrun [of "demo_recorder\<lparr>DriverStatus := 1, TimeChange := 0x10, curTime := demo_clock\<lparr>c_minute := Char2BCD (of_nat 45)\<rparr>\<rparr>" 45 ref_bus "\<lambda>_. 0"]
  by (simp add: demo_recorder_def)

text \<open>The record of a doubtful point holds its last sample a hundred times over: the copy loop reads \<open>DBcnt\<close> instead of its
  own index.\<close>

theorem doubt_point_samples:
  assumes "recorder_flash b cap mem ready wel settling" "flash_inv ready s" "DoubltPointstatus s = DBRECORD_END" "unat (DBcnt s) < 100"
    and "length (ddb_head s) = 24" "length (ddb_validlocation s) = 10"
  shows "\<exists>s'. DoubltPointHandler b junk s = Some s' \<and> DoubltPointstatus s' = NONE_DB
    \<and> window (mem (st_chip (rc_store s'))) 0x5b000 234 = ddb_head s
        @ concat (replicate 100 [ddbspeed s ! unat (DBcnt s), ddbstatus s ! unat (DBcnt s)]) @ ddb_validlocation s"
proof -
  let ?t = "s\<lparr>ddb_data := replicate 100 (ddbspeed s ! unat (DBcnt s), ddbstatus s ! unat (DBcnt s))\<rparr>"
  have bytes: "ddb_bytes ?t = ddb_head s @ concat (replicate 100 [ddbspeed s ! unat (DBcnt s), ddbstatus s ! unat (DBcnt s)]) @ ddb_validlocation s"
    by (simp add: ddb_bytes_def map_replicate)
  have "length (concat (replicate n [x, y])) = 2 * n" for n and x y :: u8 by (induction n) simp_all
  then have len: "length (ddb_bytes ?t) = rec_len RDoubt" using assms(5,6) by (simp add: bytes)
  have "flash_inv ready ?t" using assms(2) by (simp add: flash_inv_def)
  from recorder_flash.put_record_image [OF assms(1) this len, of 234 junk]
  obtain st where st: "put_record b junk DoubtPointData (ddb_bytes ?t) 234 ?t = Some (?t\<lparr>rc_store := st\<rparr>)"
    "window (mem (st_chip st)) 0x5b000 234 = ddb_bytes ?t" by auto
  then show ?thesis using assms(3,4) by (simp add: DoubltPointHandler_def Let_def bytes)
qed

theorem doubt_point_samples_witness:
  "\<exists>st s'. InitializeTable ref_bus demo_store = Some st
    \<and> DoubltPointHandler ref_bus (\<lambda>_. 0) (demo_recorder\<lparr>rc_store := st, DoubltPointstatus := DBRECORD_END, DBcnt := 99\<rparr>) = Some s'"
proof -
  obtain st where st: "InitializeTable ref_bus demo_store = Some st" "store_ok chip_ready st" "synced w_mem st" "rings_fresh (st_table st)"
    using ref_recorder.init_table_ok [OF demo_ready] by blast
  let ?s = "demo_recorder\<lparr>rc_store := st, DoubltPointstatus := DBRECORD_END, DBcnt := 99\<rparr>"
  have "flash_inv chip_ready ?s" using st by (simp add: flash_inv_def)
  from doubt_point_samples [OF ref_recorder.recorder_flash_axioms this, of "\<lambda>_. 0"] st(1) show ?thesis by (auto simp: demo_recorder_def)
qed

end
