(* ===== verification/Vtdr_Uart.thy ===== *)
theory Vtdr_Uart
  imports Vtdr_Inputs
begin

text \<open>
  The serial ports (\<open>serial.c\<close>): the receiver of commands on port 2 with its ring of 128 bytes, the reader of
  satellite sentences on port 3, the bytes of port 4, and writing in stream mode. The interrupt routine
  handles one byte after another with interrupts disabled; its state is the record \<open>serial\<close>.
\<close>

section \<open>Data\<close>

datatype Status_uart2 = Get_sync_head | Start_head_end | Get_the_Command | Get_the_lenth_high | Get_the_lenth_low
  | Get_the_reserve | Get_the_data | Get_the_checksum

record int_rx =
  rx_buffer :: "u8 list"
  read_index :: u32
  save_index :: u32
  getcmd :: u8

text \<open>Of the static variables of the interrupt routine, \<open>rx_sum\<close> and \<open>rx_lenth\<close> serve port 2 and the others
  port 3 (\<open>gprmcbuf\<close> and \<open>gprmccnt\<close> also port 4). \<open>uart_tx\<close> is what port 2 has sent. An enumeration is
  one byte under the ARM ABI, so counting commas wraps at 256.\<close>

record serial =
  int_rx2 :: int_rx
  Uart2PackStatus :: Status_uart2
  rx_sum :: u8
  rx_lenth :: u16
  uart_tx :: "u8 list"
  uartcount :: u8
  SectionID :: u8
  isgprmc :: u8
  gprmccnt :: u16
  gprmcbuf :: "u8 list"
  uart3flag :: u8

text \<open>The device: the recorder, its serial ports and the running checksum of an answer.\<close>

record 'c vtdr =
  vt_rec :: "'c recorder"
  vt_ser :: serial
  SendCheckSum :: u8

definition rt_serial_init :: "serial \<Rightarrow> serial" where
  "rt_serial_init u = u\<lparr>int_rx2 := \<lparr>rx_buffer = replicate 128 0, read_index = 0, save_index = 0, getcmd = 0\<rparr>\<rparr>"

section \<open>Writing and reading\<close>

text \<open>A port in stream mode sends a carriage return before each line feed.\<close>

fun rt_serial_write :: "u8 list \<Rightarrow> u8 list" where
  "rt_serial_write [] = []"
| "rt_serial_write (x # xs) = (if x = 0x0a then [0x0d, x] else [x]) @ rt_serial_write xs"

definition uart2_write :: "u8 list \<Rightarrow> serial \<Rightarrow> serial" where
  "uart2_write bs u = u\<lparr>uart_tx := uart_tx u @ rt_serial_write bs\<rparr>"

fun rt_serial_read :: "nat \<Rightarrow> int_rx \<Rightarrow> u8 list \<times> int_rx" where
  "rt_serial_read 0 r = ([], r)"
| "rt_serial_read (Suc n) r =
     (if read_index r \<noteq> save_index r
      then let x = rx_buffer r ! unat (read_index r);
               r = r\<lparr>read_index := read_index r + 1\<rparr>;
               r = (if 128 \<le> read_index r then r\<lparr>read_index := 0\<rparr> else r);
               (xs, r) = rt_serial_read n r
           in (x # xs, r)
      else ([], r))"

section \<open>Port 2: commands\<close>

definition upd_rx :: "(int_rx \<Rightarrow> int_rx) \<Rightarrow> serial \<Rightarrow> serial" where
  "upd_rx f u = u\<lparr>int_rx2 := f (int_rx2 u)\<rparr>"

definition set_getcmd :: "u8 \<Rightarrow> serial \<Rightarrow> serial" where
  "set_getcmd n = upd_rx (\<lambda>r. r\<lparr>getcmd := n\<rparr>)"

definition good_command :: "u8 \<Rightarrow> bool" where
  "good_command x \<longleftrightarrow> x < 0x16 \<or> (0x81 < x \<and> x < 0x85) \<or> (0x81 < x \<and> x < 0x85) \<or> (0xc1 < x \<and> x < 0xc5)"

definition uart2_status :: "u8 \<Rightarrow> serial \<Rightarrow> serial" where
  "uart2_status x u =
     (case Uart2PackStatus u of
        Get_sync_head \<Rightarrow>
          (if x = 0xaa then u\<lparr>rx_sum := x, Uart2PackStatus := Start_head_end\<rparr> else set_getcmd 0x7f u)
      | Start_head_end \<Rightarrow>
          (if x = 0x75 then u\<lparr>Uart2PackStatus := Get_the_Command\<rparr> else (set_getcmd 0x7f u)\<lparr>Uart2PackStatus := Get_sync_head\<rparr>)
      | Get_the_Command \<Rightarrow>
          (if good_command x then u\<lparr>Uart2PackStatus := Get_the_lenth_high\<rparr>
           else (set_getcmd 0x7f u)\<lparr>Uart2PackStatus := Get_sync_head\<rparr>)
      | Get_the_lenth_high \<Rightarrow> u\<lparr>rx_lenth := ucast x, Uart2PackStatus := Get_the_lenth_low\<rparr>
      | Get_the_lenth_low \<Rightarrow>
          u\<lparr>rx_lenth := (push_bit 8 (rx_lenth u) AND 0xff00) + ucast x, Uart2PackStatus := Get_the_reserve\<rparr>
      | Get_the_reserve \<Rightarrow>
          (if rx_lenth u \<noteq> 0 then u\<lparr>Uart2PackStatus := Get_the_data\<rparr> else u\<lparr>Uart2PackStatus := Get_the_checksum\<rparr>)
      | Get_the_data \<Rightarrow>
          (let u = (if rx_lenth u \<noteq> 0 then u\<lparr>rx_lenth := rx_lenth u - 1\<rparr> else u)
           in if rx_lenth u = 0 then u\<lparr>Uart2PackStatus := Get_the_checksum\<rparr> else u)
      | Get_the_checksum \<Rightarrow>
          (if rx_sum u = 0 then set_getcmd (getcmd (int_rx2 u) + 1) u else set_getcmd 0x7f u)\<lparr>Uart2PackStatus := Get_sync_head\<rparr>)"

text \<open>The next place to save to; when the ring is full the oldest byte is given up.\<close>

definition uart2_advance :: "int_rx \<Rightarrow> int_rx" where
  "uart2_advance r =
     (let r = r\<lparr>save_index := save_index r + 1\<rparr>;
          r = (if 128 \<le> save_index r then r\<lparr>save_index := 0\<rparr> else r)
      in if save_index r = read_index r
         then (let r = r\<lparr>read_index := read_index r + 1\<rparr> in if 128 \<le> read_index r then r\<lparr>read_index := 0\<rparr> else r)
         else r)"

definition uart2_byte :: "u8 \<Rightarrow> serial \<Rightarrow> serial" where
  "uart2_byte x u =
     (let u = u\<lparr>uartcount := uartcount u + 1\<rparr>;
          u = upd_rx (\<lambda>r. r\<lparr>rx_buffer := (rx_buffer r)[unat (save_index r) := x]\<rparr>) u;
          u = uart2_write [x] u;
          u = u\<lparr>rx_sum := rx_sum u XOR x\<rparr>
      in upd_rx uart2_advance (uart2_status x u))"

section \<open>Port 3: sentences of the satellite receiver\<close>

definition upd_rec :: "('c recorder \<Rightarrow> 'c recorder) \<Rightarrow> 'c vtdr \<Rightarrow> 'c vtdr" where
  "upd_rec f v = v\<lparr>vt_rec := f (vt_rec v)\<rparr>"

definition upd_ser :: "(serial \<Rightarrow> serial) \<Rightarrow> 'c vtdr \<Rightarrow> 'c vtdr" where
  "upd_ser f v = v\<lparr>vt_ser := f (vt_ser v)\<rparr>"

text \<open>The five letters behind the dollar sign: \<open>GPGGA\<close> (position), \<open>GPVTG\<close> (speed).\<close>

definition uart3_name :: "serial \<Rightarrow> serial" where
  "uart3_name u =
     (if gprmccnt u = 5 then
        (let u = u\<lparr>uart3flag := 2, gprmccnt := 0\<rparr>;
             u = (if take 5 (gprmcbuf u) = [0x47, 0x50, 0x47, 0x47, 0x41] then u\<lparr>isgprmc := 1\<rparr> else u)
         in if take 5 (gprmcbuf u) = [0x47, 0x50, 0x56, 0x54, 0x47] then u\<lparr>isgprmc := 2, uart3flag := 2\<rparr> else u)
      else u)"

text \<open>A character of a field; some fields are read as soon as they are long enough.\<close>

definition uart3_field :: "'c vtdr \<Rightarrow> 'c vtdr" where
  "uart3_field v =
     (let u = vt_ser v; n = gprmccnt u; pos = isgprmc u = 1; buf = gprmcbuf u
      in if SectionID u = 0 then upd_ser uart3_name v
         else if SectionID u = 1 then
           (let v = upd_ser (\<lambda>u. u\<lparr>uart3flag := 1\<rparr>) v in if pos \<and> n = 10 then upd_rec (GetTheGPSTime buf) v else v)
         else if SectionID u = 2 then (if pos \<and> n = 9 then upd_rec (GetGPSLocation1 buf) v else v)
         else if SectionID u = 4 then (if pos \<and> n = 10 then upd_rec (GetGPSLocation2 buf) v else v)
         else if SectionID u = 7 then (if pos \<and> n = 2 then upd_rec (GettheSinaldata buf) v else v)
         else v)"

text \<open>A comma ends a field; the altitude and the speed are read then.\<close>

definition uart3_comma :: "'c vtdr \<Rightarrow> 'c vtdr option" where
  "uart3_comma v =
     (let u = vt_ser v in do {
        r \<leftarrow> (if isgprmc u = 1 \<and> SectionID u = 9 then GetGPSLocation3 (gprmcbuf u) (gprmccnt u) (vt_rec v)
              else if isgprmc u = 2 \<and> SectionID u = 7 then GetGPSSpeed (gprmcbuf u) (ucast (gprmccnt u)) (vt_rec v)
              else Some (vt_rec v));
        Some (v\<lparr>vt_rec := r, vt_ser := u\<lparr>SectionID := SectionID u + 1, gprmccnt := 0, uart3flag := 2\<rparr>\<rparr>) })"

definition gps_store :: "u8 \<Rightarrow> serial \<Rightarrow> serial" where
  "gps_store x u =
     (let u = (if gprmccnt u = 400 then u\<lparr>gprmccnt := 0\<rparr> else u)
      in u\<lparr>gprmcbuf := (gprmcbuf u)[unat (gprmccnt u) := x], gprmccnt := gprmccnt u + 1\<rparr>)"

definition uart3_byte :: "u8 \<Rightarrow> 'c vtdr \<Rightarrow> 'c vtdr option" where
  "uart3_byte x v =
     (if x = 0x24 then Some (upd_ser (\<lambda>u. u\<lparr>SectionID := 0, isgprmc := 0, gprmccnt := 0, uart3flag := 1\<rparr>) v)
      else if x = 0x2c then uart3_comma v
      else Some (uart3_field (upd_ser (gps_store x) v)))"

text \<open>Port 4 stores without a bound: behind 400 bytes it leaves the buffer.\<close>

definition uart4_byte :: "u8 \<Rightarrow> 'c vtdr \<Rightarrow> 'c vtdr option" where
  "uart4_byte x v =
     (let u = vt_ser v
      in if unat (gprmccnt u) < length (gprmcbuf u)
         then Some (v\<lparr>vt_ser := u\<lparr>gprmcbuf := (gprmcbuf u)[unat (gprmccnt u) := x], gprmccnt := gprmccnt u + 1\<rparr>\<rparr>)
         else None)"

end
