(* ===== verification/Vtdr_Protocol.thy ===== *)
theory Vtdr_Protocol
  imports Vtdr_Uart Vtdr_Handlers
begin

text \<open>
  The command protocol of \<open>RS232.c\<close> (after GB/T 19056): the answers, the commands that set parameters, the
  upload of records and the handler that takes commands from the receiver. Several checksum loops step a
  pointer by whole structs and leave the object they start in; what lies behind it in memory is a
  parameter of the model.
\<close>

section \<open>Sending\<close>

record surroundings =
  after_Parameter :: "nat \<Rightarrow> u8"
  after_rx :: "nat \<Rightarrow> u8"

definition param_at :: "surroundings \<Rightarrow> u8 list \<Rightarrow> nat \<Rightarrow> u8" where
  "param_at w p k = (if k < 648 then p ! k else after_Parameter w k)"

definition send :: "u8 list \<Rightarrow> 'c vtdr \<Rightarrow> 'c vtdr" where
  "send bs = upd_ser (uart2_write bs)"

definition set_sum :: "u8 list \<Rightarrow> 'c vtdr \<Rightarrow> 'c vtdr" where
  "set_sum bs v = v\<lparr>SendCheckSum := xor_from 0 bs\<rparr>"

definition add_sum :: "u8 list \<Rightarrow> 'c vtdr \<Rightarrow> 'c vtdr" where
  "add_sum bs v = v\<lparr>SendCheckSum := xor_from (SendCheckSum v) bs\<rparr>"

definition send_sum :: "'c vtdr \<Rightarrow> 'c vtdr" where
  "send_sum v = send [SendCheckSum v] v"

definition vt_chip :: "'c vtdr \<Rightarrow> 'c" where
  "vt_chip v = st_chip (rc_store (vt_rec v))"

definition set_chip :: "'c \<Rightarrow> 'c vtdr \<Rightarrow> 'c vtdr" where
  "set_chip c = upd_rec (\<lambda>r. r\<lparr>rc_store := (rc_store r)\<lparr>st_chip := c\<rparr>\<rparr>)"

definition vt_parameter :: "'c vtdr \<Rightarrow> u8 list" where
  "vt_parameter v = parameter (vt_rec v)"

section \<open>Answers\<close>

definition WriteDataTxTime :: "'c vtdr \<Rightarrow> 'c vtdr" where
  "WriteDataTxTime v = (let t = clock_bytes (curTime (vt_rec v)) in add_sum t (send t v))"

text \<open>The time of the upload goes into a copy of the partition table, which is written to the flash.\<close>

definition Modify_LastUploadTime :: "'c spi_bus \<Rightarrow> 'c vtdr \<Rightarrow> 'c vtdr option" where
  "Modify_LastUploadTime b v = do {
     let p = st_table (rc_store (vt_rec v));
     (p, c) \<leftarrow> WritePartitionTable b (p\<lparr>pt_LastUploadTime := clock_bytes (curTime (vt_rec v))\<rparr>) (vt_chip v);
     Some (set_chip c v) }"

definition UpLoad_DriverDistance :: "'c spi_bus \<Rightarrow> 'c vtdr \<Rightarrow> 'c vtdr option" where
  "UpLoad_DriverDistance b v =
     (let para = vt_parameter v; install = take 6 (drop 161 para); star = take 4 (drop 4 para); distance = take 4 para;
          v = send [0x55, 0x7a, 0x03, 0x00, 0x14, 0x00] (set_sum [0x55, 0x7a, 0x03, 0x00, 0x14, 0x00] v);
          v = send distance (send star (send install (WriteDataTxTime v)));
          v = add_sum (concat (List.map (\<lambda>i. [distance ! i, star ! i]) [0..<4])) (add_sum install v)
      in Modify_LastUploadTime b (send_sum v))"

definition UpLoad_DriverAutoInfo :: "surroundings \<Rightarrow> 'c spi_bus \<Rightarrow> 'c vtdr \<Rightarrow> 'c vtdr option" where
  "UpLoad_DriverAutoInfo w b v =
     (let para = vt_parameter v;
          v = send [0x55, 0x7a, 0x05, 0x00, 0x29, 0x00] (set_sum [0x55, 0x7a, 0x05, 0x00, 0x29, 0x00] v);
          v = send (take 41 (drop 445 para)) v;
          v = add_sum (List.map (\<lambda>i. param_at w para (445 + 41 * i)) [0..<41]) v
      in Modify_LastUploadTime b (send_sum v))"

definition UpLoad_StatusInfo :: "surroundings \<Rightarrow> 'c spi_bus \<Rightarrow> 'c vtdr \<Rightarrow> 'c vtdr option" where
  "UpLoad_StatusInfo w b v =
     (let para = vt_parameter v;
          v = send [0x55, 0x7a, 0x06, 0x00, 0x57, 0x00] (set_sum [0x55, 0x7a, 0x06, 0x00, 0x57, 0x00] v);
          v = WriteDataTxTime v;
          v = add_sum [para ! 38] (send [para ! 38] v);
          v = send (take 80 (drop 39 para)) v;
          v = add_sum (List.map (\<lambda>i. param_at w para (39 + 80 * i)) [0..<80]) v
      in Modify_LastUploadTime b (send_sum v))"

definition UpLoad_Type :: "surroundings \<Rightarrow> 'c spi_bus \<Rightarrow> 'c vtdr \<Rightarrow> 'c vtdr option" where
  "UpLoad_Type w b v =
     (let para = vt_parameter v;
          v = send [0x55, 0x7a, 0x07, 0x00, 0x23, 0x00] (set_sum [0x55, 0x7a, 0x07, 0x00, 0x23, 0x00] v);
          v = send (take 35 (drop 119 para)) v;
          v = add_sum (List.map (\<lambda>i. param_at w para (119 + 35 * i)) [0..<35]) v
      in Modify_LastUploadTime b (send_sum v))"

definition UpLoad_ExVersion :: "'c vtdr \<Rightarrow> 'c vtdr" where
  "UpLoad_ExVersion v =
     (let para = vt_parameter v;
          v = set_sum [0x55, 0x7a, 0x00, 0x00, 0x02, 0x00, 0x03, 0x00] v
      in send_sum (send [0x55, 0x7a, 0x00, 0x00, 0x02, 0x00, para ! 36, para ! 37] v))"

definition UpLoad_DriverCode :: "'c spi_bus \<Rightarrow> 'c vtdr \<Rightarrow> 'c vtdr option" where
  "UpLoad_DriverCode b v =
     (let code = license_of (vt_parameter v);
          v = send [0x55, 0x7a, 0x01, 0x00, 0x12, 0x00] (set_sum [0x55, 0x7a, 0x01, 0x00, 0x12, 0x00] v);
          v = fold (\<lambda>x v. add_sum [x] (send [x] v)) code v
      in Modify_LastUploadTime b (send_sum v))"

definition UpLoad_RealTime :: "'c spi_bus \<Rightarrow> 'c vtdr \<Rightarrow> 'c vtdr option" where
  "UpLoad_RealTime b v =
     (let v = send [0x55, 0x7a, 0x02, 0x00, 0x06, 0x00] (set_sum [0x55, 0x7a, 0x02, 0x00, 0x06, 0x00] v)
      in Modify_LastUploadTime b (send_sum (WriteDataTxTime v)))"

definition UpLoad_PulseCoff :: "'c spi_bus \<Rightarrow> 'c vtdr \<Rightarrow> 'c vtdr option" where
  "UpLoad_PulseCoff b v =
     (let k = PulseCoff (vt_parameter v); temp = [ucast (drop_bit 8 k), ucast k];
          v = send [0x55, 0x7a, 0x04, 0x00, 0x08, 0x00] (set_sum [0x55, 0x7a, 0x04, 0x00, 0x03, 0x00] v);
          v = add_sum temp (send temp (WriteDataTxTime v))
      in Modify_LastUploadTime b (send_sum v))"

definition RS232UploadError :: "'c vtdr \<Rightarrow> 'c vtdr" where
  "RS232UploadError v = send_sum (send [0x55, 0x7a, 0xfa, 0x00] (set_sum [0x55, 0x7a, 0xfa, 0x00] v))"

definition RS232SetSuccess :: "u8 \<Rightarrow> 'c vtdr \<Rightarrow> 'c vtdr" where
  "RS232SetSuccess cmd v =
     send_sum (send [0x55, 0x7a, cmd, 0x00, 0x00, 0x00] (set_sum [0x55, 0x7a, cmd, 0x00, 0x00, 0x00] v))"

section \<open>Commands that set something\<close>

definition write_parameter :: "'c spi_bus \<Rightarrow> 'c vtdr \<Rightarrow> 'c vtdr option" where
  "write_parameter b v = do { c \<leftarrow> WriteParameterTable b (vt_parameter v) (vt_chip v); Some (set_chip c v) }"

definition Set_DriverAutoInfo :: "'c spi_bus \<Rightarrow> (nat \<Rightarrow> u8) \<Rightarrow> u16 \<Rightarrow> 'c vtdr \<Rightarrow> 'c vtdr option" where
  "Set_DriverAutoInfo b buf lenth v =
     (if lenth = 0x29
      then write_parameter b (upd_rec (upd_parameter (put_at 445 (List.map buf [0..<41]))) (RS232SetSuccess 0x82 v))
      else Some v)"

definition Set_Installtime :: "'c spi_bus \<Rightarrow> (nat \<Rightarrow> u8) \<Rightarrow> u16 \<Rightarrow> 'c vtdr \<Rightarrow> 'c vtdr option" where
  "Set_Installtime b buf lenth v =
     (if lenth = 0x06
      then write_parameter b (upd_rec (upd_parameter (put_at 161 (List.map buf [0..<6]))) (RS232SetSuccess 0x83 v))
      else Some v)"

definition Set_SingalStatus :: "'c spi_bus \<Rightarrow> (nat \<Rightarrow> u8) \<Rightarrow> u16 \<Rightarrow> 'c vtdr \<Rightarrow> 'c vtdr option" where
  "Set_SingalStatus b buf lenth v =
     (if lenth = 0x50
      then write_parameter b (upd_rec (upd_parameter (put_at 39 (List.map buf [0..<80]))) (RS232SetSuccess 0x84 v))
      else Some v)"

definition Set_Curtime :: "'c spi_bus \<Rightarrow> (nat \<Rightarrow> u8) \<Rightarrow> u16 \<Rightarrow> 'c vtdr \<Rightarrow> 'c vtdr option" where
  "Set_Curtime b buf lenth v =
     (if lenth = 0x06
      then write_parameter b (upd_rec (\<lambda>r. r\<lparr>curTime := bytes_clock (List.map buf [0..<6])\<rparr>) (RS232SetSuccess 0xc2 v))
      else Some v)"

definition Set_PulseCoff :: "'c spi_bus \<Rightarrow> (nat \<Rightarrow> u8) \<Rightarrow> u16 \<Rightarrow> 'c vtdr \<Rightarrow> 'c vtdr option" where
  "Set_PulseCoff b buf lenth v =
     (if lenth = 0x08
      then write_parameter b (upd_rec (upd_parameter (put_at 168 (le16 (ucast (buf 7) + ucast (buf 6) * 256)))) (RS232SetSuccess 0xc3 v))
      else Some v)"

definition start_distance :: "(nat \<Rightarrow> u8) \<Rightarrow> u32" where
  "start_distance buf = fst (foldl (\<lambda>(acc, j) i. (j * ucast (BCD2Char (buf (i - 1))) + acc, 100 * j)) (0, 1) [4, 3, 2, 1])"

definition Set_StartDistance :: "'c spi_bus \<Rightarrow> (nat \<Rightarrow> u8) \<Rightarrow> u16 \<Rightarrow> 'c vtdr \<Rightarrow> 'c vtdr option" where
  "Set_StartDistance b buf lenth v =
     (if lenth = 4
      then write_parameter b (upd_rec (upd_parameter (put_at 4 (le32 (start_distance buf)))) (RS232SetSuccess 0xc4 v))
      else Some v)"

definition EnterVercationStatus :: "'c vtdr \<Rightarrow> 'c vtdr" where
  "EnterVercationStatus v = RS232SetSuccess 0xe0 (upd_rec (\<lambda>r. r\<lparr>Time6sCnt := 6, Verificationstatus := VER_ENTER\<rparr>) v)"

definition EnterMileStatus :: "'c vtdr \<Rightarrow> 'c vtdr" where
  "EnterMileStatus = upd_rec (\<lambda>r. if Verificationstatus r \<noteq> VER_NONE then r\<lparr>Verificationstatus := VER_MIL\<rparr> else r)"

definition EnterPulsStatus :: "'c vtdr \<Rightarrow> 'c vtdr" where
  "EnterPulsStatus v =
     RS232SetSuccess 0xe2 (upd_rec (\<lambda>r. if Verificationstatus r \<noteq> VER_NONE then r\<lparr>Verificationstatus := VER_PLUS\<rparr> else r) v)"

definition EnterTimeStatus :: "'c vtdr \<Rightarrow> 'c vtdr" where
  "EnterTimeStatus v =
     RS232SetSuccess 0xe3 (upd_rec (\<lambda>r. if Verificationstatus r \<noteq> VER_NONE then r\<lparr>Verificationstatus := VER_TIME\<rparr> else r) v)"

definition GetBackNormalStatus :: "'c vtdr \<Rightarrow> 'c vtdr" where
  "GetBackNormalStatus v = RS232SetSuccess 0xe4 (upd_rec (\<lambda>r. r\<lparr>Verificationstatus := VER_NONE\<rparr>) v)"

section \<open>Upload of records\<close>

text \<open>The kinds of record: size, how many fit in an answer, the write position and the flag of the ring, its first and last address.
  For \<open>0x10\<close> and \<open>0x11\<close> the code takes the position of the other one's ring. With another command the
  variables stay unset.\<close>

record block =
  BlockSize :: u16
  NumMaxBlockSize :: u8
  STOPp :: u32
  bk_flag :: u32
  startbase :: u32
  endbase :: u32

definition block_at :: "u16 \<Rightarrow> u8 \<Rightarrow> StructPT \<Rightarrow> u32 \<Rightarrow> u32 \<Rightarrow> block" where
  "block_at sz mx r a e = \<lparr>BlockSize = sz, NumMaxBlockSize = mx, STOPp = CurPoint r, bk_flag = finshflag r, startbase = a, endbase = e\<rparr>"

definition block_of :: "u8 \<Rightarrow> PartitionTable \<Rightarrow> block option" where
  "block_of cmd t =
     (if cmd = 0x08 then Some (block_at 126 7 (BaseData t) 0x02000 0x5afff)
      else if cmd = 0x09 then Some (block_at 666 1 (LocationData t) 0x63000 0x9dfff)
      else if cmd = 0x10 then Some (block_at 234 4 (OverSpeedRecord t) 0x5b000 0x60fff)
      else if cmd = 0x11 then Some (block_at 50 19 (DoubtPointData t) 0x61000 0x62fff)
      else if cmd = 0x12 then Some (block_at 25 39 (DriverReRecord t) 0x9e000 0x9ffff)
      else if cmd = 0x13 then Some (block_at 7 141 (PowerOffRunRecord t) 0xa0000 0xa0fff)
      else if cmd = 0x14 then Some (block_at 7 141 (ModifyRecord t) 0xa1000 0xa1fff)
      else if cmd = 0x15 then Some (block_at 133 7 (journalRecord t) 0xa2000 0xa2fff)
      else None)"

text \<open>The record before another one; before the first comes the last.\<close>

definition block_before :: "block \<Rightarrow> u32 \<Rightarrow> u32" where
  "block_before k p =
     (if startbase k < p then p - ucast (BlockSize k)
      else (endbase k - startbase k + 1) div ucast (BlockSize k) * ucast (BlockSize k) + startbase k)"

definition block_time :: "'c spi_bus \<Rightarrow> block \<Rightarrow> u32 \<Rightarrow> 'c \<Rightarrow> u32 \<times> 'c" where
  "block_time b k p c =
     (let (bs, c) = SPI_FLASH_BufferRead b SPI1 (if BlockSize k = 50 then p + 18 else p) 6 c
      in (timechange (bytes_clock bs), c))"

text \<open>Going back until a record is older than the end of the wanted time: the loop has no other end.\<close>

partial_function (option) block_seek :: "'c spi_bus \<Rightarrow> block \<Rightarrow> u32 \<Rightarrow> u32 \<Rightarrow> 'c \<Rightarrow> (u32 \<times> u32 \<times> 'c) option" where
  "block_seek b k endtime p c =
     (let p = block_before k p; (readtime, c) = block_time b k p c
      in if endtime \<le> readtime then block_seek b k endtime p c else Some (readtime, p, c))"

text \<open>A frame of records. The checksum goes on from the frame before.\<close>

definition send_block :: "u8 \<Rightarrow> block \<Rightarrow> u8 \<Rightarrow> u8 list \<Rightarrow> 'c vtdr \<Rightarrow> 'c vtdr" where
  "send_block cmd k num data v =
     (let len = ucast num * BlockSize k; hi = ucast (drop_bit 8 len); lo = ucast len;
          v = add_sum [lo, hi] v
      in send ([0x55, 0x7a, cmd, hi, lo, 0x00] @ data @ [SendCheckSum v]) v)"

fun block_loop :: "'c spi_bus \<Rightarrow> u8 \<Rightarrow> block \<Rightarrow> u32 \<Rightarrow> u32 \<Rightarrow> nat \<Rightarrow> u32 \<Rightarrow> u8 \<Rightarrow> bool \<Rightarrow> u8 list \<Rightarrow> 'c vtdr
    \<Rightarrow> (u8 \<times> bool \<times> u8 list \<times> 'c vtdr) option" where
  "block_loop b cmd k startime endtime 0 p num sent data v = Some (num, sent, data, v)"
| "block_loop b cmd k startime endtime (Suc n) p num sent data v = do {
     (readtime, p, c) \<leftarrow> block_seek b k endtime p (vt_chip v);
     let v = set_chip c v;
     if readtime < startime then Some (num, sent, data, v)
     else
       let num = num + 1; (bs, c) = SPI_FLASH_BufferRead b SPI1 p (BlockSize k) (vt_chip v);
           v = add_sum bs (set_chip c v)
       in if num = NumMaxBlockSize k
          then block_loop b cmd k startime endtime n p 0 True [] (send_block cmd k (NumMaxBlockSize k) (data @ bs) v)
          else block_loop b cmd k startime endtime n p num sent (data @ bs) v }"

definition UpLoad_BlockData :: "'c spi_bus \<Rightarrow> CLOCK \<Rightarrow> CLOCK \<Rightarrow> u16 \<Rightarrow> u8 \<Rightarrow> 'c vtdr \<Rightarrow> 'c vtdr option" where
  "UpLoad_BlockData b Starttime Endtime lenth cmd v = do {
     k \<leftarrow> block_of cmd (st_table (rc_store (vt_rec v)));
     let v = set_sum [0x55, 0x7a, cmd, 0x00] v;
     (num, sent, data, v) \<leftarrow> (if bk_flag k AND 0xea \<noteq> 0xea then Some (0, False, [], v)
        else block_loop b cmd k (timechange Starttime) (timechange Endtime) (unat lenth) (STOPp k) 0 False [] v);
     Some (if \<not> sent \<or> num \<noteq> 0 then send_block cmd k num data v else v) }"

section \<open>The handler\<close>

text \<open>The memory from the start of the ring of the receiver: the ring, its two indices and the counter.\<close>

definition rx_at :: "surroundings \<Rightarrow> int_rx \<Rightarrow> nat \<Rightarrow> u8" where
  "rx_at w r k =
     (if k < 128 then rx_buffer r ! k else if k < 132 then le32 (read_index r) ! (k - 128)
      else if k < 136 then le32 (save_index r) ! (k - 132) else if k = 136 then getcmd r else after_rx w k)"

text \<open>Byte \<open>k\<close> of the command at the read index, and the data of a command that sets something: a pointer, which does not come
  back to the start of the ring.\<close>

definition cmd_at :: "int_rx \<Rightarrow> u32 \<Rightarrow> u8" where
  "cmd_at r k = rx_buffer r ! unat ((read_index r + k) AND 127)"

definition cmd_buf :: "surroundings \<Rightarrow> int_rx \<Rightarrow> nat \<Rightarrow> u8" where
  "cmd_buf w r i = rx_at w r (unat ((read_index r + 6) AND 127) + i)"

definition cmd_clock :: "int_rx \<Rightarrow> u32 \<Rightarrow> CLOCK" where
  "cmd_clock r k = bytes_clock (List.map (\<lambda>i. cmd_at r (k + of_nat i)) [0..<6])"

definition cmd_lenth :: "int_rx \<Rightarrow> u16" where
  "cmd_lenth r = push_bit 8 (ucast (cmd_at r 3)) + ucast (cmd_at r 4)"

definition dispatch :: "surroundings \<Rightarrow> 'c spi_bus \<Rightarrow> 'c vtdr \<Rightarrow> 'c vtdr option" where
  "dispatch w b v =
     (let r = int_rx2 (vt_ser v); DataCmd = cmd_at r 2; buf = cmd_buf w r; Datalenth = cmd_lenth r
      in if DataCmd = 0x00 then Some (UpLoad_ExVersion v)
         else if DataCmd = 0x01 then UpLoad_DriverCode b v
         else if DataCmd = 0x02 then UpLoad_RealTime b v
         else if DataCmd = 0x03 then UpLoad_DriverDistance b v
         else if DataCmd = 0x04 then UpLoad_PulseCoff b v
         else if DataCmd = 0x05 then UpLoad_DriverAutoInfo w b v
         else if DataCmd = 0x06 then UpLoad_StatusInfo w b v
         else if DataCmd = 0x07 then UpLoad_Type w b v
         else if DataCmd \<in> {0x08, 0x09, 0x10, 0x11, 0x12, 0x13, 0x14, 0x15}
         then UpLoad_BlockData b (cmd_clock r 6) (cmd_clock r 12) (push_bit 8 (ucast (cmd_at r 18)) + ucast (cmd_at r 19)) DataCmd v
         else if DataCmd = 0x82 then Set_DriverAutoInfo b buf Datalenth v
         else if DataCmd = 0x83 then Set_Installtime b buf Datalenth v
         else if DataCmd = 0x84 then Set_SingalStatus b buf Datalenth v
         else if DataCmd = 0xc2 then Set_Curtime b buf Datalenth v
         else if DataCmd = 0xc3 then Set_PulseCoff b buf Datalenth v
         else if DataCmd = 0xc4 then Set_StartDistance b buf Datalenth v
         else if DataCmd = 0xe0 then Some (EnterVercationStatus v)
         else if DataCmd = 0xe1 then Some (EnterMileStatus v)
         else if DataCmd = 0xe2 then Some (EnterPulsStatus v)
         else if DataCmd = 0xe3 then Some (EnterTimeStatus v)
         else if DataCmd = 0xe4 then Some (GetBackNormalStatus v)
         else Some (RS232UploadError v))"

definition note_change :: "'c vtdr \<Rightarrow> 'c vtdr" where
  "note_change v =
     (let DataCmd = cmd_at (int_rx2 (vt_ser v)) 2
      in if \<not> (DataCmd < 0x16 \<and> 0x07 < DataCmd) \<and> ((0x81 < DataCmd \<and> DataCmd < 0x85) \<or> (0xc1 < DataCmd \<and> DataCmd < 0xc5))
         then upd_rec (\<lambda>r. r\<lparr>paramodifystatus := 1, modifydata := (modifydata r)[6 := DataCmd]\<rparr>) v
         else v)"

definition serve_command :: "surroundings \<Rightarrow> 'c spi_bus \<Rightarrow> 'c vtdr \<Rightarrow> 'c vtdr option" where
  "serve_command w b v = do {
     let n = cmd_lenth (int_rx2 (vt_ser v));
     v \<leftarrow> dispatch w b (note_change v);
     Some (upd_ser (upd_rx (\<lambda>r. r\<lparr>read_index := (ucast n + read_index r + 7) AND 127, getcmd := getcmd r - 1\<rparr>)) v) }"

fun serve_commands :: "surroundings \<Rightarrow> 'c spi_bus \<Rightarrow> nat \<Rightarrow> 'c vtdr \<Rightarrow> 'c vtdr option" where
  "serve_commands w b 0 v = Some v"
| "serve_commands w b (Suc n) v = do { v \<leftarrow> serve_command w b v; serve_commands w b n v }"

text \<open>The loop runs as often as \<open>getcmd\<close> says; no byte is taken to arrive meanwhile.\<close>

definition rs232_handle_application :: "surroundings \<Rightarrow> 'c spi_bus \<Rightarrow> 'c vtdr \<Rightarrow> 'c vtdr option" where
  "rs232_handle_application w b v =
     (let v = (if 0x7f < getcmd (int_rx2 (vt_ser v)) then RS232UploadError (upd_ser (set_getcmd 0) v) else v)
      in serve_commands w b (unat (getcmd (int_rx2 (vt_ser v)))) v)"

end
