(* ===== verification/Vtdr_Receiver.thy ===== *)
theory Vtdr_Receiver
  imports Vtdr_Uart
begin

text \<open>The receiver of port 2: its ring is a queue that gives up its oldest bytes, and its recogniser counts
  exactly the frames of the protocol.\<close>

section \<open>The ring as a queue that forgets its oldest bytes\<close>

text \<open>Putting one item after another into a queue that holds at most \<open>cap\<close> of them leaves the latest ones.\<close>

definition latest :: "nat \<Rightarrow> 'a list \<Rightarrow> 'a list" where
  "latest n xs = drop (length xs - n) xs"

lemma latest_short [simp]: "length xs \<le> n \<Longrightarrow> latest n xs = xs"
  by (simp add: latest_def)

lemma length_latest [simp]: "length (latest n xs) = min n (length xs)"
  by (simp add: latest_def)

lemma latest_append: "latest n (latest n xs @ ys) = latest n (xs @ ys)"
proof (cases "length xs \<le> n")
  case False
  then show ?thesis by (cases "length ys \<le> n") (simp_all add: latest_def add.commute)
qed simp

locale dropping_queue =
  fixes put :: "'a \<Rightarrow> 's \<Rightarrow> 's" and content :: "'s \<Rightarrow> 'a list" and inv :: "'s \<Rightarrow> bool" and cap :: nat
  assumes put_inv: "inv s \<Longrightarrow> inv (put x s)"
    and put_content: "inv s \<Longrightarrow> content (put x s) = latest cap (content s @ [x])"
    and cap_content: "inv s \<Longrightarrow> length (content s) \<le> cap"
begin

lemma puts_inv: "inv s \<Longrightarrow> inv (fold put xs s)"
  by (induction xs arbitrary: s) (simp_all add: put_inv)

lemma puts_content: "inv s \<Longrightarrow> content (fold put xs s) = latest cap (content s @ xs)"
proof (induction xs arbitrary: s)
  case Nil
  then show ?case using cap_content by simp
next
  case (Cons x xs)
  then show ?case using latest_append [of cap "content s @ [x]" xs] by (simp add: put_inv put_content)
qed

lemma puts_kept: "inv s \<Longrightarrow> length (content s) + length xs \<le> cap \<Longrightarrow> content (fold put xs s) = content s @ xs"
  by (simp add: puts_content)

end

definition ring_wf :: "int_rx \<Rightarrow> bool" where
  "ring_wf r \<longleftrightarrow> length (rx_buffer r) = 128 \<and> read_index r < 128 \<and> save_index r < 128"

definition pending_count :: "int_rx \<Rightarrow> nat" where
  "pending_count r = (128 + unat (save_index r) - unat (read_index r)) mod 128"

definition ring_from :: "u8 list \<Rightarrow> nat \<Rightarrow> nat \<Rightarrow> u8 list" where
  "ring_from bs i n = List.map (\<lambda>k. bs ! ((i + k) mod 128)) [0..<n]"

definition pending :: "int_rx \<Rightarrow> u8 list" where
  "pending r = ring_from (rx_buffer r) (unat (read_index r)) (pending_count r)"

lemma length_ring_from [simp]: "length (ring_from bs i n) = n"
  by (simp add: ring_from_def)

lemma ring_from_mod: "ring_from bs (i mod 128) n = ring_from bs i n"
  by (simp add: ring_from_def mod_add_left_eq)

lemma ring_from_Suc: "ring_from bs i (Suc n) = bs ! (i mod 128) # ring_from bs (Suc i) n"
  by (simp add: ring_from_def upt_conv_Cons map_Suc_upt [symmetric] del: upt_Suc)

lemma ring_from_put:
  assumes "length bs = 128" "n < 128"
  shows "ring_from (bs[(i + n) mod 128 := x]) i n = ring_from bs i n"
    and "ring_from (bs[(i + n) mod 128 := x]) i (Suc n) = ring_from bs i n @ [x]"
proof -
  have ne: "(i + k) mod 128 \<noteq> (i + n) mod 128" if "k < n" for k
  proof
    assume "(i + k) mod 128 = (i + n) mod 128"
    then have "(128 :: nat) dvd (i + n) - (i + k)" using that by (subst mod_eq_dvd_iff_nat [symmetric]) simp_all
    then have "(128 :: nat) dvd n - k" by simp
    then show False using that assms(2) by (auto dest: dvd_imp_le)
  qed
  have "bs[(i + n) mod 128 := x] ! ((i + k) mod 128) = bs ! ((i + k) mod 128)" if "k < n" for k
    using ne [OF that] by (metis nth_list_update_neq)
  then show eq: "ring_from (bs[(i + n) mod 128 := x]) i n = ring_from bs i n"
    by (auto simp: ring_from_def)
  have "ring_from (bs[(i + n) mod 128 := x]) i (Suc n) = ring_from (bs[(i + n) mod 128 := x]) i n @ [bs[(i + n) mod 128 := x] ! ((i + n) mod 128)]"
    by (simp add: ring_from_def)
  then show "ring_from (bs[(i + n) mod 128 := x]) i (Suc n) = ring_from bs i n @ [x]"
    using eq assms(1) by simp
qed

lemma save_where: "ring_wf r \<Longrightarrow> unat (save_index r) = (unat (read_index r) + pending_count r) mod 128"
  by (auto simp: ring_wf_def pending_count_def word_less_nat_alt mod_add_right_eq)

lemma pending_count_lt: "pending_count r < 128"
  by (simp add: pending_count_def)

text \<open>One step of an index around the ring.\<close>

lemma index_step:
  fixes x :: u32
  assumes "x < 128"
  shows "unat (if 128 \<le> x + 1 then 0 else x + 1) = Suc (unat x) mod 128" "(if 128 \<le> x + 1 then 0 else x + 1) < 128"
proof -
  have x: "unat x < 128" using assms by (simp add: word_less_nat_alt)
  then have s: "unat (x + 1) = Suc (unat x)" by (simp add: unat_word_ariths)
  show "unat (if 128 \<le> x + 1 then 0 else x + 1) = Suc (unat x) mod 128"
    using x s by (cases "unat x = 127") (auto simp: word_le_nat_alt)
  then show "(if 128 \<le> x + 1 then 0 else x + 1) < 128" by (simp add: word_less_nat_alt)
qed

lemma around: "n < 128 \<Longrightarrow> i < 128 \<Longrightarrow> (i + Suc n) mod 128 = i \<longleftrightarrow> n = 127" for n i :: nat
  by (cases "i + Suc n < 128") (auto simp: le_mod_geq)

lemma count_after:
  fixes i n s :: nat
  assumes "i < 128" "n < 128" "s = (i + n) mod 128"
  shows "(128 + s - i) mod 128 = n"
proof (cases "i + n < 128")
  case True
  then show ?thesis using assms by (simp add: add.commute)
next
  case False
  then have "s = i + n - 128" using assms by (simp add: le_mod_geq)
  then show ?thesis using False assms by simp
qed

definition put_char :: "u8 \<Rightarrow> int_rx \<Rightarrow> int_rx" where
  "put_char x r = uart2_advance (r\<lparr>rx_buffer := (rx_buffer r)[unat (save_index r) := x]\<rparr>)"

lemma put_char_ring:
  assumes "ring_wf r"
  shows "ring_wf (put_char x r)" "pending (put_char x r) = latest 127 (pending r @ [x])"
    "length (pending r) < 127 \<Longrightarrow> read_index (put_char x r) = read_index r"
proof -
  let ?i = "unat (read_index r)" and ?n = "pending_count r" and ?bs = "(rx_buffer r)[unat (save_index r) := x]"
  let ?s = "if 128 \<le> save_index r + 1 then 0 else save_index r + 1" and ?r = "if 128 \<le> read_index r + 1 then 0 else read_index r + 1"
  have w: "length (rx_buffer r) = 128" "read_index r < 128" "save_index r < 128" using assms by (simp_all add: ring_wf_def)
  note s = index_step [OF w(3)] and r = index_step [OF w(2)]
  have bs: "?bs = (rx_buffer r)[(?i + ?n) mod 128 := x]" using save_where [OF assms] by simp
  have n: "?n < 128" by (rule pending_count_lt)
  have su: "unat ?s = (?i + Suc ?n) mod 128" using s(1) save_where [OF assms] by (simp add: mod_Suc_eq)
  have i: "?i < 128" using w(2) by (simp add: word_less_nat_alt)
  have full: "?s = read_index r \<longleftrightarrow> ?n = 127"
  proof -
    have "?s = read_index r \<longleftrightarrow> (?i + Suc ?n) mod 128 = ?i" using su by (simp only: word_unat_eq_iff)
    also have "\<dots> \<longleftrightarrow> ?n = 127"
      using n i by (rule around)
    finally show ?thesis .
  qed
  have p: "put_char x r = (if ?n = 127 then r\<lparr>rx_buffer := ?bs, save_index := ?s, read_index := ?r\<rparr>
      else r\<lparr>rx_buffer := ?bs, save_index := ?s\<rparr>)"
    using full by (auto simp: put_char_def uart2_advance_def Let_def)
  show "length (pending r) < 127 \<Longrightarrow> read_index (put_char x r) = read_index r" by (simp add: p pending_def)
  show "ring_wf (put_char x r)" using s(2) r(2) w by (simp add: p ring_wf_def)
  show "pending (put_char x r) = latest 127 (pending r @ [x])"
  proof (cases "?n = 127")
    case True
    have e: "put_char x r = r\<lparr>rx_buffer := ?bs, save_index := ?s, read_index := ?r\<rparr>" by (rule trans [OF p if_P [OF True]])
    have c: "pending_count (put_char x r) = 127"
    proof -
      have "unat ?s = (Suc ?i mod 128 + 127) mod 128" using su True by (simp add: mod_simps)
      then show ?thesis using count_after [of "Suc ?i mod 128" 127 "unat ?s"] r(1) unfolding e by (simp add: pending_count_def)
    qed
    have "pending (put_char x r) = ring_from ?bs (Suc ?i) 127"
      unfolding pending_def c using r(1) ring_from_mod [of ?bs "Suc ?i" 127] by (simp add: e)
    moreover have "ring_from ?bs ?i (Suc 127) = pending r @ [x]"
      unfolding bs True pending_def by (rule ring_from_put(2)) (simp_all add: w)
    ultimately have "?bs ! (?i mod 128) # pending (put_char x r) = pending r @ [x]" by (metis ring_from_Suc)
    then have "pending (put_char x r) = tl (pending r @ [x])" by (metis list.sel(3))
    moreover have "length (pending r) = 127" by (simp add: pending_def True)
    ultimately show ?thesis by (cases "pending r") (simp_all add: latest_def)
  next
    case False
    then have lt: "Suc ?n < 128" using n by simp
    have e: "put_char x r = r\<lparr>rx_buffer := ?bs, save_index := ?s\<rparr>" by (rule trans [OF p if_not_P [OF False]])
    have c: "pending_count (put_char x r) = Suc ?n"
      using su i lt count_after [of ?i "Suc ?n" "unat ?s"] unfolding e by (simp add: pending_count_def)
    have "pending (put_char x r) = ring_from ?bs ?i (Suc ?n)"
      unfolding pending_def c by (simp add: e)
    also have "\<dots> = pending r @ [x]" unfolding bs pending_def by (rule ring_from_put(2)) (use w n in simp_all)
    finally show ?thesis using lt by (simp add: pending_def)
  qed
qed

interpretation rx_ring: dropping_queue put_char pending ring_wf 127
  by unfold_locales (use put_char_ring pending_count_lt in \<open>auto simp: pending_def less_Suc_eq_le numeral_eq_Suc\<close>)

section \<open>The recogniser of frames\<close>

text \<open>What the recogniser works on: where it is, the running checksum, the bytes still to come, the commands counted.\<close>

definition mode :: "serial \<Rightarrow> Status_uart2 \<times> u8 \<times> u16 \<times> u8" where
  "mode u = (Uart2PackStatus u, rx_sum u, rx_lenth u, getcmd (int_rx2 u))"

fun mode_step :: "u8 \<Rightarrow> Status_uart2 \<times> u8 \<times> u16 \<times> u8 \<Rightarrow> Status_uart2 \<times> u8 \<times> u16 \<times> u8" where
  "mode_step x (Get_sync_head, c, l, n) = (if x = 0xaa then (Start_head_end, 0xaa, l, n) else (Get_sync_head, c XOR x, l, 0x7f))"
| "mode_step x (Start_head_end, c, l, n) =
     (if x = 0x75 then (Get_the_Command, c XOR x, l, n) else (Get_sync_head, c XOR x, l, 0x7f))"
| "mode_step x (Get_the_Command, c, l, n) =
     (if good_command x then (Get_the_lenth_high, c XOR x, l, n) else (Get_sync_head, c XOR x, l, 0x7f))"
| "mode_step x (Get_the_lenth_high, c, l, n) = (Get_the_lenth_low, c XOR x, ucast x, n)"
| "mode_step x (Get_the_lenth_low, c, l, n) = (Get_the_reserve, c XOR x, (push_bit 8 l AND 0xff00) + ucast x, n)"
| "mode_step x (Get_the_reserve, c, l, n) = (if l \<noteq> 0 then Get_the_data else Get_the_checksum, c XOR x, l, n)"
| "mode_step x (Get_the_data, c, l, n) =
     (let l = (if l \<noteq> 0 then l - 1 else l) in (if l = 0 then Get_the_checksum else Get_the_data, c XOR x, l, n))"
| "mode_step x (Get_the_checksum, c, l, n) = (Get_sync_head, c XOR x, l, if c XOR x = 0 then n + 1 else 0x7f)"

lemma advance_getcmd [simp]: "getcmd (uart2_advance r) = getcmd r" "uart2_advance (r\<lparr>getcmd := g\<rparr>) = (uart2_advance r)\<lparr>getcmd := g\<rparr>"
  by (simp_all add: uart2_advance_def Let_def)

lemma uart2_byte_mode: "mode (uart2_byte x u) = mode_step x (mode u)"
  by (cases "Uart2PackStatus u")
    (simp_all add: mode_def uart2_byte_def uart2_status_def upd_rx_def set_getcmd_def uart2_write_def Let_def)

lemma uart2_byte_ring: "\<exists>g. int_rx2 (uart2_byte x u) = (put_char x (int_rx2 u))\<lparr>getcmd := g\<rparr>"
proof -
  have g: "r\<lparr>getcmd := getcmd r\<rparr> = r" for r :: int_rx by simp
  show ?thesis
    by (cases "Uart2PackStatus u")
      (auto simp: uart2_byte_def uart2_status_def upd_rx_def set_getcmd_def uart2_write_def put_char_def Let_def intro: exI [of _ "getcmd (int_rx2 u)"])
qed

lemma uart2_byte_tx: "uart_tx (uart2_byte x u) = uart_tx u @ rt_serial_write [x]"
  by (cases "Uart2PackStatus u")
    (simp_all add: uart2_byte_def uart2_status_def upd_rx_def set_getcmd_def uart2_write_def Let_def)

lemma pending_getcmd [simp]: "pending (r\<lparr>getcmd := g\<rparr>) = pending r" "ring_wf (r\<lparr>getcmd := g\<rparr>) = ring_wf r"
  by (simp_all add: pending_def ring_wf_def pending_count_def)

interpretation uart2: dropping_queue uart2_byte "\<lambda>u :: serial. pending (int_rx2 u)" "\<lambda>u :: serial. ring_wf (int_rx2 u)" 127
proof
  fix u :: serial and x assume w: "ring_wf (int_rx2 u)"
  obtain g where g: "int_rx2 (uart2_byte x u) = (put_char x (int_rx2 u))\<lparr>getcmd := g\<rparr>" using uart2_byte_ring by blast
  show "ring_wf (int_rx2 (uart2_byte x u))" "pending (int_rx2 (uart2_byte x u)) = latest 127 (pending (int_rx2 u) @ [x])"
    using put_char_ring [OF w] by (simp_all add: g)
  show "length (pending (int_rx2 u)) \<le> 127" using pending_count_lt [of "int_rx2 u"] by (simp add: pending_def)
qed

text \<open>As long as nothing is given up the first byte stays where it is.\<close>

lemma uart2_read_index:
  "ring_wf (int_rx2 u) \<Longrightarrow> length (pending (int_rx2 u)) + length xs \<le> 127 \<Longrightarrow>
     read_index (int_rx2 (fold uart2_byte xs u)) = read_index (int_rx2 u)"
proof (induction xs arbitrary: u)
  case (Cons x xs)
  obtain g where g: "int_rx2 (uart2_byte x u) = (put_char x (int_rx2 u))\<lparr>getcmd := g\<rparr>" using uart2_byte_ring by blast
  have "read_index (int_rx2 (uart2_byte x u)) = read_index (int_rx2 u)" using put_char_ring(3) [OF Cons.prems(1)] Cons.prems(2) by (simp add: g)
  moreover have "ring_wf (int_rx2 (uart2_byte x u))" by (rule uart2.put_inv [OF Cons.prems(1)])
  moreover have "length (pending (int_rx2 (uart2_byte x u))) + length xs \<le> 127"
    using uart2.put_content [OF Cons.prems(1)] Cons.prems(2) by simp
  ultimately show ?case using Cons.IH [of "uart2_byte x u"] by simp
qed simp

lemma fold_mode: "mode (fold uart2_byte xs u) = fold mode_step xs (mode u)"
  by (induction xs arbitrary: u) (simp_all add: uart2_byte_mode)

lemma write_append: "rt_serial_write (xs @ ys) = rt_serial_write xs @ rt_serial_write ys"
  by (induction xs) simp_all

lemma fold_tx: "uart_tx (fold uart2_byte xs u) = uart_tx u @ rt_serial_write xs"
  by (induction xs arbitrary: u) (simp_all add: uart2_byte_tx write_append)

text \<open>A frame as the protocol has it: two bytes to start, the command, the length, a spare byte, the data and the exclusive or
  of all of it.\<close>

definition packet_body :: "u8 \<Rightarrow> u8 \<Rightarrow> u8 list \<Rightarrow> u8 list" where
  "packet_body cmd res d =
     [0xaa, 0x75, cmd, ucast (drop_bit 8 (of_nat (length d) :: u16)), ucast (of_nat (length d) :: u16), res] @ d"

definition packet :: "u8 \<Rightarrow> u8 \<Rightarrow> u8 list \<Rightarrow> u8 list" where
  "packet cmd res d = packet_body cmd res d @ [xor_from 0 (packet_body cmd res d)]"

lemma length_packet [simp]: "length (packet cmd res d) = length d + 7"
  by (simp add: packet_def packet_body_def)

lemma len_bytes: "(push_bit 8 (ucast (ucast (drop_bit 8 w) :: u8)) AND 0xff00) + ucast (ucast w :: u8) = w" for w :: u16
proof -
  let ?h = "push_bit 8 (ucast (ucast (drop_bit 8 w) :: u8)) AND 0xff00 :: u16" and ?l = "ucast (ucast w :: u8) :: u16"
  have m: "(0xff00 :: u16) = push_bit 8 (mask 8)" by (simp add: mask_eq_exp_minus_1 push_bit_eq_mult)
  have "?h + ?l = ?h OR ?l"
    by (rule disjunctive_add) (auto simp: bit_simps)
  also have "\<dots> = w" unfolding m by (rule bit_word_eqI) (auto simp: bit_simps)
  finally show ?thesis .
qed

lemma mode_data:
  "d \<noteq> [] \<Longrightarrow> length d < 65536 \<Longrightarrow>
     fold mode_step d (Get_the_data, c, of_nat (length d), n) = (Get_the_checksum, xor_from c d, 0, n)"
proof (induction d arbitrary: c)
  case (Cons x d)
  have ne: "(of_nat (length d) + 1 :: u16) \<noteq> 0"
    using Cons.prems(2) by (simp add: word_unat_eq_iff unat_word_ariths unat_of_nat del: of_nat_Suc)
  show ?case
  proof (cases "d = []")
    case False
    then have "(of_nat (length d) :: u16) \<noteq> 0" using Cons.prems(2) by (simp add: word_unat_eq_iff unat_of_nat)
    with Cons False ne show ?thesis by (simp add: add.commute)
  qed (use ne in simp)
qed simp

lemma mode_header:
  assumes "good_command cmd" "w = (push_bit 8 (ucast h) AND 0xff00) + ucast k"
  shows "fold mode_step [0xaa, 0x75, cmd, h, k, res] (Get_sync_head, c, l, n)
    = (if w \<noteq> 0 then Get_the_data else Get_the_checksum, xor_from 0 [0xaa, 0x75, cmd, h, k, res], w, n)"
  using assms by simp

lemma mode_packet_body:
  assumes "good_command cmd" "length d < 65536"
  shows "fold mode_step (packet_body cmd res d) (Get_sync_head, c, l, n) = (Get_the_checksum, xor_from 0 (packet_body cmd res d), 0, n)"
proof -
  let ?w = "of_nat (length d) :: u16"
  have z: "?w = 0 \<longleftrightarrow> d = []" using assms(2) by (simp add: word_unat_eq_iff unat_of_nat)
  note h = mode_header [OF assms(1) len_bytes [symmetric, of ?w], of res c l n]
  show ?thesis
  proof (cases "d = []")
    case True
    then show ?thesis using h z by (simp only: packet_body_def append_Nil2 if_False simp_thms)
  next
    case False
    then show ?thesis using h z mode_data [OF False assms(2)]
      by (simp only: packet_body_def fold_append comp_apply xor_from_append if_True simp_thms)
  qed
qed

lemma mode_packet:
  assumes "good_command cmd" "length d < 65536"
  shows "fold mode_step (packet cmd res d) (Get_sync_head, c, l, n) = (Get_sync_head, 0, 0, n + 1)"
  using mode_packet_body [OF assms] by (simp add: packet_def)

text \<open>A whole run of frames is counted frame by frame; one byte that does not belong to a frame makes the counter \<open>0x7f\<close>.\<close>

lemma mode_packets:
  assumes "\<forall>(cmd, res, d)\<in>set fs. good_command cmd \<and> length d < 65536"
  shows "\<exists>c' l'. fold mode_step (concat (List.map (\<lambda>(cmd, res, d). packet cmd res d) fs)) (Get_sync_head, c, l, n)
    = (Get_sync_head, c', l', n + of_nat (length fs))"
  using assms
proof (induction fs arbitrary: c l n)
  case (Cons f fs)
  obtain cmd res d where f: "f = (cmd, res, d)" by (cases f)
  have g: "good_command cmd" "length d < 65536" and fs: "\<forall>(cmd, res, d)\<in>set fs. good_command cmd \<and> length d < 65536"
    using Cons.prems f by auto
  obtain c' l' where "fold mode_step (concat (List.map (\<lambda>(cmd, res, d). packet cmd res d) fs)) (Get_sync_head, 0, 0, n + 1)
    = (Get_sync_head, c', l', n + 1 + of_nat (length fs))"
    using Cons.IH [OF fs] by blast
  then show ?case by (simp add: f mode_packet [OF g] add.assoc)
qed simp

end
