(* ===== verification/Vtdr_Commands.thy ===== *)
theory Vtdr_Commands
  imports Vtdr_Protocol Vtdr_Receiver Vtdr_Safety
begin

text \<open>The commands as the handler of \<open>RS232.c\<close> finds them in the ring of the receiver, and what each of them keeps of the recorder.\<close>

section \<open>Commands in the ring\<close>

lemma and_127: "unat (x AND 127 :: u32) = unat x mod 128"
  using unat_and_mask [of x 7] by (simp add: mask_eq_exp_minus_1)

lemma unat_plus_mod: "unat (x + y :: u32) mod 128 = (unat x + unat y) mod 128"
proof -
  have "(4294967296 :: nat) = 128 * 33554432" by simp
  then have "(unat x + unat y) mod 4294967296 mod 128 = (unat x + unat y) mod 128" by (simp only: mod_mult_right_eq mod_mod_cancel dvd_triv_left)
  then show ?thesis by (simp add: unat_word_ariths)
qed

lemma cmd_at_pending: "k < length (pending r) \<Longrightarrow> cmd_at r (of_nat k) = pending r ! k"
proof -
  assume k: "k < length (pending r)"
  then have "k < 128" using pending_count_lt [of r] by (simp add: pending_def)
  then have "unat (of_nat k :: u32) = k" by (simp add: unat_of_nat)
  then show ?thesis using k by (simp add: cmd_at_def and_127 unat_plus_mod pending_def ring_from_def)
qed

text \<open>Moving the read index over \<open>n\<close> waiting bytes.\<close>

lemma read_index_moved:
  assumes "ring_wf r" "n \<le> length (pending r)" "m = of_nat n"
  shows "ring_wf (r\<lparr>read_index := (m + read_index r) AND 127\<rparr>)" "pending (r\<lparr>read_index := (m + read_index r) AND 127\<rparr>) = drop n (pending r)"
proof -
  let ?i = "unat (read_index r)" and ?k = "pending_count r" and ?r = "r\<lparr>read_index := (m + read_index r) AND 127\<rparr>"
  have n: "n \<le> ?k" using assms(2) by (simp add: pending_def)
  have k: "?k < 128" by (rule pending_count_lt)
  have m: "unat m = n" using n k assms(3) by (simp add: unat_of_nat)
  have i: "unat ((m + read_index r) AND 127) = (?i + n) mod 128" using m by (simp add: and_127 unat_plus_mod add.commute)
  then show "ring_wf ?r" using assms(1) by (simp add: ring_wf_def word_less_nat_alt)
  have s: "unat (save_index r) = ((?i + n) mod 128 + (?k - n)) mod 128"
    using save_where [OF assms(1)] n mod_add_left_eq [of "?i + n" 128 "?k - n"] by (metis add.assoc le_add_diff_inverse)
  have c: "pending_count ?r = ?k - n"
    using count_after [OF _ _ s] k i by (simp add: pending_count_def)
  have "ring_from (rx_buffer r) (?i + n) (?k - n) = drop n (ring_from (rx_buffer r) ?i ?k)"
    using n by (intro nth_equalityI) (simp_all add: ring_from_def add.assoc less_diff_conv2 less_diff_conv add.commute [of n])
  then show "pending ?r = drop n (pending r)"
    using i c ring_from_mod [of "rx_buffer r" "?i + n" "?k - n"] by (simp add: pending_def)
qed

lemma of_len_bytes: "push_bit 8 (ucast (ucast (drop_bit 8 w) :: u8)) + ucast (ucast w :: u8) = w" for w :: u16
proof -
  have "push_bit 8 (ucast (ucast (drop_bit 8 w) :: u8)) AND 0xff00 = (push_bit 8 (ucast (ucast (drop_bit 8 w) :: u8)) :: u16)"
  proof -
    have m: "(0xff00 :: u16) = push_bit 8 (mask 8)" by (simp add: mask_eq_exp_minus_1 push_bit_eq_mult)
    show ?thesis unfolding m by (rule bit_word_eqI) (auto simp: bit_simps)
  qed
  then show ?thesis using len_bytes [of w] by simp
qed

text \<open>A frame at the read index: its command, its length and its data as the handler sees them.\<close>

lemma packet_nth: "packet cmd res d ! 2 = cmd" "packet cmd res d ! 3 = ucast (drop_bit 8 (of_nat (length d) :: u16))"
    "packet cmd res d ! 4 = ucast (of_nat (length d) :: u16)" "i < length d \<Longrightarrow> packet cmd res d ! (6 + i) = d ! i"
  by (simp_all add: packet_def packet_body_def nth_append eval_nat_numeral)

lemma packet_at:
  assumes "pending r = packet cmd res d @ rest"
  shows "cmd_at r 2 = cmd" "cmd_lenth r = of_nat (length d)" "i < length d \<Longrightarrow> cmd_at r (of_nat (6 + i)) = d ! i"
proof -
  have p: "cmd_at r (of_nat k) = packet cmd res d ! k" if "k < length d + 7" for k
    using cmd_at_pending [of k r] assms that by (simp add: nth_append)
  show "cmd_at r 2 = cmd" using p [of 2] by (simp add: packet_nth)
  show "cmd_lenth r = of_nat (length d)" using p [of 3] p [of 4] by (simp add: cmd_lenth_def packet_nth of_len_bytes)
  show "i < length d \<Longrightarrow> cmd_at r (of_nat (6 + i)) = d ! i" using p [of "6 + i"] packet_nth(4) [of i d cmd res] by simp
qed

text \<open>The data are read through a pointer, so they must not go over the end of the ring.\<close>

lemma cmd_buf_data:
  assumes "ring_wf r" "pending r = packet cmd res d @ rest" "(unat (read_index r) + 6) mod 128 + length d \<le> 128" "i < length d"
  shows "cmd_buf w r i = d ! i"
proof -
  let ?i = "unat (read_index r)"
  have s: "unat ((read_index r + 6) AND 127) = (?i + 6) mod 128" by (simp add: and_127 unat_plus_mod)
  have lt: "(?i + 6) mod 128 + i < 128" using assms(3,4) by linarith
  have "length d + 7 \<le> length (pending r)" using assms(2) by simp
  then have l: "length d + 7 < 128" using pending_count_lt [of r] by (simp add: pending_def)
  then have u: "unat (of_nat (6 + i) :: u32) = 6 + i" using assms(4) by (simp add: unat_of_nat del: of_nat_add of_nat_numeral)
  have "unat ((read_index r + of_nat (6 + i)) AND 127) = (?i + (6 + i)) mod 128" using u by (simp add: and_127 unat_plus_mod del: of_nat_add)
  also have "\<dots> = ((?i + 6) mod 128 + i) mod 128" by (simp add: mod_simps add.assoc)
  also have "\<dots> = (?i + 6) mod 128 + i" using lt by simp
  finally have "cmd_at r (of_nat (6 + i)) = rx_buffer r ! ((?i + 6) mod 128 + i)" by (simp add: cmd_at_def del: of_nat_add)
  then show ?thesis using packet_at(3) [OF assms(2,4)] lt s by (simp add: cmd_buf_def rx_at_def)
qed

section \<open>What a command keeps\<close>

lemma vt_rec_simps [simp]:
  "vt_rec (send bs v) = vt_rec v" "vt_rec (set_sum bs v) = vt_rec v" "vt_rec (add_sum bs v) = vt_rec v" "vt_rec (send_sum v) = vt_rec v"
  "vt_rec (upd_ser g v) = vt_rec v" "vt_rec (upd_rec f v) = f (vt_rec v)" "vt_rec (WriteDataTxTime v) = vt_rec v"
  "vt_rec (RS232SetSuccess cmd v) = vt_rec v" "vt_rec (RS232UploadError v) = vt_rec v" "vt_rec (send_block cmd k num data v) = vt_rec v"
  by (simp_all add: send_def set_sum_def add_sum_def send_sum_def upd_ser_def upd_rec_def WriteDataTxTime_def RS232SetSuccess_def
      RS232UploadError_def send_block_def Let_def)

text \<open>What the service of commands leaves alone: the receivers.\<close>

definition line :: "serial \<Rightarrow> int_rx \<times> u8 list \<times> u16" where
  "line u = (int_rx2 u, gprmcbuf u, gprmccnt u)"

lemma line_eq: "line u = line u' \<longleftrightarrow> int_rx2 u = int_rx2 u' \<and> gprmcbuf u = gprmcbuf u' \<and> gprmccnt u = gprmccnt u'"
  by (simp add: line_def)

lemma line_simps [simp]:
  "line (vt_ser (send bs v)) = line (vt_ser v)" "line (vt_ser (set_sum bs v)) = line (vt_ser v)"
  "line (vt_ser (add_sum bs v)) = line (vt_ser v)" "line (vt_ser (send_sum v)) = line (vt_ser v)"
  "line (vt_ser (upd_rec f v)) = line (vt_ser v)" "line (vt_ser (WriteDataTxTime v)) = line (vt_ser v)"
  "line (vt_ser (RS232SetSuccess cmd v)) = line (vt_ser v)" "line (vt_ser (RS232UploadError v)) = line (vt_ser v)"
  "line (vt_ser (send_block cmd k num data v)) = line (vt_ser v)" "line (vt_ser (set_chip c v)) = line (vt_ser v)"
  by (simp_all add: line_def send_def set_sum_def add_sum_def send_sum_def upd_ser_def upd_rec_def WriteDataTxTime_def RS232SetSuccess_def
      RS232UploadError_def send_block_def set_chip_def uart2_write_def upd_rx_def Let_def)

lemma int_rx2_simps [simp]:
  "int_rx2 (vt_ser (send bs v)) = int_rx2 (vt_ser v)" "int_rx2 (vt_ser (set_sum bs v)) = int_rx2 (vt_ser v)"
  "int_rx2 (vt_ser (add_sum bs v)) = int_rx2 (vt_ser v)" "int_rx2 (vt_ser (send_sum v)) = int_rx2 (vt_ser v)"
  "int_rx2 (vt_ser (upd_rec f v)) = int_rx2 (vt_ser v)" "int_rx2 (vt_ser (WriteDataTxTime v)) = int_rx2 (vt_ser v)"
  "int_rx2 (vt_ser (RS232SetSuccess cmd v)) = int_rx2 (vt_ser v)" "int_rx2 (vt_ser (RS232UploadError v)) = int_rx2 (vt_ser v)"
  "int_rx2 (vt_ser (send_block cmd k num data v)) = int_rx2 (vt_ser v)" "int_rx2 (vt_ser (set_chip c v)) = int_rx2 (vt_ser v)"
  "int_rx2 (vt_ser (upd_ser (upd_rx g) v)) = g (int_rx2 (vt_ser v))"
  by (simp_all add: send_def set_sum_def add_sum_def send_sum_def upd_ser_def upd_rec_def WriteDataTxTime_def RS232SetSuccess_def
      RS232UploadError_def send_block_def set_chip_def uart2_write_def upd_rx_def Let_def)

lemma vt_chip_simps [simp]:
  "vt_chip (send bs v) = vt_chip v" "vt_chip (set_sum bs v) = vt_chip v" "vt_chip (add_sum bs v) = vt_chip v" "vt_chip (send_sum v) = vt_chip v"
  "vt_chip (set_chip c v) = c" "vt_chip (send_block cmd k num data v) = vt_chip v"
  by (simp_all add: vt_chip_def set_chip_def)

text \<open>A command keeps the recorder in order and does not move the indices of the receiver.\<close>

definition served :: "('c \<Rightarrow> bool) \<Rightarrow> ('c \<Rightarrow> nat \<Rightarrow> u8) \<Rightarrow> 'c vtdr \<Rightarrow> 'c vtdr \<Rightarrow> bool" where
  "served ready mem v v' \<longleftrightarrow> keeps ready mem (vt_rec v) (vt_rec v') \<and> line (vt_ser v') = line (vt_ser v)"

lemma served_trans: "served ready mem v v1 \<Longrightarrow> served ready mem v1 v2 \<Longrightarrow> served ready mem v v2"
  by (auto simp: served_def intro: keeps_trans)

lemma served_only: "status_only (vt_rec v) (vt_rec v') \<Longrightarrow> line (vt_ser v') = line (vt_ser v) \<Longrightarrow> served ready mem v v'"
  by (simp add: served_def status_only_keeps)

lemma served_same: "vt_rec v' = vt_rec v \<Longrightarrow> line (vt_ser v') = line (vt_ser v) \<Longrightarrow> served ready mem v v'"
  by (simp add: served_only status_only_refl)

text \<open>Only the chip changes, above the partition table not at all.\<close>

lemma served_chip:
  assumes "rec_inv ready (vt_rec v) \<Longrightarrow> ready c \<and> (\<forall>x. 0x2000 \<le> x \<longrightarrow> mem c x = mem (vt_chip v) x)"
  shows "served ready mem v (set_chip c v)"
  using assms
  by (auto simp: served_def keeps_def rec_inv_def flash_inv_def store_ok_def untouched_def vt_chip_def set_chip_def rec_wf_store)

definition chip_ok :: "('c \<Rightarrow> bool) \<Rightarrow> ('c \<Rightarrow> nat \<Rightarrow> u8) \<Rightarrow> 'c \<Rightarrow> 'c \<Rightarrow> bool" where
  "chip_ok ready mem c c' \<longleftrightarrow> (ready c \<longrightarrow> ready c' \<and> mem c' = mem c)"

lemma chip_ok_refl: "chip_ok ready mem c c"
  by (simp add: chip_ok_def)

lemma chip_ok_trans: "chip_ok ready mem c c1 \<Longrightarrow> chip_ok ready mem c1 c2 \<Longrightarrow> chip_ok ready mem c c2"
  by (simp add: chip_ok_def)

lemma served_read: "chip_ok ready mem (vt_chip v) c \<Longrightarrow> served ready mem v (set_chip c v)"
  by (rule served_chip) (simp add: chip_ok_def rec_inv_def flash_inv_def store_ok_def vt_chip_def)

section \<open>Places of records\<close>

definition block_wf :: "block \<Rightarrow> bool" where
  "block_wf k \<longleftrightarrow> 0 < BlockSize k \<and> BlockSize k \<le> 666 \<and> 0x2000 \<le> startbase k \<and> startbase k \<le> endbase k \<and> endbase k < 0xa3000"

lemma block_of_wf: "block_of cmd t = Some k \<Longrightarrow> block_wf k"
  by (auto simp: block_of_def block_at_def block_wf_def split: if_split_asm)

lemma block_before_range:
  assumes "block_wf k" "p \<le> 0xa3000"
  shows "block_before k p \<le> 0xa3000"
proof (cases "startbase k < p")
  case True
  have "unat (BlockSize k) \<le> 666" using assms(1) by (simp add: block_wf_def word_le_nat_alt)
  then have s: "unat (ucast (BlockSize k) :: u32) \<le> 666" by (simp add: unsigned_ucast_eq unsigned_take_bit_eq take_bit_eq_mod)
  have "0x2000 \<le> unat (startbase k)" using assms(1) by (simp add: block_wf_def word_le_nat_alt)
  then have "(ucast (BlockSize k) :: u32) \<le> p" using True s by (simp add: word_le_nat_alt word_less_nat_alt)
  then show ?thesis using True assms(2) by (simp add: block_before_def word_le_nat_alt unat_sub)
next
  case False
  let ?n = "endbase k - startbase k + 1" and ?s = "ucast (BlockSize k) :: u32"
  have w: "unat (startbase k) \<le> unat (endbase k)" "unat (endbase k) < 0xa3000"
    using assms(1) by (simp_all add: block_wf_def word_le_nat_alt word_less_nat_alt)
  have n: "unat ?n = unat (endbase k) - unat (startbase k) + 1"
    using w by (subst unat_word_ariths) (simp add: unat_sub word_le_nat_alt)
  have "unat ?n div unat ?s * unat ?s \<le> unat ?n" by (rule div_times_less_eq_dividend)
  moreover have "unat (x div y * y) = unat x div unat y * unat y mod 2 ^ 32" for x y :: u32
    by (subst unat_word_ariths(2)) (simp add: unat_div)
  ultimately have "unat (?n div ?s * ?s) \<le> unat ?n" using mod_less_eq_dividend [of "unat ?n div unat ?s * unat ?s" "2 ^ 32"] by (simp only:)
  then have "unat (?n div ?s * ?s + startbase k) \<le> 0xa3000" using n w by (simp add: unat_word_ariths)
  then show ?thesis using False by (simp add: block_before_def word_le_nat_alt)
qed

lemma STOPp_range:
  assumes k: "block_of cmd t = Some k" and "rings_fresh t"
  shows "STOPp k \<le> 0xa3000"
proof -
  have "CurPoint (ring_of g t) \<le> 0xa3000" for g
  proof -
    have "CurPoint (ring_of g t) = ring_start g" using assms(2) by (simp add: rings_fresh_def)
    moreover have "ring_start g \<le> 0xa3000" by (cases g) simp_all
    ultimately show ?thesis by simp
  qed
  from this [of RDoubt] this [of RLocation] this [of ROverSpeed] this [of RPowerOff] this [of RModify] this [of RBase] this [of RDriver]
    this [of RJournal] show ?thesis using k by (auto simp: block_of_def block_at_def split: if_split_asm)
qed

context recorder_flash
begin

lemma read_ok: "unat p + unat n \<le> cap \<Longrightarrow> chip_ok ready mem c (snd (SPI_FLASH_BufferRead b SPI1 p n c))"
  using rd_law [of c p n] by (simp add: chip_ok_def)

lemma block_time_ok:
  assumes "p \<le> 0xa3000"
  shows "chip_ok ready mem c (snd (block_time b k p c))"
proof -
  have p: "unat p \<le> 0xa3000" using assms by (simp add: word_le_nat_alt)
  then have "unat (if BlockSize k = 50 then p + 18 else p) + unat (6 :: u16) \<le> cap" using room by (simp add: unat_word_ariths)
  from read_ok [OF this, of c] show ?thesis by (simp add: block_time_def case_prod_beta Let_def)
qed

lemma block_seek_ok:
  assumes "block_seek b k e p c = Some (t, p', c')" "block_wf k" "p \<le> 0xa3000"
  shows "chip_ok ready mem c c' \<and> p' \<le> 0xa3000"
proof -
  define P where "P k p c y \<longleftrightarrow> block_wf k \<longrightarrow> p \<le> 0xa3000 \<longrightarrow> chip_ok ready mem c (snd (snd y)) \<and> fst (snd y) \<le> 0xa3000"
    for k :: block and p :: u32 and c :: 'c and y :: "u32 \<times> u32 \<times> 'c"
  have "P k p c (t, p', c')"
    using assms(1)
  proof (rule block_seek.raw_induct [where P = "\<lambda>b' k e p c y. b' = b \<longrightarrow> P k p c y", THEN mp, rotated])
    fix seek b' k e p c y
    assume ih: "\<And>b' k e p c y. seek b' k e p c = Some y \<Longrightarrow> b' = b \<longrightarrow> P k p c y"
      and eq: "(let p = block_before k p; (readtime, c) = block_time b' k p c in if e \<le> readtime then seek b' k e p c else Some (readtime, p, c)) = Some y"
    show "b' = b \<longrightarrow> P k p c y"
      unfolding P_def
    proof (intro impI)
      assume a: "b' = b" "block_wf k" "p \<le> 0xa3000"
      let ?p = "block_before k p" and ?t = "block_time b k (block_before k p) c"
      have p: "?p \<le> 0xa3000" by (rule block_before_range [OF a(2,3)])
      have y: "(if e \<le> fst ?t then seek b k e ?p (snd ?t) else Some (fst ?t, ?p, snd ?t)) = Some y"
        using eq unfolding a(1) by (simp add: Let_def case_prod_beta)
      show "chip_ok ready mem c (snd (snd y)) \<and> fst (snd y) \<le> 0xa3000"
      proof (cases "e \<le> fst ?t")
        case True
        then have "P k ?p (snd ?t) y" using y ih [of b k e ?p "snd ?t" y] by simp
        then have "chip_ok ready mem (snd ?t) (snd (snd y)) \<and> fst (snd y) \<le> 0xa3000" using a(2) p by (simp add: P_def)
        then show ?thesis using chip_ok_trans [OF block_time_ok [OF p]] by blast
      next
        case False
        then show ?thesis using y block_time_ok [OF p] p by auto
      qed
    qed
  qed simp
  then show ?thesis using assms(2,3) by (simp add: P_def)
qed

lemma block_loop_ok:
  assumes "block_loop b cmd k st e n p num sent data v = Some (num', sent', data', v')" "block_wf k" "p \<le> 0xa3000"
  shows "served ready mem v v'"
  using assms
proof (induction n arbitrary: p num sent data v)
  case 0
  then show ?case by (simp add: served_same)
next
  case (Suc n)
  obtain t q c where s: "block_seek b k e p (vt_chip v) = Some (t, q, c)" using Suc.prems(1) by (auto simp: bind_eq_Some_conv)
  have q: "chip_ok ready mem (vt_chip v) c" "q \<le> 0xa3000" using block_seek_ok [OF s Suc.prems(2,3)] by simp_all
  have v1: "served ready mem v (set_chip c v)" by (rule served_read [OF q(1)])
  let ?r = "SPI_FLASH_BufferRead b SPI1 q (BlockSize k) c"
  have "unat q \<le> 0xa3000" "unat (BlockSize k) \<le> 666" using q(2) Suc.prems(2) by (simp_all add: block_wf_def word_le_nat_alt)
  then have r: "chip_ok ready mem c (snd ?r)" using room by (intro read_ok) simp
  let ?v = "add_sum (fst ?r) (set_chip (snd ?r) (set_chip c v))"
  have "served ready mem (set_chip c v) (set_chip (snd ?r) (set_chip c v))" by (rule served_read) (simp add: r)
  from served_trans [OF v1 this] have v2: "served ready mem v ?v" by (rule served_trans) (rule served_same, simp_all)
  have v3: "served ready mem v (send_block cmd k m d ?v)" for m d by (rule served_trans [OF v2 served_same]) simp_all
  show ?case
  proof (cases "t < st")
    case True
    then show ?thesis using Suc.prems(1) s v1 by simp
  next
    case False
    then have "block_loop b cmd k st e n q 0 True [] (send_block cmd k (NumMaxBlockSize k) (data @ fst ?r) ?v) = Some (num', sent', data', v')
      \<or> block_loop b cmd k st e n q (num + 1) sent (data @ fst ?r) ?v = Some (num', sent', data', v')"
      using Suc.prems(1) s by (auto simp: Let_def case_prod_beta split: if_split_asm)
    then show ?thesis
      using Suc.IH [OF _ Suc.prems(2) q(2)] served_trans [OF v2] served_trans [OF v3] by blast
  qed
qed

lemma UpLoad_BlockData_served:
  assumes "UpLoad_BlockData b x y n cmd v = Some v'" "rings_fresh (st_table (rc_store (vt_rec v)))"
  shows "served ready mem v v'"
proof -
  let ?v = "set_sum [0x55, 0x7a, cmd, 0x00] v"
  obtain k where k: "block_of cmd (st_table (rc_store (vt_rec v))) = Some k" using assms(1) by (auto simp: UpLoad_BlockData_def bind_eq_Some_conv)
  have p: "STOPp k \<le> 0xa3000" by (rule STOPp_range [OF k assms(2)])
  let ?m = "if bk_flag k AND 0xea \<noteq> 0xea then Some (0, False, [], ?v)
        else block_loop b cmd k (timechange x) (timechange y) (unat n) (STOPp k) 0 False [] ?v"
  have "?m \<bind> (\<lambda>(num, sent, data, v). Some (if \<not> sent \<or> num \<noteq> 0 then send_block cmd k num data v else v)) = Some v'"
    using assms(1) k by (simp only: UpLoad_BlockData_def Let_def bind.bind_lunit)
  then obtain r where r: "?m = Some r" "(case r of (num, sent, data, v) \<Rightarrow> Some (if \<not> sent \<or> num \<noteq> 0 then send_block cmd k num data v else v)) = Some v'"
    unfolding bind_eq_Some_conv by blast
  obtain num sent data w where w: "?m = Some (num, sent, data, w)" "v' = w \<or> v' = send_block cmd k num data w"
    using r by (cases r) (simp split: if_split_asm)
  have "served ready mem ?v w"
    using w(1) block_loop_ok [OF _ block_of_wf [OF k] p] by (auto split: if_split_asm intro: served_same)
  moreover have "served ready mem v ?v" by (rule served_same) simp_all
  moreover have "served ready mem w v'" using w(2) by (auto intro: served_same)
  ultimately show ?thesis by (blast intro: served_trans)
qed

text \<open>The table that is written is a copy; the recorder goes on with its own.\<close>

lemma Modify_LastUploadTime_ok:
  assumes "rec_inv ready (vt_rec v)"
  shows "\<exists>v'. Modify_LastUploadTime b v = Some v'"
proof -
  let ?t = "(st_table (rc_store (vt_rec v)))\<lparr>pt_LastUploadTime := clock_bytes (curTime (vt_rec v))\<rparr>"
  have "ready (vt_chip v)" "table_wf ?t"
    using assms by (simp_all add: rec_inv_def flash_inv_def store_ok_def vt_chip_def table_wf_def clock_bytes_def)
  from write_table_ok [OF this] show ?thesis by (auto simp: Modify_LastUploadTime_def)
qed

lemma Modify_LastUploadTime_served:
  assumes "Modify_LastUploadTime b v = Some v'"
  shows "served ready mem v v'"
proof -
  let ?t = "(st_table (rc_store (vt_rec v)))\<lparr>pt_LastUploadTime := clock_bytes (curTime (vt_rec v))\<rparr>"
  obtain p c where c: "WritePartitionTable b ?t (vt_chip v) = Some (p, c)" "v' = set_chip c v"
    using assms by (auto simp: Modify_LastUploadTime_def bind_eq_Some_conv)
  show ?thesis
    unfolding c(2)
  proof (rule served_chip)
    assume "rec_inv ready (vt_rec v)"
    then have "ready (vt_chip v)" "table_wf ?t"
      by (simp_all add: rec_inv_def flash_inv_def store_ok_def vt_chip_def table_wf_def clock_bytes_def)
    from write_table_ok [OF this] c(1) show "ready c \<and> (\<forall>x. 0x2000 \<le> x \<longrightarrow> mem c x = mem (vt_chip v) x)" by auto
  qed
qed

lemma write_parameter_ok:
  assumes "rec_inv ready (vt_rec v)"
  shows "\<exists>c. write_parameter b v = Some (set_chip c v) \<and> ready c \<and> window (mem c) 0 648 = vt_parameter v
    \<and> (\<forall>x. 0x1000 \<le> x \<longrightarrow> mem c x = mem (vt_chip v) x)"
proof -
  have "ready (vt_chip v)" "length (vt_parameter v) = 648"
    using assms by (simp_all add: rec_inv_def flash_inv_def store_ok_def vt_chip_def rec_wf_def vt_parameter_def parameter_def)
  from write_parameters_ok [OF this] show ?thesis by (auto simp: write_parameter_def)
qed

lemma write_parameter_served:
  assumes "write_parameter b v = Some v'"
  shows "served ready mem v v'"
proof -
  obtain c where c: "v' = set_chip c v" using assms by (auto simp: write_parameter_def bind_eq_Some_conv)
  show ?thesis
    unfolding c
  proof (rule served_chip)
    assume i: "rec_inv ready (vt_rec v)"
    obtain c' where "write_parameter b v = Some (set_chip c' v)" "ready c'" "\<forall>x. 0x1000 \<le> x \<longrightarrow> mem c' x = mem (vt_chip v) x"
      using write_parameter_ok [OF i] by blast
    moreover from this(1) have "c' = c" using assms c by (metis option.inject vt_chip_simps(5))
    ultimately show "ready c \<and> (\<forall>x. 0x2000 \<le> x \<longrightarrow> mem c x = mem (vt_chip v) x)" by simp
  qed
qed

end

section \<open>Every command\<close>

lemma code_bytes [simp]:
  "vt_rec (fold (\<lambda>x v. add_sum [x] (send [x] v)) xs v) = vt_rec v"
  "line (vt_ser (fold (\<lambda>x v. add_sum [x] (send [x] v)) xs v)) = line (vt_ser v)"
  by (induction xs arbitrary: v) simp_all

lemma note_change_only: "status_only (vt_rec v) (vt_rec (note_change v))"
proof -
  have "status_only s (s\<lparr>paramodifystatus := 1, modifydata := (modifydata s)[6 := x]\<rparr>)" for s :: "'a recorder" and x
    by (simp add: status_only_def rec_wf_def quiet_def)
  then show ?thesis by (auto simp: note_change_def Let_def status_only_refl)
qed

lemma note_change_rx [simp]: "line (vt_ser (note_change v)) = line (vt_ser v)" "int_rx2 (vt_ser (note_change v)) = int_rx2 (vt_ser v)"
  by (simp_all add: note_change_def Let_def)

lemma entered_only:
  "status_only s (s\<lparr>Time6sCnt := n, Verificationstatus := x\<rparr>)" "status_only s (s\<lparr>Verificationstatus := x\<rparr>)"
  "status_only s (if P then s\<lparr>Verificationstatus := x\<rparr> else s)" "status_only s (s\<lparr>curTime := t\<rparr>)"
  by (intro onlyI status_only_if)+

lemma put_parameter_only: "a + length xs \<le> 648 \<Longrightarrow> status_only s (upd_parameter (put_at a xs) s)"
  by (intro status_only_parameter) (simp_all add: status_only_refl)

text \<open>The commands that are not an upload of records.\<close>

definition uploads :: "u8 set" where
  "uploads = {0x08, 0x09, 0x10, 0x11, 0x12, 0x13, 0x14, 0x15}"

lemma status_only_inv:
  assumes "rec_inv ready s" "status_only s s'"
  shows "rec_inv ready s'"
  using assms by (simp add: rec_inv_def flash_inv_def store_ok_def status_only_def)

context recorder_flash
begin

lemma answer_served:
  assumes "Modify_LastUploadTime b w = Some v'" "vt_rec w = vt_rec v" "line (vt_ser w) = line (vt_ser v)"
  shows "served ready mem v v'"
  using served_trans [OF served_same Modify_LastUploadTime_served] assms by blast

lemma set_served:
  assumes "write_parameter b (upd_rec f (RS232SetSuccess x v)) = Some v'" "status_only (vt_rec v) (f (vt_rec v))"
  shows "served ready mem v v'"
  by (rule served_trans [OF served_only write_parameter_served [OF assms(1)]]) (simp_all add: assms(2))

lemma answers_served:
  "UpLoad_DriverCode b v = Some v' \<Longrightarrow> served ready mem v v'" "UpLoad_RealTime b v = Some v' \<Longrightarrow> served ready mem v v'"
  "UpLoad_DriverDistance b v = Some v' \<Longrightarrow> served ready mem v v'" "UpLoad_PulseCoff b v = Some v' \<Longrightarrow> served ready mem v v'"
  "UpLoad_DriverAutoInfo w b v = Some v' \<Longrightarrow> served ready mem v v'" "UpLoad_StatusInfo w b v = Some v' \<Longrightarrow> served ready mem v v'"
  "UpLoad_Type w b v = Some v' \<Longrightarrow> served ready mem v v'"
  unfolding UpLoad_DriverCode_def UpLoad_RealTime_def UpLoad_DriverDistance_def UpLoad_PulseCoff_def UpLoad_DriverAutoInfo_def
    UpLoad_StatusInfo_def UpLoad_Type_def Let_def
  by (erule answer_served; simp)+

lemma answers_total:
  assumes "rec_inv ready (vt_rec v)"
  shows "\<exists>v'. UpLoad_DriverCode b v = Some v'" "\<exists>v'. UpLoad_RealTime b v = Some v'" "\<exists>v'. UpLoad_DriverDistance b v = Some v'"
    "\<exists>v'. UpLoad_PulseCoff b v = Some v'" "\<exists>v'. UpLoad_DriverAutoInfo w b v = Some v'" "\<exists>v'. UpLoad_StatusInfo w b v = Some v'"
    "\<exists>v'. UpLoad_Type w b v = Some v'"
  unfolding UpLoad_DriverCode_def UpLoad_RealTime_def UpLoad_DriverDistance_def UpLoad_PulseCoff_def UpLoad_DriverAutoInfo_def
    UpLoad_StatusInfo_def UpLoad_Type_def Let_def
  by (rule Modify_LastUploadTime_ok, simp add: assms)+

lemma setters_served:
  "Set_DriverAutoInfo b buf n v = Some v' \<Longrightarrow> served ready mem v v'" "Set_Installtime b buf n v = Some v' \<Longrightarrow> served ready mem v v'"
  "Set_SingalStatus b buf n v = Some v' \<Longrightarrow> served ready mem v v'" "Set_Curtime b buf n v = Some v' \<Longrightarrow> served ready mem v v'"
  "Set_PulseCoff b buf n v = Some v' \<Longrightarrow> served ready mem v v'" "Set_StartDistance b buf n v = Some v' \<Longrightarrow> served ready mem v v'"
  unfolding Set_DriverAutoInfo_def Set_Installtime_def Set_SingalStatus_def Set_Curtime_def Set_PulseCoff_def Set_StartDistance_def
  by (auto split: if_split_asm elim!: set_served intro: put_parameter_only entered_only served_same)

lemma setters_total:
  assumes "rec_inv ready (vt_rec v)"
  shows "\<exists>v'. Set_DriverAutoInfo b buf n v = Some v'" "\<exists>v'. Set_Installtime b buf n v = Some v'" "\<exists>v'. Set_SingalStatus b buf n v = Some v'"
    "\<exists>v'. Set_Curtime b buf n v = Some v'" "\<exists>v'. Set_PulseCoff b buf n v = Some v'" "\<exists>v'. Set_StartDistance b buf n v = Some v'"
proof -
  have w: "\<exists>v'. write_parameter b (upd_rec f (RS232SetSuccess x v)) = Some v'" if "status_only (vt_rec v) (f (vt_rec v))" for f x
  proof -
    have "rec_inv ready (vt_rec (upd_rec f (RS232SetSuccess x v)))" using status_only_inv [OF assms that] by simp
    from write_parameter_ok [OF this] show ?thesis by blast
  qed
  show "\<exists>v'. Set_DriverAutoInfo b buf n v = Some v'" "\<exists>v'. Set_Installtime b buf n v = Some v'" "\<exists>v'. Set_SingalStatus b buf n v = Some v'"
    "\<exists>v'. Set_Curtime b buf n v = Some v'" "\<exists>v'. Set_PulseCoff b buf n v = Some v'" "\<exists>v'. Set_StartDistance b buf n v = Some v'"
    unfolding Set_DriverAutoInfo_def Set_Installtime_def Set_SingalStatus_def Set_Curtime_def Set_PulseCoff_def Set_StartDistance_def
    by (cases "n = 0x29"; cases "n = 6"; cases "n = 0x50"; cases "n = 8"; cases "n = 4"; simp add: w put_parameter_only entered_only)+
qed

lemma status_commands_served:
  "served ready mem v (UpLoad_ExVersion v)" "served ready mem v (EnterVercationStatus v)" "served ready mem v (EnterMileStatus v)"
  "served ready mem v (EnterPulsStatus v)" "served ready mem v (EnterTimeStatus v)" "served ready mem v (GetBackNormalStatus v)"
  "served ready mem v (RS232UploadError v)"
  unfolding UpLoad_ExVersion_def EnterVercationStatus_def EnterMileStatus_def EnterPulsStatus_def EnterTimeStatus_def GetBackNormalStatus_def Let_def
  by (rule served_only; simp add: entered_only status_only_refl)+

lemma dispatch_served:
  assumes "dispatch w b v = Some v'" "rings_fresh (st_table (rc_store (vt_rec v)))"
  shows "served ready mem v v'"
  using assms(1) unfolding dispatch_def Let_def
  by (simp split: if_split_asm) (use assms(2) in \<open>auto dest: answers_served setters_served intro: status_commands_served UpLoad_BlockData_served\<close>)

lemma dispatch_total:
  assumes "rec_inv ready (vt_rec v)" "cmd_at (int_rx2 (vt_ser v)) 2 \<notin> uploads"
  shows "\<exists>v'. dispatch w b v = Some v'"
  unfolding dispatch_def Let_def
  using assms(2) answers_total [OF assms(1)] setters_total [OF assms(1)] by (simp add: uploads_def)

lemma serve_command_keeps:
  assumes "serve_command w b v = Some v'" "rec_inv ready (vt_rec v)"
  shows "rec_inv ready (vt_rec v') \<and> untouched mem (vt_rec v) (vt_rec v')
    \<and> int_rx2 (vt_ser v') = (let r = int_rx2 (vt_ser v) in r\<lparr>read_index := (ucast (cmd_lenth r) + read_index r + 7) AND 127, getcmd := getcmd r - 1\<rparr>)
    \<and> gprmcbuf (vt_ser v') = gprmcbuf (vt_ser v) \<and> gprmccnt (vt_ser v') = gprmccnt (vt_ser v)"
proof -
  obtain u where u: "dispatch w b (note_change v) = Some u"
    "v' = upd_ser (upd_rx (\<lambda>r. r\<lparr>read_index := (ucast (cmd_lenth (int_rx2 (vt_ser v))) + read_index r + 7) AND 127, getcmd := getcmd r - 1\<rparr>)) u"
    using assms(1) by (auto simp: serve_command_def bind_eq_Some_conv)
  have i: "rec_inv ready (vt_rec (note_change v))" by (rule status_only_inv [OF assms(2) note_change_only])
  have "served ready mem (note_change v) u"
    using dispatch_served [OF u(1)] i by (simp add: rec_inv_def flash_inv_def)
  moreover have "served ready mem v (note_change v)" by (simp add: served_only note_change_only)
  ultimately have "served ready mem v u" by (rule served_trans [rotated])
  then show ?thesis using assms(2) by (simp add: u(2) served_def keeps_def line_eq upd_ser_def upd_rx_def Let_def)
qed

lemma serve_command_total:
  assumes "rec_inv ready (vt_rec v)" "cmd_at (int_rx2 (vt_ser v)) 2 \<notin> uploads"
  shows "\<exists>v'. serve_command w b v = Some v'"
proof -
  have "\<exists>u. dispatch w b (note_change v) = Some u"
    by (rule dispatch_total) (use assms status_only_inv [OF assms(1) note_change_only] in simp_all)
  then show ?thesis by (auto simp: serve_command_def Let_def)
qed

lemma serve_commands_keeps:
  assumes "serve_commands w b n v = Some v'"
  shows "keeps ready mem (vt_rec v) (vt_rec v')"
  using assms
proof (induction n arbitrary: v)
  case (Suc n)
  then obtain u where u: "serve_command w b v = Some u" "serve_commands w b n u = Some v'" by (auto simp: bind_eq_Some_conv)
  have "keeps ready mem (vt_rec v) (vt_rec u)" using serve_command_keeps [OF u(1)] by (simp add: keeps_def)
  then show ?case using Suc.IH [OF u(2)] by (rule keeps_trans)
qed (simp add: keeps_refl)

lemma handle_keeps:
  assumes "rs232_handle_application w b v = Some v'"
  shows "keeps ready mem (vt_rec v) (vt_rec v')"
  using serve_commands_keeps [OF assms [unfolded rs232_handle_application_def Let_def]] by (auto split: if_split_asm)

end

section \<open>A queue of commands\<close>

text \<open>A command with its spare byte and its data; those of a list in the ring, one behind the other.\<close>

type_synonym command = "u8 \<times> u8 \<times> u8 list"

definition packets :: "command list \<Rightarrow> u8 list" where
  "packets fs = concat (List.map (\<lambda>(cmd, res, d). packet cmd res d) fs)"

lemma packets_simps [simp]: "packets [] = []" "packets ((cmd, res, d) # fs) = packet cmd res d @ packets fs"
  by (simp_all add: packets_def)

lemma packets_length: "7 * length fs \<le> length (packets fs)"
  by (induction fs) (auto simp: packets_def)

lemma packet_in: "(cmd, res, d) \<in> set fs \<Longrightarrow> length d + 7 \<le> length (packets fs)"
  by (induction fs) (auto simp: packets_def)

lemma small_u16_u32: "n < 65536 \<Longrightarrow> (ucast (of_nat n :: u16) :: u32) = of_nat n"
  by (simp add: word_unat_eq_iff unsigned_ucast_eq unsigned_take_bit_eq take_bit_eq_mod unat_of_nat)

lemma packet_taken:
  assumes "ring_wf r" "pending r = packet cmd res d @ rest"
  shows "ring_wf (r\<lparr>read_index := (ucast (cmd_lenth r) + read_index r + 7) AND 127, getcmd := g\<rparr>)"
    "pending (r\<lparr>read_index := (ucast (cmd_lenth r) + read_index r + 7) AND 127, getcmd := g\<rparr>) = rest"
proof -
  have "length (packet cmd res d @ rest) < 128" using pending_count_lt [of r] by (simp add: assms(2) [symmetric] pending_def)
  then have l: "length d < 65536" by simp
  have m: "ucast (cmd_lenth r) + read_index r + 7 = (of_nat (length d + 7) :: u32) + read_index r"
    using packet_at(2) [OF assms(2)] small_u16_u32 [OF l] by simp
  have n: "length d + 7 \<le> length (pending r)" by (simp add: assms(2))
  note moved = read_index_moved [OF assms(1) n refl]
  show "ring_wf (r\<lparr>read_index := (ucast (cmd_lenth r) + read_index r + 7) AND 127, getcmd := g\<rparr>)"
    "pending (r\<lparr>read_index := (ucast (cmd_lenth r) + read_index r + 7) AND 127, getcmd := g\<rparr>) = rest"
    unfolding m using moved by (simp_all add: assms(2))
qed

context recorder_flash
begin

lemma commands_answered:
  assumes "rec_inv ready (vt_rec v)" "ring_wf (int_rx2 (vt_ser v))" "pending (int_rx2 (vt_ser v)) = packets fs @ rest"
    and "\<forall>(cmd, res, d)\<in>set fs. cmd \<notin> uploads"
  shows "\<exists>v'. serve_commands w b (length fs) v = Some v' \<and> rec_inv ready (vt_rec v') \<and> ring_wf (int_rx2 (vt_ser v'))
    \<and> pending (int_rx2 (vt_ser v')) = rest \<and> getcmd (int_rx2 (vt_ser v')) = getcmd (int_rx2 (vt_ser v)) - of_nat (length fs)"
  using assms
proof (induction fs arbitrary: v)
  case Nil
  then show ?case by simp
next
  case (Cons f fs)
  obtain cmd res d where f: "f = (cmd, res, d)" by (cases f)
  let ?r = "int_rx2 (vt_ser v)"
  have p: "pending ?r = packet cmd res d @ packets fs @ rest" using Cons.prems(3) f by simp
  have "cmd_at ?r 2 \<notin> uploads" using packet_at(1) [OF p] Cons.prems(4) f by simp
  then obtain u where u: "serve_command w b v = Some u" using serve_command_total [OF Cons.prems(1)] by blast
  let ?q = "?r\<lparr>read_index := (ucast (cmd_lenth ?r) + read_index ?r + 7) AND 127, getcmd := getcmd ?r - 1\<rparr>"
  have k: "rec_inv ready (vt_rec u)" "int_rx2 (vt_ser u) = ?q" using serve_command_keeps [OF u Cons.prems(1)] by (simp_all add: Let_def)
  have "ring_wf (int_rx2 (vt_ser u))" "pending (int_rx2 (vt_ser u)) = packets fs @ rest"
    unfolding k(2) by (rule packet_taken [OF Cons.prems(2) p])+
  from Cons.IH [OF k(1) this] Cons.prems(4) obtain v' where "serve_commands w b (length fs) u = Some v'" "rec_inv ready (vt_rec v')"
    "ring_wf (int_rx2 (vt_ser v'))" "pending (int_rx2 (vt_ser v')) = rest" "getcmd (int_rx2 (vt_ser v')) = getcmd (int_rx2 (vt_ser u)) - of_nat (length fs)"
    by auto
  then show ?case using u by (simp add: k(2))
qed

end

text \<open>From the wire to the answers: an idle receiver takes as many commands as fit in its ring.\<close>

lemma received:
  assumes "ring_wf (int_rx2 u)" "pending (int_rx2 u) = []" "Uart2PackStatus u = Get_sync_head" "getcmd (int_rx2 u) = 0"
    and "\<forall>(cmd, res, d)\<in>set fs. good_command cmd" "length (packets fs) < 128"
  shows "ring_wf (int_rx2 (fold uart2_byte (packets fs) u))" "pending (int_rx2 (fold uart2_byte (packets fs) u)) = packets fs"
    "getcmd (int_rx2 (fold uart2_byte (packets fs) u)) = of_nat (length fs)" "length fs \<le> 18"
    "uart_tx (fold uart2_byte (packets fs) u) = uart_tx u @ rt_serial_write (packets fs)"
proof -
  show "ring_wf (int_rx2 (fold uart2_byte (packets fs) u))" by (rule uart2.puts_inv [OF assms(1)])
  show "pending (int_rx2 (fold uart2_byte (packets fs) u)) = packets fs"
    using uart2.puts_kept [OF assms(1), of "packets fs"] assms(2,6) by simp
  have "\<forall>(cmd, res, d)\<in>set fs. good_command cmd \<and> length d < 65536" using assms(5,6) packet_in by fastforce
  from mode_packets [OF this] obtain c l where "fold mode_step (packets fs) (mode u) = (Get_sync_head, c, l, 0 + of_nat (length fs))"
    unfolding packets_def mode_def assms(3,4) by blast
  then have "mode (fold uart2_byte (packets fs) u) = (Get_sync_head, c, l, of_nat (length fs))" by (simp add: fold_mode)
  then show "getcmd (int_rx2 (fold uart2_byte (packets fs) u)) = of_nat (length fs)" by (simp add: mode_def)
  show "length fs \<le> 18" using packets_length [of fs] assms(6) by simp
  show "uart_tx (fold uart2_byte (packets fs) u) = uart_tx u @ rt_serial_write (packets fs)" by (rule fold_tx)
qed

end
