(* ===== verification/Vtdr_Sentence.thy ===== *)
theory Vtdr_Sentence
  imports Vtdr_Uart
begin

text \<open>The reader of port 3: a whole sentence of the satellite receiver, field by field.\<close>

section \<open>Character by character\<close>

primrec uart3_run :: "u8 list \<Rightarrow> 'c vtdr \<Rightarrow> 'c vtdr option" where
  "uart3_run [] v = Some v"
| "uart3_run (x # xs) v = do { v \<leftarrow> uart3_byte x v; uart3_run xs v }"

lemma uart3_run_append: "uart3_run (xs @ ys) v = do { v \<leftarrow> uart3_run xs v; uart3_run ys v }"
  by (induction xs arbitrary: v) (simp_all add: Option.bind_assoc)

definition plain :: "u8 list \<Rightarrow> bool" where
  "plain xs \<longleftrightarrow> 0x24 \<notin> set xs \<and> 0x2c \<notin> set xs"

text \<open>The reader inside a sentence: its kind, the number of the field, the characters read.\<close>

definition reading :: "u8 \<Rightarrow> u8 \<Rightarrow> u8 list \<Rightarrow> 'c vtdr \<Rightarrow> bool" where
  "reading g n xs v \<longleftrightarrow> isgprmc (vt_ser v) = g \<and> SectionID (vt_ser v) = n \<and> gprmccnt (vt_ser v) = of_nat (length xs)
     \<and> length (gprmcbuf (vt_ser v)) = 400 \<and> take (length xs) (gprmcbuf (vt_ser v)) = xs"

text \<open>How many characters of a field of a position sentence are waited for, and what is done with them.\<close>

definition field_len :: "u8 \<Rightarrow> nat" where
  "field_len n = (if n = 1 then 10 else if n = 2 then 9 else if n = 4 then 10 else if n = 7 then 2 else 0)"

definition field_read :: "u8 \<Rightarrow> u8 list \<Rightarrow> 'c recorder \<Rightarrow> 'c recorder" where
  "field_read n xs = (if n = 1 then GetTheGPSTime xs else if n = 2 then GetGPSLocation1 xs
     else if n = 4 then GetGPSLocation2 xs else if n = 7 then GettheSinaldata xs else id)"

lemma read_digits_cong: "(\<And>i. i \<in> set is \<Longrightarrow> xs ! i = ys ! i) \<Longrightarrow> read_digits xs is = read_digits ys is"
  unfolding read_digits_def by (rule foldl_cong) simp_all

lemma two_three: "(1 :: nat) < 3" "(2 :: nat) < 3"
  by simp_all

lemma GetTheGPSTime_cong:
  assumes "\<And>i. i < 6 \<Longrightarrow> xs ! i = ys ! i"
  shows "GetTheGPSTime xs = GetTheGPSTime ys"
proof -
  have part: "16 * ASCII2char (xs ! (2 * i)) + ASCII2char (xs ! (2 * i + 1)) = 16 * ASCII2char (ys ! (2 * i)) + ASCII2char (ys ! (2 * i + 1))"
    if "i < 3" for i using assms [of "2 * i"] assms [of "2 * i + 1"] that by simp
  show ?thesis unfolding GetTheGPSTime_def Let_def
    by (simp only: part [of 0, OF zero_less_numeral] part [of 1, OF two_three(1)] part [of 2, OF two_three(2)])
qed

lemma GetGPSLocation_cong:
  "(\<And>i. i < 9 \<Longrightarrow> xs ! i = ys ! i) \<Longrightarrow> GetGPSLocation1 xs = GetGPSLocation1 ys"
  "(\<And>i. i < 10 \<Longrightarrow> xs ! i = ys ! i) \<Longrightarrow> GetGPSLocation2 xs = GetGPSLocation2 ys"
  using read_digits_cong [of "filter (\<lambda>i. i \<noteq> 4) [0..<9]" xs ys] read_digits_cong [of "filter (\<lambda>i. i \<noteq> 5) [0..<10]" xs ys]
  by (simp_all only: GetGPSLocation1_def GetGPSLocation2_def fun_eq_iff set_filter set_upt) simp_all

lemma GettheSinaldata_cong: "(\<And>i. i < 2 \<Longrightarrow> xs ! i = ys ! i) \<Longrightarrow> GettheSinaldata xs = GettheSinaldata ys"
  by (simp only: GettheSinaldata_def fun_eq_iff) simp

lemma field_read_cong:
  assumes "\<And>i. i < field_len n \<Longrightarrow> xs ! i = ys ! i"
  shows "field_read n xs = field_read n ys"
proof -
  consider "n = 1" | "n = 2" | "n = 4" | "n = 7" | "n \<noteq> 1" "n \<noteq> 2" "n \<noteq> 4" "n \<noteq> 7" by blast
  then show ?thesis
  proof cases
    case 1
    then show ?thesis using assms GetTheGPSTime_cong [of xs ys] by (simp add: field_read_def field_len_def)
  next
    case 2
    then show ?thesis using assms GetGPSLocation_cong(1) [of xs ys] by (simp add: field_read_def field_len_def)
  next
    case 3
    then show ?thesis using assms GetGPSLocation_cong(2) [of xs ys] by (simp add: field_read_def field_len_def)
  next
    case 4
    then show ?thesis using assms GettheSinaldata_cong [of xs ys] by (simp add: field_read_def field_len_def)
  qed (simp add: field_read_def)
qed

lemma field_read_take: "field_len n \<le> length xs \<Longrightarrow> field_read n (take (field_len n) xs @ ys) = field_read n xs"
  by (rule field_read_cong) (simp add: nth_append)

lemma plain_byte:
  assumes "reading g n xs v" "length xs < 400" "x \<noteq> 0x24" "x \<noteq> 0x2c" "n \<noteq> 0"
  shows "\<exists>v'. uart3_byte x v = Some v' \<and> reading g n (xs @ [x]) v'
    \<and> vt_rec v' = (if g = 1 \<and> Suc (length xs) = field_len n then field_read n (xs @ [x]) (vt_rec v) else vt_rec v)"
proof -
  let ?u = "gps_store x (vt_ser v)"
  have cnt: "unat (of_nat (length xs) :: u16) = length xs" using assms(2) by (simp add: unat_of_nat)
  have r: "isgprmc (vt_ser v) = g" "SectionID (vt_ser v) = n" "gprmccnt (vt_ser v) = of_nat (length xs)"
    "length (gprmcbuf (vt_ser v)) = 400" "take (length xs) (gprmcbuf (vt_ser v)) = xs"
    using assms(1) by (simp_all add: reading_def)
  have n400: "(of_nat (length xs) :: u16) \<noteq> 400" using cnt assms(2) by (auto simp: word_unat_eq_iff)
  then have u: "isgprmc ?u = g" "SectionID ?u = n" "gprmccnt ?u = of_nat (length (xs @ [x]))" "length (gprmcbuf ?u) = 400"
    "take (length (xs @ [x])) (gprmcbuf ?u) = xs @ [x]"
    using r assms(2) cnt by (simp_all add: gps_store_def Let_def take_Suc_conv_app_nth add.commute)
  have len: "(of_nat (length (xs @ [x])) :: u16) = of_nat m \<longleftrightarrow> Suc (length xs) = m" if "m < 400" for m
    using assms(2) that by (simp add: word_unat_eq_iff unat_of_nat del: of_nat_Suc)
  let ?v = "upd_ser (gps_store x) v"
  have v: "vt_ser ?v = ?u" "vt_rec ?v = vt_rec v" by (simp_all add: upd_ser_def)
  have at: "gprmccnt ?u = 10 \<longleftrightarrow> Suc (length xs) = 10" "gprmccnt ?u = 9 \<longleftrightarrow> Suc (length xs) = 9" "gprmccnt ?u = 2 \<longleftrightarrow> Suc (length xs) = 2"
    using len [of 10] len [of 9] len [of 2] u(3) by simp_all
  consider "n = 1" | "n = 2" | "n = 4" | "n = 7" | "n \<noteq> 1" "n \<noteq> 2" "n \<noteq> 4" "n \<noteq> 7" by blast
  then have f: "vt_rec (uart3_field ?v) = (if g = 1 \<and> Suc (length xs) = field_len n then field_read n (gprmcbuf ?u) (vt_rec v) else vt_rec v)
      \<and> isgprmc (vt_ser (uart3_field ?v)) = g \<and> SectionID (vt_ser (uart3_field ?v)) = n \<and> gprmccnt (vt_ser (uart3_field ?v)) = gprmccnt ?u
      \<and> gprmcbuf (vt_ser (uart3_field ?v)) = gprmcbuf ?u"
  proof cases
    case 5
    then show ?thesis using u v assms(5) by (simp add: uart3_field_def Let_def field_len_def field_read_def)
  qed (use u v at assms(5) in \<open>simp_all add: uart3_field_def Let_def field_len_def field_read_def upd_rec_def upd_ser_def del: length_append\<close>)
  have "field_read n (gprmcbuf ?u) (vt_rec v) = field_read n (xs @ [x]) (vt_rec v)" if "Suc (length xs) = field_len n"
    by (rule fun_cong, rule field_read_cong) (metis u(5) nth_take that length_append_singleton)
  then show ?thesis using f u assms(3,4)
    by (intro exI [of _ "uart3_field ?v"]) (auto simp: uart3_byte_def reading_def)
qed

lemma plain_run:
  assumes "reading g n [] v" "length xs \<le> 400" "plain xs" "n \<noteq> 0"
  shows "\<exists>v'. uart3_run xs v = Some v' \<and> reading g n xs v'
    \<and> vt_rec v' = (if g = 1 \<and> field_len n \<noteq> 0 \<and> field_len n \<le> length xs then field_read n xs (vt_rec v) else vt_rec v)"
  using assms(2,3)
proof (induction xs rule: rev_induct)
  case Nil
  then show ?case using assms(1) by auto
next
  case (snoc x xs)
  then obtain v1 where v1: "uart3_run xs v = Some v1" "reading g n xs v1"
    "vt_rec v1 = (if g = 1 \<and> field_len n \<noteq> 0 \<and> field_len n \<le> length xs then field_read n xs (vt_rec v) else vt_rec v)"
    by (auto simp: plain_def)
  obtain v2 where v2: "uart3_byte x v1 = Some v2" "reading g n (xs @ [x]) v2"
    "vt_rec v2 = (if g = 1 \<and> Suc (length xs) = field_len n then field_read n (xs @ [x]) (vt_rec v1) else vt_rec v1)"
    using plain_byte [OF v1(2), of x] snoc.prems assms(4) by (auto simp: plain_def)
  have same: "field_read n (xs @ [x]) (vt_rec v) = field_read n xs (vt_rec v)" if "field_len n \<le> length xs"
    by (rule fun_cong, rule field_read_cong) (use that in \<open>simp add: nth_append\<close>)
  show ?case
    using v1 v2 same by (auto simp: uart3_run_append)
qed

text \<open>A whole field with the comma behind it.\<close>

definition field_end :: "u8 \<Rightarrow> u8 \<Rightarrow> u8 list \<Rightarrow> 'c recorder \<Rightarrow> 'c recorder option" where
  "field_end g n xs r =
     (if g = 1 \<and> n = 9 then GetGPSLocation3 xs (of_nat (length xs)) r
      else if g = 2 \<and> n = 7 then GetGPSSpeed xs (of_nat (length xs)) r
      else Some (if g = 1 \<and> field_len n \<noteq> 0 \<and> field_len n \<le> length xs then field_read n xs r else r))"

lemma GetGPSLocation3_prefix:
  assumes "length xs \<le> 400" "xs \<noteq> []"
  shows "GetGPSLocation3 (xs @ ys) (of_nat (length xs)) r = GetGPSLocation3 xs (of_nat (length xs)) r"
proof -
  have l: "unat (of_nat (length xs) :: u16) = length xs" using assms(1) by (simp add: unat_of_nat)
  have f: "foldl (\<lambda>v i. if (xs @ ys) ! i \<noteq> 46 then ucast (ASCII2char ((xs @ ys) ! i)) + 10 * v else v) (0 :: u16) [k..<length xs]
    = foldl (\<lambda>v i. if xs ! i \<noteq> 46 then ucast (ASCII2char (xs ! i)) + 10 * v else v) 0 [k..<length xs]" for k
    by (rule foldl_cong) (simp_all add: nth_append)
  have h: "(xs @ ys) ! 0 = xs ! 0" using assms(2) by (simp add: nth_append)
  show ?thesis unfolding GetGPSLocation3_def Let_def l f h ..
qed

lemma GetGPSSpeed_prefix:
  assumes "length xs \<le> 255"
  shows "GetGPSSpeed (xs @ ys) (of_nat (length xs)) r = GetGPSSpeed xs (of_nat (length xs)) r"
proof -
  have l: "unat (of_nat (length xs) :: u32) = length xs" using assms(1) by (simp add: unat_of_nat)
  have "\<not> 255 < (of_nat (length xs) :: u32)" using assms l by (simp add: word_less_nat_alt)
  then show ?thesis by (simp add: GetGPSSpeed_def l)
qed

lemma field_run:
  assumes "reading g n [] v" "length xs \<le> 255" "plain xs" "n \<noteq> 0" "g = 1 \<and> n = 9 \<Longrightarrow> xs \<noteq> []"
    and "field_end g n xs (vt_rec v) = Some r"
  shows "\<exists>v'. uart3_run (xs @ [0x2c]) v = Some v' \<and> reading g (n + 1) [] v' \<and> vt_rec v' = r"
proof -
  obtain v1 where v1: "uart3_run xs v = Some v1" "reading g n xs v1"
    "vt_rec v1 = (if g = 1 \<and> field_len n \<noteq> 0 \<and> field_len n \<le> length xs then field_read n xs (vt_rec v) else vt_rec v)"
    using plain_run [OF assms(1) _ assms(3,4)] assms(2) by auto
  let ?u = "vt_ser v1"
  have u: "isgprmc ?u = g" "SectionID ?u = n" "gprmccnt ?u = of_nat (length xs)" "length (gprmcbuf ?u) = 400"
    "gprmcbuf ?u = xs @ drop (length xs) (gprmcbuf ?u)"
    using v1(2) append_take_drop_id [of "length xs" "gprmcbuf ?u"] by (simp_all add: reading_def)
  have c: "(ucast (of_nat (length xs) :: u16) :: u32) = of_nat (length xs)"
    using assms(2) by (simp add: word_unat_eq_iff unat_of_nat unsigned_ucast_eq unsigned_take_bit_eq take_bit_eq_mod)
  have e: "(if g = 1 \<and> n = 9 then GetGPSLocation3 (gprmcbuf ?u) (of_nat (length xs)) (vt_rec v1)
      else if g = 2 \<and> n = 7 then GetGPSSpeed (gprmcbuf ?u) (of_nat (length xs)) (vt_rec v1) else Some (vt_rec v1)) = Some r"
  proof -
    have "GetGPSLocation3 (gprmcbuf ?u) (of_nat (length xs)) (vt_rec v1) = GetGPSLocation3 xs (of_nat (length xs)) (vt_rec v1)" if "xs \<noteq> []"
      using GetGPSLocation3_prefix [of xs "drop (length xs) (gprmcbuf ?u)" "vt_rec v1"] assms(2) that u(5) by simp
    moreover have "GetGPSSpeed (gprmcbuf ?u) (of_nat (length xs)) (vt_rec v1) = GetGPSSpeed xs (of_nat (length xs)) (vt_rec v1)"
      using GetGPSSpeed_prefix [OF assms(2), of "drop (length xs) (gprmcbuf ?u)" "vt_rec v1"] u(5) by simp
    moreover have "field_len 9 = 0" by (simp add: field_len_def)
    ultimately show ?thesis using assms(5,6) v1(3) by (auto simp: field_end_def split: if_splits)
  qed
  have "uart3_comma v1 = Some (v1\<lparr>vt_rec := r, vt_ser := ?u\<lparr>SectionID := n + 1, gprmccnt := 0, uart3flag := 2\<rparr>\<rparr>)"
    unfolding uart3_comma_def Let_def u(1-3) c e by simp
  then show ?thesis using v1(1) u by (simp add: uart3_run_append uart3_byte_def reading_def)
qed

text \<open>The start of a sentence, whatever came before.\<close>

definition sentence_kind :: "u8 list \<Rightarrow> u8 \<Rightarrow> u8" where
  "sentence_kind xs g = (if xs = [0x47, 0x50, 0x47, 0x47, 0x41] then 1 else if xs = [0x47, 0x50, 0x56, 0x54, 0x47] then 2 else g)"

lemma uart3_name_fields:
  assumes "gprmccnt u = 5"
  shows "isgprmc (uart3_name u) = sentence_kind (take 5 (gprmcbuf u)) (isgprmc u)"
    "SectionID (uart3_name u) = SectionID u" "gprmccnt (uart3_name u) = 0" "gprmcbuf (uart3_name u) = gprmcbuf u"
  using assms by (simp_all add: uart3_name_def sentence_kind_def Let_def)

lemma name_byte:
  assumes "reading g 0 xs v" "length xs < 5" "x \<noteq> 0x24" "x \<noteq> 0x2c"
  shows "\<exists>v'. uart3_byte x v = Some v' \<and> vt_rec v' = vt_rec v \<and>
    (if length xs = 4
     then reading (sentence_kind (xs @ [x]) g) 0 [] v'
     else reading g 0 (xs @ [x]) v')"
proof -
  let ?u = "gps_store x (vt_ser v)"
  have cnt: "unat (of_nat (length xs) :: u16) = length xs" using assms(2) by (simp add: unat_of_nat)
  have "(of_nat (length xs) :: u16) \<noteq> 400" using cnt assms(2) by (auto simp: word_unat_eq_iff)
  then have u: "isgprmc ?u = g" "SectionID ?u = 0" "gprmccnt ?u = of_nat (length (xs @ [x]))" "length (gprmcbuf ?u) = 400"
    "take (length (xs @ [x])) (gprmcbuf ?u) = xs @ [x]"
    using assms(1,2) cnt by (simp_all add: reading_def gps_store_def Let_def take_Suc_conv_app_nth add.commute)
  have five: "gprmccnt ?u = 5 \<longleftrightarrow> length xs = 4"
    unfolding u(3) using assms(2) by (simp add: word_unat_eq_iff unat_of_nat del: of_nat_Suc)
  have b: "uart3_byte x v = Some (upd_ser (\<lambda>_. uart3_name ?u) v)"
    using assms(3,4) u(2) by (simp add: uart3_byte_def uart3_field_def upd_ser_def Let_def)
  show ?thesis
  proof (cases "length xs = 4")
    case True
    then have "take 5 (gprmcbuf ?u) = xs @ [x]" using u(5) by simp
    then show ?thesis using b u(1,2,4) True uart3_name_fields [of ?u] five by (simp add: upd_ser_def reading_def)
  next
    case False
    then have "uart3_name ?u = ?u" using five by (simp add: uart3_name_def)
    then show ?thesis using u b False by (simp add: upd_ser_def reading_def)
  qed
qed

lemma start_byte: "length (gprmcbuf (vt_ser v)) = 400 \<Longrightarrow> \<exists>v'. uart3_byte 0x24 v = Some v' \<and> vt_rec v' = vt_rec v \<and> reading 0 0 [] v'"
  by (simp add: uart3_byte_def upd_ser_def reading_def)

lemma comma_byte: "reading g 0 [] v \<Longrightarrow> \<exists>v'. uart3_byte 0x2c v = Some v' \<and> vt_rec v' = vt_rec v \<and> reading g 1 [] v'"
  by (simp add: uart3_byte_def uart3_comma_def reading_def)

lemma name_run:
  assumes "length (gprmcbuf (vt_ser v)) = 400" "length xs = 5" "plain xs"
  shows "\<exists>v'. uart3_run (0x24 # xs @ [0x2c]) v = Some v' \<and> vt_rec v' = vt_rec v
    \<and> reading (sentence_kind xs 0) 1 [] v'"
proof -
  obtain a b c d e where xs: "xs = [a, b, c, d, e]" using assms(2) by (auto simp: numeral_eq_Suc length_Suc_conv)
  have p: "x \<noteq> 0x24 \<and> x \<noteq> 0x2c" if "x \<in> set xs" for x using assms(3) that by (auto simp: plain_def)
  obtain v0 where v0: "uart3_byte 0x24 v = Some v0" "vt_rec v0 = vt_rec v" "reading 0 0 [] v0" using start_byte [OF assms(1)] by blast
  obtain v1 where v1: "uart3_byte a v0 = Some v1" "vt_rec v1 = vt_rec v0" "reading 0 0 [a] v1"
    using name_byte [OF v0(3), of a] p xs by auto
  obtain v2 where v2: "uart3_byte b v1 = Some v2" "vt_rec v2 = vt_rec v1" "reading 0 0 [a, b] v2"
    using name_byte [OF v1(3), of b] p xs by auto
  obtain v3 where v3: "uart3_byte c v2 = Some v3" "vt_rec v3 = vt_rec v2" "reading 0 0 [a, b, c] v3"
    using name_byte [OF v2(3), of c] p xs by auto
  obtain v4 where v4: "uart3_byte d v3 = Some v4" "vt_rec v4 = vt_rec v3" "reading 0 0 [a, b, c, d] v4"
    using name_byte [OF v3(3), of d] p xs by auto
  obtain v5 where v5: "uart3_byte e v4 = Some v5" "vt_rec v5 = vt_rec v4"
    "reading (sentence_kind xs 0) 0 [] v5"
    using name_byte [OF v4(3), of e] p xs by auto
  obtain v6 where "uart3_byte 0x2c v5 = Some v6" "vt_rec v6 = vt_rec v5"
    "reading (sentence_kind xs 0) 1 [] v6"
    using comma_byte [OF v5(3)] by blast
  then show ?thesis using v0 v1 v2 v3 v4 v5 by (simp add: xs)
qed

primrec fields_end :: "u8 \<Rightarrow> u8 \<Rightarrow> u8 list list \<Rightarrow> 'c recorder \<Rightarrow> 'c recorder option" where
  "fields_end g n [] r = Some r"
| "fields_end g n (f # fs) r = do { r \<leftarrow> field_end g n f r; fields_end g (n + 1) fs r }"

definition with_comma :: "u8 list \<Rightarrow> u8 list" where
  "with_comma f = f @ [0x2c]"

lemma fields_run:
  assumes "reading g n [] v" "n \<noteq> 0" "unat n + length fs < 256" "\<forall>f\<in>set fs. f \<noteq> [] \<and> length f \<le> 255 \<and> plain f"
    and "fields_end g n fs (vt_rec v) = Some r"
  shows "\<exists>v'. uart3_run (concat (List.map with_comma fs)) v = Some v' \<and> reading g (n + of_nat (length fs)) [] v' \<and> vt_rec v' = r"
  using assms
proof (induction fs arbitrary: n v)
  case (Cons f fs)
  from Cons.prems(5) obtain r1 where r1: "field_end g n f (vt_rec v) = Some r1" "fields_end g (n + 1) fs r1 = Some r"
    by (auto simp: bind_eq_Some_conv)
  obtain v1 where v1: "uart3_run (f @ [0x2c]) v = Some v1" "reading g (n + 1) [] v1" "vt_rec v1 = r1"
    using field_run [OF Cons.prems(1) _ _ Cons.prems(2) _ r1(1)] Cons.prems(4) by auto
  have n: "unat (n + 1) = Suc (unat n)" using Cons.prems(3) by (simp add: unat_word_ariths)
  then have ne: "n + 1 \<noteq> 0" by (auto simp: word_unat_eq_iff)
  have "unat (n + 1) + length fs < 256" "\<forall>f\<in>set fs. f \<noteq> [] \<and> length f \<le> 255 \<and> plain f" "fields_end g (n + 1) fs (vt_rec v1) = Some r"
    using n Cons.prems(3,4) r1(2) v1(3) by simp_all
  from Cons.IH [OF v1(2) ne this] obtain v2 where v2: "uart3_run (concat (List.map with_comma fs)) v1 = Some v2"
    "reading g (n + 1 + of_nat (length fs)) [] v2" "vt_rec v2 = r" by blast
  have "uart3_run (with_comma f @ concat (List.map with_comma fs)) v = Some v2"
    unfolding uart3_run_append [of "with_comma f"] using v1(1) v2(1) by (simp only: with_comma_def bind.bind_lunit)
  then show ?case using v2(2,3) by (auto simp: add.assoc)
qed simp

definition sentence :: "u8 list \<Rightarrow> u8 list list \<Rightarrow> u8 list" where
  "sentence name fs = (0x24 # name @ [0x2c]) @ concat (List.map with_comma fs)"

lemma sentence_run:
  assumes "length (gprmcbuf (vt_ser v)) = 400" "length name = 5" "plain name" "length fs < 255"
    and "\<forall>f\<in>set fs. f \<noteq> [] \<and> length f \<le> 255 \<and> plain f" "fields_end (sentence_kind name 0) 1 fs (vt_rec v) = Some r"
  shows "\<exists>v'. uart3_run (sentence name fs) v = Some v' \<and> vt_rec v' = r \<and> length (gprmcbuf (vt_ser v')) = 400"
proof -
  obtain v1 where v1: "uart3_run (0x24 # name @ [0x2c]) v = Some v1" "vt_rec v1 = vt_rec v" "reading (sentence_kind name 0) 1 [] v1"
    using name_run [OF assms(1-3)] by blast
  obtain v2 where "uart3_run (concat (List.map with_comma fs)) v1 = Some v2"
    "reading (sentence_kind name 0) (1 + of_nat (length fs)) [] v2" "vt_rec v2 = r"
    using fields_run [OF v1(3), of fs r] assms(4-6) v1(2) by auto
  then show ?thesis unfolding sentence_def uart3_run_append using v1(1) by (simp add: reading_def del: uart3_run.simps)
qed

section \<open>What the fields of a position mean\<close>

text \<open>A number as its characters, a point left out; what is not a digit counts as 0.\<close>

definition number :: "u8 list \<Rightarrow> nat" where
  "number xs = foldl (\<lambda>v x. 10 * v + unat (ASCII2char x)) 0 (filter (\<lambda>x. x \<noteq> 46) xs)"

lemma foldl_of_nat:
  "foldl (\<lambda>v x. ucast (ASCII2char x) + 10 * v) (of_nat a :: 'a :: len word) xs = of_nat (foldl (\<lambda>v x. 10 * v + unat (ASCII2char x)) a xs)"
proof (induction xs arbitrary: a)
  case (Cons x xs)
  have "(ucast (ASCII2char x) + 10 * of_nat a :: 'a word) = of_nat (10 * a + unat (ASCII2char x))" by (simp add: add.commute)
  then show ?case using Cons.IH [of "10 * a + unat (ASCII2char x)"] by (simp only: foldl_Cons)
qed simp

lemma foldl_filter: "foldl f a (filter P xs) = foldl (\<lambda>v x. if P x then f v x else v) a xs"
  by (induction xs arbitrary: a) simp_all

lemma foldl_nth: "foldl (\<lambda>v i. f v (xs ! i)) a is = foldl f a (List.map ((!) xs) is)"
  by (simp add: foldl_map)

lemma number_point:
  assumes "p < length xs" "xs ! p = 46" "\<forall>i<length xs. i \<noteq> p \<longrightarrow> xs ! i \<noteq> 46"
  shows "read_digits xs (filter (\<lambda>i. i \<noteq> p) [0..<length xs]) = of_nat (number xs)"
proof -
  have "List.map ((!) xs) (filter (\<lambda>i. i \<noteq> p) [0..<length xs]) = List.map ((!) xs) (filter (\<lambda>i. xs ! i \<noteq> 46) [0..<length xs])"
    using assms by (intro arg_cong [where f = "List.map ((!) xs)"] filter_cong) auto
  also have "\<dots> = filter (\<lambda>x. x \<noteq> 46) (List.map ((!) xs) [0..<length xs])" by (simp add: filter_map o_def)
  also have "\<dots> = filter (\<lambda>x. x \<noteq> 46) xs" by (simp add: map_nth)
  finally show ?thesis using foldl_of_nat [of 0 "filter (\<lambda>x. x \<noteq> 46) xs", where 'a = 32]
    unfolding read_digits_def number_def foldl_nth [of "\<lambda>v x. ucast (ASCII2char x) + 10 * v"] by simp
qed

lemma number_altitude:
  assumes "xs \<noteq> []" "length xs \<le> 255" "hd xs \<noteq> 45"
  shows "GetGPSLocation3 xs (of_nat (length xs)) r = Some (r\<lparr>location := put_at 8 (le16 (of_nat (number xs))) (location r)\<rparr>)"
proof -
  have l: "unat (of_nat (length xs) :: u16) = length xs" using assms(2) by (simp add: unat_of_nat)
  have "foldl (\<lambda>v i. if xs ! i \<noteq> 46 then ucast (ASCII2char (xs ! i)) + 10 * v else v) (0 :: u16) [0..<length xs]
    = foldl (\<lambda>v x. if x \<noteq> 46 then ucast (ASCII2char x) + 10 * v else v) 0 xs"
    using foldl_nth [of "\<lambda>v x. if x \<noteq> 46 then ucast (ASCII2char x) + 10 * v else v" xs 0 "[0..<length xs]"] by (simp add: map_nth)
  also have "\<dots> = foldl (\<lambda>v x. ucast (ASCII2char x) + 10 * v) 0 (filter (\<lambda>x. x \<noteq> 46) xs)"
    by (rule foldl_filter [symmetric])
  also have "\<dots> = of_nat (number xs)"
    using foldl_of_nat [of 0 "filter (\<lambda>x. x \<noteq> 46) xs", where 'a = 16] by (simp add: number_def)
  finally have f: "foldl (\<lambda>v i. if xs ! i \<noteq> 46 then ucast (ASCII2char (xs ! i)) + 10 * v else v) (0 :: u16) [0..<length xs] = of_nat (number xs)" .
  have h: "xs ! 0 \<noteq> 45" using assms(1,3) by (simp add: hd_conv_nth)
  have "\<not> 255 < (of_nat (length xs) :: u16)" using assms(2) l by (simp add: word_less_nat_alt)
  then show ?thesis using h f by (simp add: GetGPSLocation3_def l)
qed

end
