(* ===== verification/Vtdr_Device.thy ===== *)
theory Vtdr_Device
  imports Vtdr_Commands Vtdr_Sentence
begin

text \<open>
  The device as a whole: whatever the wheel, the timer, the serial ports and the two threads do, in any
  order, is a run of \<open>dev_step\<close>. Interrupts are atomic with respect to a round of the main loop and to the
  service of commands.
\<close>

section \<open>Runs of the device\<close>

datatype happening = Recorder event | Command_byte u8 | Satellite_byte u8 | Spare_byte u8 | Serve

fun dev_step :: "surroundings \<Rightarrow> 'c spi_bus \<Rightarrow> happening \<Rightarrow> 'c vtdr \<Rightarrow> 'c vtdr option" where
  "dev_step w b (Recorder e) v = do { r \<leftarrow> rec_step b e (vt_rec v); Some (v\<lparr>vt_rec := r\<rparr>) }"
| "dev_step w b (Command_byte x) v = Some (upd_ser (uart2_byte x) v)"
| "dev_step w b (Satellite_byte x) v = uart3_byte x v"
| "dev_step w b (Spare_byte x) v = uart4_byte x v"
| "dev_step w b Serve v = rs232_handle_application w b v"

fun dev_run :: "surroundings \<Rightarrow> 'c spi_bus \<Rightarrow> happening list \<Rightarrow> 'c vtdr \<Rightarrow> 'c vtdr option" where
  "dev_run w b [] v = Some v"
| "dev_run w b (e # es) v = do { v \<leftarrow> dev_step w b e v; dev_run w b es v }"

fun happening_ok :: "happening \<Rightarrow> bool" where
  "happening_ok (Recorder e) \<longleftrightarrow> event_ok e"
| "happening_ok _ \<longleftrightarrow> True"

text \<open>The buffers of the ports keep their sizes and their indices stay inside.\<close>

definition ser_wf :: "serial \<Rightarrow> bool" where
  "ser_wf u \<longleftrightarrow> ring_wf (int_rx2 u) \<and> length (gprmcbuf u) = 400 \<and> gprmccnt u \<le> 400"

definition dev_inv :: "('c \<Rightarrow> bool) \<Rightarrow> 'c vtdr \<Rightarrow> bool" where
  "dev_inv ready v \<longleftrightarrow> rec_inv ready (vt_rec v) \<and> ser_wf (vt_ser v)"

definition dev_keeps :: "('c \<Rightarrow> bool) \<Rightarrow> ('c \<Rightarrow> nat \<Rightarrow> u8) \<Rightarrow> 'c vtdr \<Rightarrow> 'c vtdr \<Rightarrow> bool" where
  "dev_keeps ready mem v v' \<longleftrightarrow> (dev_inv ready v \<longrightarrow> dev_inv ready v' \<and> untouched mem (vt_rec v) (vt_rec v'))"

lemma dev_keeps_trans: "dev_keeps ready mem u v \<Longrightarrow> dev_keeps ready mem v w \<Longrightarrow> dev_keeps ready mem u w"
  by (auto simp: dev_keeps_def untouched_def)

lemma dev_keepsI: "keeps ready mem (vt_rec v) (vt_rec v') \<Longrightarrow> (ser_wf (vt_ser v) \<Longrightarrow> ser_wf (vt_ser v')) \<Longrightarrow> dev_keeps ready mem v v'"
  by (auto simp: dev_keeps_def dev_inv_def keeps_def)

lemma dev_only: "status_only (vt_rec v) (vt_rec v') \<Longrightarrow> (ser_wf (vt_ser v) \<Longrightarrow> ser_wf (vt_ser v')) \<Longrightarrow> dev_keeps ready mem v v'"
  by (rule dev_keepsI) (simp_all add: status_only_keeps)

subsection \<open>The bytes of the ports\<close>

lemma uart2_other: "gprmcbuf (uart2_byte x u) = gprmcbuf u" "gprmccnt (uart2_byte x u) = gprmccnt u"
  by (cases "Uart2PackStatus u", simp_all add: uart2_byte_def uart2_status_def upd_rx_def set_getcmd_def uart2_write_def Let_def)+

lemma uart2_wf: "ser_wf u \<Longrightarrow> ser_wf (uart2_byte x u)"
  by (simp add: ser_wf_def uart2_other uart2.put_inv)

lemma count_inside: "n \<le> 400 \<Longrightarrow> n \<noteq> 400 \<Longrightarrow> n + 1 \<le> 400" for n :: u16
proof -
  assume "n \<le> 400" "n \<noteq> 400"
  then have "unat n < 400" by (simp add: word_le_nat_alt word_unat_eq_iff)
  then show "n + 1 \<le> 400" by (simp add: word_le_nat_alt unat_word_ariths)
qed

lemma gps_store_wf: "ser_wf u \<Longrightarrow> ser_wf (gps_store x u)"
  by (auto simp: ser_wf_def gps_store_def Let_def count_inside)

lemma uart3_name_wf: "ser_wf u \<Longrightarrow> ser_wf (uart3_name u)"
  by (simp add: ser_wf_def uart3_name_def Let_def)

lemma uart3_field_only: "status_only (vt_rec v) (vt_rec (uart3_field v)) \<and> (ser_wf (vt_ser v) \<longrightarrow> ser_wf (vt_ser (uart3_field v)))"
proof -
  consider "SectionID (vt_ser v) = 0" | "SectionID (vt_ser v) = 1" | "SectionID (vt_ser v) = 2" | "SectionID (vt_ser v) = 4"
    | "SectionID (vt_ser v) = 7" | "SectionID (vt_ser v) \<notin> {0, 1, 2, 4, 7}" by blast
  then show ?thesis
    by cases (simp_all add: uart3_field_def Let_def upd_ser_def upd_rec_def sentence_only status_only_refl uart3_name_wf, simp_all add: ser_wf_def)
qed

lemma uart3_keeps:
  assumes "uart3_byte x v = Some v'"
  shows "dev_keeps ready mem v v'"
proof -
  consider "x = 0x24" | "x = 0x2c" | "x \<noteq> 0x24" "x \<noteq> 0x2c" by blast
  then show ?thesis
  proof cases
    case 1
    then show ?thesis using assms by (auto simp: uart3_byte_def upd_ser_def ser_wf_def intro!: dev_only status_only_refl)
  next
    case 2
    then obtain r where r: "(if isgprmc (vt_ser v) = 1 \<and> SectionID (vt_ser v) = 9 then GetGPSLocation3 (gprmcbuf (vt_ser v)) (gprmccnt (vt_ser v)) (vt_rec v)
        else if isgprmc (vt_ser v) = 2 \<and> SectionID (vt_ser v) = 7 then GetGPSSpeed (gprmcbuf (vt_ser v)) (ucast (gprmccnt (vt_ser v))) (vt_rec v)
        else Some (vt_rec v)) = Some r" "vt_rec v' = r"
      "vt_ser v' = (vt_ser v)\<lparr>SectionID := SectionID (vt_ser v) + 1, gprmccnt := 0, uart3flag := 2\<rparr>"
      using assms by (auto simp: uart3_byte_def uart3_comma_def Let_def bind_eq_Some_conv)
    have "status_only (vt_rec v) r" using r(1) by (auto split: if_split_asm intro: sentence_Some_only status_only_refl)
    then show ?thesis using r(2,3) by (intro dev_only) (simp_all add: ser_wf_def)
  next
    case 3
    then have v: "v' = uart3_field (upd_ser (gps_store x) v)" using assms by (simp add: uart3_byte_def)
    have "status_only (vt_rec v) (vt_rec v')" unfolding v using uart3_field_only [of "upd_ser (gps_store x) v"] by simp
    moreover have "ser_wf (vt_ser v')" if "ser_wf (vt_ser v)"
      unfolding v using uart3_field_only [of "upd_ser (gps_store x) v"] gps_store_wf [OF that, of x] by (simp add: upd_ser_def)
    ultimately show ?thesis by (rule dev_only)
  qed
qed

lemma uart4_keeps:
  assumes "uart4_byte x v = Some v'"
  shows "dev_keeps ready mem v v'"
proof (rule dev_only)
  show "status_only (vt_rec v) (vt_rec v')" using assms by (auto simp: uart4_byte_def Let_def status_only_refl split: if_split_asm)
  assume w: "ser_wf (vt_ser v)"
  have lt: "unat (gprmccnt (vt_ser v)) < 400" using assms w by (simp add: uart4_byte_def Let_def ser_wf_def split: if_split_asm)
  then have "gprmccnt (vt_ser v) + 1 \<le> 400" by (simp add: word_le_nat_alt unat_word_ariths)
  then show "ser_wf (vt_ser v')" using assms w by (auto simp: uart4_byte_def Let_def ser_wf_def split: if_split_asm)
qed

subsection \<open>Every step\<close>

lemma and_127_lt: "x AND 127 < (128 :: u32)"
  by (simp add: word_less_nat_alt and_127)

context recorder_flash
begin

lemma serve_command_dev:
  assumes "serve_command w b v = Some v'"
  shows "dev_keeps ready mem v v'"
proof -
  have "dev_inv ready v' \<and> untouched mem (vt_rec v) (vt_rec v')" if i: "dev_inv ready v"
  proof -
    note k = serve_command_keeps [OF assms, unfolded Let_def]
    have r: "rec_inv ready (vt_rec v)" using i by (simp add: dev_inv_def)
    show ?thesis using k [OF r] i and_127_lt by (simp add: dev_inv_def ser_wf_def ring_wf_def)
  qed
  then show ?thesis by (simp add: dev_keeps_def)
qed

lemma serve_commands_dev: "serve_commands w b n v = Some v' \<Longrightarrow> dev_keeps ready mem v v'"
proof (induction n arbitrary: v)
  case (Suc n)
  then obtain u where "serve_command w b v = Some u" "serve_commands w b n u = Some v'" by (auto simp: bind_eq_Some_conv)
  then show ?case using Suc.IH serve_command_dev dev_keeps_trans by blast
qed (simp add: dev_keeps_def untouched_def)

lemma handle_dev:
  assumes "rs232_handle_application w b v = Some v'"
  shows "dev_keeps ready mem v v'"
proof -
  obtain u n where u: "serve_commands w b n u = Some v'" "u = v \<or> u = RS232UploadError (upd_ser (set_getcmd 0) v)"
    using assms by (auto simp: rs232_handle_application_def Let_def split: if_split_asm)
  have "dev_keeps ready mem v (RS232UploadError (upd_ser (set_getcmd 0) v))"
    by (rule dev_only) (simp_all add: status_only_refl ser_wf_def RS232UploadError_def send_sum_def send_def upd_ser_def uart2_write_def set_sum_def
        set_getcmd_def upd_rx_def)
  then have "dev_keeps ready mem v u" using u(2) by (auto simp: dev_keeps_def untouched_def)
  then show ?thesis using serve_commands_dev [OF u(1)] by (rule dev_keeps_trans)
qed

lemma dev_step_keeps: "dev_step w b e v = Some v' \<Longrightarrow> happening_ok e \<Longrightarrow> dev_keeps ready mem v v'"
proof -
  assume h: "dev_step w b e v = Some v'" "happening_ok e"
  show ?thesis
  proof (cases e)
    case (Recorder x)
    then obtain r where "rec_step b x (vt_rec v) = Some r" "v' = v\<lparr>vt_rec := r\<rparr>" using h(1) by (auto simp: bind_eq_Some_conv)
    then show ?thesis using rec_step_keeps [of x "vt_rec v" r] Recorder h(2) by (intro dev_keepsI) simp_all
  next
    case (Command_byte x)
    then have "v' = upd_ser (uart2_byte x) v" using h(1) by simp
    then show ?thesis by (intro dev_only) (simp_all add: status_only_refl upd_ser_def uart2_wf)
  qed (use h(1) uart3_keeps uart4_keeps handle_dev in auto)
qed

lemma dev_run_keeps: "dev_run w b es v = Some v' \<Longrightarrow> \<forall>e\<in>set es. happening_ok e \<Longrightarrow> dev_keeps ready mem v v'"
proof (induction es arbitrary: v)
  case (Cons e es)
  then obtain u where "dev_step w b e v = Some u" "dev_run w b es u = Some v'" by (auto simp: bind_eq_Some_conv)
  then show ?case using Cons dev_step_keeps dev_keeps_trans by (metis list.set_intros)
qed (simp add: dev_keeps_def untouched_def)

end

end
