(* ===== verification/Vtdr_Answers.thy ===== *)
theory Vtdr_Answers
  imports Vtdr_Device
begin

text \<open>What the commands put on the wire and into the parameters.\<close>

section \<open>Bytes on the wire\<close>

lemma tx_simps [simp]:
  "uart_tx (vt_ser (send bs v)) = uart_tx (vt_ser v) @ rt_serial_write bs"
  "uart_tx (vt_ser (set_sum bs v)) = uart_tx (vt_ser v)" "uart_tx (vt_ser (add_sum bs v)) = uart_tx (vt_ser v)"
  "uart_tx (vt_ser (upd_rec f v)) = uart_tx (vt_ser v)" "uart_tx (vt_ser (set_chip c v)) = uart_tx (vt_ser v)"
  "uart_tx (vt_ser (send_sum v)) = uart_tx (vt_ser v) @ rt_serial_write [SendCheckSum v]"
  "uart_tx (vt_ser (upd_ser (upd_rx g) v)) = uart_tx (vt_ser v)"
  by (simp_all add: send_def send_sum_def set_sum_def add_sum_def upd_ser_def upd_rec_def set_chip_def uart2_write_def upd_rx_def)

lemma sum_simps [simp]:
  "SendCheckSum (send bs v) = SendCheckSum v" "SendCheckSum (set_sum bs v) = xor_from 0 bs"
  "SendCheckSum (add_sum bs v) = xor_from (SendCheckSum v) bs" "SendCheckSum (upd_rec f v) = SendCheckSum v"
  by (simp_all add: send_def set_sum_def add_sum_def upd_ser_def upd_rec_def)

lemma parameter_simps [simp]:
  "vt_parameter (send bs v) = vt_parameter v" "vt_parameter (set_sum bs v) = vt_parameter v" "vt_parameter (add_sum bs v) = vt_parameter v"
  "vt_parameter (set_chip c v) = vt_parameter v" "vt_parameter (send_sum v) = vt_parameter v" "vt_parameter (upd_ser g v) = vt_parameter v"
  "vt_parameter (RS232SetSuccess x v) = vt_parameter v" "vt_parameter (upd_rec (upd_parameter f) v) = f (vt_parameter v)"
  by (simp_all add: vt_parameter_def parameter_def set_chip_def upd_parameter_def)

lemma code_tx:
  "uart_tx (vt_ser (fold (\<lambda>x v. add_sum [x] (send [x] v)) xs v)) = uart_tx (vt_ser v) @ rt_serial_write xs"
  "SendCheckSum (fold (\<lambda>x v. add_sum [x] (send [x] v)) xs v) = xor_from (SendCheckSum v) xs"
  by (induction xs arbitrary: v) (simp_all)

lemma Modify_tx: "Modify_LastUploadTime b v = Some v' \<Longrightarrow> uart_tx (vt_ser v') = uart_tx (vt_ser v)"
  by (auto simp: Modify_LastUploadTime_def bind_eq_Some_conv)

lemma write_parameter_tx: "write_parameter b v = Some v' \<Longrightarrow> uart_tx (vt_ser v') = uart_tx (vt_ser v)"
  by (auto simp: write_parameter_def bind_eq_Some_conv)

lemma success_tx:
  "uart_tx (vt_ser (RS232SetSuccess x v)) = uart_tx (vt_ser v) @ rt_serial_write [0x55, 0x7a, x, 0, 0, 0, xor_from 0 [0x55, 0x7a, x]]"
  by (simp add: RS232SetSuccess_def write_append [symmetric] del: rt_serial_write.simps)

text \<open>An answer: two bytes to start, the command, the length of the data and a spare byte, the data, the checksum.\<close>

definition answered :: "u8 \<Rightarrow> u8 list \<Rightarrow> u8 \<Rightarrow> 'c vtdr \<Rightarrow> 'c vtdr \<Rightarrow> bool" where
  "answered cmd d x v v' \<longleftrightarrow>
     (let bs = [0x55, 0x7a, cmd, 0, of_nat (length d), 0] @ d
      in \<exists>c. uart_tx (vt_ser v') = uart_tx (vt_ser v) @ rt_serial_write (bs @ [c]) \<and> xor_from 0 (bs @ [c]) = x)"

lemma answeredI:
  assumes "uart_tx (vt_ser v') = uart_tx (vt_ser v) @ rt_serial_write ([0x55, 0x7a, cmd, 0, n, 0] @ d @ [xor_from 0 ([0x55, 0x7a, cmd, 0, n, 0] @ d) XOR x])"
    "n = of_nat (length d)"
  shows "answered cmd d x v v'"
proof -
  have "s XOR (s XOR x) = x" for s :: u8 by (simp add: xor.assoc [symmetric])
  then have "xor_from 0 ([0x55, 0x7a, cmd, 0, n, 0] @ d @ [xor_from 0 ([0x55, 0x7a, cmd, 0, n, 0] @ d) XOR x]) = x" by simp
  then show ?thesis using assms unfolding answered_def Let_def append_assoc by blast
qed

lemmas wire = write_append [symmetric] WriteDataTxTime_def Let_def

lemma length_clock_bytes [simp]: "length (clock_bytes t) = 6"
  by (simp add: clock_bytes_def)

lemma answer_RealTime:
  assumes "UpLoad_RealTime b v = Some v'"
  shows "answered 0x02 (clock_bytes (curTime (vt_rec v))) 0 v v'"
  by (rule answeredI [where n = 6])
    (use Modify_tx [OF assms [unfolded UpLoad_RealTime_def Let_def]] in \<open>simp_all add: wire del: rt_serial_write.simps\<close>)

lemma answer_DriverCode:
  assumes "UpLoad_DriverCode b v = Some v'" "length (vt_parameter v) = 648"
  shows "answered 0x01 (license_of (vt_parameter v)) 0 v v'"
  by (rule answeredI [where n = 18])
    (use Modify_tx [OF assms(1) [unfolded UpLoad_DriverCode_def Let_def]] assms(2)
      in \<open>simp_all add: code_tx license_of_def wire del: rt_serial_write.simps\<close>)

text \<open>Lists of a known length as their elements.\<close>

lemma four: "length xs = 4 \<Longrightarrow> \<exists>a b c d. xs = [a, b, c, d]"
  by (auto simp: numeral_eq_Suc length_Suc_conv)

lemma answer_DriverDistance:
  assumes "UpLoad_DriverDistance b v = Some v'" "length (vt_parameter v) = 648"
  shows "answered 0x03 (clock_bytes (curTime (vt_rec v)) @ take 6 (drop 161 (vt_parameter v)) @ take 4 (drop 4 (vt_parameter v)) @ take 4 (vt_parameter v)) 0 v v'"
proof -
  let ?p = "vt_parameter v"
  obtain a0 a1 a2 a3 where a: "take 4 ?p = [a0, a1, a2, a3]" using four [of "take 4 ?p"] assms(2) by auto
  obtain b0 b1 b2 b3 where b: "take 4 (drop 4 ?p) = [b0, b1, b2, b3]" using four [of "take 4 (drop 4 ?p)"] assms(2) by auto
  show ?thesis unfolding a b
    by (rule answeredI [where n = 20])
      (use Modify_tx [OF assms(1) [unfolded UpLoad_DriverDistance_def Let_def a b]] assms(2)
        in \<open>simp_all add: upt_rec wire xor.assoc xor.commute xor.left_commute del: rt_serial_write.simps\<close>)
qed

lemma xor_from_other: "xor_from (a XOR x) xs = xor_from a xs XOR x"
proof (induction xs arbitrary: a)
  case (Cons y xs)
  have "(a XOR x) XOR y = (a XOR y) XOR x" by (metis xor.assoc xor.commute)
  then show ?case using Cons.IH [of "a XOR y"] by simp
qed simp

text \<open>The length that goes into the checksum of this answer is 3, the one that is sent is 8.\<close>

lemma answer_PulseCoff:
  assumes "UpLoad_PulseCoff b v = Some v'"
  shows "answered 0x04 (clock_bytes (curTime (vt_rec v)) @ [ucast (drop_bit 8 (PulseCoff (vt_parameter v))), ucast (PulseCoff (vt_parameter v))]) 0x0b v v'"
proof -
  let ?t = "clock_bytes (curTime (vt_rec v))" and ?k = "PulseCoff (vt_parameter v)"
  let ?d = "?t @ [ucast (drop_bit 8 ?k), ucast ?k]"
  have "xor_from 0 ([0x55, 0x7a, 0x04, 0x00, 0x03, 0x00] @ ?d) = xor_from 0 ([0x55, 0x7a, 0x04, 0x00, 0x08, 0x00] @ ?d) XOR 0x0b"
    using xor_from_other [of 35 11 ?d] by simp
  then show ?thesis
    by (intro answeredI [where n = 8])
      (use Modify_tx [OF assms [unfolded UpLoad_PulseCoff_def Let_def]] in \<open>simp_all add: wire del: rt_serial_write.simps\<close>)
qed

section \<open>Parameters that are set\<close>

text \<open>The commands that copy their data into the parameters: how long the data are and where they go.\<close>

fun field_of :: "u8 \<Rightarrow> (nat \<times> nat) option" where
  "field_of cmd = (if cmd = 0x82 then Some (445, 41) else if cmd = 0x83 then Some (161, 6) else if cmd = 0x84 then Some (39, 80) else None)"

lemma field_of_cases:
  assumes "field_of cmd = Some (a, n)"
  shows "cmd \<notin> uploads" "good_command cmd" "a + n \<le> 648" "n \<le> 80" "0x81 < cmd" "cmd < 0x85" "0x15 < cmd"
  using assms by (auto simp: uploads_def good_command_def split: if_split_asm)

lemma dispatch_set:
  assumes "field_of cmd = Some (a, n)" "cmd_at (int_rx2 (vt_ser v)) 2 = cmd" "cmd_lenth (int_rx2 (vt_ser v)) = of_nat n"
  shows "dispatch w b v = write_parameter b (upd_rec (upd_parameter (put_at a (List.map (cmd_buf w (int_rx2 (vt_ser v))) [0..<n]))) (RS232SetSuccess cmd v))"
  using assms(1)
  by (auto simp: dispatch_def Let_def assms(2,3) Set_DriverAutoInfo_def Set_Installtime_def Set_SingalStatus_def uploads_def split: if_split_asm)

lemma note_change_set:
  "0x81 < cmd_at (int_rx2 (vt_ser v)) 2 \<Longrightarrow> cmd_at (int_rx2 (vt_ser v)) 2 < 0x85 \<Longrightarrow> note_change v
    = upd_rec (\<lambda>r. r\<lparr>paramodifystatus := 1, modifydata := (modifydata r)[6 := cmd_at (int_rx2 (vt_ser v)) 2]\<rparr>) v"
proof -
  assume c: "0x81 < cmd_at (int_rx2 (vt_ser v)) 2" "cmd_at (int_rx2 (vt_ser v)) 2 < 0x85"
  then have "\<not> cmd_at (int_rx2 (vt_ser v)) 2 < 0x16" by (simp add: word_less_nat_alt)
  then show ?thesis using c by (simp add: note_change_def Let_def)
qed

context recorder_flash
begin

lemma set_command:
  assumes "rec_inv ready (vt_rec v)" "ring_wf (int_rx2 (vt_ser v))" "pending (int_rx2 (vt_ser v)) = packet cmd res d @ rest"
    and "field_of cmd = Some (a, length d)" "(unat (read_index (int_rx2 (vt_ser v))) + 6) mod 128 + length d \<le> 128"
  shows "\<exists>v'. serve_command w b v = Some v' \<and> vt_parameter v' = put_at a d (vt_parameter v)
    \<and> window (mem (vt_chip v')) 0 648 = vt_parameter v' \<and> paramodifystatus (vt_rec v') = 1 \<and> modifydata (vt_rec v') ! 6 = cmd
    \<and> uart_tx (vt_ser v') = uart_tx (vt_ser v) @ rt_serial_write [0x55, 0x7a, cmd, 0, 0, 0, xor_from 0 [0x55, 0x7a, cmd]]
    \<and> int_rx2 (vt_ser v') = (let r = int_rx2 (vt_ser v) in r\<lparr>read_index := (ucast (cmd_lenth r) + read_index r + 7) AND 127, getcmd := getcmd r - 1\<rparr>)"
proof -
  let ?r = "int_rx2 (vt_ser v)" and ?v = "note_change v"
  note f = field_of_cases [OF assms(4)] and at = packet_at [OF assms(3)]
  have d: "List.map (cmd_buf w ?r) [0..<length d] = d"
    by (rule nth_equalityI) (simp_all add: cmd_buf_data [OF assms(2,3,5)])
  let ?s = "upd_rec (upd_parameter (put_at a d)) (RS232SetSuccess cmd ?v)"
  have s: "dispatch w b ?v = write_parameter b ?s"
    using dispatch_set [of cmd a "length d" ?v w b] assms(4) at(1,2) d by simp
  have nv: "?v = upd_rec (\<lambda>r. r\<lparr>paramodifystatus := 1, modifydata := (modifydata r)[6 := cmd]\<rparr>) v"
    using note_change_set [of v] at(1) f(5,6) by simp
  have i: "rec_inv ready (vt_rec ?s)"
    using status_only_inv [OF status_only_inv [OF assms(1) note_change_only] put_parameter_only [of a d "vt_rec ?v"]] f(3) by simp
  obtain c where c: "write_parameter b ?s = Some (set_chip c ?s)" "window (mem c) 0 648 = vt_parameter ?s"
    using write_parameter_ok [OF i] by blast
  let ?u = "upd_ser (upd_rx (\<lambda>r. r\<lparr>read_index := (ucast (cmd_lenth ?r) + read_index r + 7) AND 127, getcmd := getcmd r - 1\<rparr>)) (set_chip c ?s)"
  have u: "serve_command w b v = Some ?u" using s c(1) by (simp add: serve_command_def)
  have p: "vt_parameter ?v = vt_parameter v" by (simp add: nv vt_parameter_def parameter_def)
  have m: "length (modifydata (vt_rec v)) = 7" using assms(1) by (simp add: rec_inv_def rec_wf_def)
  have x: "vt_chip (upd_ser g v) = vt_chip v" for g and v :: "'c vtdr" by (simp add: vt_chip_def)
  show ?thesis
  proof (intro exI conjI)
    show "serve_command w b v = Some ?u" by (rule u)
    show "vt_parameter ?u = put_at a d (vt_parameter v)" by (simp add: p)
    show "window (mem (vt_chip ?u)) 0 648 = vt_parameter ?u" using c(2) by (simp add: x)
    show "paramodifystatus (vt_rec ?u) = 1" "modifydata (vt_rec ?u) ! 6 = cmd" using m by (simp_all add: set_chip_def upd_parameter_def nv)
    show "uart_tx (vt_ser ?u) = uart_tx (vt_ser v) @ rt_serial_write [0x55, 0x7a, cmd, 0, 0, 0, xor_from 0 [0x55, 0x7a, cmd]]"
      unfolding tx_simps success_tx by (simp add: nv del: rt_serial_write.simps)
    show "int_rx2 (vt_ser ?u) = (let r = ?r in r\<lparr>read_index := (ucast (cmd_lenth r) + read_index r + 7) AND 127, getcmd := getcmd r - 1\<rparr>)"
      by (simp add: Let_def)
  qed
qed

end

section \<open>Commands that nobody sent\<close>

text \<open>A ring full of zeros holds the command for the version, over and over.\<close>

lemma zero_ring: "rx_buffer r = replicate 128 0 \<Longrightarrow> cmd_at r k = 0"
proof -
  assume "rx_buffer r = replicate 128 0"
  then show ?thesis using and_127 [of "read_index r + k"] by (simp add: cmd_at_def)
qed

definition version_answer :: "u8 list \<Rightarrow> u8 list" where
  "version_answer p = rt_serial_write [0x55, 0x7a, 0x00, 0x00, 0x02, 0x00, p ! 36, p ! 37] @ rt_serial_write [0x2e]"

lemma serve_zero:
  assumes "rx_buffer (int_rx2 (vt_ser v)) = replicate 128 0"
  shows "\<exists>v'. serve_command w b v = Some v' \<and> rx_buffer (int_rx2 (vt_ser v')) = replicate 128 0 \<and> vt_parameter v' = vt_parameter v
    \<and> uart_tx (vt_ser v') = uart_tx (vt_ser v) @ version_answer (vt_parameter v)"
proof -
  have z: "cmd_at (int_rx2 (vt_ser v)) k = 0" for k by (rule zero_ring [OF assms])
  have n: "note_change v = v" by (simp add: note_change_def z)
  show ?thesis
    using assms by (simp add: serve_command_def n dispatch_def z UpLoad_ExVersion_def version_answer_def Let_def del: rt_serial_write.simps)
qed

lemma serve_zeros:
  "rx_buffer (int_rx2 (vt_ser v)) = replicate 128 0 \<Longrightarrow> \<exists>v'. serve_commands w b n v = Some v'
    \<and> uart_tx (vt_ser v') = uart_tx (vt_ser v) @ concat (replicate n (version_answer (vt_parameter v)))"
proof (induction n arbitrary: v)
  case (Suc n)
  obtain u where u: "serve_command w b v = Some u" "rx_buffer (int_rx2 (vt_ser u)) = replicate 128 0" "vt_parameter u = vt_parameter v"
    "uart_tx (vt_ser u) = uart_tx (vt_ser v) @ version_answer (vt_parameter v)"
    using serve_zero [OF Suc.prems] by blast
  from Suc.IH [OF u(2)] show ?case using u by simp
qed simp

end
