(* ===== verification/Vtdr_Upload.thy ===== *)
theory Vtdr_Upload
  imports Vtdr_Commands
begin

text \<open>
  The upload of records: which record the search ends at, when it ends at all, and what it finds on the
  flash of a recorder.
\<close>

section \<open>The search\<close>

text \<open>The time in a record as the search reads it.\<close>

definition slot_time :: "(nat \<Rightarrow> u8) \<Rightarrow> block \<Rightarrow> u32 \<Rightarrow> u32" where
  "slot_time m k p = timechange (bytes_clock (window m (unat (if BlockSize k = 50 then p + 18 else p)) 6))"

lemma block_before_pow: "block_wf k \<Longrightarrow> p \<le> 0xa3000 \<Longrightarrow> (block_before k ^^ n) p \<le> 0xa3000"
  by (induction n) (simp_all add: block_before_range)

context recorder_flash
begin

lemma block_time_slot:
  assumes "ready c" "p \<le> 0xa3000"
  shows "\<exists>c'. block_time b k p c = (slot_time (mem c) k p, c') \<and> ready c' \<and> mem c' = mem c"
proof -
  have "unat p \<le> 0xa3000" using assms(2) by (simp add: word_le_nat_alt)
  then have "unat (if BlockSize k = 50 then p + 18 else p) + unat (6 :: u16) \<le> cap" using room by (simp add: unat_word_ariths)
  from rd_law [OF assms(1) this] show ?thesis by (simp add: block_time_def slot_time_def case_prod_beta Let_def)
qed

lemma block_seek_finds:
  assumes "ready c" "block_wf k" "p \<le> 0xa3000"
    and "slot_time (mem c) k ((block_before k ^^ Suc n) p) < e" "\<forall>i<n. \<not> slot_time (mem c) k ((block_before k ^^ Suc i) p) < e"
  shows "\<exists>c'. block_seek b k e p c = Some (slot_time (mem c) k ((block_before k ^^ Suc n) p), (block_before k ^^ Suc n) p, c')
    \<and> ready c' \<and> mem c' = mem c"
  using assms
proof (induction n arbitrary: p c)
  case 0
  let ?p = "block_before k p"
  obtain c' where c': "block_time b k ?p c = (slot_time (mem c) k ?p, c')" "ready c'" "mem c' = mem c"
    using block_time_slot [OF 0(1) block_before_range [OF 0(2,3)]] by blast
  have "\<not> e \<le> slot_time (mem c) k ?p" using 0(4) by simp
  then show ?case using c' by (subst block_seek.simps) (simp add: Let_def)
next
  case (Suc n)
  let ?p = "block_before k p"
  have p: "?p \<le> 0xa3000" by (rule block_before_range [OF Suc.prems(2,3)])
  obtain c' where c': "block_time b k ?p c = (slot_time (mem c) k ?p, c')" "ready c'" "mem c' = mem c"
    using block_time_slot [OF Suc.prems(1) p] by blast
  have sh: "(block_before k ^^ Suc i) ?p = (block_before k ^^ Suc (Suc i)) p" for i by (simp add: funpow_swap1)
  have "e \<le> slot_time (mem c) k ?p" using Suc.prems(5) [rule_format, of 0] by simp
  then have s: "block_seek b k e p c = block_seek b k e ?p c'"
    by (subst block_seek.simps) (simp add: Let_def c'(1))
  have "\<exists>d. block_seek b k e ?p c' = Some (slot_time (mem c') k ((block_before k ^^ Suc n) ?p), (block_before k ^^ Suc n) ?p, d) \<and> ready d \<and> mem d = mem c'"
    by (rule Suc.IH [OF c'(2) Suc.prems(2) p]) (use Suc.prems(4,5) in \<open>simp_all add: c'(3) sh del: funpow.simps\<close>)
  then show ?case by (simp add: s c'(3) sh del: funpow.simps)
qed

lemma block_seek_found:
  assumes "block_seek b k e p c = Some y" "ready c" "block_wf k" "p \<le> 0xa3000"
  shows "\<exists>n. slot_time (mem c) k ((block_before k ^^ Suc n) p) < e"
proof -
  define P where "P k e p c y \<longleftrightarrow> ready c \<longrightarrow> block_wf k \<longrightarrow> p \<le> 0xa3000 \<longrightarrow> (\<exists>n. slot_time (mem c) k ((block_before k ^^ Suc n) p) < e)"
    for k :: block and e p :: u32 and c :: 'c and y :: "u32 \<times> u32 \<times> 'c"
  have "P k e p c y"
    using assms(1)
  proof (rule block_seek.raw_induct [where P = "\<lambda>b' k e p c y. b' = b \<longrightarrow> P k e p c y", THEN mp, rotated])
    fix seek b' k e p c y
    assume ih: "\<And>b' k e p c y. seek b' k e p c = Some y \<Longrightarrow> b' = b \<longrightarrow> P k e p c y"
      and eq: "(let p = block_before k p; (readtime, c) = block_time b' k p c in if e \<le> readtime then seek b' k e p c else Some (readtime, p, c)) = Some y"
    show "b' = b \<longrightarrow> P k e p c y"
      unfolding P_def
    proof (intro impI)
      assume a: "b' = b" "ready c" "block_wf k" "p \<le> 0xa3000"
      let ?p = "block_before k p"
      have p: "?p \<le> 0xa3000" by (rule block_before_range [OF a(3,4)])
      obtain c' where c': "block_time b k ?p c = (slot_time (mem c) k ?p, c')" "ready c'" "mem c' = mem c"
        using block_time_slot [OF a(2) p] by blast
      show "\<exists>n. slot_time (mem c) k ((block_before k ^^ Suc n) p) < e"
      proof (cases "e \<le> slot_time (mem c) k ?p")
        case True
        then have "seek b k e ?p c' = Some y" using eq c'(1) unfolding a(1) by (simp add: Let_def)
        then have "P k e ?p c' y" using ih by blast
        then obtain n where "slot_time (mem c) k ((block_before k ^^ Suc n) ?p) < e" using a(3) p c'(2,3) by (auto simp: P_def)
        then have "slot_time (mem c) k ((block_before k ^^ Suc (Suc n)) p) < e" by (simp add: funpow_swap1)
        then show ?thesis by blast
      next
        case False
        then have "slot_time (mem c) k ((block_before k ^^ Suc 0) p) < e" by simp
        then show ?thesis by blast
      qed
    qed
  qed simp
  then show ?thesis using assms(2-4) by (simp add: P_def)
qed

lemma block_seek_ends:
  assumes "ready c" "block_wf k" "p \<le> 0xa3000"
  shows "(\<exists>r. block_seek b k e p c = Some r) \<longleftrightarrow> (\<exists>n. slot_time (mem c) k ((block_before k ^^ Suc n) p) < e)"
proof
  assume "\<exists>n. slot_time (mem c) k ((block_before k ^^ Suc n) p) < e"
  then obtain n where "slot_time (mem c) k ((block_before k ^^ Suc n) p) < e" "\<forall>i<n. \<not> slot_time (mem c) k ((block_before k ^^ Suc i) p) < e"
    using exists_least_iff [of "\<lambda>n. slot_time (mem c) k ((block_before k ^^ Suc n) p) < e"] by blast
  from block_seek_finds [OF assms this] show "\<exists>r. block_seek b k e p c = Some r" by blast
qed (use block_seek_found [OF _ assms] in blast)

end

section \<open>What an upload finds\<close>

text \<open>An erased record reads as a time in September 2004.\<close>

lemma erased_time: "timechange (bytes_clock (replicate 6 0xff)) = 1094537908"
  by code_simp

text \<open>The slot in front of the write position.\<close>

definition erased_slot :: "(nat \<Rightarrow> u8) \<Rightarrow> block \<Rightarrow> bool" where
  "erased_slot m k \<longleftrightarrow> slot_time m k (block_before k (STOPp k)) = 1094537908"

definition only_first :: "(nat \<Rightarrow> u8) \<Rightarrow> bool" where
  "only_first m \<longleftrightarrow> (\<forall>x. 0x2000 \<le> x \<longrightarrow> (\<forall>g. x \<notin> {unat (ring_start g)..<unat (ring_start g) + rec_len g}) \<longrightarrow> m x = 0xff)"

definition never_first :: "nat \<Rightarrow> bool" where
  "never_first x \<longleftrightarrow> 0x2000 \<le> x \<and> (\<forall>g. x \<notin> {unat (ring_start g)..<unat (ring_start g) + rec_len g})"

lemma all_rings: "(\<forall>g. P g) \<longleftrightarrow> P RDoubt \<and> P RLocation \<and> P ROverSpeed \<and> P RPowerOff \<and> P RModify \<and> P RBase \<and> P RDriver \<and> P RJournal"
  by (metis ring.exhaust)

lemma never_first_iff: "never_first x \<longleftrightarrow> 0x2000 \<le> x \<and> (\<forall>(a, n)\<in>set [(0x5b000, 234), (0x63000, 666), (0xa0000, 7), (0xa1000, 7), (0x02000, 126), (0x9e000, 25)].
    x < a \<or> a + n \<le> x)"
proof -
  have out: "x \<notin> {a..<e} \<longleftrightarrow> x < a \<or> e \<le> x" for a e :: nat by auto
  have all: "(x < a \<or> a \<le> x) = True" for a by auto
  show ?thesis unfolding never_first_def all_rings out by (simp add: all)
qed

lemma erased_window:
  assumes "only_first m" "\<forall>i\<in>set [0..<6]. never_first (a + i)"
  shows "window m a 6 = replicate 6 0xff"
proof (rule nth_equalityI)
  fix i assume "i < length (window m a 6)"
  then have "i < 6" by simp
  then show "window m a 6 ! i = replicate 6 0xff ! i"
    using assms by (simp add: window_def only_first_def never_first_def)
qed simp

lemma slot_erased:
  assumes "only_first m" "unat (if BlockSize k = 50 then p + 18 else p) = a" "\<forall>i\<in>set [0..<6]. never_first (a + i)"
  shows "slot_time m k p = 1094537908"
  using erased_window [OF assms(1,3)] by (simp only: slot_time_def assms(2) erased_time)

lemma block_erased:
  assumes "only_first m" "rings_fresh t" "block_of cmd t = Some k" "cmd \<noteq> 0x13"
  shows "erased_slot m k"
proof -
  have c: "CurPoint (BaseData t) = 0x02000" "CurPoint (LocationData t) = 0x63000" "CurPoint (OverSpeedRecord t) = 0x61000"
    "CurPoint (DoubtPointData t) = 0x5b000" "CurPoint (DriverReRecord t) = 0x9e000" "CurPoint (ModifyRecord t) = 0xa1000"
    "CurPoint (journalRecord t) = 0xa2000"
    using assms(2) rings_fresh_def [of t] by (metis ring_of.simps ring_start.simps)+
  let ?A = "{0x5afe6, 0x9ddc4, 0x60f16, 0x62fe8, 0x9ffef, 0xa1fff, 0xa2f96}"
  have "unat (if BlockSize k = 50 then block_before k (STOPp k) + 18 else block_before k (STOPp k)) \<in> ?A"
    using assms(3,4) by (auto simp: block_of_def block_at_def block_before_def c split: if_split_asm)
  moreover have "\<forall>a\<in>?A. \<forall>i\<in>set [0..<6]. never_first (a + i)" by (simp add: never_first_iff upt_rec)
  ultimately have "\<forall>i\<in>set [0..<6]. never_first (unat (if BlockSize k = 50 then block_before k (STOPp k) + 18 else block_before k (STOPp k)) + i)"
    by blast
  from slot_erased [OF assms(1) refl this] show ?thesis by (simp only: erased_slot_def)
qed

section \<open>An upload on a flash that only holds first records\<close>

context recorder_flash
begin

lemma upload_nothing:
  assumes "ready (vt_chip v)" "only_first (mem (vt_chip v))" "rings_fresh (st_table (rc_store (vt_rec v)))" "cmd \<in> uploads" "cmd \<noteq> 0x13"
    and "1094537908 < timechange x" "1094537908 < timechange y"
  shows "\<exists>v'. UpLoad_BlockData b x y n cmd v = Some v'
    \<and> uart_tx (vt_ser v') = uart_tx (vt_ser v) @ rt_serial_write [0x55, 0x7a, cmd, 0, 0, 0, xor_from 0 [0x55, 0x7a, cmd]]"
proof -
  obtain k where k: "block_of cmd (st_table (rc_store (vt_rec v))) = Some k"
    using assms(4) by (auto simp: uploads_def block_of_def)
  have wf: "block_wf k" by (rule block_of_wf [OF k])
  have p: "STOPp k \<le> 0xa3000" using STOPp_range [OF k assms(3)] .
  have e: "slot_time (mem (vt_chip v)) k (block_before k (STOPp k)) = 1094537908"
    using block_erased [OF assms(2,3) k assms(5)] by (simp add: erased_slot_def)
  let ?v = "set_sum [0x55, 0x7a, cmd, 0x00] v"
  obtain c where c: "block_seek b k (timechange y) (STOPp k) (vt_chip v) = Some (1094537908, block_before k (STOPp k), c)"
    using block_seek_finds [OF assms(1) wf p, of 0 "timechange y"] assms(7) e by auto
  have "\<exists>u. block_loop b cmd k (timechange x) (timechange y) m (STOPp k) 0 False [] ?v = Some (0, False, [], u)
      \<and> (u = ?v \<or> u = set_chip c ?v)" for m
    using c assms(6) by (cases m) simp_all
  then obtain u where u: "block_loop b cmd k (timechange x) (timechange y) (unat n) (STOPp k) 0 False [] ?v = Some (0, False, [], u)"
      "u = ?v \<or> u = set_chip c ?v" by blast
  obtain w where w: "UpLoad_BlockData b x y n cmd v = Some (send_block cmd k 0 [] w)" "w = ?v \<or> w = set_chip c ?v"
  proof (cases "bk_flag k AND 0xea \<noteq> 0xea")
    case True
    then have "UpLoad_BlockData b x y n cmd v = Some (send_block cmd k 0 [] ?v)" using k by (simp add: UpLoad_BlockData_def)
    then show ?thesis using that by blast
  next
    case False
    then have "UpLoad_BlockData b x y n cmd v = Some (send_block cmd k 0 [] u)" using k u(1) by (simp add: UpLoad_BlockData_def)
    then show ?thesis using that u(2) by blast
  qed
  have "uart_tx (vt_ser (send_block cmd k 0 [] w)) = uart_tx (vt_ser v) @ rt_serial_write [0x55, 0x7a, cmd, 0, 0, 0, xor_from 0 [0x55, 0x7a, cmd]]"
    using w(2) by (auto simp: send_block_def Let_def send_def upd_ser_def uart2_write_def set_sum_def add_sum_def set_chip_def upd_rec_def)
  then show ?thesis using w(1) by blast
qed

end

end
