(* ===== verification/Vtdr_Comms.thy ===== *)
theory Vtdr_Comms
  imports Vtdr_Answers Vtdr_Upload Vtdr_Guarantees
begin

text \<open>The properties of the device and its serial lines, each with an application to a concrete device.\<close>

section \<open>A device for the examples\<close>

definition demo_serial :: serial where
  "demo_serial = rt_serial_init \<lparr>int_rx2 = \<lparr>rx_buffer = [], read_index = 0, save_index = 0, getcmd = 0\<rparr>, Uart2PackStatus = Get_sync_head,
     rx_sum = 0, rx_lenth = 0, uart_tx = [], uartcount = 0, SectionID = 0, isgprmc = 0, gprmccnt = 0, gprmcbuf = replicate 400 0, uart3flag = 0\<rparr>"

definition demo_device :: "chip store \<Rightarrow> chip vtdr" where
  "demo_device st = \<lparr>vt_rec = demo_recorder\<lparr>rc_store := st\<rparr>, vt_ser = demo_serial, SendCheckSum = 0\<rparr>"

definition demo_around :: surroundings where
  "demo_around = \<lparr>after_Parameter = (\<lambda>_. 0), after_rx = (\<lambda>_. 0)\<rparr>"

lemma demo_device_simps [simp]: "vt_rec (demo_device st) = demo_recorder\<lparr>rc_store := st\<rparr>" "vt_ser (demo_device st) = demo_serial"
  by (simp_all add: demo_device_def)

lemma demo_idle: "ser_wf demo_serial" "pending (int_rx2 demo_serial) = []" "Uart2PackStatus demo_serial = Get_sync_head" "getcmd (int_rx2 demo_serial) = 0"
    "read_index (int_rx2 demo_serial) = 0" "uart_tx demo_serial = []" "length (gprmcbuf demo_serial) = 400"
  by (simp_all add: demo_serial_def rt_serial_init_def ser_wf_def ring_wf_def pending_def pending_count_def ring_from_def)

text \<open>A start of a recorder makes the invariant hold.\<close>

lemma started:
  assumes "recorder_flash b cap mem ready wel settling" "ready (st_chip (rc_store (vt_rec v)))" "length (st_large (rc_store (vt_rec v))) = 8192"
    and "rec_wf (vt_rec v)" "quiet (vt_rec v)" "ser_wf (vt_ser v)"
  shows "\<exists>st. InitializeTable b (rc_store (vt_rec v)) = Some st \<and> dev_inv ready (upd_rec (\<lambda>r. r\<lparr>rc_store := st\<rparr>) v)
    \<and> (\<forall>x. 0x2000 \<le> x \<longrightarrow> mem (st_chip st) x = mem (st_chip (rc_store (vt_rec v))) x)"
proof -
  obtain st where st: "InitializeTable b (rc_store (vt_rec v)) = Some st" "store_ok ready st" "length (st_Parameter st) = 648" "rings_fresh (st_table st)"
    "\<forall>x. 0x2000 \<le> x \<longrightarrow> mem (st_chip st) x = mem (st_chip (rc_store (vt_rec v))) x"
    using recorder_flash.init_table_ok [OF assms(1-3)] by blast
  have "rec_inv ready ((vt_rec v)\<lparr>rc_store := st\<rparr>)" using st(2-4) assms(4,5) by (simp add: rec_inv_def flash_inv_def rec_wf_def)
  then have "dev_inv ready (upd_rec (\<lambda>r. r\<lparr>rc_store := st\<rparr>) v)" using assms(6) by (simp add: dev_inv_def upd_rec_def)
  then show ?thesis using st(1,5) by blast
qed

lemma demo_started:
  obtains st where "InitializeTable ref_bus demo_store = Some st" "dev_inv chip_ready (demo_device st)" "only_first (w_mem (st_chip st))"
    "chip_ready (st_chip st)"
proof -
  have "rec_wf (vt_rec (demo_device demo_store))" "quiet (vt_rec (demo_device demo_store))" "st_chip (rc_store (vt_rec (demo_device demo_store))) = blank_chip"
    using demo_wf by (simp_all add: rec_wf_def demo_store_def)
  then obtain st where st: "InitializeTable ref_bus demo_store = Some st" "dev_inv chip_ready (upd_rec (\<lambda>r. r\<lparr>rc_store := st\<rparr>) (demo_device demo_store))"
    "\<forall>x. 0x2000 \<le> x \<longrightarrow> w_mem (st_chip st) x = w_mem blank_chip x"
    using started [OF ref_recorder.recorder_flash_axioms, of "demo_device demo_store"] demo_ready demo_idle(1) by auto
  have "upd_rec (\<lambda>r. r\<lparr>rc_store := st\<rparr>) (demo_device demo_store) = demo_device st" by (simp add: upd_rec_def demo_device_def)
  then have "dev_inv chip_ready (demo_device st)" using st(2) by simp
  moreover from this have "chip_ready (st_chip st)" by (simp add: dev_inv_def rec_inv_def flash_inv_def store_ok_def)
  moreover have "only_first (w_mem (st_chip st))" using st(3) by (simp add: only_first_def blank_chip_def)
  ultimately show ?thesis using that st(1) by blast
qed


section \<open>The device as a whole\<close>



section \<open>Commands\<close>



text \<open>C10: A command that sets a field of the parameters (the vehicle, the date of installation, the names of the inputs), received by an idle
  receiver at a place where its data do not run over the end of the ring, is answered with success, and its data are
  in that field of the parameters and of their image in the flash; the change is noted for the record of changes.\<close>

theorem set_parameters:
  assumes "recorder_flash b cap mem ready wel settling" "rec_inv ready (vt_rec v)" "ring_wf (int_rx2 (vt_ser v))"
    and "pending (int_rx2 (vt_ser v)) = []" "Uart2PackStatus (vt_ser v) = Get_sync_head" "getcmd (int_rx2 (vt_ser v)) = 0"
    and "field_of cmd = Some (a, length d)" "(unat (read_index (int_rx2 (vt_ser v))) + 6) mod 128 + length d \<le> 128"
  shows "\<exists>v'. rs232_handle_application w b (upd_ser (fold uart2_byte (packet cmd res d)) v) = Some v'
    \<and> vt_parameter v' = put_at a d (vt_parameter v) \<and> window (mem (vt_chip v')) 0 648 = vt_parameter v'
    \<and> paramodifystatus (vt_rec v') = 1 \<and> modifydata (vt_rec v') ! 6 = cmd
    \<and> uart_tx (vt_ser v') = uart_tx (vt_ser v) @ rt_serial_write (packet cmd res d @ [0x55, 0x7a, cmd, 0, 0, 0, xor_from 0 [0x55, 0x7a, cmd]])"
proof -
  let ?u = "upd_ser (fold uart2_byte (packet cmd res d)) v"
  note f = field_of_cases [OF assms(7)]
  have s: "vt_ser ?u = fold uart2_byte (packets [(cmd, res, d)]) (vt_ser v)" by (simp add: upd_ser_def)
  have p: "packets [(cmd, res, d)] = packet cmd res d" by simp
  have "\<forall>(cmd, res, d)\<in>set [(cmd, res, d)]. good_command cmd" "length (packets [(cmd, res, d)]) < 128" using f(2,4) by simp_all
  note r = received [OF assms(3-6) this, folded s, unfolded p]
  have i: "read_index (int_rx2 (vt_ser ?u)) = read_index (int_rx2 (vt_ser v))"
    unfolding s p by (rule uart2_read_index [OF assms(3)]) (use f(4) in \<open>simp add: assms(4)\<close>)
  have "rec_inv ready (vt_rec ?u)" "pending (int_rx2 (vt_ser ?u)) = packet cmd res d @ []"
      "(unat (read_index (int_rx2 (vt_ser ?u))) + 6) mod 128 + length d \<le> 128"
    using assms(2,8) r(2) i by simp_all
  then obtain v' where v': "serve_command w b ?u = Some v'" "vt_parameter v' = put_at a d (vt_parameter ?u)" "window (mem (vt_chip v')) 0 648 = vt_parameter v'"
    "paramodifystatus (vt_rec v') = 1" "modifydata (vt_rec v') ! 6 = cmd"
    "uart_tx (vt_ser v') = uart_tx (vt_ser ?u) @ rt_serial_write [0x55, 0x7a, cmd, 0, 0, 0, xor_from 0 [0x55, 0x7a, cmd]]"
    using recorder_flash.set_command [OF assms(1) _ r(1) _ assms(7), where rest = "[]" and w = w] by blast
  have "rs232_handle_application w b ?u = Some v'" using r(3) v'(1) by (simp add: rs232_handle_application_def)
  moreover have "vt_parameter ?u = vt_parameter v" by simp
  ultimately show ?thesis using v' r(5) unfolding write_append [of "packet cmd res d"] by (metis append_assoc)
qed

theorem set_parameters_witness:
  "\<exists>st v'. InitializeTable ref_bus demo_store = Some st
    \<and> rs232_handle_application demo_around ref_bus (upd_ser (fold uart2_byte (packet 0x83 0 [0x13, 3, 0x18, 8, 0, 0])) (demo_device st)) = Some v'
    \<and> window (w_mem (vt_chip v')) 0 648 = put_at 161 [0x13, 3, 0x18, 8, 0, 0] (vt_parameter (demo_device st))"
proof -
  obtain st where st: "InitializeTable ref_bus demo_store = Some st" "dev_inv chip_ready (demo_device st)" by (rule demo_started)
  have "field_of 0x83 = Some (161, length ([0x13, 3, 0x18, 8, 0, 0] :: u8 list))" by simp
  from set_parameters [OF ref_recorder.recorder_flash_axioms, of "demo_device st" "0x83" 161 "[0x13, 3, 0x18, 8, 0, 0]" demo_around 0, OF _ _ _ _ _ this]
    st demo_idle show ?thesis by (auto simp: dev_inv_def ser_wf_def)
qed

text \<open>C23: One byte that belongs to no command makes the handler serve \<open>0x7f\<close> commands that nobody sent (the error value
  is \<open>0x7f\<close>, but the handler takes only larger values for an error): a zero byte after the start of the port is
  answered with the version 127 times.\<close>

theorem noise_storm:
  assumes "vt_ser v = rt_serial_init u" "Uart2PackStatus u = Get_sync_head"
  shows "\<exists>v'. rs232_handle_application w b (upd_ser (uart2_byte 0) v) = Some v'
    \<and> uart_tx (vt_ser v') = uart_tx (vt_ser v) @ [0] @ concat (replicate 127 (version_answer (vt_parameter v)))"
proof -
  let ?u = "upd_ser (uart2_byte 0) v"
  have m: "getcmd (int_rx2 (vt_ser ?u)) = 0x7f"
    using uart2_byte_mode [of 0 "vt_ser v"] assms by (simp add: mode_def upd_ser_def rt_serial_init_def)
  obtain g where "int_rx2 (vt_ser ?u) = (put_char 0 (int_rx2 (vt_ser v)))\<lparr>getcmd := g\<rparr>"
    using uart2_byte_ring [of 0 "vt_ser v"] by (auto simp: upd_ser_def)
  then have "rx_buffer (int_rx2 (vt_ser ?u)) = (replicate 128 0)[0 := 0]"
    by (simp add: put_char_def uart2_advance_def assms(1) rt_serial_init_def Let_def)
  then have z: "rx_buffer (int_rx2 (vt_ser ?u)) = replicate 128 0" by (simp add: list_update_same_conv)
  obtain v' where "serve_commands w b 127 ?u = Some v'"
    "uart_tx (vt_ser v') = uart_tx (vt_ser ?u) @ concat (replicate 127 (version_answer (vt_parameter ?u)))"
    using serve_zeros [OF z, of w b 127] by blast
  moreover have "uart_tx (vt_ser ?u) = uart_tx (vt_ser v) @ [0]" by (simp add: upd_ser_def uart2_byte_tx)
  ultimately show ?thesis using m by (simp add: rs232_handle_application_def)
qed

theorem noise_storm_witness:
  "\<exists>v'. rs232_handle_application demo_around ref_bus (upd_ser (uart2_byte 0) (demo_device demo_store)) = Some v'
    \<and> uart_tx (vt_ser v') = [0] @ concat (replicate 127 (version_answer (replicate 648 0)))"
proof -
  have p: "vt_parameter (demo_device demo_store) = replicate 648 0" by (simp add: vt_parameter_def parameter_def demo_store_def)
  let ?u = "\<lparr>int_rx2 = \<lparr>rx_buffer = [], read_index = 0, save_index = 0, getcmd = 0\<rparr>, Uart2PackStatus = Get_sync_head,
     rx_sum = 0, rx_lenth = 0, uart_tx = [], uartcount = 0, SectionID = 0, isgprmc = 0, gprmccnt = 0, gprmcbuf = replicate 400 0, uart3flag = 0\<rparr>"
  have "vt_ser (demo_device demo_store) = rt_serial_init ?u" "Uart2PackStatus ?u = Get_sync_head" by (simp_all add: demo_serial_def)
  from noise_storm [OF this, of demo_around ref_bus] show ?thesis using demo_idle(6) by (simp add: p del: concat_replicate_trivial)
qed

section \<open>Answers\<close>



section \<open>Uploads\<close>

text \<open>C22: The search for a record older than the end of the wanted time comes to an end exactly when one of the places it goes back
  through, starting again at the last one when it is at the first, holds such a time.\<close>

theorem upload_search_ends:
  assumes "recorder_flash b cap mem ready wel settling" "ready c" "block_of cmd t = Some k" "p \<le> 0xa3000"
  shows "(\<exists>r. block_seek b k endtime p c = Some r) \<longleftrightarrow> (\<exists>n. slot_time (mem c) k ((block_before k ^^ Suc n) p) < endtime)"
  by (rule recorder_flash.block_seek_ends [OF assms(1,2) block_of_wf [OF assms(3)] assms(4)])

theorem upload_search_ends_witness:
  "block_seek ref_bus (block_at 126 7 (BaseData (bytes_table (replicate 164 0))) 0x02000 0x5afff) 0 0x02000 blank_chip = None"
proof -
  have "chip_ready blank_chip" using demo_ready(1) by (simp add: demo_store_def)
  from upload_search_ends [OF ref_recorder.recorder_flash_axioms this, of "0x08" "bytes_table (replicate 164 0)"
      "block_at 126 7 (BaseData (bytes_table (replicate 164 0))) 0x02000 0x5afff" "0x02000" 0]
  show ?thesis unfolding not_Some_eq [symmetric] by (simp add: block_of_def)
qed



section \<open>Satellite sentences\<close>

lemma location_parts:
  assumes "length l = 10"
  shows "put_at 8 (le16 z) (put_at 4 (le32 y) (put_at 0 (le32 x) l)) = le32 x @ le32 y @ le16 z"
  using assms by (simp add: put_at_def)

lemma time_location: "location (GetTheGPSTime t r) = location r" "radionum (GetTheGPSTime t r) = radionum r"
  by (simp_all add: GetTheGPSTime_def Let_def)

text \<open>The first eight fields of a position are always read.\<close>

lemma eight_fields:
  assumes "length fs = 8"
  shows "\<exists>r. fields_end 1 1 fs r0 = Some r"
proof -
  have "\<exists>r'. field_end 1 n f r = Some r'" if "n \<noteq> 9" for n f and r :: "'a recorder" using that by (auto simp: field_end_def)
  then have "\<exists>r'. fields_end 1 n fs r = Some r'" if "unat n + length fs \<le> 9" for n fs and r :: "'a recorder"
    using that
  proof (induction fs arbitrary: n r)
    case (Cons f fs)
    have n: "n \<noteq> 9" "unat (n + 1) = Suc (unat n)" using Cons.prems(2) by (auto simp: unat_word_ariths)
    obtain r1 where "field_end 1 n f r = Some r1" using Cons.prems(1) n(1) by blast
    moreover obtain r2 where "fields_end 1 (n + 1) fs r1 = Some r2" using Cons.IH [of "n + 1" r1] Cons.prems n(2) by auto
    ultimately show ?case by simp
  qed simp
  from this [of 1 fs r0] assms show ?thesis by simp
qed

text \<open>C20: A position sentence with its characters where the receiver puts them sets the location to the numbers of its
  fields, the points left out, and the number of satellites, whatever was read before.\<close>

theorem position_sentence:
  assumes "length (gprmcbuf (vt_ser v)) = 400" "length (location (vt_rec v)) = 10"
    and "length lat = 9" "lat ! 4 = 46" "\<forall>i<9. i \<noteq> 4 \<longrightarrow> lat ! i \<noteq> 46"
    and "length lon = 10" "lon ! 5 = 46" "\<forall>i<10. i \<noteq> 5 \<longrightarrow> lon ! i \<noteq> 46"
    and "length alt \<le> 255" "hd alt \<noteq> 45" "length sats = 2" "\<forall>f\<in>set [t, ns, ew, q, hdop, alt]. f \<noteq> [] \<and> length f \<le> 255"
    and "\<forall>f\<in>set [t, lat, ns, lon, ew, q, sats, hdop, alt]. plain f"
  shows "\<exists>v'. uart3_run (sentence [0x47, 0x50, 0x47, 0x47, 0x41] [t, lat, ns, lon, ew, q, sats, hdop, alt]) v = Some v'
    \<and> location (vt_rec v') = le32 (of_nat (number lat)) @ le32 (of_nat (number lon)) @ le16 (of_nat (number alt))
    \<and> radionum (vt_rec v') = 10 * ASCII2char (sats ! 0) + ASCII2char (sats ! 1)"
proof -
  let ?r1 = "if 10 \<le> length t then GetTheGPSTime t (vt_rec v) else vt_rec v"
  let ?r4 = "GetGPSLocation2 lon (GetGPSLocation1 lat ?r1)"
  let ?r7 = "GettheSinaldata sats ?r4"
  let ?r9 = "?r7\<lparr>location := put_at 8 (le16 (of_nat (number alt))) (location ?r7)\<rparr>"
  have ne: "lat \<noteq> []" "lon \<noteq> []" "sats \<noteq> []" using assms(3,6,11) by auto
  have k: "sentence_kind [0x47, 0x50, 0x47, 0x47, 0x41] 0 = 1" by (simp add: sentence_kind_def)
  have "field_end 1 1 t (vt_rec v) = Some ?r1" "field_end 1 2 lat ?r1 = Some (GetGPSLocation1 lat ?r1)"
      "field_end 1 4 lon (GetGPSLocation1 lat ?r1) = Some ?r4" "field_end 1 7 sats ?r4 = Some ?r7"
    using assms(3,6,11) by (simp_all add: field_end_def field_len_def field_read_def)
  moreover have "field_end 1 n f r = Some r" if "n \<in> {3, 5, 6, 8}" for n f and r :: "'a recorder"
    using that by (auto simp: field_end_def field_len_def)
  moreover have "field_end 1 9 alt ?r7 = Some ?r9"
    unfolding field_end_def using number_altitude [of alt ?r7] assms(9,10,12) by simp
  ultimately have "fields_end 1 1 [t, lat, ns, lon, ew, q, sats, hdop, alt] (vt_rec v) = Some ?r9"
    by (simp only: fields_end.simps bind.bind_lunit one_add_one numeral_plus_one semiring_norm insert_iff simp_thms)
  then obtain v' where v': "uart3_run (sentence [0x47, 0x50, 0x47, 0x47, 0x41] [t, lat, ns, lon, ew, q, sats, hdop, alt]) v = Some v'" "vt_rec v' = ?r9"
    using sentence_run [OF assms(1), of "[0x47, 0x50, 0x47, 0x47, 0x41]" "[t, lat, ns, lon, ew, q, sats, hdop, alt]" ?r9] assms(3,6,11-13) ne k
    by (auto simp: plain_def)
  have "location ?r1 = location (vt_rec v)" by (simp add: time_location)
  then have "location ?r9 = le32 (of_nat (number lat)) @ le32 (of_nat (number lon)) @ le16 (of_nat (number alt))"
    using location_parts [OF assms(2)] number_point [of 4 lat] number_point [of 5 lon] assms(3-8)
    by (simp add: GetGPSLocation1_def GetGPSLocation2_def GettheSinaldata_def del: le_simps)
  moreover have "radionum ?r9 = 10 * ASCII2char (sats ! 0) + ASCII2char (sats ! 1)" by (simp add: GettheSinaldata_def)
  ultimately show ?thesis using v' by (metis (no_types))
qed

theorem position_sentence_witness:
  "\<exists>v'. uart3_run (sentence [0x47, 0x50, 0x47, 0x47, 0x41] [[0x30], [0x33, 0x31, 0x31, 0x32, 46, 0x31, 0x31, 0x31, 0x31], [0x4e],
      [0x31, 0x32, 0x31, 0x32, 0x38, 46, 0x31, 0x32, 0x33, 0x34], [0x45], [0x31], [0x30, 0x37], [0x31], [0x31, 0x35, 46, 0x32]]) (demo_device demo_store) = Some v'
    \<and> location (vt_rec v') = le32 31121111 @ le32 121281234 @ le16 152 \<and> radionum (vt_rec v') = 7"
proof -
  let ?lat = "[0x33, 0x31, 0x31, 0x32, 46, 0x31, 0x31, 0x31, 0x31] :: u8 list" and ?lon = "[0x31, 0x32, 0x31, 0x32, 0x38, 46, 0x31, 0x32, 0x33, 0x34] :: u8 list"
    and ?alt = "[0x31, 0x35, 46, 0x32] :: u8 list" and ?sats = "[0x30, 0x37] :: u8 list"
  have n: "number ?lat = 31121111" "number ?lon = 121281234" "number ?alt = 152" "10 * ASCII2char (?sats ! 0) + ASCII2char (?sats ! 1) = 7"
    by (simp_all add: number_def ASCII2char_def)
  have "\<forall>i\<in>set [0..<9]. i \<noteq> 4 \<longrightarrow> ?lat ! i \<noteq> 46" "\<forall>i\<in>set [0..<10]. i \<noteq> 5 \<longrightarrow> ?lon ! i \<noteq> 46"
    by (simp_all add: upt_rec)
  then have points: "\<forall>i<9. i \<noteq> 4 \<longrightarrow> ?lat ! i \<noteq> 46" "\<forall>i<10. i \<noteq> 5 \<longrightarrow> ?lon ! i \<noteq> 46" by auto
  from position_sentence [OF _ _ _ _ points(1) _ _ points(2), of "demo_device demo_store" ?alt ?sats "[0x30]" "[0x4e]" "[0x45]" "[0x31]" "[0x31]"]
  show ?thesis using demo_idle(7) unfolding n by (simp add: demo_recorder_def plain_def)
qed

text \<open>A position sentence whose altitude has more than 255 characters never gets past the comma behind it: the loop that reads
  it counts in one byte, inside the interrupt.\<close>

theorem altitude_hangs:
  assumes "length (gprmcbuf (vt_ser v)) = 400" "\<forall>f\<in>set fs. f \<noteq> [] \<and> length f \<le> 255 \<and> plain f" "length fs = 8"
    and "255 < length alt" "length alt \<le> 400" "plain alt"
  shows "uart3_run (sentence [0x47, 0x50, 0x47, 0x47, 0x41] fs @ alt @ [0x2c]) v = None"
proof -
  have k: "sentence_kind [0x47, 0x50, 0x47, 0x47, 0x41] 0 = 1" by (simp add: sentence_kind_def)
  obtain v1 where v1: "uart3_run (0x24 # [0x47, 0x50, 0x47, 0x47, 0x41] @ [0x2c]) v = Some v1" "reading 1 1 [] v1"
    using name_run [OF assms(1), of "[0x47, 0x50, 0x47, 0x47, 0x41]"] k by (auto simp: plain_def)
  obtain r where "fields_end 1 1 fs (vt_rec v1) = Some r" using eight_fields [OF assms(3)] by blast
  then obtain v2 where v2: "uart3_run (concat (List.map with_comma fs)) v1 = Some v2" "reading 1 (1 + of_nat (length fs)) [] v2"
    using fields_run [OF v1(2), of fs r] assms(2,3) by auto
  have r9: "reading 1 9 [] v2" using v2(2) assms(3) by simp
  obtain v3 where v3: "uart3_run alt v2 = Some v3" "reading 1 9 alt v3" using plain_run [OF r9 assms(5,6)] by auto
  have "unat (of_nat (length alt) :: u16) = length alt" using assms(5) by (simp add: unat_of_nat)
  then have "(255 :: u16) < of_nat (length alt)" using assms(4) by (simp add: word_less_nat_alt)
  then have "uart3_comma v3 = None" using v3(2) by (simp add: uart3_comma_def reading_def GetGPSLocation3_def)
  then have "uart3_run [0x2c] v3 = None" by (simp add: uart3_byte_def)
  then show ?thesis unfolding sentence_def uart3_run_append using v1(1) v2(1) v3(1) by simp
qed

theorem altitude_hangs_witness:
  "uart3_run (sentence [0x47, 0x50, 0x47, 0x47, 0x41] (replicate 8 [0x30]) @ replicate 300 0x30 @ [0x2c]) (demo_device demo_store) = None"
  using altitude_hangs [of "demo_device demo_store" "replicate 8 [0x30]" "replicate 300 0x30"] demo_idle(7) by (simp add: plain_def)

end
