(* ===== verification/Rt_Data.thy ===== *)
theory Rt_Data
  imports Vtdr_Prelude "HOL-Library.Monad_Syntax"
begin

text \<open>
  The data of the real-time kernel the recorder runs on (\<open>include/rtdef.h\<close>, configured by
  \<open>bsp/vtdr/rtconfig.h\<close>): threads, timers, the inter-process communication objects and the global
  variables of \<open>src/scheduler.c\<close>, \<open>src/clock.c\<close>, \<open>src/irq.c\<close> and \<open>src/timer.c\<close>.
  Objects are named by numbers (their addresses). A doubly linked \<open>rt_list_t\<close> is the HOL list of
  the objects linked into it (\<open>Rt_List\<close> proves that the pointer operations implement the list
  operations); a thread has one list node \<open>tlist\<close>, so it is linked into at most one of the ready
  lists, the lists of waiting threads and the list of defunct threads.
  An operation that may stop in \<open>RT_ASSERT\<close> (an endless loop) or run forever returns an option;
  \<open>None\<close> is a call that never returns.
\<close>

type_synonym tid = nat

datatype tstat = INIT | READY | SUSPEND | RUNNING | CLOSE

record thread =
  t_error :: int
  t_stat :: tstat
  t_current_priority :: u8
  t_init_priority :: u8
  t_number_mask :: u32
  t_event_set :: u32
  t_event_info :: u8
  t_init_tick :: u32
  t_remaining_tick :: u32
  t_cleanup :: bool
  t_static :: bool

datatype tmr = ThreadTimer tid | AppTimer nat

record timer =
  tm_flag :: u8
  tm_init_tick :: u32
  tm_timeout_tick :: u32

record semaphore =
  s_flag :: u8
  s_value :: u16

record mutex =
  m_flag :: u8
  m_value :: u16
  m_original_priority :: u8
  m_hold :: u8
  m_owner :: "tid option"

record event =
  e_flag :: u8
  e_set :: u32

record mailbox =
  b_flag :: u8
  b_msg_pool :: "u32 list"
  b_size :: u16
  b_entry :: u16
  b_in_offset :: u16
  b_out_offset :: u16

text \<open>
  A message slot is named by its index in the pool; \<open>q_next\<close> is the link word at its start,
  \<open>q_data\<close> the bytes after it.
\<close>

record msgqueue =
  q_flag :: u8
  q_msg_size :: u16
  q_max_msgs :: u16
  q_entry :: u16
  q_head :: "nat option"
  q_tail :: "nat option"
  q_free :: "nat option"
  q_next :: "nat \<Rightarrow> nat option"
  q_data :: "nat \<Rightarrow> u8 list"

text \<open>The header word of a pool block: the next free block, or the pool the block belongs to.\<close>

datatype block_header = NextFree "nat option" | OwnedBy nat

record mempool =
  p_block_size :: u32
  p_total_count :: u32
  p_free_count :: u32
  p_block_list :: "nat option"
  p_header :: "nat \<Rightarrow> block_header"
  p_suspend_count :: u32

text \<open>The lists of threads waiting on an object; a mailbox has a second one for its senders.\<close>

datatype waitq = WSem nat | WMutex nat | WEvent nat | WMbRecv nat | WMbSend nat | WMq nat | WMp nat

record kernel =
  k_thread :: "tid \<Rightarrow> thread"
  k_priority_table :: "nat \<Rightarrow> tid list"
  k_ready_group :: u32
  k_current :: "tid option"
  k_current_priority :: u8
  k_lock_nest :: "16 word"
  k_interrupt_nest :: u8
  k_defunct :: "tid list"
  k_tick :: u32
  k_timer :: "tmr \<Rightarrow> timer"
  k_timer_list :: "tmr list"
  k_wait :: "waitq \<Rightarrow> tid list"
  k_sem :: "nat \<Rightarrow> semaphore"
  k_mutex :: "nat \<Rightarrow> mutex"
  k_event :: "nat \<Rightarrow> event"
  k_mb :: "nat \<Rightarrow> mailbox"
  k_mq :: "nat \<Rightarrow> msgqueue"
  k_mp :: "nat \<Rightarrow> mempool"

abbreviation (input) RT_EOK :: int where "RT_EOK \<equiv> 0"
abbreviation (input) RT_ERROR :: int where "RT_ERROR \<equiv> 1"
abbreviation (input) RT_ETIMEOUT :: int where "RT_ETIMEOUT \<equiv> 2"
abbreviation (input) RT_EFULL :: int where "RT_EFULL \<equiv> 3"

abbreviation (input) RT_IPC_FLAG_FIFO :: u8 where "RT_IPC_FLAG_FIFO \<equiv> 0"
abbreviation (input) RT_IPC_FLAG_PRIO :: u8 where "RT_IPC_FLAG_PRIO \<equiv> 1"

definition upd_thread :: "tid \<Rightarrow> (thread \<Rightarrow> thread) \<Rightarrow> kernel \<Rightarrow> kernel" where
  "upd_thread t f k = k\<lparr>k_thread := (k_thread k)(t := f (k_thread k t))\<rparr>"

definition upd_timer :: "tmr \<Rightarrow> (timer \<Rightarrow> timer) \<Rightarrow> kernel \<Rightarrow> kernel" where
  "upd_timer x f k = k\<lparr>k_timer := (k_timer k)(x := f (k_timer k x))\<rparr>"

text \<open>\<open>RT_ASSERT\<close> and \<open>RT_DEBUG_NOT_IN_INTERRUPT\<close> stop the machine when their condition fails.\<close>

definition rt_assert :: "bool \<Rightarrow> unit option" where
  "rt_assert c = (if c then Some () else None)"

definition not_in_interrupt :: "kernel \<Rightarrow> unit option" where
  "not_in_interrupt k = rt_assert (k_interrupt_nest k = 0)"

lemma rt_assert_simps [simp]: "rt_assert True = Some ()" "rt_assert False = None"
  by (simp_all add: rt_assert_def)

lemma rt_assert_Some [simp]: "rt_assert c = Some u \<longleftrightarrow> c"
  by (simp add: rt_assert_def)

text \<open>\<open>rt_list_remove(&thread->tlist)\<close>: the thread leaves whatever list its node is linked into.\<close>

definition tlist_remove :: "tid \<Rightarrow> kernel \<Rightarrow> kernel" where
  "tlist_remove t k = k\<lparr>
     k_priority_table := (\<lambda>p. removeAll t (k_priority_table k p)),
     k_wait := (\<lambda>w. removeAll t (k_wait k w)),
     k_defunct := removeAll t (k_defunct k)\<rparr>"

end
