(* ===== verification/Rt_Sched.thy ===== *)
theory Rt_Sched
  imports Rt_Data
begin

text \<open>
  The scheduler (\<open>src/scheduler.c\<close>): one FIFO list of ready threads per priority, a bitmap of the
  priorities that have a ready thread, and the choice of the highest one (the lowest number) with a
  table of lowest set bits. The invariant \<open>sched_ok\<close> ties the bitmap, the lists and the states of
  the threads together; every operation below preserves it.
\<close>

section \<open>The lowest set bit\<close>

definition rt_lowest_bitmap :: "nat list" where
  "rt_lowest_bitmap = [
    0, 0, 1, 0, 2, 0, 1, 0, 3, 0, 1, 0, 2, 0, 1, 0,
    4, 0, 1, 0, 2, 0, 1, 0, 3, 0, 1, 0, 2, 0, 1, 0,
    5, 0, 1, 0, 2, 0, 1, 0, 3, 0, 1, 0, 2, 0, 1, 0,
    4, 0, 1, 0, 2, 0, 1, 0, 3, 0, 1, 0, 2, 0, 1, 0,
    6, 0, 1, 0, 2, 0, 1, 0, 3, 0, 1, 0, 2, 0, 1, 0,
    4, 0, 1, 0, 2, 0, 1, 0, 3, 0, 1, 0, 2, 0, 1, 0,
    5, 0, 1, 0, 2, 0, 1, 0, 3, 0, 1, 0, 2, 0, 1, 0,
    4, 0, 1, 0, 2, 0, 1, 0, 3, 0, 1, 0, 2, 0, 1, 0,
    7, 0, 1, 0, 2, 0, 1, 0, 3, 0, 1, 0, 2, 0, 1, 0,
    4, 0, 1, 0, 2, 0, 1, 0, 3, 0, 1, 0, 2, 0, 1, 0,
    5, 0, 1, 0, 2, 0, 1, 0, 3, 0, 1, 0, 2, 0, 1, 0,
    4, 0, 1, 0, 2, 0, 1, 0, 3, 0, 1, 0, 2, 0, 1, 0,
    6, 0, 1, 0, 2, 0, 1, 0, 3, 0, 1, 0, 2, 0, 1, 0,
    4, 0, 1, 0, 2, 0, 1, 0, 3, 0, 1, 0, 2, 0, 1, 0,
    5, 0, 1, 0, 2, 0, 1, 0, 3, 0, 1, 0, 2, 0, 1, 0,
    4, 0, 1, 0, 2, 0, 1, 0, 3, 0, 1, 0, 2, 0, 1, 0]"

definition highest_ready_priority :: "u32 \<Rightarrow> nat" where
  "highest_ready_priority g =
     (if g AND 0xff \<noteq> 0 then rt_lowest_bitmap ! unat (g AND 0xff)
      else if g AND 0xff00 \<noteq> 0 then rt_lowest_bitmap ! unat (drop_bit 8 g AND 0xff) + 8
      else if g AND 0xff0000 \<noteq> 0 then rt_lowest_bitmap ! unat (drop_bit 16 g AND 0xff) + 16
      else rt_lowest_bitmap ! unat (drop_bit 24 g AND 0xff) + 24)"

lemma lowest_byte: "x \<noteq> 0 \<Longrightarrow> rt_lowest_bitmap ! unat x < 8 \<and> bit x (rt_lowest_bitmap ! unat x)
    \<and> (\<forall>q<rt_lowest_bitmap ! unat x. \<not> bit x q)" for x :: u8
proof -
  have "\<forall>x::u8. x \<noteq> 0 \<longrightarrow> rt_lowest_bitmap ! unat x < 8 \<and> bit x (rt_lowest_bitmap ! unat x)
      \<and> list_all (\<lambda>q. \<not> bit x q) [0..<rt_lowest_bitmap ! unat x]"
    unfolding all_u8_iff by code_simp
  then show "x \<noteq> 0 \<Longrightarrow> ?thesis" by (simp add: list_all_iff)
qed

abbreviation byte_at :: "nat \<Rightarrow> u32 \<Rightarrow> u8" where
  "byte_at i g \<equiv> ucast (drop_bit i g)"

lemma bit_byte_at: "bit (byte_at i g) j \<longleftrightarrow> j < 8 \<and> bit g (i + j)"
  by (auto simp: bit_unsigned_iff bit_drop_bit_eq dest: bit_imp_possible_bit)

lemma byte_at_zero: "byte_at i g = 0 \<longleftrightarrow> (\<forall>j<8. \<not> bit g (i + j))"
  by (auto simp: bit_eq_iff bit_byte_at)

lemma and_ff: "x AND 0xff = take_bit 8 (x::u32)"
proof -
  have "(0xff :: u32) = mask 8" by (simp add: mask_eq_exp_minus_1)
  then show ?thesis by (simp only: take_bit_eq_mask)
qed

lemma unat_byte: "unat (drop_bit i g AND 0xff) = unat (byte_at i g)"
  unfolding and_ff by (simp add: unsigned_take_bit_eq unsigned_ucast_eq)

lemma group_byte_zero: "g AND push_bit i (0xff::u32) = 0 \<longleftrightarrow> byte_at i g = 0" if "i \<le> 24"
proof -
  have ff: "(0xff :: u32) = mask 8" by (simp add: mask_eq_exp_minus_1)
  have pb: "bit (push_bit i (mask 8 :: u32)) n \<longleftrightarrow> i \<le> n \<and> n < i + 8" for n
    using that by (simp add: bit_push_bit_iff bit_mask_iff) arith
  have "g AND push_bit i (0xff::u32) = 0 \<longleftrightarrow> (\<forall>n. \<not> (bit g n \<and> i \<le> n \<and> n < i + 8))"
    unfolding ff bit_eq_iff [of "g AND push_bit i (mask 8)"] bit_and_iff pb
    using bit_imp_possible_bit [of g] by auto
  also have "\<dots> \<longleftrightarrow> (\<forall>j<8. \<not> bit g (i + j))"
    by (metis le_add1 le_add_diff_inverse nat_add_left_cancel_less)
  finally show ?thesis by (simp add: byte_at_zero)
qed

lemma lowest_of_byte:
  assumes "byte_at i g \<noteq> 0" "\<forall>q<i. \<not> bit g q" and n: "n = rt_lowest_bitmap ! unat (byte_at i g) + i"
  shows "n < i + 8 \<and> bit g n \<and> (\<forall>q<n. \<not> bit g q)"
proof -
  let ?m = "rt_lowest_bitmap ! unat (byte_at i g)"
  have b: "?m < 8" "bit (byte_at i g) ?m" "\<forall>q<?m. \<not> bit (byte_at i g) q"
    using lowest_byte [OF assms(1)] by auto
  have "\<not> bit g q" if "q < n" for q
  proof (cases "q < i")
    case True
    then show ?thesis using assms(2) by simp
  next
    case False
    then obtain j where q: "q = i + j" using le_Suc_ex not_less by blast
    then have "j < ?m" using that n by simp
    then show ?thesis using b(1,3) unfolding q by (auto simp: bit_byte_at)
  qed
  then show ?thesis using b(1,2) n by (simp add: bit_byte_at add.commute)
qed

lemma no_bit_below: "byte_at i g = 0 \<Longrightarrow> \<forall>q<i. \<not> bit g q \<Longrightarrow> \<forall>q<i + 8. \<not> bit g q"
  unfolding byte_at_zero by (metis le_Suc_ex nat_add_left_cancel_less not_less)

lemma highest_lowest_bit:
  assumes "g \<noteq> 0"
  shows "highest_ready_priority g < 32 \<and> bit g (highest_ready_priority g)
     \<and> (\<forall>q<highest_ready_priority g. \<not> bit g q)"
proof -
  have z0: "g AND 0xff = 0 \<longleftrightarrow> byte_at 0 g = 0" using group_byte_zero [of 0 g] by simp
  have z1: "g AND 0xff00 = 0 \<longleftrightarrow> byte_at 8 g = 0" using group_byte_zero [of 8 g] by simp
  have z2: "g AND 0xff0000 = 0 \<longleftrightarrow> byte_at 16 g = 0" using group_byte_zero [of 16 g] by simp
  have u0: "unat (g AND 0xff) = unat (byte_at 0 g)" using unat_byte [of 0 g] by simp
  have low0: "\<forall>q<0. \<not> bit g q" by simp
  have low1: "byte_at 0 g = 0 \<Longrightarrow> \<forall>q<8. \<not> bit g q" using no_bit_below [OF _ low0] by simp
  have low2: "byte_at 0 g = 0 \<Longrightarrow> byte_at 8 g = 0 \<Longrightarrow> \<forall>q<16. \<not> bit g q"
    using no_bit_below [OF _ low1] by simp
  have low3: "byte_at 0 g = 0 \<Longrightarrow> byte_at 8 g = 0 \<Longrightarrow> byte_at 16 g = 0 \<Longrightarrow> \<forall>q<24. \<not> bit g q"
    using no_bit_below [OF _ low2] by simp
  note defs = highest_ready_priority_def z0 z1 z2 u0 unat_byte
  consider "byte_at 0 g \<noteq> 0" | "byte_at 0 g = 0" "byte_at 8 g \<noteq> 0"
    | "byte_at 0 g = 0" "byte_at 8 g = 0" "byte_at 16 g \<noteq> 0"
    | "byte_at 0 g = 0" "byte_at 8 g = 0" "byte_at 16 g = 0" by blast
  then show ?thesis
  proof cases
    case 1
    have "highest_ready_priority g = rt_lowest_bitmap ! unat (byte_at 0 g) + 0"
      unfolding defs using 1 by (simp only: if_False not_False_eq_True add_0_right if_True)
    from lowest_of_byte [OF 1 low0 this] show ?thesis by (intro conjI) auto
  next
    case 2
    have "highest_ready_priority g = rt_lowest_bitmap ! unat (byte_at 8 g) + 8"
      unfolding defs using 2 by (simp only: if_False not_False_eq_True simp_thms if_True)
    from lowest_of_byte [OF 2(2) low1 [OF 2(1)] this] show ?thesis by (intro conjI) auto
  next
    case 3
    have "highest_ready_priority g = rt_lowest_bitmap ! unat (byte_at 16 g) + 16"
      unfolding defs using 3 by (simp only: if_False not_False_eq_True simp_thms if_True)
    from lowest_of_byte [OF 3(3) low2 [OF 3(1,2)] this] show ?thesis by (intro conjI) auto
  next
    case 4
    have "highest_ready_priority g = rt_lowest_bitmap ! unat (byte_at 24 g) + 24"
      unfolding defs using 4 by (simp only: if_False not_False_eq_True simp_thms if_True)
    moreover have "byte_at 24 g \<noteq> 0"
    proof
      assume "byte_at 24 g = 0"
      from no_bit_below [OF this low3 [OF 4]] have "\<forall>q<32. \<not> bit g q" by simp
      then have "g = 0" by (auto simp: bit_eq_iff dest: bit_imp_possible_bit)
      then show False using assms by simp
    qed
    ultimately show ?thesis using lowest_of_byte [OF _ low3 [OF 4]] by fastforce
  qed
qed

section \<open>Scheduling\<close>

definition rt_list_first :: "nat \<Rightarrow> kernel \<Rightarrow> tid option" where
  "rt_list_first p k = (case k_priority_table k p of [] \<Rightarrow> None | t # _ \<Rightarrow> Some t)"

text \<open>
  With no ready thread at all the code would take the list head for a thread; the idle thread
  rules that out, and the model has no value there (\<open>None\<close>).
\<close>

definition rt_schedule :: "kernel \<Rightarrow> kernel option" where
  "rt_schedule k =
     (if k_lock_nest k = 0 then
        (let p = highest_ready_priority (k_ready_group k) in
         do { to_thread \<leftarrow> rt_list_first p k;
              if Some to_thread \<noteq> k_current k
              then Some (k\<lparr>k_current_priority := word_of_nat p, k_current := Some to_thread\<rparr>)
              else Some k })
      else Some k)"

definition rt_system_scheduler_init :: "kernel \<Rightarrow> kernel" where
  "rt_system_scheduler_init k = k\<lparr>k_lock_nest := 0, k_priority_table := (\<lambda>_. []),
     k_current_priority := 31, k_current := None, k_ready_group := 0, k_defunct := []\<rparr>"

definition rt_system_scheduler_start :: "kernel \<Rightarrow> kernel option" where
  "rt_system_scheduler_start k =
     (let p = highest_ready_priority (k_ready_group k) in
      do { to_thread \<leftarrow> rt_list_first p k; Some (k\<lparr>k_current := Some to_thread\<rparr>) })"

definition rt_schedule_insert_thread :: "tid \<Rightarrow> kernel \<Rightarrow> kernel" where
  "rt_schedule_insert_thread t k =
     (let k = upd_thread t (\<lambda>th. th\<lparr>t_stat := READY\<rparr>) k;
          th = k_thread k t;
          p = unat (t_current_priority th)
      in k\<lparr>k_priority_table := (k_priority_table k)(p := k_priority_table k p @ [t]),
           k_ready_group := k_ready_group k OR t_number_mask th\<rparr>)"

definition rt_schedule_remove_thread :: "tid \<Rightarrow> kernel \<Rightarrow> kernel" where
  "rt_schedule_remove_thread t k =
     (let k = tlist_remove t k; th = k_thread k t in
      if k_priority_table k (unat (t_current_priority th)) = []
      then k\<lparr>k_ready_group := k_ready_group k AND NOT (t_number_mask th)\<rparr> else k)"

definition rt_enter_critical :: "kernel \<Rightarrow> kernel" where
  "rt_enter_critical k = k\<lparr>k_lock_nest := k_lock_nest k + 1\<rparr>"

definition rt_exit_critical :: "kernel \<Rightarrow> kernel option" where
  "rt_exit_critical k =
     (let k = k\<lparr>k_lock_nest := k_lock_nest k - 1\<rparr> in
      if sint (k_lock_nest k) \<le> 0 then rt_schedule (k\<lparr>k_lock_nest := 0\<rparr>) else Some k)"

definition rt_interrupt_enter :: "kernel \<Rightarrow> kernel" where
  "rt_interrupt_enter k = k\<lparr>k_interrupt_nest := k_interrupt_nest k + 1\<rparr>"

definition rt_interrupt_leave :: "kernel \<Rightarrow> kernel" where
  "rt_interrupt_leave k = k\<lparr>k_interrupt_nest := k_interrupt_nest k - 1\<rparr>"

section \<open>The invariant of the scheduler\<close>

definition prio_mask :: "u8 \<Rightarrow> u32" where
  "prio_mask p = push_bit (unat p) 1"

text \<open>
  A thread is in the ready list of its priority exactly when its state is READY; waiting threads
  are SUSPENDed and wait for one thing; the bitmap has the bit of a priority exactly when that
  priority has a ready thread.
\<close>

definition sched_ok :: "kernel \<Rightarrow> bool" where
  "sched_ok k \<longleftrightarrow>
     (\<forall>p t. t \<in> set (k_priority_table k p) \<longleftrightarrow>
        t_stat (k_thread k t) = READY \<and> unat (t_current_priority (k_thread k t)) = p) \<and>
     (\<forall>p. distinct (k_priority_table k p)) \<and>
     (\<forall>w t. t \<in> set (k_wait k w) \<longrightarrow> t_stat (k_thread k t) = SUSPEND) \<and>
     (\<forall>w. distinct (k_wait k w)) \<and>
     (\<forall>w w' t. t \<in> set (k_wait k w) \<longrightarrow> t \<in> set (k_wait k w') \<longrightarrow> w = w') \<and>
     (\<forall>t. t \<in> set (k_defunct k) \<longrightarrow> t_stat (k_thread k t) = CLOSE) \<and>
     (\<forall>t. t_stat (k_thread k t) \<noteq> INIT \<longrightarrow>
        t_current_priority (k_thread k t) < 32 \<and>
        t_number_mask (k_thread k t) = prio_mask (t_current_priority (k_thread k t))) \<and>
     (\<forall>p. bit (k_ready_group k) p \<longleftrightarrow> k_priority_table k p \<noteq> [])"

text \<open>What the invariant reads of the state.\<close>

definition same_sched :: "kernel \<Rightarrow> kernel \<Rightarrow> bool" where
  "same_sched k k' \<longleftrightarrow>
     (\<forall>t. t_stat (k_thread k' t) = t_stat (k_thread k t) \<and>
          t_current_priority (k_thread k' t) = t_current_priority (k_thread k t) \<and>
          t_number_mask (k_thread k' t) = t_number_mask (k_thread k t)) \<and>
     k_priority_table k' = k_priority_table k \<and> k_wait k' = k_wait k \<and>
     k_defunct k' = k_defunct k \<and> k_ready_group k' = k_ready_group k"

lemma sched_ok_same: "same_sched k k' \<Longrightarrow> sched_ok k \<Longrightarrow> sched_ok k'"
  unfolding same_sched_def sched_ok_def by simp

lemma sched_okD:
  assumes "sched_ok k"
  shows "t \<in> set (k_priority_table k p) \<longleftrightarrow>
          t_stat (k_thread k t) = READY \<and> unat (t_current_priority (k_thread k t)) = p"
    and "distinct (k_priority_table k p)"
    and "t \<in> set (k_wait k w) \<Longrightarrow> t_stat (k_thread k t) = SUSPEND"
    and "distinct (k_wait k w)"
    and "t \<in> set (k_wait k w) \<Longrightarrow> t \<in> set (k_wait k w') \<Longrightarrow> w = w'"
    and "t \<in> set (k_defunct k) \<Longrightarrow> t_stat (k_thread k t) = CLOSE"
    and "t_stat (k_thread k t) \<noteq> INIT \<Longrightarrow> t_current_priority (k_thread k t) < 32"
    and "t_stat (k_thread k t) \<noteq> INIT \<Longrightarrow> t_number_mask (k_thread k t) = prio_mask (t_current_priority (k_thread k t))"
    and "bit (k_ready_group k) p \<longleftrightarrow> k_priority_table k p \<noteq> []"
  using assms unfolding sched_ok_def by blast+

lemma bit_prio_mask: "p < 32 \<Longrightarrow> bit (prio_mask p) n \<longleftrightarrow> n = unat p"
proof -
  assume "p < 32"
  then have "unat p < 32" by (simp add: word_less_nat_alt)
  then show ?thesis unfolding prio_mask_def
    by (auto simp: push_bit_of_1 bit_exp_iff)
qed

text \<open>A thread whose list node is linked into nothing.\<close>

definition loose :: "tid \<Rightarrow> kernel \<Rightarrow> bool" where
  "loose t k \<longleftrightarrow> (\<forall>w. t \<notin> set (k_wait k w)) \<and> t \<notin> set (k_defunct k)"

abbreviation set_stat :: "tstat \<Rightarrow> tid \<Rightarrow> kernel \<Rightarrow> kernel" where
  "set_stat s t \<equiv> upd_thread t (\<lambda>th. th\<lparr>t_stat := s\<rparr>)"

lemma upd_thread_simps [simp]:
  "k_thread (upd_thread t f k) = (k_thread k)(t := f (k_thread k t))"
  "k_priority_table (upd_thread t f k) = k_priority_table k"
  "k_ready_group (upd_thread t f k) = k_ready_group k"
  "k_current (upd_thread t f k) = k_current k"
  "k_current_priority (upd_thread t f k) = k_current_priority k"
  "k_lock_nest (upd_thread t f k) = k_lock_nest k"
  "k_interrupt_nest (upd_thread t f k) = k_interrupt_nest k"
  "k_defunct (upd_thread t f k) = k_defunct k"
  "k_tick (upd_thread t f k) = k_tick k"
  "k_timer (upd_thread t f k) = k_timer k"
  "k_timer_list (upd_thread t f k) = k_timer_list k"
  "k_wait (upd_thread t f k) = k_wait k"
  "k_sem (upd_thread t f k) = k_sem k"
  "k_mutex (upd_thread t f k) = k_mutex k"
  "k_event (upd_thread t f k) = k_event k"
  "k_mb (upd_thread t f k) = k_mb k"
  "k_mq (upd_thread t f k) = k_mq k"
  "k_mp (upd_thread t f k) = k_mp k"
  by (simp_all add: upd_thread_def)

lemma tlist_remove_simps [simp]:
  "k_thread (tlist_remove t k) = k_thread k"
  "k_priority_table (tlist_remove t k) p = removeAll t (k_priority_table k p)"
  "k_ready_group (tlist_remove t k) = k_ready_group k"
  "k_current (tlist_remove t k) = k_current k"
  "k_current_priority (tlist_remove t k) = k_current_priority k"
  "k_lock_nest (tlist_remove t k) = k_lock_nest k"
  "k_interrupt_nest (tlist_remove t k) = k_interrupt_nest k"
  "k_defunct (tlist_remove t k) = removeAll t (k_defunct k)"
  "k_tick (tlist_remove t k) = k_tick k"
  "k_timer (tlist_remove t k) = k_timer k"
  "k_timer_list (tlist_remove t k) = k_timer_list k"
  "k_wait (tlist_remove t k) w = removeAll t (k_wait k w)"
  "k_sem (tlist_remove t k) = k_sem k"
  "k_mutex (tlist_remove t k) = k_mutex k"
  "k_event (tlist_remove t k) = k_event k"
  "k_mb (tlist_remove t k) = k_mb k"
  "k_mq (tlist_remove t k) = k_mq k"
  "k_mp (tlist_remove t k) = k_mp k"
  by (simp_all add: tlist_remove_def)

lemma remove_thread_simps [simp]:
  "k_thread (rt_schedule_remove_thread t k) = k_thread k"
  "k_priority_table (rt_schedule_remove_thread t k) p = removeAll t (k_priority_table k p)"
  "k_current (rt_schedule_remove_thread t k) = k_current k"
  "k_current_priority (rt_schedule_remove_thread t k) = k_current_priority k"
  "k_lock_nest (rt_schedule_remove_thread t k) = k_lock_nest k"
  "k_interrupt_nest (rt_schedule_remove_thread t k) = k_interrupt_nest k"
  "k_defunct (rt_schedule_remove_thread t k) = removeAll t (k_defunct k)"
  "k_tick (rt_schedule_remove_thread t k) = k_tick k"
  "k_timer (rt_schedule_remove_thread t k) = k_timer k"
  "k_timer_list (rt_schedule_remove_thread t k) = k_timer_list k"
  "k_wait (rt_schedule_remove_thread t k) w = removeAll t (k_wait k w)"
  "k_sem (rt_schedule_remove_thread t k) = k_sem k"
  "k_mutex (rt_schedule_remove_thread t k) = k_mutex k"
  "k_event (rt_schedule_remove_thread t k) = k_event k"
  "k_mb (rt_schedule_remove_thread t k) = k_mb k"
  "k_mq (rt_schedule_remove_thread t k) = k_mq k"
  "k_mp (rt_schedule_remove_thread t k) = k_mp k"
  by (simp_all add: rt_schedule_remove_thread_def Let_def)

lemma insert_thread_simps [simp]:
  "k_thread (rt_schedule_insert_thread t k) = (k_thread k)(t := (k_thread k t)\<lparr>t_stat := READY\<rparr>)"
  "k_priority_table (rt_schedule_insert_thread t k) =
     (k_priority_table k)(unat (t_current_priority (k_thread k t)) :=
        k_priority_table k (unat (t_current_priority (k_thread k t))) @ [t])"
  "k_ready_group (rt_schedule_insert_thread t k) = k_ready_group k OR t_number_mask (k_thread k t)"
  "k_current (rt_schedule_insert_thread t k) = k_current k"
  "k_current_priority (rt_schedule_insert_thread t k) = k_current_priority k"
  "k_lock_nest (rt_schedule_insert_thread t k) = k_lock_nest k"
  "k_interrupt_nest (rt_schedule_insert_thread t k) = k_interrupt_nest k"
  "k_defunct (rt_schedule_insert_thread t k) = k_defunct k"
  "k_tick (rt_schedule_insert_thread t k) = k_tick k"
  "k_timer (rt_schedule_insert_thread t k) = k_timer k"
  "k_timer_list (rt_schedule_insert_thread t k) = k_timer_list k"
  "k_wait (rt_schedule_insert_thread t k) = k_wait k"
  "k_sem (rt_schedule_insert_thread t k) = k_sem k"
  "k_mutex (rt_schedule_insert_thread t k) = k_mutex k"
  "k_event (rt_schedule_insert_thread t k) = k_event k"
  "k_mb (rt_schedule_insert_thread t k) = k_mb k"
  "k_mq (rt_schedule_insert_thread t k) = k_mq k"
  "k_mp (rt_schedule_insert_thread t k) = k_mp k"
  by (simp_all add: rt_schedule_insert_thread_def Let_def)

lemma remove_thread_group:
  "k_ready_group (rt_schedule_remove_thread t k) =
     (if removeAll t (k_priority_table k (unat (t_current_priority (k_thread k t)))) = []
      then k_ready_group k AND NOT (t_number_mask (k_thread k t)) else k_ready_group k)"
  by (simp add: rt_schedule_remove_thread_def Let_def)

lemma loose_removed [simp]: "loose t (rt_schedule_remove_thread t k)" "loose t (tlist_remove t k)"
  by (simp_all add: loose_def)

lemma loose_upd [simp]: "loose t (upd_thread u f k) \<longleftrightarrow> loose t k"
  by (simp add: loose_def)

lemma ready_elsewhere: "sched_ok k \<Longrightarrow> p \<noteq> unat (t_current_priority (k_thread k t)) \<Longrightarrow> t \<notin> set (k_priority_table k p)"
  by (auto simp: sched_okD(1))

lemma nonempty_lt: "sched_ok k \<Longrightarrow> k_priority_table k p \<noteq> [] \<Longrightarrow> p < 32"
  using sched_okD(9) [of k p] bit_imp_possible_bit [of "k_ready_group k" p] by simp

lemma remove_then_stat_ok:
  assumes ok: "sched_ok k" and st: "t_stat (k_thread k t) \<noteq> INIT" and s: "s = SUSPEND \<or> s = CLOSE"
  shows "sched_ok (set_stat s t (rt_schedule_remove_thread t k))"
proof -
  let ?p = "unat (t_current_priority (k_thread k t))"
  have lt: "t_current_priority (k_thread k t) < 32"
    and mask: "t_number_mask (k_thread k t) = prio_mask (t_current_priority (k_thread k t))"
    using sched_okD(7,8) [OF ok st] by auto
  have group: "bit (k_ready_group (rt_schedule_remove_thread t k)) p \<longleftrightarrow> removeAll t (k_priority_table k p) \<noteq> []" for p
  proof (cases "p = ?p")
    case True
    show ?thesis using True lt
      by (auto simp: remove_thread_group mask bit_and_iff bit_not_iff bit_prio_mask sched_okD(9) [OF ok])
  next
    case False
    then have "removeAll t (k_priority_table k p) = k_priority_table k p"
      using ready_elsewhere [OF ok] by (simp add: removeAll_id)
    then show ?thesis using False lt
      by (auto simp: remove_thread_group mask bit_and_iff bit_not_iff bit_prio_mask sched_okD(9) [OF ok]
        dest: nonempty_lt [OF ok])
  qed
  show ?thesis
    unfolding sched_ok_def using s lt mask
    by (auto simp: group sched_okD(1) [OF ok] sched_okD(2) [OF ok] sched_okD(4) [OF ok] distinct_removeAll
        dest: sched_okD(3) [OF ok] sched_okD(5) [OF ok] sched_okD(6) [OF ok] sched_okD(7) [OF ok] sched_okD(8) [OF ok])
qed

lemma insert_ok:
  assumes ok: "sched_ok (set_stat SUSPEND t k)" and l: "loose t k"
  shows "sched_ok (rt_schedule_insert_thread t k)"
proof -
  let ?k = "set_stat SUSPEND t k"
  let ?p = "unat (t_current_priority (k_thread k t))"
  have lt: "t_current_priority (k_thread k t) < 32"
    and mask: "t_number_mask (k_thread k t) = prio_mask (t_current_priority (k_thread k t))"
    using sched_okD(7,8) [OF ok, of t] by auto
  have ready: "u \<in> set (k_priority_table k p) \<longleftrightarrow>
      u \<noteq> t \<and> t_stat (k_thread k u) = READY \<and> unat (t_current_priority (k_thread k u)) = p" for u p
    using sched_okD(1) [OF ok, of u p] by auto
  have dist: "distinct (k_priority_table k p)" "distinct (k_wait k w)" for p w
    using sched_okD(2,4) [OF ok] by auto
  have group: "bit (k_ready_group k) p \<longleftrightarrow> k_priority_table k p \<noteq> []" for p
    using sched_okD(9) [OF ok, of p] by simp
  have wait: "u \<in> set (k_wait k w) \<Longrightarrow> u \<noteq> t \<and> t_stat (k_thread k u) = SUSPEND" for u w
    using sched_okD(3) [OF ok, of u w] l by (auto simp: loose_def split: if_splits)
  have one: "u \<in> set (k_wait k w) \<Longrightarrow> u \<in> set (k_wait k w') \<Longrightarrow> w = w'" for u w w'
    using sched_okD(5) [OF ok, of u w w'] by simp
  have def: "u \<in> set (k_defunct k) \<Longrightarrow> u \<noteq> t \<and> t_stat (k_thread k u) = CLOSE" for u
    using sched_okD(6) [OF ok, of u] l by (auto simp: loose_def split: if_splits)
  have prio: "t_stat (k_thread k u) \<noteq> INIT \<Longrightarrow> t_current_priority (k_thread k u) < 32 \<and>
      t_number_mask (k_thread k u) = prio_mask (t_current_priority (k_thread k u))" for u
    using sched_okD(7,8) [OF ok, of u] lt mask by (cases "u = t") auto
  show ?thesis
    unfolding sched_ok_def using lt mask
    by (auto simp: ready dist group bit_or_iff bit_prio_mask dest: wait def prio one)
qed

section \<open>What a scheduling does\<close>

lemma rt_schedule_Some: "rt_schedule k = Some k' \<Longrightarrow> \<exists>p c. k' = k\<lparr>k_current_priority := p, k_current := c\<rparr>"
proof -
  assume s: "rt_schedule k = Some k'"
  show ?thesis
  proof (cases "k' = k")
    case True
    then have "k' = k\<lparr>k_current_priority := k_current_priority k, k_current := k_current k\<rparr>" by simp
    then show ?thesis by blast
  next
    case False
    with s show ?thesis
      by (auto simp: rt_schedule_def Let_def split: if_splits Option.bind_splits)
  qed
qed

lemma rt_schedule_frame:
  assumes "rt_schedule k = Some k'"
  shows "k_thread k' = k_thread k" "k_priority_table k' = k_priority_table k"
    "k_ready_group k' = k_ready_group k" "k_lock_nest k' = k_lock_nest k"
    "k_interrupt_nest k' = k_interrupt_nest k" "k_defunct k' = k_defunct k" "k_tick k' = k_tick k"
    "k_timer k' = k_timer k" "k_timer_list k' = k_timer_list k" "k_wait k' = k_wait k"
    "k_sem k' = k_sem k" "k_mutex k' = k_mutex k" "k_event k' = k_event k"
    "k_mb k' = k_mb k" "k_mq k' = k_mq k" "k_mp k' = k_mp k"
  using rt_schedule_Some [OF assms] by auto

lemma rt_schedule_ok: "sched_ok k \<Longrightarrow> rt_schedule k = Some k' \<Longrightarrow> sched_ok k'"
  using sched_ok_same [of k k'] by (simp add: same_sched_def rt_schedule_frame)

text \<open>The running thread after a scheduling: the first thread of the highest ready priority.\<close>

definition runs_highest :: "kernel \<Rightarrow> bool" where
  "runs_highest k \<longleftrightarrow>
     (\<exists>t. k_current k = Some t \<and> t_stat (k_thread k t) = READY \<and>
          (\<forall>u. t_stat (k_thread k u) = READY \<longrightarrow>
             t_current_priority (k_thread k t) \<le> t_current_priority (k_thread k u)) \<and>
          hd (k_priority_table k (unat (t_current_priority (k_thread k t)))) = t)"

lemma first_of_highest:
  assumes ok: "sched_ok k" and ready: "t_stat (k_thread k u) = READY"
  obtains t where "rt_list_first (highest_ready_priority (k_ready_group k)) k = Some t"
    "runs_highest (k\<lparr>k_current := Some t\<rparr>)"
proof -
  let ?h = "highest_ready_priority (k_ready_group k)"
  have "u \<in> set (k_priority_table k (unat (t_current_priority (k_thread k u))))"
    using ready by (simp add: sched_okD(1) [OF ok])
  then have "bit (k_ready_group k) (unat (t_current_priority (k_thread k u)))"
    by (auto simp: sched_okD(9) [OF ok])
  then have "k_ready_group k \<noteq> 0" by auto
  note low = highest_lowest_bit [OF this]
  then have "k_priority_table k ?h \<noteq> []" by (simp add: sched_okD(9) [OF ok])
  then obtain t ts where l: "k_priority_table k ?h = t # ts" by (cases "k_priority_table k ?h") auto
  then have t: "t_stat (k_thread k t) = READY" "unat (t_current_priority (k_thread k t)) = ?h"
    using sched_okD(1) [OF ok, of t ?h] by auto
  have "t_current_priority (k_thread k t) \<le> t_current_priority (k_thread k v)"
    if "t_stat (k_thread k v) = READY" for v
  proof -
    have "v \<in> set (k_priority_table k (unat (t_current_priority (k_thread k v))))"
      using that by (simp add: sched_okD(1) [OF ok])
    then have "bit (k_ready_group k) (unat (t_current_priority (k_thread k v)))"
      by (auto simp: sched_okD(9) [OF ok])
    then have "\<not> unat (t_current_priority (k_thread k v)) < ?h" using low by blast
    then show ?thesis using t(2) by (simp add: word_le_nat_alt)
  qed
  then have "runs_highest (k\<lparr>k_current := Some t\<rparr>)" using t l by (simp add: runs_highest_def)
  with that [of t] l show ?thesis by (simp add: rt_list_first_def)
qed

lemma rt_schedule_runs_highest:
  assumes "sched_ok k" "t_stat (k_thread k u) = READY" "k_lock_nest k = 0"
  shows "\<exists>k'. rt_schedule k = Some k' \<and> runs_highest k'"
proof -
  obtain t where t: "rt_list_first (highest_ready_priority (k_ready_group k)) k = Some t"
    "runs_highest (k\<lparr>k_current := Some t\<rparr>)" by (rule first_of_highest [OF assms(1,2)])
  have rk: "runs_highest (k\<lparr>k_current_priority := p, k_current := Some t\<rparr>)" for p
    using t(2) by (simp add: runs_highest_def)
  show ?thesis
  proof (cases "k_current k = Some t")
    case True
    then have "k\<lparr>k_current := Some t\<rparr> = k" by simp
    then have "runs_highest k" using t(2) by simp
    then show ?thesis using t(1) True assms(3) by (simp add: rt_schedule_def Let_def)
  next
    case False
    then show ?thesis using t(1) rk assms(3) by (simp add: rt_schedule_def Let_def)
  qed
qed

lemma rt_schedule_locked: "k_lock_nest k \<noteq> 0 \<Longrightarrow> rt_schedule k = Some k"
  by (simp add: rt_schedule_def)

lemma rt_schedule_returns: "sched_ok k \<Longrightarrow> t_stat (k_thread k u) = READY \<Longrightarrow> \<exists>k'. rt_schedule k = Some k'"
  using rt_schedule_runs_highest [of k u] rt_schedule_locked [of k] by blast

end
