(* ===== verification/Rt_Timer.thy ===== *)
theory Rt_Timer
  imports Rt_Sched
begin

text \<open>
  Timers and the system tick (\<open>src/timer.c\<close>, \<open>src/clock.c\<close>). Active timers are kept in one list in
  the order of their deadlines; ticks wrap at 32 bits and deadlines are compared by the distance
  modulo the word size, which orders them correctly while they lie within half the range of each
  other. A time-out function is a parameter of the check: the kernel's own one wakes a waiting
  thread, the others belong to the application.
\<close>

abbreviation half_range :: u32 where "half_range \<equiv> 0x7fffffff"

section \<open>Timer operations\<close>

definition active :: "kernel \<Rightarrow> tmr \<Rightarrow> bool" where
  "active k x \<longleftrightarrow> tm_flag (k_timer k x) AND 1 \<noteq> 0"

definition rt_timer_init :: "tmr \<Rightarrow> u32 \<Rightarrow> u8 \<Rightarrow> kernel \<Rightarrow> kernel" where
  "rt_timer_init x time flag k =
     upd_timer x (\<lambda>_. \<lparr>tm_flag = flag AND NOT 1, tm_init_tick = time, tm_timeout_tick = 0\<rparr>) k"

definition timer_list_remove :: "tmr \<Rightarrow> kernel \<Rightarrow> kernel" where
  "timer_list_remove x k = k\<lparr>k_timer_list := removeAll x (k_timer_list k)\<rparr>"

definition rt_timer_detach :: "tmr \<Rightarrow> kernel \<Rightarrow> kernel" where
  "rt_timer_detach x k = timer_list_remove x k"

fun timer_insert :: "(tmr \<Rightarrow> u32) \<Rightarrow> tmr \<Rightarrow> tmr list \<Rightarrow> tmr list" where
  "timer_insert tick x [] = [x]"
| "timer_insert tick x (y # ys) =
     (if tick y - tick x < half_range then x # y # ys else y # timer_insert tick x ys)"

definition rt_timer_start :: "tmr \<Rightarrow> kernel \<Rightarrow> (int \<times> kernel) option" where
  "rt_timer_start x k =
     (if active k x then Some (- RT_ERROR, k)
      else do {
        rt_assert (tm_init_tick (k_timer k x) < half_range);
        let k = upd_timer x (\<lambda>t. t\<lparr>tm_timeout_tick := k_tick k + tm_init_tick t\<rparr>) k;
            k = k\<lparr>k_timer_list := timer_insert (\<lambda>y. tm_timeout_tick (k_timer k y)) x (k_timer_list k)\<rparr>
        in Some (- RT_EOK, upd_timer x (\<lambda>t. t\<lparr>tm_flag := tm_flag t OR 1\<rparr>) k) })"

definition rt_timer_stop :: "tmr \<Rightarrow> kernel \<Rightarrow> int \<times> kernel" where
  "rt_timer_stop x k =
     (if \<not> active k x then (- RT_ERROR, k)
      else (RT_EOK, timer_list_remove x (upd_timer x (\<lambda>t. t\<lparr>tm_flag := tm_flag t AND NOT 1\<rparr>) k)))"

text \<open>\<open>rt_timer_control\<close>: the argument cell goes in and comes out.\<close>

definition rt_timer_control :: "tmr \<Rightarrow> u8 \<Rightarrow> u32 \<Rightarrow> kernel \<Rightarrow> u32 \<times> kernel" where
  "rt_timer_control x cmd arg k =
     (if cmd = 1 then (tm_init_tick (k_timer k x), k)
      else if cmd = 0 then (arg, upd_timer x (\<lambda>t. t\<lparr>tm_init_tick := arg\<rparr>) k)
      else if cmd = 2 then (arg, upd_timer x (\<lambda>t. t\<lparr>tm_flag := tm_flag t AND NOT (push_bit 2 1)\<rparr>) k)
      else if cmd = 3 then (arg, upd_timer x (\<lambda>t. t\<lparr>tm_flag := tm_flag t OR push_bit 2 1\<rparr>) k)
      else (arg, k))"

definition rt_timer_next_timeout_tick :: "kernel \<Rightarrow> u32" where
  "rt_timer_next_timeout_tick k =
     (case k_timer_list k of [] \<Rightarrow> 0xffffffff | x # _ \<Rightarrow> tm_timeout_tick (k_timer k x))"

definition due :: "u32 \<Rightarrow> kernel \<Rightarrow> tmr \<Rightarrow> bool" where
  "due now k x \<longleftrightarrow> now - tm_timeout_tick (k_timer k x) < half_range"

definition periodic :: "kernel \<Rightarrow> tmr \<Rightarrow> bool" where
  "periodic k x \<longleftrightarrow> tm_flag (k_timer k x) AND 2 \<noteq> 0"

definition deactivate :: "tmr \<Rightarrow> kernel \<Rightarrow> kernel" where
  "deactivate x = upd_timer x (\<lambda>t. t\<lparr>tm_flag := tm_flag t AND NOT 1\<rparr>)"

partial_function (option) rt_timer_check_loop ::
    "(tmr \<Rightarrow> kernel \<Rightarrow> kernel option) \<Rightarrow> u32 \<Rightarrow> kernel \<Rightarrow> kernel option" where
  "rt_timer_check_loop timeout_func now k =
     (case k_timer_list k of
        [] \<Rightarrow> Some k
      | x # _ \<Rightarrow>
          if due now k x then
            do { k \<leftarrow> timeout_func x (timer_list_remove x k);
                 if periodic k x \<and> active k x
                 then do { (_, k') \<leftarrow> rt_timer_start x (deactivate x k);
                           rt_timer_check_loop timeout_func (k_tick k) k' }
                 else rt_timer_check_loop timeout_func (k_tick k) (deactivate x k) }
          else Some k)"

definition rt_timer_check :: "(tmr \<Rightarrow> kernel \<Rightarrow> kernel option) \<Rightarrow> kernel \<Rightarrow> kernel option" where
  "rt_timer_check timeout_func k = rt_timer_check_loop timeout_func (k_tick k) k"

definition rt_system_tick_init :: "kernel \<Rightarrow> kernel" where
  "rt_system_tick_init k = k\<lparr>k_tick := 0\<rparr>"

definition rt_tick_set :: "u32 \<Rightarrow> kernel \<Rightarrow> kernel" where
  "rt_tick_set tick k = k\<lparr>k_tick := tick\<rparr>"

definition rt_tick_from_millisecond :: "u32 \<Rightarrow> u32" where
  "rt_tick_from_millisecond ms = (100 * ms + 999) div 1000"

section \<open>Deadlines in order\<close>

text \<open>The distance of a deadline from a point of time, modulo the range of the tick.\<close>

definition dist :: "u32 \<Rightarrow> kernel \<Rightarrow> tmr \<Rightarrow> nat" where
  "dist base k x = unat (tm_timeout_tick (k_timer k x) - base)"

text \<open>
  Seen from \<open>base\<close>, the timers in the list are active, each there once, in the order of their
  deadlines, all less than half the range away.
\<close>

definition timers_ok :: "u32 \<Rightarrow> kernel \<Rightarrow> bool" where
  "timers_ok base k \<longleftrightarrow>
     distinct (k_timer_list k) \<and>
     (\<forall>x\<in>set (k_timer_list k). active k x) \<and>
     (\<forall>x\<in>set (k_timer_list k). dist base k x < unat half_range) \<and>
     sorted (map (dist base k) (k_timer_list k))"

lemma half_range_compare:
  fixes x y base :: u32
  assumes "unat (x - base) < unat half_range" "unat (y - base) < unat half_range"
  shows "y - x < half_range \<longleftrightarrow> unat (x - base) \<le> unat (y - base)"
proof -
  define a where "a = x - base"
  define c where "c = y - base"
  have yx: "y - x = c - a" by (simp add: a_def c_def)
  have h: "unat half_range = 2147483647" by simp
  have ab: "unat a < 2147483647" "unat c < 2147483647" using assms unfolding a_def c_def h by auto
  show ?thesis
  proof (cases "unat a \<le> unat c")
    case True
    then have "unat (c - a) = unat c - unat a" by (simp add: unat_sub word_le_nat_alt)
    then show ?thesis using True ab unfolding yx a_def [symmetric] c_def [symmetric] word_less_nat_alt h by simp
  next
    case False
    then have lt: "unat c < unat a" by simp
    have "unat (c - a) = unat c + 4294967296 - unat a"
      using lt by (simp add: unat_sub_if_size word_size word_le_nat_alt not_le)
    then show ?thesis using False ab unfolding yx a_def [symmetric] c_def [symmetric] word_less_nat_alt h by simp
  qed
qed

lemma timer_insert_set [simp]: "set (timer_insert f x xs) = insert x (set xs)"
  by (induction xs) auto

lemma timer_insert_distinct: "x \<notin> set xs \<Longrightarrow> distinct xs \<Longrightarrow> distinct (timer_insert f x xs)"
  by (induction xs) auto

lemma timer_insert_sorted:
  assumes "sorted (map (\<lambda>y. unat (f y - base)) xs)"
    and "\<forall>y\<in>set xs. unat (f y - base) < unat half_range" and "unat (f x - base) < unat half_range"
  shows "sorted (map (\<lambda>y. unat (f y - base)) (timer_insert f x xs))"
  using assms
proof (induction xs)
  case Nil
  then show ?case by simp
next
  case (Cons y ys)
  then have cmp: "f y - f x < half_range \<longleftrightarrow> unat (f x - base) \<le> unat (f y - base)"
    by (intro half_range_compare) auto
  show ?case
  proof (cases "f y - f x < half_range")
    case True
    then show ?thesis using Cons.prems(1) cmp by auto
  next
    case False
    then have "unat (f y - base) \<le> unat (f x - base)" using cmp by simp
    then show ?thesis using False Cons by auto
  qed
qed

lemma timer_insert_cong: "(\<And>y. y \<in> set (x # xs) \<Longrightarrow> f y = g y) \<Longrightarrow> timer_insert f x xs = timer_insert g x xs"
  by (induction xs) auto

lemma flag_or_1 [simp]: "(f OR 1) AND 1 = (1::u8)" "(f OR 1) AND 2 = f AND (2::u8)"
  and flag_not_1 [simp]: "(f AND - 2) AND 1 = (0::u8)" "(f AND - 2) AND 2 = f AND (2::u8)"
proof -
  have "\<forall>f::u8. (f OR 1) AND 1 = 1 \<and> (f OR 1) AND 2 = f AND 2 \<and> (f AND - 2) AND 1 = 0 \<and> (f AND - 2) AND 2 = f AND 2"
    unfolding all_u8_iff by code_simp
  then show "(f OR 1) AND 1 = (1::u8)" "(f OR 1) AND 2 = f AND (2::u8)"
    "(f AND - 2) AND 1 = (0::u8)" "(f AND - 2) AND 2 = f AND (2::u8)" by auto
qed

lemma upd_timer_simps [simp]:
  "k_timer (upd_timer x f k) = (k_timer k)(x := f (k_timer k x))"
  "k_timer_list (upd_timer x f k) = k_timer_list k"
  "k_tick (upd_timer x f k) = k_tick k"
  "k_thread (upd_timer x f k) = k_thread k"
  "k_priority_table (upd_timer x f k) = k_priority_table k"
  "k_ready_group (upd_timer x f k) = k_ready_group k"
  "k_current (upd_timer x f k) = k_current k"
  "k_current_priority (upd_timer x f k) = k_current_priority k"
  "k_lock_nest (upd_timer x f k) = k_lock_nest k"
  "k_interrupt_nest (upd_timer x f k) = k_interrupt_nest k"
  "k_defunct (upd_timer x f k) = k_defunct k"
  "k_wait (upd_timer x f k) = k_wait k"
  "k_sem (upd_timer x f k) = k_sem k"
  "k_mutex (upd_timer x f k) = k_mutex k"
  "k_event (upd_timer x f k) = k_event k"
  "k_mb (upd_timer x f k) = k_mb k"
  "k_mq (upd_timer x f k) = k_mq k"
  "k_mp (upd_timer x f k) = k_mp k"
  by (simp_all add: upd_timer_def)

lemma timer_list_remove_simps [simp]:
  "k_timer (timer_list_remove x k) = k_timer k"
  "k_timer_list (timer_list_remove x k) = removeAll x (k_timer_list k)"
  "k_tick (timer_list_remove x k) = k_tick k"
  "k_thread (timer_list_remove x k) = k_thread k"
  "k_priority_table (timer_list_remove x k) = k_priority_table k"
  "k_ready_group (timer_list_remove x k) = k_ready_group k"
  "k_current (timer_list_remove x k) = k_current k"
  "k_current_priority (timer_list_remove x k) = k_current_priority k"
  "k_lock_nest (timer_list_remove x k) = k_lock_nest k"
  "k_interrupt_nest (timer_list_remove x k) = k_interrupt_nest k"
  "k_defunct (timer_list_remove x k) = k_defunct k"
  "k_wait (timer_list_remove x k) = k_wait k"
  "k_sem (timer_list_remove x k) = k_sem k"
  "k_mutex (timer_list_remove x k) = k_mutex k"
  "k_event (timer_list_remove x k) = k_event k"
  "k_mb (timer_list_remove x k) = k_mb k"
  "k_mq (timer_list_remove x k) = k_mq k"
  "k_mp (timer_list_remove x k) = k_mp k"
  by (simp_all add: timer_list_remove_def)

lemma active_deactivate [simp]: "active (deactivate x k) y \<longleftrightarrow> y \<noteq> x \<and> active k y"
  and periodic_deactivate [simp]: "periodic (deactivate x k) y \<longleftrightarrow> periodic k y"
  by (auto simp: active_def periodic_def deactivate_def)

lemma deactivate_simps [simp]:
  "k_timer_list (deactivate x k) = k_timer_list k" "k_tick (deactivate x k) = k_tick k"
  "tm_timeout_tick (k_timer (deactivate x k) y) = tm_timeout_tick (k_timer k y)"
  "tm_init_tick (k_timer (deactivate x k) y) = tm_init_tick (k_timer k y)"
  by (auto simp: deactivate_def)

lemma dist_deactivate [simp]: "dist base (deactivate x k) = dist base k"
  by (simp add: dist_def fun_eq_iff)

text \<open>Starting an idle timer whose interval is below half the range.\<close>

lemma rt_timer_start_ok:
  assumes ok: "timers_ok base k" and idle: "\<not> active k x"
    and small: "tm_init_tick (k_timer k x) < half_range"
    and near: "unat (k_tick k + tm_init_tick (k_timer k x) - base) < unat half_range"
  obtains k' where "rt_timer_start x k = Some (- RT_EOK, k')" "timers_ok base k'"
    "set (k_timer_list k') = insert x (set (k_timer_list k))" "k_tick k' = k_tick k"
    "\<And>y. y \<noteq> x \<Longrightarrow> k_timer k' y = k_timer k y"
    "tm_timeout_tick (k_timer k' x) = k_tick k + tm_init_tick (k_timer k x)"
    "tm_init_tick (k_timer k' x) = tm_init_tick (k_timer k x)" "periodic k' x = periodic k x"
    "k' = k\<lparr>k_timer := k_timer k', k_timer_list := k_timer_list k'\<rparr>"
proof -
  let ?tick = "\<lambda>y. tm_timeout_tick (k_timer (upd_timer x (\<lambda>t. t\<lparr>tm_timeout_tick := k_tick k + tm_init_tick t\<rparr>) k) y)"
  let ?k = "upd_timer x (\<lambda>t. t\<lparr>tm_flag := tm_flag t OR 1\<rparr>)
    ((upd_timer x (\<lambda>t. t\<lparr>tm_timeout_tick := k_tick k + tm_init_tick t\<rparr>) k)
      \<lparr>k_timer_list := timer_insert ?tick x (k_timer_list k)\<rparr>)"
  have nin: "x \<notin> set (k_timer_list k)" using ok idle by (auto simp: timers_ok_def)
  have old: "unat (?tick y - base) = dist base k y" if "y \<in> set (k_timer_list k)" for y
    using that nin by (auto simp: dist_def)
  have new: "unat (?tick x - base) < unat half_range" using near by simp
  have sorted: "sorted (map (\<lambda>y. unat (?tick y - base)) (timer_insert ?tick x (k_timer_list k)))"
  proof (rule timer_insert_sorted [where f = ?tick, OF _ _ new])
    have "map (\<lambda>y. unat (?tick y - base)) (k_timer_list k) = map (dist base k) (k_timer_list k)"
      by (rule map_cong [OF refl old])
    then show "sorted (map (\<lambda>y. unat (?tick y - base)) (k_timer_list k))"
      using ok by (simp only: timers_ok_def)
    show "\<forall>y\<in>set (k_timer_list k). unat (?tick y - base) < unat half_range"
    proof
      fix y assume y: "y \<in> set (k_timer_list k)"
      then have "dist base k y < unat half_range" using ok unfolding timers_ok_def by blast
      then show "unat (?tick y - base) < unat half_range" unfolding old [OF y] .
    qed
  qed
  have start: "rt_timer_start x k = Some (- RT_EOK, ?k)"
    using idle small by (simp add: rt_timer_start_def Let_def)
  have tmo: "dist base ?k = (\<lambda>y. unat (?tick y - base))"
    by (auto simp: dist_def fun_eq_iff)
  have "timers_ok base ?k"
    unfolding timers_ok_def tmo
  proof (intro conjI)
    show "distinct (k_timer_list ?k)" using ok nin by (simp add: timers_ok_def timer_insert_distinct)
    show "\<forall>y\<in>set (k_timer_list ?k). active ?k y"
      using ok by (auto simp: timers_ok_def active_def)
    show "\<forall>y\<in>set (k_timer_list ?k). unat (?tick y - base) < unat half_range"
    proof
      fix y assume "y \<in> set (k_timer_list ?k)"
      then have "y = x \<or> y \<in> set (k_timer_list k)" by simp
      then show "unat (?tick y - base) < unat half_range"
      proof
        assume "y = x"
        then show ?thesis using new by (simp only:)
      next
        assume y: "y \<in> set (k_timer_list k)"
        then have "dist base k y < unat half_range" using ok unfolding timers_ok_def by blast
        then show ?thesis unfolding old [OF y] .
      qed
    qed
    show "sorted (map (\<lambda>y. unat (?tick y - base)) (k_timer_list ?k))" using sorted by simp
  qed
  from that [OF start this] show ?thesis by (auto simp: periodic_def upd_timer_def)
qed

lemma timers_ok_remove:
  assumes "timers_ok base k" "k_timer k' = k_timer k" "k_timer_list k' = removeAll x (k_timer_list k)"
  shows "timers_ok base (deactivate x k')"
  unfolding timers_ok_def
proof (intro conjI)
  have d: "dist base (deactivate x k') = dist base k" using assms(2) by (simp add: dist_def fun_eq_iff)
  have a: "active k' y \<longleftrightarrow> active k y" for y using assms(2) by (simp add: active_def)
  show "distinct (k_timer_list (deactivate x k'))" using assms(1,3) by (simp add: timers_ok_def distinct_removeAll)
  show "\<forall>y\<in>set (k_timer_list (deactivate x k')). active (deactivate x k') y"
    using assms(1,3) by (auto simp: timers_ok_def a)
  show "\<forall>y\<in>set (k_timer_list (deactivate x k')). dist base (deactivate x k') y < unat half_range"
    using assms(1,3) unfolding d by (auto simp: timers_ok_def)
  have "sorted (map (dist base k) (removeAll x (k_timer_list k)))"
    using assms(1) by (simp add: timers_ok_def removeAll_filter_not_eq sorted_filter)
  then show "sorted (map (dist base (deactivate x k')) (k_timer_list (deactivate x k')))"
    unfolding d using assms(3) by simp
qed

lemma due_dist:
  assumes "timers_ok base k" "x \<in> set (k_timer_list k)" "unat (now - base) < unat half_range"
  shows "due now k x \<longleftrightarrow> dist base k x \<le> unat (now - base)"
proof -
  have "dist base k x < unat half_range" using assms(1,2) unfolding timers_ok_def by blast
  then show ?thesis using half_range_compare [OF _ assms(3)] unfolding due_def dist_def by blast
qed

lemma none_due:
  assumes "timers_ok base k" "k_timer_list k = x # xs" "\<not> due now k x" "unat (now - base) < unat half_range"
    and y: "y \<in> set (k_timer_list k)"
  shows "\<not> due now k y"
proof -
  have "sorted (map (dist base k) (k_timer_list k))" using assms(1) unfolding timers_ok_def by blast
  then have "dist base k x \<le> dist base k y" using y unfolding assms(2) by auto
  then show ?thesis using due_dist [OF assms(1) _ assms(4)] assms(2,3) y by fastforce
qed

lemma timers_ok_rebase:
  assumes ok: "timers_ok base k" and near: "unat (now - base) < unat half_range"
    and nd: "\<forall>x\<in>set (k_timer_list k). \<not> due now k x"
  shows "timers_ok now k"
proof -
  let ?d = "unat (now - base)"
  have far: "dist base k x = dist now k x + ?d" if "x \<in> set (k_timer_list k)" for x
  proof -
    let ?t = "tm_timeout_tick (k_timer k x)"
    have "?d \<le> unat (?t - base)" using due_dist [OF ok that near] nd that by (simp add: dist_def)
    then have "unat ((?t - base) - (now - base)) = unat (?t - base) - ?d"
      by (simp only: unat_sub word_le_nat_alt)
    moreover have "(?t - base) - (now - base) = ?t - now" by simp
    ultimately show ?thesis using \<open>?d \<le> unat (?t - base)\<close> by (simp add: dist_def)
  qed
  have lt: "dist now k x < unat half_range" if "x \<in> set (k_timer_list k)" for x
  proof -
    have "dist base k x < unat half_range" using ok that unfolding timers_ok_def by blast
    then show ?thesis using far [OF that] by linarith
  qed
  have "map (dist base k) (k_timer_list k) = map (\<lambda>x. dist now k x + ?d) (k_timer_list k)"
    by (rule map_cong [OF refl far])
  then have "sorted (map (\<lambda>x. dist now k x + ?d) (k_timer_list k))"
    using ok unfolding timers_ok_def by metis
  then have "sorted (map (dist now k) (k_timer_list k))" by (simp add: sorted_map)
  then show ?thesis using ok lt unfolding timers_ok_def by blast
qed

lemma not_due_after_restart:
  assumes "0 < i" "i < half_range" "tm_timeout_tick (k_timer k x) = now + i"
  shows "\<not> due now k x"
proof -
  have i: "unat i < 2147483647" "0 < unat i" using assms(1,2) by (simp_all add: word_less_nat_alt unat_gt_0)
  have u: "unat (0 - i) = 4294967296 - unat i"
    using unat_sub_if_size [of 0 i] i(2) by (simp add: word_size)
  have eq: "now - (now + i) = 0 - i" by simp
  have "\<not> 4294967296 - unat i < unat half_range" using i(1) by simp
  then show ?thesis unfolding due_def assms(3) word_less_nat_alt eq u .
qed

section \<open>Expiry\<close>

definition periodic_fit :: "u32 \<Rightarrow> kernel \<Rightarrow> bool" where
  "periodic_fit base k \<longleftrightarrow> (\<forall>x. periodic k x \<longrightarrow> 0 < tm_init_tick (k_timer k x)
     \<and> tm_init_tick (k_timer k x) < half_range
     \<and> unat (k_tick k + tm_init_tick (k_timer k x) - base) < unat half_range)"

definition expired :: "kernel \<Rightarrow> kernel \<Rightarrow> bool" where
  "expired k k' \<longleftrightarrow>
     k_tick k' = k_tick k \<and>
     set (k_timer_list k') = {x \<in> set (k_timer_list k). \<not> due (k_tick k) k x \<or> periodic k x} \<and>
     (\<forall>x\<in>set (k_timer_list k). \<not> due (k_tick k) k x \<longrightarrow> k_timer k' x = k_timer k x) \<and>
     (\<forall>x\<in>set (k_timer_list k). due (k_tick k) k x \<longrightarrow> periodic k x \<longrightarrow>
        tm_timeout_tick (k_timer k' x) = k_tick k + tm_init_tick (k_timer k x))"

text \<open>
  What a time-out function may do: it returns, leaves the timers and the tick alone, and keeps an
  invariant that deactivating the expired timer, or restarting a periodic one, keeps as well.
\<close>

locale timeout_functions =
  fixes tf :: "tmr \<Rightarrow> kernel \<Rightarrow> kernel option" and Inv :: "kernel \<Rightarrow> bool"
  assumes fires: "\<lbrakk>Inv k; x \<in> set (k_timer_list k)\<rbrakk> \<Longrightarrow>
        \<exists>k'. tf x (timer_list_remove x k) = Some k' \<and> k_timer k' = k_timer k
             \<and> k_timer_list k' = removeAll x (k_timer_list k) \<and> k_tick k' = k_tick k
             \<and> Inv (deactivate x k')"
    and restarts: "\<lbrakk>Inv k; periodic k x; rt_timer_start x k = Some (e, k')\<rbrakk> \<Longrightarrow> Inv k'"
begin

lemma loop_ok:
  assumes "Inv k" "timers_ok base k" "unat (k_tick k - base) < unat half_range" "periodic_fit base k"
  shows "\<exists>k'. rt_timer_check_loop tf (k_tick k) k = Some k' \<and> Inv k' \<and> timers_ok base k'
     \<and> (\<forall>x\<in>set (k_timer_list k'). \<not> due (k_tick k) k' x) \<and> expired k k'"
  using assms
proof (induction "length (filter (due (k_tick k) k) (k_timer_list k))" arbitrary: k rule: less_induct)
  case less
  let ?now = "k_tick k"
  show ?case
  proof (cases "k_timer_list k")
    case Nil
    then have "rt_timer_check_loop tf ?now k = Some k" by (simp add: rt_timer_check_loop.simps)
    then show ?thesis using less.prems Nil by (auto simp: expired_def)
  next
    case (Cons x xs)
    have xin: "x \<in> set (k_timer_list k)" using Cons by simp
    have dist: "distinct (k_timer_list k)" and act: "active k x"
      using less.prems(2) xin unfolding timers_ok_def by blast+
    show ?thesis
    proof (cases "due ?now k x")
      case False
      then have "rt_timer_check_loop tf ?now k = Some k" using Cons by (simp add: rt_timer_check_loop.simps)
      moreover have "\<not> due ?now k y" if "y \<in> set (k_timer_list k)" for y
        by (rule none_due [OF less.prems(2) Cons False less.prems(3) that])
      ultimately show ?thesis using less.prems by (auto simp: expired_def)
    next
      case True
      obtain k1 where k1: "tf x (timer_list_remove x k) = Some k1" "k_timer k1 = k_timer k"
          "k_timer_list k1 = removeAll x (k_timer_list k)" "k_tick k1 = k_tick k" "Inv (deactivate x k1)"
        using fires [OF less.prems(1) xin] by blast
      have ok2: "timers_ok base (deactivate x k1)" by (rule timers_ok_remove [OF less.prems(2) k1(2,3)])
      have per1: "periodic k1 x = periodic k x" "active k1 x" using k1(2) act by (simp_all add: periodic_def active_def)
      have same: "tm_timeout_tick (k_timer (deactivate x k1) y) = tm_timeout_tick (k_timer k y)"
        "tm_init_tick (k_timer (deactivate x k1) y) = tm_init_tick (k_timer k y)"
        "periodic (deactivate x k1) y = periodic k y" for y
      proof -
        show "periodic (deactivate x k1) y = periodic k y"
          unfolding periodic_deactivate using k1(2) by (simp add: periodic_def)
      qed (use k1(2) in simp_all)
      have fewer: "length (filter (due ?now k') (k_timer_list k')) < length (filter (due ?now k) (k_timer_list k))"
        if "distinct (k_timer_list k')" "set (k_timer_list k') \<subseteq> set (k_timer_list k)"
          "\<And>y. y \<in> set (k_timer_list k') \<Longrightarrow> due ?now k' y \<Longrightarrow> y \<noteq> x \<and> due ?now k y" for k'
      proof -
        have "length (filter (due ?now k') (k_timer_list k')) = card {y \<in> set (k_timer_list k'). due ?now k' y}"
          using that(1) by (simp add: distinct_length_filter Int_def conj_commute)
        also have "\<dots> < card {y \<in> set (k_timer_list k). due ?now k y}"
          by (rule psubset_card_mono) (use that(2,3) True xin in auto)
        also have "\<dots> = length (filter (due ?now k) (k_timer_list k))"
          using dist by (simp add: distinct_length_filter Int_def conj_commute)
        finally show ?thesis .
      qed
      have due2: "due ?now (deactivate x k1) y = due ?now k y" for y using same(1) by (simp add: due_def)
      have fit2: "periodic_fit base (deactivate x k1)"
        using less.prems(4) same k1(4) by (simp add: periodic_fit_def)
      show ?thesis
      proof (cases "periodic k x")
        case False
        let ?k = "deactivate x k1"
        have step: "rt_timer_check_loop tf ?now k = rt_timer_check_loop tf ?now ?k"
          using True Cons k1(1,4) False per1 by (subst rt_timer_check_loop.simps) simp
        have list2: "set (k_timer_list ?k) = set (k_timer_list k) - {x}" using k1(3) by simp
        have "length (filter (due ?now ?k) (k_timer_list ?k)) < length (filter (due ?now k) (k_timer_list k))"
          by (rule fewer) (use k1(3) dist list2 due2 in \<open>auto simp: distinct_removeAll\<close>)
        then have "length (filter (due (k_tick ?k) ?k) (k_timer_list ?k)) < length (filter (due ?now k) (k_timer_list k))"
          using k1(4) by simp
        from less.hyps [OF this k1(5) ok2 _ fit2] less.prems(3) k1(4)
        obtain k' where k': "rt_timer_check_loop tf ?now ?k = Some k'" "Inv k'" "timers_ok base k'"
            "\<forall>y\<in>set (k_timer_list k'). \<not> due ?now k' y" "expired ?k k'" by auto
        have "expired k k'"
          using k'(5) k1(2,4) list2 same due2 False True unfolding expired_def
          by (auto simp: deactivate_def)
        then show ?thesis using step k'(1-4) by auto
      next
        case per: True
        let ?k = "deactivate x k1"
        have init: "tm_init_tick (k_timer ?k x) = tm_init_tick (k_timer k x)" by (rule same(2))
        have fit: "0 < tm_init_tick (k_timer k x)" "tm_init_tick (k_timer k x) < half_range"
            "unat (?now + tm_init_tick (k_timer k x) - base) < unat half_range"
          using less.prems(4) per unfolding periodic_fit_def by blast+
        have idle: "\<not> active ?k x" by simp
        have small: "tm_init_tick (k_timer ?k x) < half_range" unfolding init by (rule fit(2))
        have near: "unat (k_tick ?k + tm_init_tick (k_timer ?k x) - base) < unat half_range"
          unfolding init using fit(3) k1(4) by simp
        obtain k3 where k3: "rt_timer_start x ?k = Some (- RT_EOK, k3)" "timers_ok base k3"
            "set (k_timer_list k3) = insert x (set (k_timer_list ?k))" "k_tick k3 = k_tick ?k"
            "\<And>y. y \<noteq> x \<Longrightarrow> k_timer k3 y = k_timer ?k y"
            "tm_timeout_tick (k_timer k3 x) = k_tick ?k + tm_init_tick (k_timer ?k x)"
            "tm_init_tick (k_timer k3 x) = tm_init_tick (k_timer ?k x)" "periodic k3 x = periodic ?k x"
          by (rule rt_timer_start_ok [OF ok2 idle small near]) blast
        have tick3: "k_tick k3 = ?now" using k3(4) k1(4) by simp
        have other: "k_timer k3 y = k_timer k y" if "y \<noteq> x" for y
          using k3(5) [OF that] k1(2) that by (simp add: deactivate_def)
        have tmo: "tm_timeout_tick (k_timer k3 x) = ?now + tm_init_tick (k_timer k x)"
          using k3(6) k1(4) init by simp
        have per3: "periodic k3 y = periodic k y" for y
          using other [of y] k3(8) same(3) [of x] by (cases "y = x") (auto simp: periodic_def)
        have nd: "\<not> due ?now k3 x" by (rule not_due_after_restart [OF fit(1,2) tmo])
        have due3: "due ?now k3 y = due ?now k y" if "y \<noteq> x" for y
          using other [OF that] by (simp add: due_def)
        have list3: "set (k_timer_list k3) = set (k_timer_list k)" using k3(3) k1(3) xin by auto
        have step: "rt_timer_check_loop tf ?now k = rt_timer_check_loop tf ?now k3"
          using True Cons k1(1,4) per per1 k3(1) by (subst rt_timer_check_loop.simps) simp
        have inv3: "Inv k3" using restarts [OF k1(5) _ k3(1)] per same(3) by simp
        have fit3: "periodic_fit base k3" unfolding periodic_fit_def
        proof (intro allI impI)
          fix y assume "periodic k3 y"
          then have "periodic k y" by (simp add: per3)
          moreover have "tm_init_tick (k_timer k3 y) = tm_init_tick (k_timer k y)"
            using other [of y] k3(7) init by (cases "y = x") auto
          ultimately show "0 < tm_init_tick (k_timer k3 y) \<and> tm_init_tick (k_timer k3 y) < half_range
              \<and> unat (k_tick k3 + tm_init_tick (k_timer k3 y) - base) < unat half_range"
            using less.prems(4) tick3 unfolding periodic_fit_def by simp
        qed
        have "length (filter (due ?now k3) (k_timer_list k3)) < length (filter (due ?now k) (k_timer_list k))"
        proof (rule fewer)
          show "distinct (k_timer_list k3)" using k3(2) unfolding timers_ok_def by blast
          show "set (k_timer_list k3) \<subseteq> set (k_timer_list k)" using list3 by simp
          show "y \<noteq> x \<and> due ?now k y" if "due ?now k3 y" for y using that nd due3 by (cases "y = x") auto
        qed
        then have "length (filter (due (k_tick k3) k3) (k_timer_list k3)) < length (filter (due ?now k) (k_timer_list k))"
          unfolding tick3 .
        from less.hyps [OF this inv3 k3(2) _ fit3] less.prems(3)
        obtain k' where k': "rt_timer_check_loop tf ?now k3 = Some k'" "Inv k'" "timers_ok base k'"
            "\<forall>y\<in>set (k_timer_list k'). \<not> due ?now k' y" "expired k3 k'" unfolding tick3 by auto
        have "expired k k'"
        proof -
          have e: "k_tick k' = ?now"
            "set (k_timer_list k') = {y \<in> set (k_timer_list k). \<not> due ?now k3 y \<or> periodic k y}"
            "\<And>y. y \<in> set (k_timer_list k) \<Longrightarrow> \<not> due ?now k3 y \<Longrightarrow> k_timer k' y = k_timer k3 y"
            "\<And>y. y \<in> set (k_timer_list k) \<Longrightarrow> due ?now k3 y \<Longrightarrow> periodic k y \<Longrightarrow>
               tm_timeout_tick (k_timer k' y) = ?now + tm_init_tick (k_timer k3 y)"
            using k'(5) unfolding expired_def tick3 list3 per3 by auto
          show ?thesis unfolding expired_def
          proof (intro conjI ballI impI)
            show "k_tick k' = ?now" by (rule e(1))
            have "(\<not> due ?now k3 y \<or> periodic k y) = (\<not> due ?now k y \<or> periodic k y)" for y
              using due3 [of y] per by (cases "y = x") auto
            then show "set (k_timer_list k') = {y \<in> set (k_timer_list k). \<not> due ?now k y \<or> periodic k y}"
              using e(2) by simp
            show "k_timer k' y = k_timer k y" if "y \<in> set (k_timer_list k)" "\<not> due ?now k y" for y
            proof -
              have "y \<noteq> x" using that(2) True by auto
              then show ?thesis using e(3) [OF that(1)] due3 other that(2) by simp
            qed
            show "tm_timeout_tick (k_timer k' y) = ?now + tm_init_tick (k_timer k y)"
              if "y \<in> set (k_timer_list k)" "due ?now k y" "periodic k y" for y
            proof (cases "y = x")
              case True
              then show ?thesis using e(3) [OF that(1)] nd tmo by simp
            next
              case False
              then show ?thesis using e(4) [OF that(1) _ that(3)] due3 other that(2) by simp
            qed
          qed
        qed
        then show ?thesis using step k'(1-4) by auto
      qed
    qed
  qed
qed

text \<open>One check at a tick at which every pending deadline is less than half the range past \<open>base\<close>.\<close>

lemma check_ok:
  assumes "Inv k" "timers_ok base k" "unat (k_tick k - base) < unat half_range" "periodic_fit base k"
  shows "\<exists>k'. rt_timer_check tf k = Some k' \<and> Inv k' \<and> timers_ok (k_tick k) k' \<and> expired k k'
     \<and> (\<forall>x\<in>set (k_timer_list k'). \<not> due (k_tick k) k' x)"
proof -
  obtain k' where k': "rt_timer_check_loop tf (k_tick k) k = Some k'" "Inv k'" "timers_ok base k'"
      "\<forall>x\<in>set (k_timer_list k'). \<not> due (k_tick k) k' x" "expired k k'"
    using loop_ok [OF assms] by blast
  from timers_ok_rebase [OF k'(3) assms(3) k'(4)] k' show ?thesis
    unfolding rt_timer_check_def by blast
qed

end

end
