(* ===== verification/Rt_Thread.thy ===== *)
theory Rt_Thread
  imports Rt_Timer
begin

text \<open>
  Threads (\<open>src/thread.c\<close>), the clock tick (\<open>src/clock.c\<close>) and the idle thread's clean-up
  (\<open>src/idle.c\<close>). Stacks, entry functions and object names are not part of the model. A call that
  makes the caller wait is split where the code calls \<open>rt_schedule\<close>: the first half ends with the
  switch, the \<open>_resumed\<close> half is what the caller executes when it runs again. \<open>thread_ok\<close> extends the
  invariant of the scheduler by what ties threads to their built-in timers.
\<close>

definition rt_thread_self :: "kernel \<Rightarrow> tid option" where
  "rt_thread_self k = k_current k"

definition rt_thread_init :: "tid \<Rightarrow> u8 \<Rightarrow> u32 \<Rightarrow> kernel \<Rightarrow> (int \<times> kernel) option" where
  "rt_thread_init t priority tick k =
     do { rt_assert (priority < 32);
          let k = upd_thread t (\<lambda>th. th\<lparr>t_init_priority := priority, t_current_priority := priority,
                    t_init_tick := tick, t_remaining_tick := tick, t_error := RT_EOK, t_stat := INIT,
                    t_cleanup := False, t_static := True\<rparr>) k
          in Some (RT_EOK, rt_timer_init (ThreadTimer t) 0 0 k) }"

definition rt_thread_suspend :: "tid \<Rightarrow> kernel \<Rightarrow> int \<times> kernel" where
  "rt_thread_suspend t k =
     (if t_stat (k_thread k t) \<noteq> READY then (- RT_ERROR, k)
      else (RT_EOK, rt_schedule_remove_thread t (set_stat SUSPEND t k)))"

definition rt_thread_resume :: "tid \<Rightarrow> kernel \<Rightarrow> int \<times> kernel" where
  "rt_thread_resume t k =
     (if t_stat (k_thread k t) \<noteq> SUSPEND then (- RT_ERROR, k)
      else (let k = tlist_remove t k;
                k = timer_list_remove (ThreadTimer t) k;
                k = upd_timer (ThreadTimer t) (\<lambda>x. x\<lparr>tm_flag := tm_flag x AND NOT 1\<rparr>) k
            in (RT_EOK, rt_schedule_insert_thread t k)))"

definition rt_thread_startup :: "tid \<Rightarrow> kernel \<Rightarrow> (int \<times> kernel) option" where
  "rt_thread_startup t k =
     do { rt_assert (t_stat (k_thread k t) = INIT);
          let k = upd_thread t (\<lambda>th. th\<lparr>t_current_priority := t_init_priority th,
                    t_number_mask := push_bit (unat (t_init_priority th)) 1, t_stat := SUSPEND\<rparr>) k;
              k = snd (rt_thread_resume t k)
          in if rt_thread_self k \<noteq> None
             then do { k \<leftarrow> rt_schedule k; Some (RT_EOK, k) }
             else Some (RT_EOK, k) }"

definition rt_thread_exit :: "kernel \<Rightarrow> kernel option" where
  "rt_thread_exit k =
     do { t \<leftarrow> k_current k;
          let k = rt_schedule_remove_thread t k;
              k = set_stat CLOSE t k;
              k = timer_list_remove (ThreadTimer t) k;
              k = (if t_static (k_thread k t) \<and> \<not> t_cleanup (k_thread k t) then k
                   else k\<lparr>k_defunct := t # k_defunct k\<rparr>)
          in rt_schedule k }"

definition rt_thread_detach :: "tid \<Rightarrow> kernel \<Rightarrow> int \<times> kernel" where
  "rt_thread_detach t k =
     (let k = rt_schedule_remove_thread t k;
          k = rt_timer_detach (ThreadTimer t) k;
          k = set_stat CLOSE t k
      in (RT_EOK, if t_cleanup (k_thread k t) then k\<lparr>k_defunct := t # k_defunct k\<rparr> else k))"

definition rt_thread_delete :: "tid \<Rightarrow> kernel \<Rightarrow> int \<times> kernel" where
  "rt_thread_delete t k =
     (let k = rt_schedule_remove_thread t k;
          k = rt_timer_detach (ThreadTimer t) k;
          k = set_stat CLOSE t k
      in (RT_EOK, k\<lparr>k_defunct := t # k_defunct k\<rparr>))"

text \<open>
  \<open>tlist.next != tlist.prev\<close> says that the ring has a third node beside the list head and the
  thread: another ready thread of the same priority.
\<close>

definition rt_thread_yield :: "kernel \<Rightarrow> (int \<times> kernel) option" where
  "rt_thread_yield k =
     do { t \<leftarrow> k_current k;
          let p = unat (t_current_priority (k_thread k t))
          in if t_stat (k_thread k t) = READY \<and> 1 < length (k_priority_table k p)
             then let k = tlist_remove t k;
                      k = k\<lparr>k_priority_table := (k_priority_table k)(p := k_priority_table k p @ [t])\<rparr>
                  in do { k \<leftarrow> rt_schedule k; Some (RT_EOK, k) }
             else Some (RT_EOK, k) }"

text \<open>Arming the built-in timer: set the interval, start the timer (its result is ignored).\<close>

definition thread_timer_arm :: "tid \<Rightarrow> u32 \<Rightarrow> kernel \<Rightarrow> kernel option" where
  "thread_timer_arm t tick k =
     do { let k = snd (rt_timer_control (ThreadTimer t) 0 tick k);
          (_, k) \<leftarrow> rt_timer_start (ThreadTimer t) k;
          Some k }"

definition rt_thread_sleep :: "u32 \<Rightarrow> kernel \<Rightarrow> kernel option" where
  "rt_thread_sleep tick k =
     do { t \<leftarrow> k_current k;
          let k = snd (rt_thread_suspend t k);
          k \<leftarrow> thread_timer_arm t tick k;
          rt_schedule k }"

definition rt_thread_sleep_resumed :: "tid \<Rightarrow> kernel \<Rightarrow> int \<times> kernel" where
  "rt_thread_sleep_resumed t k =
     (RT_EOK, if t_error (k_thread k t) = - RT_ETIMEOUT then upd_thread t (\<lambda>th. th\<lparr>t_error := RT_EOK\<rparr>) k else k)"

definition change_priority :: "tid \<Rightarrow> u8 \<Rightarrow> kernel \<Rightarrow> kernel" where
  "change_priority t p k =
     (let set = upd_thread t (\<lambda>th. th\<lparr>t_current_priority := p, t_number_mask := push_bit (unat p) 1\<rparr>) in
      if t_stat (k_thread k t) = READY
      then rt_schedule_insert_thread t (set (rt_schedule_remove_thread t k))
      else set k)"

definition rt_thread_control :: "tid \<Rightarrow> u8 \<Rightarrow> u8 \<Rightarrow> kernel \<Rightarrow> (int \<times> kernel) option" where
  "rt_thread_control t cmd arg k =
     (if cmd = 2 then Some (RT_EOK, change_priority t arg k)
      else if cmd = 0 then rt_thread_startup t k
      else if cmd = 1 then Some (rt_thread_delete t k)
      else Some (RT_EOK, k))"

definition rt_thread_timeout :: "tid \<Rightarrow> kernel \<Rightarrow> kernel option" where
  "rt_thread_timeout t k =
     do { rt_assert (t_stat (k_thread k t) = SUSPEND);
          let k = upd_thread t (\<lambda>th. th\<lparr>t_error := - RT_ETIMEOUT\<rparr>) k;
              k = tlist_remove t k;
              k = rt_schedule_insert_thread t k
          in rt_schedule k }"

text \<open>The time-out functions: the kernel's own for threads, the application's for its timers.\<close>

fun kernel_timeout :: "(nat \<Rightarrow> kernel \<Rightarrow> kernel option) \<Rightarrow> tmr \<Rightarrow> kernel \<Rightarrow> kernel option" where
  "kernel_timeout app (ThreadTimer t) k = rt_thread_timeout t k"
| "kernel_timeout app (AppTimer n) k = app n k"

definition rt_tick_increase :: "(nat \<Rightarrow> kernel \<Rightarrow> kernel option) \<Rightarrow> kernel \<Rightarrow> kernel option" where
  "rt_tick_increase app k =
     do { let k = k\<lparr>k_tick := k_tick k + 1\<rparr>;
          t \<leftarrow> rt_thread_self k;
          let k = upd_thread t (\<lambda>th. th\<lparr>t_remaining_tick := t_remaining_tick th - 1\<rparr>) k;
          k \<leftarrow> (if t_remaining_tick (k_thread k t) = 0
                then do { let k = upd_thread t (\<lambda>th. th\<lparr>t_remaining_tick := t_init_tick th\<rparr>) k;
                          (_, k) \<leftarrow> rt_thread_yield k;
                          Some k }
                else Some k);
          rt_timer_check (kernel_timeout app) k }"

text \<open>
  The idle thread unlinks the first defunct thread and runs its clean-up function; a thread that is
  not a static object is then freed with its stack (the second component names it).
\<close>

definition rt_thread_idle_excute :: "(tid \<Rightarrow> kernel \<Rightarrow> kernel) \<Rightarrow> kernel \<Rightarrow> (tid option \<times> kernel) option" where
  "rt_thread_idle_excute cleanup k =
     (case k_defunct k of
        [] \<Rightarrow> Some (None, k)
      | t # _ \<Rightarrow>
          do { not_in_interrupt k;
               let k = tlist_remove t k;
                   k = (if t_cleanup (k_thread k t) then cleanup t k else k)
               in Some (if t_static (k_thread k t) then None else Some t, k) })"

section \<open>The invariant of threads and their timers\<close>

definition thread_ok :: "kernel \<Rightarrow> bool" where
  "thread_ok k \<longleftrightarrow> sched_ok k \<and>
     (\<forall>t. t_stat (k_thread k t) = READY \<longrightarrow> \<not> active k (ThreadTimer t)) \<and>
     (\<forall>t. ThreadTimer t \<in> set (k_timer_list k) \<longrightarrow> t_stat (k_thread k t) = SUSPEND) \<and>
     (\<forall>t. \<not> periodic k (ThreadTimer t))"

lemma thread_okD:
  assumes "thread_ok k"
  shows "sched_ok k" "t_stat (k_thread k t) = READY \<Longrightarrow> \<not> active k (ThreadTimer t)"
    "ThreadTimer t \<in> set (k_timer_list k) \<Longrightarrow> t_stat (k_thread k t) = SUSPEND"
    "\<not> periodic k (ThreadTimer t)"
  using assms unfolding thread_ok_def by blast+

lemma sched_ok_suspended_removed:
  assumes ok: "sched_ok k" and s: "t_stat (k_thread k t) = SUSPEND"
  shows "sched_ok (tlist_remove t k)"
proof -
  have id: "removeAll t (k_priority_table k p) = k_priority_table k p" for p
    using s by (simp add: sched_okD(1) [OF ok] removeAll_id)
  show ?thesis unfolding sched_ok_def
    by (auto simp: id sched_okD(1) [OF ok] sched_okD(2) [OF ok] sched_okD(4) [OF ok] sched_okD(9) [OF ok] distinct_removeAll
        dest: sched_okD(3) [OF ok] sched_okD(5) [OF ok] sched_okD(6) [OF ok] sched_okD(7) [OF ok] sched_okD(8) [OF ok])
qed

text \<open>A waiting thread is unlinked, its timer is switched off and it becomes ready: resume and time-out.\<close>

lemma wake_ok:
  assumes ok: "sched_ok k" and s: "t_stat (k_thread k t) = SUSPEND" and same: "same_sched (tlist_remove t k) k'"
  shows "sched_ok (rt_schedule_insert_thread t k')"
proof (rule insert_ok)
  have "sched_ok k'" by (rule sched_ok_same [OF same sched_ok_suspended_removed [OF ok s]])
  moreover have "same_sched k' (set_stat SUSPEND t k')"
    using same s by (simp add: same_sched_def)
  ultimately show "sched_ok (set_stat SUSPEND t k')" by (rule sched_ok_same [rotated])
  show "loose t k'" using same by (simp add: same_sched_def loose_def)
qed

lemma remove_set_stat: "rt_schedule_remove_thread t (set_stat s u k) = set_stat s u (rt_schedule_remove_thread t k)"
  by (simp add: rt_schedule_remove_thread_def tlist_remove_def upd_thread_def Let_def)

lemma active_cong: "k_timer k' x = k_timer k x \<Longrightarrow> active k' x = active k x"
  and periodic_cong: "k_timer k' x = k_timer k x \<Longrightarrow> periodic k' x = periodic k x"
  by (simp_all add: active_def periodic_def)

lemma thread_ok_same:
  assumes "thread_ok k" "same_sched k k'" "k_timer k' = k_timer k" "k_timer_list k' = k_timer_list k"
  shows "thread_ok k'"
  using assms sched_ok_same [OF assms(2)] unfolding thread_ok_def same_sched_def active_def periodic_def
  by simp

lemma thread_ok_schedule: "thread_ok k \<Longrightarrow> rt_schedule k = Some k' \<Longrightarrow> thread_ok k'"
  by (rule thread_ok_same [of k k']) (simp_all add: same_sched_def rt_schedule_frame)

text \<open>Suspending a ready thread.\<close>

lemma suspend_ok:
  assumes ok: "thread_ok k" and r: "t_stat (k_thread k t) = READY"
  shows "thread_ok (snd (rt_thread_suspend t k))" "loose t (snd (rt_thread_suspend t k))"
    "t_stat (k_thread (snd (rt_thread_suspend t k)) t) = SUSPEND"
proof -
  have eq: "snd (rt_thread_suspend t k) = set_stat SUSPEND t (rt_schedule_remove_thread t k)"
    using r by (simp add: rt_thread_suspend_def remove_set_stat)
  have "sched_ok (set_stat SUSPEND t (rt_schedule_remove_thread t k))"
    by (rule remove_then_stat_ok) (use thread_okD(1) [OF ok] r in auto)
  then show "thread_ok (snd (rt_thread_suspend t k))"
    unfolding eq thread_ok_def using thread_okD(2-4) [OF ok] by (auto simp: active_def periodic_def)
  show "loose t (snd (rt_thread_suspend t k))" "t_stat (k_thread (snd (rt_thread_suspend t k)) t) = SUSPEND"
    unfolding eq by simp_all
qed

lemma suspend_not_ready: "t_stat (k_thread k t) \<noteq> READY \<Longrightarrow> rt_thread_suspend t k = (- RT_ERROR, k)"
  by (simp add: rt_thread_suspend_def)

lemma suspend_thread_simps [simp]:
  "k_timer (snd (rt_thread_suspend t k)) = k_timer k"
  "k_timer_list (snd (rt_thread_suspend t k)) = k_timer_list k"
  "k_current (snd (rt_thread_suspend t k)) = k_current k"
  "k_tick (snd (rt_thread_suspend t k)) = k_tick k"
  "k_lock_nest (snd (rt_thread_suspend t k)) = k_lock_nest k"
  "k_interrupt_nest (snd (rt_thread_suspend t k)) = k_interrupt_nest k"
  "k_sem (snd (rt_thread_suspend t k)) = k_sem k"
  "k_mutex (snd (rt_thread_suspend t k)) = k_mutex k"
  "k_event (snd (rt_thread_suspend t k)) = k_event k"
  "k_mb (snd (rt_thread_suspend t k)) = k_mb k"
  "k_mq (snd (rt_thread_suspend t k)) = k_mq k"
  "k_mp (snd (rt_thread_suspend t k)) = k_mp k"
  "u \<noteq> t \<Longrightarrow> k_thread (snd (rt_thread_suspend t k)) u = k_thread k u"
  by (simp_all add: rt_thread_suspend_def)

lemma suspend_thread_fields:
  "k_thread (snd (rt_thread_suspend t k)) t = (k_thread k t)\<lparr>t_stat := if t_stat (k_thread k t) = READY then SUSPEND else t_stat (k_thread k t)\<rparr>"
  by (simp add: rt_thread_suspend_def)

lemma suspend_wait: "sched_ok k \<Longrightarrow> t_stat (k_thread k t) = READY \<Longrightarrow> k_wait (snd (rt_thread_suspend t k)) w = k_wait k w"
proof -
  assume ok: "sched_ok k" and r: "t_stat (k_thread k t) = READY"
  then have "t \<notin> set (k_wait k w)" using sched_okD(3) [OF ok, of t w] by auto
  then show ?thesis using r by (simp add: rt_thread_suspend_def removeAll_id)
qed

text \<open>Resuming a suspended thread.\<close>

lemma resume_ok:
  assumes ok: "thread_ok k" and s: "t_stat (k_thread k t) = SUSPEND"
  shows "thread_ok (snd (rt_thread_resume t k))" "t_stat (k_thread (snd (rt_thread_resume t k)) t) = READY"
proof -
  let ?k = "upd_timer (ThreadTimer t) (\<lambda>x. x\<lparr>tm_flag := tm_flag x AND NOT 1\<rparr>)
              (timer_list_remove (ThreadTimer t) (tlist_remove t k))"
  have eq: "snd (rt_thread_resume t k) = rt_schedule_insert_thread t ?k"
    using s by (simp add: rt_thread_resume_def Let_def)
  have "sched_ok (rt_schedule_insert_thread t ?k)"
    by (rule wake_ok [OF thread_okD(1) [OF ok] s]) (simp add: same_sched_def fun_eq_iff)
  then show "thread_ok (snd (rt_thread_resume t k))"
    unfolding eq thread_ok_def using thread_okD(2-4) [OF ok]
    by (auto simp: active_def periodic_def split: if_splits)
  show "t_stat (k_thread (snd (rt_thread_resume t k)) t) = READY" unfolding eq by simp
qed

lemma resume_simps [simp]:
  "k_current (snd (rt_thread_resume t k)) = k_current k"
  "k_tick (snd (rt_thread_resume t k)) = k_tick k"
  "k_lock_nest (snd (rt_thread_resume t k)) = k_lock_nest k"
  "k_interrupt_nest (snd (rt_thread_resume t k)) = k_interrupt_nest k"
  "k_sem (snd (rt_thread_resume t k)) = k_sem k"
  "k_mutex (snd (rt_thread_resume t k)) = k_mutex k"
  "k_event (snd (rt_thread_resume t k)) = k_event k"
  "k_mb (snd (rt_thread_resume t k)) = k_mb k"
  "k_mq (snd (rt_thread_resume t k)) = k_mq k"
  "k_mp (snd (rt_thread_resume t k)) = k_mp k"
  "u \<noteq> t \<Longrightarrow> k_thread (snd (rt_thread_resume t k)) u = k_thread k u"
  by (simp_all add: rt_thread_resume_def Let_def)

lemma resume_wait: "t_stat (k_thread k t) = SUSPEND \<Longrightarrow> k_wait (snd (rt_thread_resume t k)) w = removeAll t (k_wait k w)"
  and resume_thread: "k_thread (snd (rt_thread_resume t k)) t =
    (k_thread k t)\<lparr>t_stat := if t_stat (k_thread k t) = SUSPEND then READY else t_stat (k_thread k t)\<rparr>"
  by (simp_all add: rt_thread_resume_def Let_def)

lemma resume_timers: "t_stat (k_thread k t) = SUSPEND \<Longrightarrow>
    k_timer_list (snd (rt_thread_resume t k)) = removeAll (ThreadTimer t) (k_timer_list k)"
  by (simp add: rt_thread_resume_def Let_def)

text \<open>Arming the timer of a suspended thread.\<close>

lemma arm_returns:
  assumes "tick < half_range \<or> active k (ThreadTimer t)"
  shows "\<exists>k'. thread_timer_arm t tick k = Some k'"
  using assms by (auto simp: thread_timer_arm_def rt_timer_control_def rt_timer_start_def Let_def active_def)

lemma arm_frame:
  assumes "thread_timer_arm t tick k = Some k'"
  shows "k' = k\<lparr>k_timer := k_timer k', k_timer_list := k_timer_list k'\<rparr>"
    and "set (k_timer_list k') \<subseteq> insert (ThreadTimer t) (set (k_timer_list k))"
    and "x \<noteq> ThreadTimer t \<Longrightarrow> k_timer k' x = k_timer k x"
    and "periodic k' (ThreadTimer t) = periodic k (ThreadTimer t)"
  using assms
  by (auto simp: thread_timer_arm_def rt_timer_control_def rt_timer_start_def Let_def upd_timer_def periodic_def
      split: if_splits Option.bind_splits intro!: kernel.equality)

lemma arm_ok:
  assumes ok: "thread_ok k" and s: "t_stat (k_thread k t) = SUSPEND" and a: "thread_timer_arm t tick k = Some k'"
  shows "thread_ok k'"
proof -
  note frame = arm_frame [OF a]
  have th: "k_thread k' = k_thread k" and "same_sched k k'"
    by (subst frame(1), simp add: same_sched_def)+
  then have "sched_ok k'" using sched_ok_same thread_okD(1) [OF ok] by blast
  moreover have "\<not> active k' (ThreadTimer u)" if "t_stat (k_thread k' u) = READY" for u
  proof -
    have "u \<noteq> t" using that s th by auto
    then show ?thesis using thread_okD(2) [OF ok, of u] that th active_cong [OF frame(3)] by simp
  qed
  moreover have "t_stat (k_thread k' u) = SUSPEND" if "ThreadTimer u \<in> set (k_timer_list k')" for u
    using that frame(2) thread_okD(3) [OF ok, of u] s th by auto
  moreover have "\<not> periodic k' (ThreadTimer u)" for u
    using thread_okD(4) [OF ok, of u] frame(4) periodic_cong [OF frame(3)] by (cases "u = t") auto
  ultimately show ?thesis unfolding thread_ok_def by blast
qed

lemma arm_simps:
  assumes "thread_timer_arm t tick k = Some k'"
  shows "k_thread k' = k_thread k" "k_priority_table k' = k_priority_table k"
    "k_ready_group k' = k_ready_group k" "k_current k' = k_current k" "k_lock_nest k' = k_lock_nest k"
    "k_interrupt_nest k' = k_interrupt_nest k" "k_defunct k' = k_defunct k" "k_tick k' = k_tick k"
    "k_wait k' = k_wait k" "k_sem k' = k_sem k" "k_mutex k' = k_mutex k" "k_event k' = k_event k"
    "k_mb k' = k_mb k" "k_mq k' = k_mq k" "k_mp k' = k_mp k"
  by (subst arm_frame(1) [OF assms], simp)+

section \<open>Every thread operation keeps the invariant\<close>

lemma startup_ok:
  assumes ok: "thread_ok k" and p: "t_init_priority (k_thread k t) < 32" and r: "rt_thread_startup t k = Some (e, k')"
  shows "thread_ok k'"
proof -
  let ?f = "\<lambda>th. th\<lparr>t_current_priority := t_init_priority th,
                    t_number_mask := push_bit (unat (t_init_priority th)) 1, t_stat := SUSPEND\<rparr>"
  let ?k = "upd_thread t ?f k"
  have init: "t_stat (k_thread k t) = INIT" using r by (auto simp: rt_thread_startup_def split: Option.bind_splits)
  note sok = thread_okD(1) [OF ok]
  have "sched_ok ?k" unfolding sched_ok_def using init p
    by (auto simp: sched_okD(1) [OF sok] sched_okD(2) [OF sok] sched_okD(4) [OF sok] sched_okD(9) [OF sok] prio_mask_def
      dest: sched_okD(3) [OF sok] sched_okD(5) [OF sok] sched_okD(6) [OF sok] sched_okD(7) [OF sok] sched_okD(8) [OF sok])
  moreover have "ThreadTimer t \<notin> set (k_timer_list k)" using thread_okD(3) [OF ok, of t] init by auto
  ultimately have "thread_ok ?k" unfolding thread_ok_def
    using thread_okD(2-4) [OF ok] by (auto simp: active_def periodic_def)
  then have "thread_ok (snd (rt_thread_resume t ?k))" by (rule resume_ok) simp
  then show ?thesis using r thread_ok_schedule
    by (auto simp: rt_thread_startup_def Let_def split: if_splits Option.bind_splits)
qed

text \<open>A thread that leaves the scheduler for good; its timer leaves the list with it.\<close>

abbreviation closed :: "tid \<Rightarrow> kernel \<Rightarrow> kernel" where
  "closed t k \<equiv> set_stat CLOSE t (timer_list_remove (ThreadTimer t) (rt_schedule_remove_thread t k))"

lemma close_ok:
  assumes ok: "thread_ok k" and st: "t_stat (k_thread k t) \<noteq> INIT"
  shows "thread_ok (closed t k)"
    and "thread_ok ((closed t k)\<lparr>k_defunct := t # k_defunct (closed t k)\<rparr>)"
proof -
  let ?k = "closed t k"
  let ?old = "set_stat CLOSE t (rt_schedule_remove_thread t k)"
  have "sched_ok ?old" by (rule remove_then_stat_ok [OF thread_okD(1) [OF ok] st]) simp
  moreover have "same_sched ?old ?k" by (simp add: same_sched_def timer_list_remove_def upd_thread_def)
  ultimately have sok: "sched_ok ?k" using sched_ok_same by blast
  then show "thread_ok ?k" unfolding thread_ok_def
    using thread_okD(2-4) [OF ok] by (auto simp: active_def periodic_def)
  moreover have "sched_ok (?k\<lparr>k_defunct := t # k_defunct ?k\<rparr>)"
    using sok unfolding sched_ok_def by auto
  ultimately show "thread_ok (?k\<lparr>k_defunct := t # k_defunct ?k\<rparr>)"
    unfolding thread_ok_def by (auto simp: active_def periodic_def)
qed

lemma set_stat_timer_list: "set_stat s t (timer_list_remove x k) = timer_list_remove x (set_stat s t k)"
  by (simp add: timer_list_remove_def upd_thread_def)

lemma exit_ok:
  assumes ok: "thread_ok k" and cur: "k_current k = Some t" and st: "t_stat (k_thread k t) \<noteq> INIT"
    and r: "rt_thread_exit k = Some k'"
  shows "thread_ok k'"
  using r close_ok [OF ok st] thread_ok_schedule cur
  by (auto simp: rt_thread_exit_def Let_def set_stat_timer_list split: if_splits)

lemma delete_ok:
  assumes "thread_ok k" "t_stat (k_thread k t) \<noteq> INIT"
  shows "thread_ok (snd (rt_thread_delete t k))" "thread_ok (snd (rt_thread_detach t k))"
  using close_ok [OF assms] by (simp_all add: rt_thread_delete_def rt_thread_detach_def rt_timer_detach_def Let_def)

lemma rotate_ok:
  assumes ok: "sched_ok k" and r: "t_stat (k_thread k t) = READY" and p: "p = unat (t_current_priority (k_thread k t))"
  shows "sched_ok ((tlist_remove t k)\<lparr>k_priority_table := (k_priority_table (tlist_remove t k))(p := removeAll t (k_priority_table k p) @ [t])\<rparr>)"
proof -
  have tw: "t \<notin> set (k_wait k w)" for w using sched_okD(3) [OF ok, of t w] r by auto
  then have w: "removeAll t (k_wait k w) = k_wait k w" for w by (simp add: removeAll_id)
  have "t \<notin> set (k_defunct k)" using sched_okD(6) [OF ok, of t] r by auto
  then have d: "removeAll t (k_defunct k) = k_defunct k" by (simp add: removeAll_id)
  have el: "q \<noteq> p \<Longrightarrow> removeAll t (k_priority_table k q) = k_priority_table k q" for q
    using ready_elsewhere [OF ok] p by (simp add: removeAll_id)
  have tin: "t \<in> set (k_priority_table k p)" using r p by (simp add: sched_okD(1) [OF ok])
  then have ne: "k_priority_table k p \<noteq> []" by auto
  show ?thesis unfolding sched_ok_def
    by (auto simp: w d el ne r p [symmetric] sched_okD(1) [OF ok] sched_okD(2) [OF ok] sched_okD(4) [OF ok] sched_okD(9) [OF ok] distinct_removeAll
        dest: sched_okD(3) [OF ok] sched_okD(5) [OF ok] sched_okD(6) [OF ok] sched_okD(7) [OF ok] sched_okD(8) [OF ok])
qed

lemma yield_ok:
  assumes ok: "thread_ok k" and r: "rt_thread_yield k = Some (e, k')"
  shows "thread_ok k'"
proof -
  obtain t where t: "k_current k = Some t" using r by (auto simp: rt_thread_yield_def split: Option.bind_splits)
  let ?p = "unat (t_current_priority (k_thread k t))"
  let ?k = "(tlist_remove t k)\<lparr>k_priority_table := (k_priority_table (tlist_remove t k))(?p := removeAll t (k_priority_table k ?p) @ [t])\<rparr>"
  show ?thesis
  proof (cases "t_stat (k_thread k t) = READY \<and> 1 < length (k_priority_table k ?p)")
    case True
    then have "sched_ok ?k" by (intro rotate_ok [OF thread_okD(1) [OF ok]]) auto
    then have "thread_ok ?k" unfolding thread_ok_def using thread_okD(2-4) [OF ok] by (auto simp: active_def periodic_def)
    then show ?thesis using r t True thread_ok_schedule
      by (auto simp: rt_thread_yield_def Let_def split: Option.bind_splits)
  next
    case False
    then show ?thesis using r t ok by (auto simp: rt_thread_yield_def Let_def)
  qed
qed

lemma yield_returns:
  assumes ok: "thread_ok k" and cur: "k_current k = Some t" "t_stat (k_thread k t) = READY"
  shows "\<exists>k'. rt_thread_yield k = Some (RT_EOK, k') \<and> k_timer k' = k_timer k \<and> k_timer_list k' = k_timer_list k
     \<and> k_tick k' = k_tick k \<and> k_thread k' = k_thread k"
proof -
  let ?p = "unat (t_current_priority (k_thread k t))"
  let ?k = "(tlist_remove t k)\<lparr>k_priority_table := (k_priority_table (tlist_remove t k))(?p := removeAll t (k_priority_table k ?p) @ [t])\<rparr>"
  have "sched_ok ?k" by (rule rotate_ok [OF thread_okD(1) [OF ok] cur(2)]) simp
  moreover have "t_stat (k_thread ?k t) = READY" using cur(2) by simp
  ultimately obtain k' where "rt_schedule ?k = Some k'" using rt_schedule_returns by blast
  then show ?thesis using cur
    by (cases "1 < length (k_priority_table k ?p)") (auto simp: rt_thread_yield_def Let_def dest: rt_schedule_frame)
qed

lemma sleep_ok:
  assumes ok: "thread_ok k" and t: "k_current k = Some t" "t_stat (k_thread k t) = READY"
    and r: "rt_thread_sleep tick k = Some k'"
  shows "thread_ok k'"
proof -
  obtain k1 where k1: "thread_timer_arm t tick (snd (rt_thread_suspend t k)) = Some k1" "rt_schedule k1 = Some k'"
    using r t by (auto simp: rt_thread_sleep_def Let_def split: Option.bind_splits)
  from thread_ok_schedule [OF arm_ok [OF suspend_ok(1,3) [OF ok t(2)] k1(1)] k1(2)] show ?thesis .
qed

abbreviation with_priority :: "u8 \<Rightarrow> thread \<Rightarrow> thread" where
  "with_priority p th \<equiv> th\<lparr>t_current_priority := p, t_number_mask := push_bit (unat p) 1\<rparr>"

lemma reprioritise_ok:
  assumes ok: "sched_ok k" and nr: "t_stat (k_thread k t) \<noteq> READY" and p: "p < 32"
  shows "sched_ok (upd_thread t (with_priority p) k)"
  unfolding sched_ok_def using nr p
  by (auto simp: sched_okD(1) [OF ok] sched_okD(2) [OF ok] sched_okD(4) [OF ok] sched_okD(9) [OF ok] prio_mask_def push_bit_of_1
    dest: sched_okD(3) [OF ok] sched_okD(5) [OF ok] sched_okD(6) [OF ok] sched_okD(7) [OF ok] sched_okD(8) [OF ok])

lemma change_priority_ok:
  assumes ok: "thread_ok k" and p: "p < 32"
  shows "thread_ok (change_priority t p k)"
proof -
  note sok = thread_okD(1) [OF ok]
  have "sched_ok (change_priority t p k)"
  proof (cases "t_stat (k_thread k t) = READY")
    case True
    let ?new = "upd_thread t (with_priority p) (rt_schedule_remove_thread t k)"
    have "sched_ok (set_stat SUSPEND t (rt_schedule_remove_thread t k))"
      by (rule remove_then_stat_ok [OF sok]) (simp_all add: True)
    then have "sched_ok (upd_thread t (with_priority p) (set_stat SUSPEND t (rt_schedule_remove_thread t k)))"
      by (rule reprioritise_ok [OF _ _ p]) simp
    moreover have "upd_thread t (with_priority p) (set_stat SUSPEND t (rt_schedule_remove_thread t k)) = set_stat SUSPEND t ?new"
      by (auto simp: fun_eq_iff intro!: kernel.equality thread.equality)
    ultimately have "sched_ok (set_stat SUSPEND t ?new)" by simp
    then show ?thesis using True by (simp add: change_priority_def insert_ok)
  next
    case False
    then show ?thesis using reprioritise_ok [OF sok False p] by (simp add: change_priority_def)
  qed
  then show ?thesis unfolding thread_ok_def using thread_okD(2-4) [OF ok]
    by (auto simp: change_priority_def active_def periodic_def Let_def)
qed

section \<open>Time-outs\<close>

lemma thread_ok_timer_removed: "thread_ok k \<Longrightarrow> thread_ok (timer_list_remove x k)"
  using sched_ok_same [of k "timer_list_remove x k"]
  unfolding thread_ok_def by (auto simp: same_sched_def active_def periodic_def)

lemma thread_ok_deactivate: "thread_ok k \<Longrightarrow> thread_ok (deactivate x k)"
  using sched_ok_same [of k "deactivate x k"]
  unfolding thread_ok_def by (auto simp: same_sched_def deactivate_def active_def periodic_def)

lemma timeout_wake:
  assumes ok: "thread_ok k" and s: "t_stat (k_thread k t) = SUSPEND"
  shows "sched_ok (rt_schedule_insert_thread t (tlist_remove t (upd_thread t (\<lambda>th. th\<lparr>t_error := - RT_ETIMEOUT\<rparr>) k)))"
  by (rule wake_ok [OF thread_okD(1) [OF ok]]) (simp_all add: s same_sched_def fun_eq_iff)

lemma timeout_ok:
  assumes ok: "thread_ok k" and x: "ThreadTimer t \<in> set (k_timer_list k)"
  shows "\<exists>k'. rt_thread_timeout t (timer_list_remove (ThreadTimer t) k) = Some k' \<and> k_timer k' = k_timer k
     \<and> k_timer_list k' = removeAll (ThreadTimer t) (k_timer_list k) \<and> k_tick k' = k_tick k
     \<and> thread_ok (deactivate (ThreadTimer t) k')"
proof -
  have s: "t_stat (k_thread k t) = SUSPEND" by (rule thread_okD(3) [OF ok x])
  let ?r = "timer_list_remove (ThreadTimer t) k"
  let ?w = "rt_schedule_insert_thread t (tlist_remove t (upd_thread t (\<lambda>th. th\<lparr>t_error := - RT_ETIMEOUT\<rparr>) ?r))"
  have "sched_ok ?w" using timeout_wake [OF thread_ok_timer_removed [OF ok]] s by simp
  moreover have "t_stat (k_thread ?w t) = READY" by simp
  ultimately obtain k' where k': "rt_schedule ?w = Some k'" "sched_ok k'"
    using rt_schedule_returns rt_schedule_ok by blast
  note frame = rt_schedule_frame [OF k'(1)]
  have "sched_ok (deactivate (ThreadTimer t) k')"
    by (rule sched_ok_same [OF _ k'(2)]) (simp add: same_sched_def deactivate_def)
  then have "thread_ok (deactivate (ThreadTimer t) k')"
    unfolding thread_ok_def using thread_okD(2-4) [OF ok] frame
    by (auto simp: deactivate_def active_def periodic_def split: if_splits)
  moreover have "rt_thread_timeout t ?r = Some k'"
    using k'(1) s by (simp add: rt_thread_timeout_def)
  ultimately show ?thesis using frame by (intro exI [of _ k']) simp
qed

text \<open>What the application's time-out functions promise: to return with the kernel in order.\<close>

locale app_timeouts =
  fixes app :: "nat \<Rightarrow> kernel \<Rightarrow> kernel option"
  assumes app_law: "thread_ok k \<Longrightarrow> \<exists>k'. app n k = Some k' \<and> k_timer k' = k_timer k
        \<and> k_timer_list k' = k_timer_list k \<and> k_tick k' = k_tick k \<and> thread_ok k'"

lemma start_app_timer_ok:
  assumes ok: "thread_ok k" and r: "rt_timer_start (AppTimer n) k = Some (e, k')"
  shows "thread_ok k'"
proof -
  have th: "k_thread k' = k_thread k" "same_sched k k'"
    and sub: "set (k_timer_list k') \<subseteq> insert (AppTimer n) (set (k_timer_list k))"
    and old: "\<And>t. k_timer k' (ThreadTimer t) = k_timer k (ThreadTimer t)"
    using r by (auto simp: rt_timer_start_def same_sched_def Let_def split: if_splits Option.bind_splits)
  have "sched_ok k'" by (rule sched_ok_same [OF th(2) thread_okD(1) [OF ok]])
  then show ?thesis unfolding thread_ok_def th(1)
    using thread_okD(2-4) [OF ok] sub active_cong [OF old] periodic_cong [OF old] by blast
qed

sublocale app_timeouts \<subseteq> timeout_functions "kernel_timeout app" thread_ok
proof
  fix k x assume k: "thread_ok k" "x \<in> set (k_timer_list k)"
  show "\<exists>k'. kernel_timeout app x (timer_list_remove x k) = Some k' \<and> k_timer k' = k_timer k
             \<and> k_timer_list k' = removeAll x (k_timer_list k) \<and> k_tick k' = k_tick k
             \<and> thread_ok (deactivate x k')"
  proof (cases x)
    case (ThreadTimer t)
    then show ?thesis using timeout_ok k by simp
  next
    case (AppTimer n)
    obtain k' where "app n (timer_list_remove x k) = Some k'" "k_timer k' = k_timer k"
        "k_timer_list k' = removeAll x (k_timer_list k)" "k_tick k' = k_tick k" "thread_ok k'"
      using app_law [OF thread_ok_timer_removed [OF k(1), of x], of n] by auto
    then show ?thesis using AppTimer thread_ok_deactivate by (intro exI [of _ k']) simp
  qed
next
  fix k x e k' assume k: "thread_ok k" "periodic k x" "rt_timer_start x k = Some (e, k')"
  then obtain n where "x = AppTimer n" using thread_okD(4) [OF k(1)] by (cases x) auto
  then show "thread_ok k'" using start_app_timer_ok k by simp
qed

text \<open>The recorder's firmware starts no timer of its own.\<close>

definition no_app_timers :: "nat \<Rightarrow> kernel \<Rightarrow> kernel option" where
  "no_app_timers n k = Some k"

interpretation vtdr_timers: app_timeouts no_app_timers
  by unfold_locales (simp add: no_app_timers_def)

lemma unat_succ_tick: "unat (w + 1 - w :: u32) = 1"
  by simp

section \<open>A thread that can run keeps running\<close>

definition running_ready :: "kernel \<Rightarrow> bool" where
  "running_ready k \<longleftrightarrow> (\<exists>c. k_current k = Some c \<and> t_stat (k_thread k c) = READY)"

lemma schedule_running_ready:
  assumes ok: "sched_ok k" and u: "t_stat (k_thread k u) = READY" and r: "running_ready k \<or> k_lock_nest k = 0"
    and s: "rt_schedule k = Some k'"
  shows "running_ready k'"
proof (cases "k_lock_nest k = 0")
  case True
  from rt_schedule_runs_highest [OF ok u True] s show ?thesis by (auto simp: runs_highest_def running_ready_def)
next
  case False
  then show ?thesis using rt_schedule_locked [OF False] s r by simp
qed

lemma yield_running_ready:
  assumes ok: "thread_ok k" and r: "running_ready k" and y: "rt_thread_yield k = Some (e, k')"
  shows "running_ready k'"
proof -
  obtain t where t: "k_current k = Some t" "t_stat (k_thread k t) = READY" using r by (auto simp: running_ready_def)
  let ?p = "unat (t_current_priority (k_thread k t))"
  let ?k = "(tlist_remove t k)\<lparr>k_priority_table := (k_priority_table (tlist_remove t k))(?p := removeAll t (k_priority_table k ?p) @ [t])\<rparr>"
  show ?thesis
  proof (cases "1 < length (k_priority_table k ?p)")
    case True
    then have "rt_schedule ?k = Some k'" using y t by (auto simp: rt_thread_yield_def Let_def split: Option.bind_splits)
    moreover have "sched_ok ?k" by (rule rotate_ok [OF thread_okD(1) [OF ok] t(2)]) simp
    moreover have "running_ready ?k" using t by (simp add: running_ready_def)
    moreover have "t_stat (k_thread ?k t) = READY" using t(2) by simp
    ultimately show ?thesis using schedule_running_ready by blast
  next
    case False
    then show ?thesis using y t r by (auto simp: rt_thread_yield_def Let_def)
  qed
qed

text \<open>The tick interrupt up to the check of the timers: the running thread may lose its turn.\<close>

lemma tick_start:
  assumes ok: "thread_ok k" and cur: "k_current k = Some t" "t_stat (k_thread k t) = READY"
  shows "\<exists>k1. rt_tick_increase app k = rt_timer_check (kernel_timeout app) k1 \<and> thread_ok k1
     \<and> k_timer k1 = k_timer k \<and> k_timer_list k1 = k_timer_list k \<and> k_tick k1 = k_tick k + 1 \<and> running_ready k1"
proof -
  let ?k = "upd_thread t (\<lambda>th. th\<lparr>t_remaining_tick := t_remaining_tick th - 1\<rparr>) (k\<lparr>k_tick := k_tick k + 1\<rparr>)"
  let ?y = "upd_thread t (\<lambda>th. th\<lparr>t_remaining_tick := t_init_tick th\<rparr>) ?k"
  have step: "rt_tick_increase app k = do {
      k \<leftarrow> (if t_remaining_tick (k_thread ?k t) = 0
                then do { (_, k) \<leftarrow> rt_thread_yield ?y; Some k }
                else Some ?k);
      rt_timer_check (kernel_timeout app) k }"
    using cur by (simp add: rt_tick_increase_def rt_thread_self_def Let_def)
  have oky: "thread_ok ?k" "thread_ok ?y"
    by (rule thread_ok_same [OF ok]; simp add: same_sched_def)+
  show ?thesis
  proof (cases "t_remaining_tick (k_thread ?k t) = 0")
    case True
    have "k_current ?y = Some t" "t_stat (k_thread ?y t) = READY" using cur by simp_all
    from yield_returns [OF oky(2) this] obtain k1 where k1: "rt_thread_yield ?y = Some (RT_EOK, k1)"
        "k_timer k1 = k_timer ?y" "k_timer_list k1 = k_timer_list ?y" "k_tick k1 = k_tick ?y" by blast
    moreover have "thread_ok k1" by (rule yield_ok [OF oky(2) k1(1)])
    moreover have "running_ready k1"
      by (rule yield_running_ready [OF oky(2) _ k1(1)]) (use cur in \<open>simp add: running_ready_def\<close>)
    moreover have "rt_tick_increase app k = rt_timer_check (kernel_timeout app) k1"
      unfolding step using True k1(1) by simp
    ultimately show ?thesis by (intro exI [of _ k1]) simp
  next
    case False
    then have "rt_tick_increase app k = rt_timer_check (kernel_timeout app) ?k" unfolding step by simp
    then show ?thesis using oky(1) cur by (intro exI [of _ ?k]) (simp add: running_ready_def)
  qed
qed

text \<open>One tick later the deadlines are still within reach of the old base, periodic ones after their restart too.\<close>

lemma tick_timers:
  assumes "timers_ok (k_tick k) k" and k1: "k_timer k1 = k_timer k" "k_timer_list k1 = k_timer_list k" "k_tick k1 = k_tick k + 1"
    and fit: "\<And>x. periodic k x \<Longrightarrow> 0 < tm_init_tick (k_timer k x) \<and> tm_init_tick (k_timer k x) < half_range - 1"
  shows "timers_ok (k_tick k) k1" "unat (k_tick k1 - k_tick k) < unat half_range" "periodic_fit (k_tick k) k1"
proof -
  show "unat (k_tick k1 - k_tick k) < unat half_range" unfolding k1(3) unat_succ_tick by simp
  show "timers_ok (k_tick k) k1" using assms(1) unfolding timers_ok_def active_def dist_def k1(1,2) .
  show "periodic_fit (k_tick k) k1" unfolding periodic_fit_def
  proof (intro allI impI)
    fix x assume "periodic k1 x"
    then have "periodic k x" using k1(1) by (simp add: periodic_def)
    then have i: "0 < tm_init_tick (k_timer k x)" "tm_init_tick (k_timer k x) < half_range - 1" using fit by auto
    then have lt: "unat (tm_init_tick (k_timer k x)) < 2147483646" by (simp add: word_less_nat_alt)
    have eq: "k_tick k1 + tm_init_tick (k_timer k1 x) - k_tick k = tm_init_tick (k_timer k x) + 1" unfolding k1(1,3) by simp
    have "unat (tm_init_tick (k_timer k x) + 1) = unat (tm_init_tick (k_timer k x)) + 1"
      using lt by (simp add: unat_word_ariths)
    then have "unat (k_tick k1 + tm_init_tick (k_timer k1 x) - k_tick k) < unat half_range" unfolding eq using lt by simp
    then show "0 < tm_init_tick (k_timer k1 x) \<and> tm_init_tick (k_timer k1 x) < half_range \<and>
        unat (k_tick k1 + tm_init_tick (k_timer k1 x) - k_tick k) < unat half_range"
      using i(1) lt unfolding k1(1) by (simp add: word_less_nat_alt)
  qed
qed

context app_timeouts
begin

lemma tick_ok:
  assumes ok: "thread_ok k" and timers: "timers_ok (k_tick k) k"
    and cur: "k_current k = Some t" "t_stat (k_thread k t) = READY"
    and fit: "\<And>x. periodic k x \<Longrightarrow> 0 < tm_init_tick (k_timer k x) \<and> tm_init_tick (k_timer k x) < half_range - 1"
  shows "\<exists>k'. rt_tick_increase app k = Some k' \<and> thread_ok k' \<and> k_tick k' = k_tick k + 1
     \<and> timers_ok (k_tick k') k' \<and> (\<forall>x\<in>set (k_timer_list k'). \<not> due (k_tick k') k' x)"
proof -
  from tick_start [OF ok cur] obtain k1 where k1: "rt_tick_increase app k = rt_timer_check (kernel_timeout app) k1"
    "thread_ok k1" "k_timer k1 = k_timer k" "k_timer_list k1 = k_timer_list k" "k_tick k1 = k_tick k + 1" by blast
  note t = tick_timers [OF timers k1(3-5) fit]
  from check_ok [OF k1(2) t] obtain k' where k': "rt_timer_check (kernel_timeout app) k1 = Some k'" "thread_ok k'"
      "timers_ok (k_tick k1) k'" "expired k1 k'" "\<forall>x\<in>set (k_timer_list k'). \<not> due (k_tick k1) k' x" by blast
  have "k_tick k' = k_tick k1" using k'(4) by (simp add: expired_def)
  then show ?thesis using k' k1(1,5) by (intro exI [of _ k']) simp
qed

end

end
