(* ===== verification/Rt_Ipc.thy ===== *)
theory Rt_Ipc
  imports Rt_Thread
begin

text \<open>
  What the inter-process communication objects share (\<open>src/ipc.c\<close>, the \<open>rt_ipc_list\<close> functions):
  a list of suspended threads kept in arrival order or by priority, waking its first thread, and
  waking all of them with an error. A call that waits ends its first half in \<open>Blocked\<close>, with the
  caller suspended and the scheduler having chosen another thread.
\<close>

datatype 'a call = Return 'a | Blocked

section \<open>Lists of suspended threads\<close>

fun prio_insert :: "(tid \<Rightarrow> u8) \<Rightarrow> tid \<Rightarrow> tid list \<Rightarrow> tid list" where
  "prio_insert prio t [] = [t]"
| "prio_insert prio t (s # ss) = (if prio t < prio s then t # s # ss else s # prio_insert prio t ss)"

definition rt_ipc_list_suspend :: "waitq \<Rightarrow> tid \<Rightarrow> u8 \<Rightarrow> kernel \<Rightarrow> kernel" where
  "rt_ipc_list_suspend w t flag k =
     (let k = snd (rt_thread_suspend t k) in
      if flag = RT_IPC_FLAG_FIFO then k\<lparr>k_wait := (k_wait k)(w := k_wait k w @ [t])\<rparr>
      else if flag = RT_IPC_FLAG_PRIO then
        k\<lparr>k_wait := (k_wait k)(w := prio_insert (\<lambda>u. t_current_priority (k_thread k u)) t (k_wait k w))\<rparr>
      else k)"

definition rt_ipc_list_resume :: "waitq \<Rightarrow> kernel \<Rightarrow> kernel option" where
  "rt_ipc_list_resume w k =
     (case k_wait k w of [] \<Rightarrow> None | t # _ \<Rightarrow> Some (snd (rt_thread_resume t k)))"

partial_function (option) rt_ipc_list_resume_all :: "waitq \<Rightarrow> kernel \<Rightarrow> kernel option" where
  "rt_ipc_list_resume_all w k =
     (case k_wait k w of
        [] \<Rightarrow> Some k
      | t # _ \<Rightarrow>
          rt_ipc_list_resume_all w
            (snd (rt_thread_resume t (upd_thread t (\<lambda>th. th\<lparr>t_error := - RT_ERROR\<rparr>) k))))"

lemma prio_insert_set [simp]: "set (prio_insert f t ts) = insert t (set ts)"
  by (induction ts) auto

lemma prio_insert_distinct: "t \<notin> set ts \<Longrightarrow> distinct ts \<Longrightarrow> distinct (prio_insert f t ts)"
  by (induction ts) auto

lemma prio_insert_sorted: "sorted (map f ts) \<Longrightarrow> sorted (map f (prio_insert f t ts))"
  by (induction ts) (auto simp: not_less)

text \<open>The new thread comes after all the threads of its own priority and above, before the others.\<close>

lemma prio_insert_split: "sorted (map f ts) \<Longrightarrow>
    prio_insert f t ts = filter (\<lambda>u. f u \<le> f t) ts @ t # filter (\<lambda>u. f t < f u) ts"
proof (induction ts)
  case Nil
  then show ?case by simp
next
  case (Cons s ss)
  show ?case
  proof (cases "f t < f s")
    case True
    then have "\<forall>u\<in>set ss. f t < f u" using Cons.prems by fastforce
    then have "filter (\<lambda>u. f u \<le> f t) ss = []" "filter (\<lambda>u. f t < f u) ss = ss"
      by (auto simp: filter_empty_conv filter_id_conv not_le)
    then show ?thesis using True by (simp add: not_le)
  next
    case False
    then show ?thesis using Cons by (simp add: not_less)
  qed
qed

text \<open>Where a suspended thread ends up: at the end, or by priority.\<close>

definition enqueued :: "u8 \<Rightarrow> kernel \<Rightarrow> tid \<Rightarrow> tid list \<Rightarrow> tid list" where
  "enqueued flag k t ts =
     (if flag = RT_IPC_FLAG_FIFO then ts @ [t]
      else prio_insert (\<lambda>u. t_current_priority (k_thread k u)) t ts)"

lemma set_enqueued [simp]: "set (enqueued flag k t ts) = insert t (set ts)"
  by (auto simp: enqueued_def)

lemma prio_insert_cong: "(\<And>u. u \<in> insert t (set ts) \<Longrightarrow> f u = g u) \<Longrightarrow> prio_insert f t ts = prio_insert g t ts"
  by (induction ts) auto

lemma ipc_suspend_wait:
  assumes ok: "thread_ok k" and r: "t_stat (k_thread k t) = READY" and f: "flag \<le> 1"
  shows "k_wait (rt_ipc_list_suspend w t flag k) = (k_wait k)(w := enqueued flag k t (k_wait k w))"
proof -
  have "flag = 0 \<or> flag = 1"
    using f by (metis One_nat_def le_less less_one unat_0 unat_1 word_le_nat_alt word_less_nat_alt word_unat_eq_iff)
  moreover have "k_wait (snd (rt_thread_suspend t k)) v = k_wait k v" for v
    by (rule suspend_wait [OF thread_okD(1) [OF ok] r])
  moreover have "t_current_priority (k_thread (snd (rt_thread_suspend t k)) u) = t_current_priority (k_thread k u)" for u
    by (simp add: rt_thread_suspend_def)
  ultimately show ?thesis
    by (auto simp: rt_ipc_list_suspend_def Let_def enqueued_def fun_eq_iff)
qed

lemma ipc_suspend_simps [simp]:
  "k_thread (rt_ipc_list_suspend w t flag k) = k_thread (snd (rt_thread_suspend t k))"
  "k_priority_table (rt_ipc_list_suspend w t flag k) = k_priority_table (snd (rt_thread_suspend t k))"
  "k_ready_group (rt_ipc_list_suspend w t flag k) = k_ready_group (snd (rt_thread_suspend t k))"
  "k_defunct (rt_ipc_list_suspend w t flag k) = k_defunct (snd (rt_thread_suspend t k))"
  "k_timer (rt_ipc_list_suspend w t flag k) = k_timer k"
  "k_timer_list (rt_ipc_list_suspend w t flag k) = k_timer_list k"
  "k_current (rt_ipc_list_suspend w t flag k) = k_current k"
  "k_tick (rt_ipc_list_suspend w t flag k) = k_tick k"
  "k_lock_nest (rt_ipc_list_suspend w t flag k) = k_lock_nest k"
  "k_interrupt_nest (rt_ipc_list_suspend w t flag k) = k_interrupt_nest k"
  "k_sem (rt_ipc_list_suspend w t flag k) = k_sem k"
  "k_mutex (rt_ipc_list_suspend w t flag k) = k_mutex k"
  "k_event (rt_ipc_list_suspend w t flag k) = k_event k"
  "k_mb (rt_ipc_list_suspend w t flag k) = k_mb k"
  "k_mq (rt_ipc_list_suspend w t flag k) = k_mq k"
  "k_mp (rt_ipc_list_suspend w t flag k) = k_mp k"
  by (simp_all add: rt_ipc_list_suspend_def Let_def)

lemma wait_list_extend:
  assumes ok: "sched_ok k" and s: "t_stat (k_thread k t) = SUSPEND" and l: "loose t k"
    and k': "k' = k\<lparr>k_wait := (k_wait k)(w := ts)\<rparr>" and ts: "set ts = insert t (set (k_wait k w))" "distinct ts"
  shows "sched_ok k'"
  using ok s l ts unfolding sched_ok_def k' loose_def by auto

lemma enqueued_distinct: "t \<notin> set ts \<Longrightarrow> distinct ts \<Longrightarrow> distinct (enqueued flag k t ts)"
  by (simp add: enqueued_def prio_insert_distinct)

lemma ipc_suspend_ok:
  assumes ok: "thread_ok k" and r: "t_stat (k_thread k t) = READY" and f: "flag \<le> 1"
  shows "thread_ok (rt_ipc_list_suspend w t flag k)"
    "t_stat (k_thread (rt_ipc_list_suspend w t flag k) t) = SUSPEND"
proof -
  let ?k = "snd (rt_thread_suspend t k)"
  note s = suspend_ok [OF ok r]
  note sw = suspend_wait [OF thread_okD(1) [OF ok] r]
  have tw: "t \<notin> set (k_wait k w)" using s(2) sw by (simp add: loose_def)
  have eq: "rt_ipc_list_suspend w t flag k = ?k\<lparr>k_wait := (k_wait ?k)(w := enqueued flag k t (k_wait k w))\<rparr>"
  proof (rule kernel.equality)
    show "k_wait (rt_ipc_list_suspend w t flag k) = k_wait (?k\<lparr>k_wait := (k_wait ?k)(w := enqueued flag k t (k_wait k w))\<rparr>)"
      using ipc_suspend_wait [OF ok r f, of w] sw by (simp add: fun_eq_iff)
  qed (simp_all add: rt_ipc_list_suspend_def Let_def)
  have "sched_ok (rt_ipc_list_suspend w t flag k)"
  proof (rule wait_list_extend [OF thread_okD(1) [OF s(1)] s(3) s(2) eq])
    show "set (enqueued flag k t (k_wait k w)) = insert t (set (k_wait ?k w))" using sw by simp
    show "distinct (enqueued flag k t (k_wait k w))"
      by (rule enqueued_distinct [OF tw sched_okD(4) [OF thread_okD(1) [OF ok]]])
  qed
  then show "thread_ok (rt_ipc_list_suspend w t flag k)"
    using thread_okD(2-4) [OF s(1)] unfolding thread_ok_def by (simp add: active_def periodic_def)
  show "t_stat (k_thread (rt_ipc_list_suspend w t flag k) t) = SUSPEND" using s(3) by simp
qed

text \<open>Setting fields the invariant does not read.\<close>

lemma thread_ok_error: "thread_ok k \<Longrightarrow> thread_ok (upd_thread t (\<lambda>th. th\<lparr>t_error := e\<rparr>) k)"
  by (rule thread_ok_same [of k]) (simp_all add: same_sched_def)

lemma resume_first:
  assumes ok: "thread_ok k" and w: "k_wait k w = t # ts"
  shows "rt_ipc_list_resume w k = Some (snd (rt_thread_resume t k))"
    "t_stat (k_thread k t) = SUSPEND"
    "thread_ok (snd (rt_thread_resume t k))"
    "t_stat (k_thread (snd (rt_thread_resume t k)) t) = READY"
    "k_wait (snd (rt_thread_resume t k)) = (k_wait k)(w := ts)"
proof -
  note sok = thread_okD(1) [OF ok]
  show s: "t_stat (k_thread k t) = SUSPEND" using sched_okD(3) [OF sok, of t w] w by simp
  show "rt_ipc_list_resume w k = Some (snd (rt_thread_resume t k))" using w by (simp add: rt_ipc_list_resume_def)
  show "thread_ok (snd (rt_thread_resume t k))" "t_stat (k_thread (snd (rt_thread_resume t k)) t) = READY"
    using resume_ok [OF ok s] by auto
  have "t \<notin> set ts" using sched_okD(4) [OF sok, of w] w by simp
  moreover have "t \<notin> set (k_wait k v)" if "v \<noteq> w" for v
    using sched_okD(5) [OF sok, of t v w] that w by auto
  ultimately show "k_wait (snd (rt_thread_resume t k)) = (k_wait k)(w := ts)"
    using w by (auto simp: fun_eq_iff resume_wait [OF s] removeAll_id)
qed

lemma resume_all_ok:
  assumes "thread_ok k"
  shows "\<exists>k'. rt_ipc_list_resume_all w k = Some k' \<and> thread_ok k' \<and> k_wait k' = (k_wait k)(w := [])
     \<and> k_current k' = k_current k \<and> k_lock_nest k' = k_lock_nest k \<and> k_interrupt_nest k' = k_interrupt_nest k
     \<and> k_tick k' = k_tick k
     \<and> k_sem k' = k_sem k \<and> k_mutex k' = k_mutex k \<and> k_event k' = k_event k
     \<and> k_mb k' = k_mb k \<and> k_mq k' = k_mq k \<and> k_mp k' = k_mp k
     \<and> (\<forall>t. k_thread k' t = (if t \<in> set (k_wait k w)
           then (k_thread k t)\<lparr>t_error := - RT_ERROR, t_stat := READY\<rparr> else k_thread k t))"
  using assms
proof (induction "k_wait k w" arbitrary: k)
  case Nil
  then show ?case by (subst rt_ipc_list_resume_all.simps) (auto simp: fun_eq_iff)
next
  case (Cons t ts)
  let ?e = "upd_thread t (\<lambda>th. th\<lparr>t_error := - RT_ERROR\<rparr>) k"
  let ?r = "snd (rt_thread_resume t ?e)"
  have e: "thread_ok ?e" "k_wait ?e w = t # ts" using thread_ok_error [OF Cons.prems] Cons.hyps(2) by simp_all
  note r = resume_first [OF e]
  have "ts = k_wait ?r w" by (simp add: r(5))
  from Cons.hyps(1) [OF this r(3)] obtain k' where
    k': "rt_ipc_list_resume_all w ?r = Some k'" "thread_ok k'" "k_wait k' = (k_wait ?r)(w := [])"
      "k_current k' = k_current ?r" "k_lock_nest k' = k_lock_nest ?r" "k_interrupt_nest k' = k_interrupt_nest ?r"
      "k_tick k' = k_tick ?r" "k_sem k' = k_sem ?r" "k_mutex k' = k_mutex ?r" "k_event k' = k_event ?r"
      "k_mb k' = k_mb ?r" "k_mq k' = k_mq ?r" "k_mp k' = k_mp ?r"
      "\<forall>u. k_thread k' u = (if u \<in> set (k_wait ?r w)
           then (k_thread ?r u)\<lparr>t_error := - RT_ERROR, t_stat := READY\<rparr> else k_thread ?r u)" by blast
  have tnts: "t \<notin> set ts"
    using sched_okD(4) [OF thread_okD(1) [OF Cons.prems], of w] unfolding Cons.hyps(2) [symmetric] by simp
  have "k_thread k' u = (if u \<in> set (k_wait k w)
           then (k_thread k u)\<lparr>t_error := - RT_ERROR, t_stat := READY\<rparr> else k_thread k u)" for u
  proof (cases "u = t")
    case True
    have "k_wait k w = t # ts" using Cons.hyps(2) by simp
    then show ?thesis using True k'(14) tnts r(2) by (simp add: r(5) resume_thread)
  next
    case False
    have "k_wait k w = t # ts" using Cons.hyps(2) by simp
    then show ?thesis using False k'(14) by (simp add: r(5))
  qed
  moreover have "rt_ipc_list_resume_all w k = Some k'"
    by (subst rt_ipc_list_resume_all.simps) (simp only: Cons.hyps(2) [symmetric] list.case k'(1))
  moreover have "k_wait k' = (k_wait k)(w := [])" using k'(3) by (simp add: r(5) fun_eq_iff)
  ultimately show ?case using k' by (intro exI [of _ k']) simp
qed

section \<open>Waiting\<close>

text \<open>
  The tail shared by the calls that wait: suspend the caller on a list, arm its timer when the
  waiting time is positive, and schedule.
\<close>

definition wait_on :: "waitq \<Rightarrow> tid \<Rightarrow> u8 \<Rightarrow> u32 \<Rightarrow> kernel \<Rightarrow> kernel option" where
  "wait_on w t flag time k =
     (let k = rt_ipc_list_suspend w t flag k in
      do { k \<leftarrow> (if 0 < sint time then thread_timer_arm t time k else Some k);
           rt_schedule k })"

text \<open>A waiting time that the timer accepts.\<close>

definition time_ok :: "u32 \<Rightarrow> bool" where
  "time_ok time \<longleftrightarrow> 0 < sint time \<longrightarrow> time < half_range"

lemma wait_on_ok:
  assumes ok: "thread_ok k" and r: "t_stat (k_thread k t) = READY" and f: "flag \<le> 1"
    and time: "time_ok time" and other: "t_stat (k_thread k u) = READY" "u \<noteq> t" and lock: "k_lock_nest k = 0"
  shows "\<exists>k'. wait_on w t flag time k = Some k' \<and> thread_ok k' \<and> runs_highest k'
     \<and> k_wait k' = (k_wait k)(w := enqueued flag k t (k_wait k w))
     \<and> k_thread k' = (k_thread k)(t := (k_thread k t)\<lparr>t_stat := SUSPEND\<rparr>)
     \<and> k_lock_nest k' = k_lock_nest k \<and> k_interrupt_nest k' = k_interrupt_nest k \<and> k_tick k' = k_tick k
     \<and> k_sem k' = k_sem k \<and> k_mutex k' = k_mutex k \<and> k_event k' = k_event k
     \<and> k_mb k' = k_mb k \<and> k_mq k' = k_mq k \<and> k_mp k' = k_mp k"
proof -
  let ?s = "rt_ipc_list_suspend w t flag k"
  note s = ipc_suspend_ok [OF ok r f, of w]
  have th: "k_thread ?s = (k_thread k)(t := (k_thread k t)\<lparr>t_stat := SUSPEND\<rparr>)"
    using r by (simp add: rt_thread_suspend_def fun_eq_iff)
  obtain k1 where k1: "(if 0 < sint time then thread_timer_arm t time ?s else Some ?s) = Some k1"
      "thread_ok k1" "k1 = ?s\<lparr>k_timer := k_timer k1, k_timer_list := k_timer_list k1\<rparr>"
  proof (cases "0 < sint time")
    case True
    then have "time < half_range" using time by (simp add: time_ok_def)
    then obtain k1 where "thread_timer_arm t time ?s = Some k1" using arm_returns [of time ?s t] by blast
    from that [OF _ arm_ok [OF s this] arm_frame(1) [OF this]] True this show ?thesis by simp
  next
    case False
    from that [OF _ s(1)] False show ?thesis by simp
  qed
  have k1s: "k_thread k1 = k_thread ?s" "k_wait k1 = k_wait ?s" "k_lock_nest k1 = k_lock_nest k"
    "k_interrupt_nest k1 = k_interrupt_nest k" "k_tick k1 = k_tick k" "k_sem k1 = k_sem k" "k_mutex k1 = k_mutex k"
    "k_event k1 = k_event k" "k_mb k1 = k_mb k" "k_mq k1 = k_mq k" "k_mp k1 = k_mp k"
    by (subst k1(3), simp)+
  have "t_stat (k_thread k1 u) = READY" using other by (simp add: k1s th)
  then obtain k' where k': "rt_schedule k1 = Some k'" "runs_highest k'"
    using rt_schedule_runs_highest [OF thread_okD(1) [OF k1(2)]] lock k1s(3) by auto
  note frame = rt_schedule_frame [OF k'(1)]
  have "wait_on w t flag time k = Some k'" using k1(1) k'(1) by (simp add: wait_on_def Let_def)
  moreover have "k_thread k' = (k_thread k)(t := (k_thread k t)\<lparr>t_stat := SUSPEND\<rparr>)"
    unfolding frame(1) k1s(1) th ..
  moreover have "k_wait k' = (k_wait k)(w := enqueued flag k t (k_wait k w))"
    unfolding frame(10) k1s(2) by (rule ipc_suspend_wait [OF ok r f])
  ultimately show ?thesis
    using k'(2) thread_ok_schedule [OF k1(2) k'(1)] by (intro exI [of _ k']) (simp add: frame k1s)
qed

section \<open>Calling\<close>

text \<open>The situation in which a thread calls: it runs, something else can run, nothing is locked.\<close>

definition calling :: "tid \<Rightarrow> kernel \<Rightarrow> bool" where
  "calling t k \<longleftrightarrow> thread_ok k \<and> k_current k = Some t \<and> t_stat (k_thread k t) = READY
     \<and> (\<exists>u. u \<noteq> t \<and> t_stat (k_thread k u) = READY) \<and> k_lock_nest k = 0 \<and> k_interrupt_nest k = 0"

lemma callingD:
  assumes "calling t k"
  shows "thread_ok k" "k_current k = Some t" "t_stat (k_thread k t) = READY" "k_lock_nest k = 0"
    "k_interrupt_nest k = 0" "rt_thread_self k = Some t" "not_in_interrupt k = Some ()"
  using assms by (auto simp: calling_def rt_thread_self_def not_in_interrupt_def)

text \<open>The caller blocks: what a call that waits leaves behind.\<close>

definition blocks_on :: "waitq \<Rightarrow> u8 \<Rightarrow> tid \<Rightarrow> kernel \<Rightarrow> kernel \<Rightarrow> bool" where
  "blocks_on w flag t k k' \<longleftrightarrow> thread_ok k' \<and> runs_highest k' \<and> k_current k' \<noteq> Some t
     \<and> t_stat (k_thread k' t) = SUSPEND
     \<and> k_wait k' = (k_wait k)(w := enqueued flag k t (k_wait k w))
     \<and> (\<forall>u. u \<noteq> t \<longrightarrow> k_thread k' u = k_thread k u)"

lemma call_blocks:
  assumes c: "calling t k" and f: "flag \<le> 1" and time: "time_ok time"
    and g: "\<And>th. t_stat (f th) = t_stat th \<and> t_current_priority (f th) = t_current_priority th
               \<and> t_number_mask (f th) = t_number_mask th"
  shows "\<exists>k'. wait_on w t flag time (upd_thread t f k) = Some k' \<and> blocks_on w flag t k k'
     \<and> t_error (k_thread k' t) = t_error (f (k_thread k t))
     \<and> t_event_set (k_thread k' t) = t_event_set (f (k_thread k t))
     \<and> t_event_info (k_thread k' t) = t_event_info (f (k_thread k t))
     \<and> k_lock_nest k' = 0 \<and> k_interrupt_nest k' = 0 \<and> k_tick k' = k_tick k
     \<and> k_sem k' = k_sem k \<and> k_mutex k' = k_mutex k \<and> k_event k' = k_event k
     \<and> k_mb k' = k_mb k \<and> k_mq k' = k_mq k \<and> k_mp k' = k_mp k"
proof -
  let ?e = "upd_thread t f k"
  have e: "thread_ok ?e"
    by (rule thread_ok_same [OF callingD(1) [OF c]]) (simp_all add: same_sched_def g)
  have r: "t_stat (k_thread ?e t) = READY" using callingD(3) [OF c] g by simp
  obtain u where u: "u \<noteq> t" "t_stat (k_thread k u) = READY" using c unfolding calling_def by blast
  then have u': "t_stat (k_thread ?e u) = READY" by simp
  have l: "k_lock_nest ?e = 0" using callingD(4) [OF c] by simp
  obtain k' where k': "wait_on w t flag time ?e = Some k'" "thread_ok k'" "runs_highest k'"
     "k_wait k' = (k_wait ?e)(w := enqueued flag ?e t (k_wait ?e w))"
     "k_thread k' = (k_thread ?e)(t := (k_thread ?e t)\<lparr>t_stat := SUSPEND\<rparr>)"
     "k_lock_nest k' = k_lock_nest ?e" "k_interrupt_nest k' = k_interrupt_nest ?e" "k_tick k' = k_tick ?e"
     "k_sem k' = k_sem ?e" "k_mutex k' = k_mutex ?e" "k_event k' = k_event ?e"
     "k_mb k' = k_mb ?e" "k_mq k' = k_mq ?e" "k_mp k' = k_mp ?e"
    using wait_on_ok [OF e r f time u' u(1) l, of w] by blast
  have "enqueued flag ?e t (k_wait k w) = enqueued flag k t (k_wait k w)"
    unfolding enqueued_def using g by (simp cong: prio_insert_cong) (rule impI, rule prio_insert_cong, simp)
  moreover have "k_current k' \<noteq> Some t"
    using k'(3,5) unfolding runs_highest_def by auto
  ultimately show ?thesis using k' callingD(4,5) [OF c]
    by (intro exI [of _ k']) (simp add: blocks_on_def)
qed

text \<open>Waking the first thread of a list and scheduling: the end of the calls that hand something over.\<close>

lemma wake_first:
  assumes ok: "thread_ok k" and l: "k_lock_nest k = 0" and w: "k_wait k w = t # ts"
  shows "\<exists>k'. do { k \<leftarrow> rt_ipc_list_resume w k; rt_schedule k } = Some k' \<and> thread_ok k' \<and> runs_highest k'
     \<and> k_wait k' = (k_wait k)(w := ts) \<and> k_thread k' = (k_thread k)(t := (k_thread k t)\<lparr>t_stat := READY\<rparr>)
     \<and> k_lock_nest k' = 0 \<and> k_interrupt_nest k' = k_interrupt_nest k \<and> k_tick k' = k_tick k
     \<and> k_sem k' = k_sem k \<and> k_mutex k' = k_mutex k \<and> k_event k' = k_event k
     \<and> k_mb k' = k_mb k \<and> k_mq k' = k_mq k \<and> k_mp k' = k_mp k"
proof -
  note r = resume_first [OF ok w]
  let ?r = "snd (rt_thread_resume t k)"
  have "k_lock_nest ?r = 0" using l by simp
  then obtain k' where k': "rt_schedule ?r = Some k'" "runs_highest k'"
    using rt_schedule_runs_highest [OF thread_okD(1) [OF r(3)] r(4)] by auto
  have "k_thread ?r = (k_thread k)(t := (k_thread k t)\<lparr>t_stat := READY\<rparr>)"
    using r(2) by (simp add: rt_thread_resume_def Let_def fun_eq_iff)
  then show ?thesis using k' r(1,5) l thread_ok_schedule [OF r(3) k'(1)]
    by (intro exI [of _ k']) (simp add: rt_schedule_frame [OF k'(1)])
qed

section \<open>Waiting in a loop\<close>

text \<open>
  A call that loops around its wait either ends, or waits with the locals \<open>timeout\<close> and
  \<open>tick_delta\<close> on the caller's stack.
\<close>

datatype 'a pending = Done 'a | Waiting u32 u32

text \<open>The time left after a wait that was ended by another thread.\<close>

definition time_left :: "u32 \<Rightarrow> u32 \<Rightarrow> u32 \<Rightarrow> u32" where
  "time_left timeout tick_delta tick =
     (if 0 < sint timeout
      then (let timeout = timeout - (tick - tick_delta) in if sint timeout < 0 then 0 else timeout)
      else timeout)"

text \<open>The time left after a wait that took less than half the range of the tick.\<close>

lemma sint_neg32: "sint (w::u32) < 0 \<longleftrightarrow> 2147483648 \<le> unat w"
proof -
  have "unat w < 4294967296" using unsigned_less [of w] by simp
  then have "odd (unat w div 2147483648) \<longleftrightarrow> 2147483648 \<le> unat w"
    by (cases "unat w < 2147483648") (auto simp: div_nat_eqI [where q = 1])
  moreover have "sint w < 0 \<longleftrightarrow> bit w 31" using bit_last_iff [of w] by simp
  moreover have "bit w 31 \<longleftrightarrow> bit (unat w) 31" by (simp add: bit_unsigned_iff)
  then have "bit w 31 \<longleftrightarrow> odd (unat w div 2147483648)" unfolding bit_iff_odd [of "unat w"] by simp
  ultimately show ?thesis by simp
qed

lemma time_left_exact:
  assumes time: "time_ok timeout" "0 < sint timeout" and d: "unat (tick - d) < 2147483648"
  shows "unat (time_left timeout d tick) = unat timeout - unat (tick - d)"
proof -
  let ?d = "tick - d"
  have t: "unat timeout < 2147483647" using time by (simp add: time_ok_def word_less_nat_alt)
  show ?thesis
  proof (cases "?d \<le> timeout")
    case True
    then have "unat (timeout - ?d) = unat timeout - unat ?d" by (simp add: unat_sub)
    moreover have "\<not> sint (timeout - ?d) < 0" unfolding sint_neg32 using calculation t by simp
    ultimately show ?thesis using time(2) by (simp add: time_left_def Let_def)
  next
    case False
    then have lt: "unat timeout < unat ?d" by (simp add: word_less_nat_alt not_le)
    have "unat (timeout - ?d) = unat timeout + 4294967296 - unat ?d"
      using lt by (simp add: unat_sub_if_size word_size not_le)
    then have "sint (timeout - ?d) < 0" unfolding sint_neg32 using d by simp
    then show ?thesis using time(2) lt by (simp add: time_left_def Let_def)
  qed
qed

end
