(* ===== verification/Rt_Sem.thy ===== *)
theory Rt_Sem
  imports Rt_Ipc
begin

text \<open>
  Semaphores (\<open>src/ipc.c\<close>, the \<open>rt_sem\<close> functions). A release with a thread waiting hands the
  semaphore over without touching the value; that is what \<open>sem_ok\<close> records: while the value is
  positive nobody waits.
\<close>

definition upd_sem :: "nat \<Rightarrow> (semaphore \<Rightarrow> semaphore) \<Rightarrow> kernel \<Rightarrow> kernel" where
  "upd_sem s f k = k\<lparr>k_sem := (k_sem k)(s := f (k_sem k s))\<rparr>"

lemma upd_sem_simps [simp]:
  "k_sem (upd_sem s f k) = (k_sem k)(s := f (k_sem k s))"
  "k_thread (upd_sem s f k) = k_thread k" "k_priority_table (upd_sem s f k) = k_priority_table k"
  "k_ready_group (upd_sem s f k) = k_ready_group k" "k_current (upd_sem s f k) = k_current k"
  "k_lock_nest (upd_sem s f k) = k_lock_nest k" "k_interrupt_nest (upd_sem s f k) = k_interrupt_nest k"
  "k_defunct (upd_sem s f k) = k_defunct k" "k_tick (upd_sem s f k) = k_tick k"
  "k_timer (upd_sem s f k) = k_timer k" "k_timer_list (upd_sem s f k) = k_timer_list k"
  "k_wait (upd_sem s f k) = k_wait k" "k_mutex (upd_sem s f k) = k_mutex k"
  "k_event (upd_sem s f k) = k_event k" "k_mb (upd_sem s f k) = k_mb k"
  "k_mq (upd_sem s f k) = k_mq k" "k_mp (upd_sem s f k) = k_mp k"
  by (simp_all add: upd_sem_def)

definition rt_sem_init :: "nat \<Rightarrow> u32 \<Rightarrow> u8 \<Rightarrow> kernel \<Rightarrow> int \<times> kernel" where
  "rt_sem_init s value flag k =
     (RT_EOK, upd_sem s (\<lambda>_. \<lparr>s_flag = flag, s_value = ucast value\<rparr>) (k\<lparr>k_wait := (k_wait k)(WSem s := [])\<rparr>))"

definition rt_sem_detach :: "nat \<Rightarrow> kernel \<Rightarrow> (int \<times> kernel) option" where
  "rt_sem_detach s k = do { k \<leftarrow> rt_ipc_list_resume_all (WSem s) k; Some (RT_EOK, k) }"

definition rt_sem_take :: "nat \<Rightarrow> u32 \<Rightarrow> kernel \<Rightarrow> (int call \<times> kernel) option" where
  "rt_sem_take s time k =
     (if 0 < s_value (k_sem k s)
      then Some (Return RT_EOK, upd_sem s (\<lambda>x. x\<lparr>s_value := s_value x - 1\<rparr>) k)
      else if time = 0 then Some (Return (- RT_ETIMEOUT), k)
      else do {
        not_in_interrupt k;
        t \<leftarrow> rt_thread_self k;
        let k = upd_thread t (\<lambda>th. th\<lparr>t_error := RT_EOK\<rparr>) k;
        k \<leftarrow> wait_on (WSem s) t (s_flag (k_sem k s)) time k;
        Some (Blocked, k) })"

definition rt_sem_take_resumed :: "tid \<Rightarrow> kernel \<Rightarrow> int" where
  "rt_sem_take_resumed t k =
     (if t_error (k_thread k t) \<noteq> RT_EOK then t_error (k_thread k t) else RT_EOK)"

definition rt_sem_trytake :: "nat \<Rightarrow> kernel \<Rightarrow> (int call \<times> kernel) option" where
  "rt_sem_trytake s k = rt_sem_take s 0 k"

definition rt_sem_release :: "nat \<Rightarrow> kernel \<Rightarrow> (int \<times> kernel) option" where
  "rt_sem_release s k =
     (if k_wait k (WSem s) \<noteq> []
      then do { k \<leftarrow> rt_ipc_list_resume (WSem s) k; k \<leftarrow> rt_schedule k; Some (RT_EOK, k) }
      else Some (RT_EOK, upd_sem s (\<lambda>x. x\<lparr>s_value := s_value x + 1\<rparr>) k))"

definition rt_sem_control :: "nat \<Rightarrow> u8 \<Rightarrow> u32 \<Rightarrow> kernel \<Rightarrow> (int \<times> kernel) option" where
  "rt_sem_control s cmd arg k =
     (if cmd = 1 then
        do { k \<leftarrow> rt_ipc_list_resume_all (WSem s) k;
             let k = upd_sem s (\<lambda>x. x\<lparr>s_value := ucast arg\<rparr>) k;
             k \<leftarrow> rt_schedule k;
             Some (RT_EOK, k) }
      else Some (- RT_ERROR, k))"

section \<open>Behaviour\<close>

definition sem_ok :: "kernel \<Rightarrow> bool" where
  "sem_ok k \<longleftrightarrow> (\<forall>s. s_value (k_sem k s) \<noteq> 0 \<longrightarrow> k_wait k (WSem s) = [])"

lemma thread_ok_upd_sem [simp]: "thread_ok k \<Longrightarrow> thread_ok (upd_sem s f k)"
  by (rule thread_ok_same [of k]) (simp_all add: same_sched_def)

lemma sem_take_blocks:
  assumes c: "calling t k" and f: "s_flag (k_sem k s) \<le> 1" and time: "time_ok time" "time \<noteq> 0"
    and v: "s_value (k_sem k s) = 0"
  shows "\<exists>k'. rt_sem_take s time k = Some (Blocked, k') \<and> blocks_on (WSem s) (s_flag (k_sem k s)) t k k'
     \<and> k_sem k' = k_sem k \<and> t_error (k_thread k' t) = RT_EOK"
proof -
  let ?f = "\<lambda>th. th\<lparr>t_error := RT_EOK\<rparr>"
  obtain k' where "wait_on (WSem s) t (s_flag (k_sem k s)) time (upd_thread t ?f k) = Some k'"
      "blocks_on (WSem s) (s_flag (k_sem k s)) t k k'" "k_sem k' = k_sem k" "t_error (k_thread k' t) = t_error (?f (k_thread k t))"
    using call_blocks [OF c f time(1), of ?f "WSem s"] by auto
  then show ?thesis using time(2) v callingD(6,7) [OF c]
    by (intro exI [of _ k']) (simp add: rt_sem_take_def)
qed

lemma sem_release_cases:
  assumes ok: "thread_ok k" and l: "k_lock_nest k = 0"
  shows "k_wait k (WSem s) = [] \<Longrightarrow> rt_sem_release s k = Some (RT_EOK, upd_sem s (\<lambda>x. x\<lparr>s_value := s_value x + 1\<rparr>) k)"
    and "k_wait k (WSem s) = u # us \<Longrightarrow> \<exists>k'. rt_sem_release s k = Some (RT_EOK, k') \<and> thread_ok k' \<and> runs_highest k'
       \<and> k_wait k' = (k_wait k)(WSem s := us) \<and> k_thread k' = (k_thread k)(u := (k_thread k u)\<lparr>t_stat := READY\<rparr>)
       \<and> k_sem k' = k_sem k"
proof -
  show "k_wait k (WSem s) = [] \<Longrightarrow> rt_sem_release s k = Some (RT_EOK, upd_sem s (\<lambda>x. x\<lparr>s_value := s_value x + 1\<rparr>) k)"
    by (simp add: rt_sem_release_def)
  assume w: "k_wait k (WSem s) = u # us"
  from wake_first [OF ok l w] obtain k' where "do { k \<leftarrow> rt_ipc_list_resume (WSem s) k; rt_schedule k } = Some k'"
    "thread_ok k'" "runs_highest k'" "k_wait k' = (k_wait k)(WSem s := us)"
    "k_thread k' = (k_thread k)(u := (k_thread k u)\<lparr>t_stat := READY\<rparr>)" "k_sem k' = k_sem k" by blast
  moreover from this have "rt_sem_release s k = Some (RT_EOK, k')"
    using w by (auto simp: rt_sem_release_def split: Option.bind_splits)
  ultimately show "\<exists>k'. rt_sem_release s k = Some (RT_EOK, k') \<and> thread_ok k' \<and> runs_highest k'
       \<and> k_wait k' = (k_wait k)(WSem s := us) \<and> k_thread k' = (k_thread k)(u := (k_thread k u)\<lparr>t_stat := READY\<rparr>)
       \<and> k_sem k' = k_sem k" by blast
qed

end
