(* ===== verification/Rt_Fifo.thy ===== *)
theory Rt_Fifo
  imports Vtdr_Prelude
begin

text \<open>
  The contract of a bounded first-in first-out queue, as the users of mailboxes and message queues
  rely on it, and what follows from it for every sequence of operations.
\<close>

datatype 'm queue_op = Put 'm | Get

locale bounded_fifo =
  fixes ok :: "'s \<Rightarrow> bool" and content :: "'s \<Rightarrow> 'm list" and cap :: "'s \<Rightarrow> nat"
    and fits :: "'m \<Rightarrow> 's \<Rightarrow> bool" and put :: "'m \<Rightarrow> 's \<Rightarrow> 's" and get :: "'s \<Rightarrow> 'm \<times> 's"
  assumes bounded: "ok s \<Longrightarrow> length (content s) \<le> cap s"
    and put_law: "\<lbrakk>ok s; length (content s) < cap s; fits x s\<rbrakk> \<Longrightarrow>
          ok (put x s) \<and> content (put x s) = content s @ [x] \<and> cap (put x s) = cap s"
    and get_law: "\<lbrakk>ok s; content s = x # xs\<rbrakk> \<Longrightarrow>
          fst (get s) = x \<and> ok (snd (get s)) \<and> content (snd (get s)) = xs \<and> cap (snd (get s)) = cap s"
begin

text \<open>
  A run of operations, each enabled when it happens: what was put in, what came out, where it ends.
\<close>

fun run :: "'m queue_op list \<Rightarrow> 's \<Rightarrow> ('m list \<times> 'm list \<times> 's) option" where
  "run [] s = Some ([], [], s)"
| "run (Put x # ops) s =
     (if length (content s) < cap s \<and> fits x s
      then map_option (\<lambda>(i, out, s'). (x # i, out, s')) (run ops (put x s)) else None)"
| "run (Get # ops) s =
     (if content s \<noteq> []
      then map_option (\<lambda>(i, out, s'). (i, fst (get s) # out, s')) (run ops (snd (get s))) else None)"

lemma fifo_order:
  "ok s \<Longrightarrow> run ops s = Some (ins, outs, s') \<Longrightarrow> ok s' \<and> cap s' = cap s \<and> outs @ content s' = content s @ ins"
proof (induction ops s arbitrary: ins outs s' rule: run.induct)
  case (1 s)
  then show ?case by simp
next
  case (2 x ops s)
  then show ?case using put_law [of s x] by (auto split: if_splits)
next
  case (3 ops s)
  then obtain y ys where c: "content s = y # ys" by (cases "content s") auto
  from get_law [OF 3(2) c] 3 c show ?case by (auto split: if_splits)
qed

text \<open>Nothing is lost, made up or reordered: what has come out is a prefix of what went in.\<close>

lemma out_prefix:
  assumes "ok s" "content s = []" "run ops s = Some (ins, outs, s')"
  shows "outs = take (length outs) ins" "content s' = drop (length outs) ins" "length ins \<le> length outs + cap s"
proof -
  have f: "outs @ content s' = ins" "ok s'" "cap s' = cap s"
    using fifo_order [OF assms(1,3)] assms(2) by simp_all
  then show "outs = take (length outs) ins" "content s' = drop (length outs) ins" by auto
  show "length ins \<le> length outs + cap s" using bounded [OF f(2)] f(3) f(1) [symmetric] by simp
qed

end

text \<open>A queue in which a message can also be put in front of all others.\<close>

locale urgent_fifo = bounded_fifo +
  fixes push :: "'b \<Rightarrow> 'a \<Rightarrow> 'a"
  assumes push_law: "\<lbrakk>ok s; length (content s) < cap s; fits x s\<rbrakk> \<Longrightarrow>
          ok (push x s) \<and> content (push x s) = x # content s \<and> cap (push x s) = cap s"
begin

lemma push_then_get:
  assumes "ok s" "length (content s) < cap s" "fits x s"
  shows "fst (get (push x s)) = x" "content (snd (get (push x s))) = content s"
  using get_law [of "push x s" x "content s"] push_law [OF assms] by simp_all

end

end
