(* ===== verification/Rt_Mailbox.thy ===== *)
theory Rt_Mailbox
  imports Rt_Sem Rt_Fifo
begin

text \<open>
  Mailboxes (\<open>src/ipc.c\<close>, the \<open>rt_mb\<close> functions): a ring buffer of words with a list of waiting
  receivers and one of waiting senders. A thread that was woken finds out itself whether there is
  room or mail now, and goes on waiting for the rest of its time if not.
\<close>

section \<open>The ring buffer\<close>

definition mb_put :: "u32 \<Rightarrow> mailbox \<Rightarrow> mailbox" where
  "mb_put value m =
     (let m = m\<lparr>b_msg_pool := (b_msg_pool m)[unat (b_in_offset m) := value]\<rparr>;
          m = m\<lparr>b_in_offset := b_in_offset m + 1\<rparr>;
          m = (if b_in_offset m \<ge> b_size m then m\<lparr>b_in_offset := 0\<rparr> else m)
      in m\<lparr>b_entry := b_entry m + 1\<rparr>)"

definition mb_get :: "mailbox \<Rightarrow> u32 \<times> mailbox" where
  "mb_get m =
     (let value = b_msg_pool m ! unat (b_out_offset m);
          m = m\<lparr>b_out_offset := b_out_offset m + 1\<rparr>;
          m = (if b_out_offset m \<ge> b_size m then m\<lparr>b_out_offset := 0\<rparr> else m)
      in (value, m\<lparr>b_entry := b_entry m - 1\<rparr>))"

definition mb_ok :: "mailbox \<Rightarrow> bool" where
  "mb_ok m \<longleftrightarrow> 0 < unat (b_size m) \<and> length (b_msg_pool m) = unat (b_size m)
     \<and> unat (b_out_offset m) < unat (b_size m) \<and> unat (b_entry m) \<le> unat (b_size m)
     \<and> unat (b_in_offset m) = (unat (b_out_offset m) + unat (b_entry m)) mod unat (b_size m)"

definition mb_content :: "mailbox \<Rightarrow> u32 list" where
  "mb_content m = map (\<lambda>i. b_msg_pool m ! ((unat (b_out_offset m) + i) mod unat (b_size m))) [0..<unat (b_entry m)]"

definition mb_cap :: "mailbox \<Rightarrow> nat" where
  "mb_cap m = unat (b_size m)"

lemma length_mb_content [simp]: "length (mb_content m) = unat (b_entry m)"
  by (simp add: mb_content_def)

lemma ring_next:
  fixes off size :: u16
  assumes "unat off < unat size"
  shows "unat (if off + 1 \<ge> size then 0 else off + 1) = (unat off + 1) mod unat size"
proof -
  have "unat size < 65536" using unsigned_less [of size] by simp
  then have u: "unat (off + 1) = unat off + 1" using assms by (simp add: unat_word_ariths)
  show ?thesis
  proof (cases "unat off + 1 = unat size")
    case True
    then show ?thesis using u by (simp add: word_le_nat_alt)
  next
    case False
    then show ?thesis using u assms by (simp add: word_le_nat_alt)
  qed
qed

lemma mb_put_fields:
  assumes "mb_ok m"
  shows "b_msg_pool (mb_put x m) = (b_msg_pool m)[unat (b_in_offset m) := x]"
    "unat (b_in_offset (mb_put x m)) = (unat (b_in_offset m) + 1) mod unat (b_size m)"
    "b_size (mb_put x m) = b_size m" "b_out_offset (mb_put x m) = b_out_offset m" "b_flag (mb_put x m) = b_flag m"
    "b_entry (mb_put x m) = b_entry m + 1"
proof -
  have "unat (b_in_offset m) < unat (b_size m)" using assms by (simp add: mb_ok_def)
  from ring_next [OF this]
  show "unat (b_in_offset (mb_put x m)) = (unat (b_in_offset m) + 1) mod unat (b_size m)"
    by (simp add: mb_put_def Let_def split: if_splits)
qed (simp_all add: mb_put_def Let_def)

lemma mb_get_fields:
  assumes "mb_ok m"
  shows "fst (mb_get m) = b_msg_pool m ! unat (b_out_offset m)"
    "b_msg_pool (snd (mb_get m)) = b_msg_pool m"
    "unat (b_out_offset (snd (mb_get m))) = (unat (b_out_offset m) + 1) mod unat (b_size m)"
    "b_size (snd (mb_get m)) = b_size m" "b_in_offset (snd (mb_get m)) = b_in_offset m"
    "b_flag (snd (mb_get m)) = b_flag m" "b_entry (snd (mb_get m)) = b_entry m - 1"
proof -
  have "unat (b_out_offset m) < unat (b_size m)" using assms by (simp add: mb_ok_def)
  from ring_next [OF this]
  show "unat (b_out_offset (snd (mb_get m))) = (unat (b_out_offset m) + 1) mod unat (b_size m)"
    by (simp add: mb_get_def Let_def split: if_splits)
qed (simp_all add: mb_get_def Let_def)

lemma unat_succ16:
  assumes "unat (e::u16) < unat (s::u16)"
  shows "unat (e + 1) = unat e + 1"
proof -
  have "unat s < 65536" using unsigned_less [of s] by simp
  then show ?thesis using assms by (simp add: unat_word_ariths)
qed

lemma unat_pred16: "unat (e::u16) \<noteq> 0 \<Longrightarrow> unat (e - 1) = unat e - 1"
  by (metis One_nat_def Suc_leI neq0_conv unat_1 unat_sub word_le_nat_alt)

lemma mb_put_ok:
  assumes ok: "mb_ok m" and room: "unat (b_entry m) < unat (b_size m)"
  shows "mb_ok (mb_put x m)" "mb_content (mb_put x m) = mb_content m @ [x]"
proof -
  note f = mb_put_fields [OF ok]
  have e: "unat (b_entry m + 1) = unat (b_entry m) + 1" by (rule unat_succ16 [OF room])
  let ?n = "unat (b_size m)" and ?o = "unat (b_out_offset m)" and ?e = "unat (b_entry m)"
  have inn: "unat (b_in_offset m) = (?o + ?e) mod ?n" and n: "0 < ?n" "length (b_msg_pool m) = ?n" "?o < ?n"
    using ok by (simp_all add: mb_ok_def)
  show "mb_ok (mb_put x m)"
    using ok room unfolding mb_ok_def f e by (simp add: mod_Suc_eq)
  have "b_msg_pool (mb_put x m) ! ((?o + i) mod ?n) = b_msg_pool m ! ((?o + i) mod ?n)" if "i < ?e" for i
  proof -
    have "(?o + i) mod ?n \<noteq> (?o + ?e) mod ?n"
    proof
      assume "(?o + i) mod ?n = (?o + ?e) mod ?n"
      then have "?n dvd (?o + ?e) - (?o + i)" by (rule mod_eq_dvd_iff_nat [THEN iffD1, rotated, OF sym]) (use that in simp)
      then have "?n dvd ?e - i" by simp
      then show False using that room by (meson dvd_imp_le leD less_imp_diff_less zero_less_diff)
    qed
    then show ?thesis by (simp add: f inn)
  qed
  moreover have "b_msg_pool (mb_put x m) ! ((?o + ?e) mod ?n) = x" using n by (simp add: f inn)
  ultimately show "mb_content (mb_put x m) = mb_content m @ [x]"
    unfolding mb_content_def f(3,4) f(6) e by simp
qed

lemma mb_get_ok:
  assumes ok: "mb_ok m" and c: "mb_content m = x # xs"
  shows "fst (mb_get m) = x" "mb_ok (snd (mb_get m))" "mb_content (snd (mb_get m)) = xs"
proof -
  note f = mb_get_fields [OF ok]
  let ?n = "unat (b_size m)" and ?o = "unat (b_out_offset m)" and ?e = "unat (b_entry m)"
  have "length (mb_content m) \<noteq> 0" using c by simp
  then have e0: "?e \<noteq> 0" by simp
  then obtain e' where e': "?e = Suc e'" using not0_implies_Suc by blast
  have e: "unat (b_entry m - 1) = e'" using unat_pred16 [OF e0] e' by simp
  have n: "0 < ?n" "?o < ?n" "unat (b_in_offset m) = (?o + ?e) mod ?n" "?e \<le> ?n" using ok by (simp_all add: mb_ok_def)
  have split: "mb_content m = b_msg_pool m ! ?o # map (\<lambda>i. b_msg_pool m ! ((?o + Suc i) mod ?n)) [0..<e']"
    unfolding mb_content_def e' by (simp add: upt_conv_Cons map_Suc_upt [symmetric] n(2) del: upt_Suc)
  show "fst (mb_get m) = x" using split c f(1) by simp
  show "mb_ok (snd (mb_get m))"
    using ok e' unfolding mb_ok_def f e by (simp add: mod_add_left_eq)
  have "mb_content (snd (mb_get m)) = map (\<lambda>i. b_msg_pool m ! ((?o + Suc i) mod ?n)) [0..<e']"
    unfolding mb_content_def f(2-4) f(7) e by (simp add: mod_add_left_eq)
  then show "mb_content (snd (mb_get m)) = xs" using split c by simp
qed

interpretation mb_fifo: bounded_fifo mb_ok mb_content mb_cap "\<lambda>_ _. True" mb_put mb_get
proof
  show "length (mb_content s) \<le> mb_cap s" if "mb_ok s" for s
    using that by (simp add: mb_ok_def mb_cap_def)
  show "mb_ok (mb_put x s) \<and> mb_content (mb_put x s) = mb_content s @ [x] \<and> mb_cap (mb_put x s) = mb_cap s"
    if "mb_ok s" "length (mb_content s) < mb_cap s" "True" for s x
    using mb_put_ok [of s x] mb_put_fields(3) [of s x] that by (simp add: mb_cap_def)
  show "fst (mb_get s) = x \<and> mb_ok (snd (mb_get s)) \<and> mb_content (snd (mb_get s)) = xs \<and> mb_cap (snd (mb_get s)) = mb_cap s"
    if "mb_ok s" "mb_content s = x # xs" for s x xs
    using mb_get_ok [OF that] mb_get_fields(4) [of s] that by (simp add: mb_cap_def)
qed

section \<open>The calls\<close>

definition upd_mb :: "nat \<Rightarrow> (mailbox \<Rightarrow> mailbox) \<Rightarrow> kernel \<Rightarrow> kernel" where
  "upd_mb m f k = k\<lparr>k_mb := (k_mb k)(m := f (k_mb k m))\<rparr>"

lemma upd_mb_simps [simp]:
  "k_mb (upd_mb m f k) = (k_mb k)(m := f (k_mb k m))"
  "k_thread (upd_mb m f k) = k_thread k"
  "k_priority_table (upd_mb m f k) = k_priority_table k"
  "k_ready_group (upd_mb m f k) = k_ready_group k"
  "k_current (upd_mb m f k) = k_current k"
  "k_lock_nest (upd_mb m f k) = k_lock_nest k"
  "k_interrupt_nest (upd_mb m f k) = k_interrupt_nest k"
  "k_defunct (upd_mb m f k) = k_defunct k"
  "k_tick (upd_mb m f k) = k_tick k"
  "k_timer (upd_mb m f k) = k_timer k"
  "k_timer_list (upd_mb m f k) = k_timer_list k"
  "k_wait (upd_mb m f k) = k_wait k"
  "k_sem (upd_mb m f k) = k_sem k"
  "k_mutex (upd_mb m f k) = k_mutex k"
  "k_event (upd_mb m f k) = k_event k"
  "k_mq (upd_mb m f k) = k_mq k"
  "k_mp (upd_mb m f k) = k_mp k"
  by (simp_all add: upd_mb_def)

definition rt_mb_init :: "nat \<Rightarrow> u32 list \<Rightarrow> u32 \<Rightarrow> u8 \<Rightarrow> kernel \<Rightarrow> int \<times> kernel" where
  "rt_mb_init m msgpool sz flag k =
     (RT_EOK,
      upd_mb m (\<lambda>_. \<lparr>b_flag = flag, b_msg_pool = msgpool, b_size = ucast sz, b_entry = 0, b_in_offset = 0, b_out_offset = 0\<rparr>)
        (k\<lparr>k_wait := (k_wait k)(WMbRecv m := [], WMbSend m := [])\<rparr>))"

definition rt_mb_detach :: "nat \<Rightarrow> kernel \<Rightarrow> (int \<times> kernel) option" where
  "rt_mb_detach m k =
     do { k \<leftarrow> rt_ipc_list_resume_all (WMbRecv m) k;
          k \<leftarrow> rt_ipc_list_resume_all (WMbSend m) k;
          Some (RT_EOK, k) }"

text \<open>\<open>rt_mb_send_wait\<close> from the head of its loop: one round ends in a result or in a wait.\<close>

definition mb_send_finish :: "nat \<Rightarrow> u32 \<Rightarrow> kernel \<Rightarrow> (int pending \<times> kernel) option" where
  "mb_send_finish m value k =
     (let k = upd_mb m (mb_put value) k in
      if k_wait k (WMbRecv m) \<noteq> []
      then do { k \<leftarrow> rt_ipc_list_resume (WMbRecv m) k; k \<leftarrow> rt_schedule k; Some (Done RT_EOK, k) }
      else Some (Done RT_EOK, k))"

definition mb_send_loop :: "nat \<Rightarrow> u32 \<Rightarrow> tid option \<Rightarrow> u32 \<Rightarrow> u32 \<Rightarrow> kernel \<Rightarrow> (int pending \<times> kernel) option" where
  "mb_send_loop m value thread timeout tick_delta k =
     (if b_entry (k_mb k m) = b_size (k_mb k m) then do {
        t \<leftarrow> thread;
        let k = upd_thread t (\<lambda>th. th\<lparr>t_error := RT_EOK\<rparr>) k;
        if timeout = 0 then Some (Done (- RT_EFULL), k)
        else do {
          not_in_interrupt k;
          let tick_delta = (if 0 < sint timeout then k_tick k else tick_delta);
          k \<leftarrow> wait_on (WMbSend m) t (b_flag (k_mb k m)) timeout k;
          Some (Waiting timeout tick_delta, k) } }
      else mb_send_finish m value k)"

definition rt_mb_send_wait :: "nat \<Rightarrow> u32 \<Rightarrow> u32 \<Rightarrow> kernel \<Rightarrow> (int pending \<times> kernel) option" where
  "rt_mb_send_wait m value timeout k =
     (if b_entry (k_mb k m) = b_size (k_mb k m) \<and> timeout = 0 then Some (Done (- RT_EFULL), k)
      else mb_send_loop m value (rt_thread_self k) timeout 0 k)"

definition rt_mb_send_wait_resumed :: "nat \<Rightarrow> u32 \<Rightarrow> tid \<Rightarrow> u32 \<Rightarrow> u32 \<Rightarrow> kernel \<Rightarrow> (int pending \<times> kernel) option" where
  "rt_mb_send_wait_resumed m value t timeout tick_delta k =
     (if t_error (k_thread k t) \<noteq> RT_EOK then Some (Done (t_error (k_thread k t)), k)
      else mb_send_loop m value (Some t) (time_left timeout tick_delta (k_tick k))
             (if 0 < sint timeout then k_tick k - tick_delta else tick_delta) k)"

definition rt_mb_send :: "nat \<Rightarrow> u32 \<Rightarrow> kernel \<Rightarrow> (int pending \<times> kernel) option" where
  "rt_mb_send m value k = rt_mb_send_wait m value 0 k"

text \<open>\<open>rt_mb_recv\<close>: the result carries what was stored through \<open>value\<close>.\<close>

definition mb_recv_finish :: "nat \<Rightarrow> kernel \<Rightarrow> ((int \<times> u32 option) pending \<times> kernel) option" where
  "mb_recv_finish m k =
     (let (value, mb) = mb_get (k_mb k m); k = upd_mb m (\<lambda>_. mb) k in
      if k_wait k (WMbSend m) \<noteq> []
      then do { k \<leftarrow> rt_ipc_list_resume (WMbSend m) k; k \<leftarrow> rt_schedule k; Some (Done (RT_EOK, Some value), k) }
      else Some (Done (RT_EOK, Some value), k))"

definition mb_recv_loop :: "nat \<Rightarrow> tid option \<Rightarrow> u32 \<Rightarrow> u32 \<Rightarrow> kernel \<Rightarrow> ((int \<times> u32 option) pending \<times> kernel) option" where
  "mb_recv_loop m thread timeout tick_delta k =
     (if b_entry (k_mb k m) = 0 then do {
        t \<leftarrow> thread;
        let k = upd_thread t (\<lambda>th. th\<lparr>t_error := RT_EOK\<rparr>) k;
        if timeout = 0
        then Some (Done (- RT_ETIMEOUT, None), upd_thread t (\<lambda>th. th\<lparr>t_error := - RT_ETIMEOUT\<rparr>) k)
        else do {
          not_in_interrupt k;
          let tick_delta = (if 0 < sint timeout then k_tick k else tick_delta);
          k \<leftarrow> wait_on (WMbRecv m) t (b_flag (k_mb k m)) timeout k;
          Some (Waiting timeout tick_delta, k) } }
      else mb_recv_finish m k)"

definition rt_mb_recv :: "nat \<Rightarrow> u32 \<Rightarrow> kernel \<Rightarrow> ((int \<times> u32 option) pending \<times> kernel) option" where
  "rt_mb_recv m timeout k =
     (if b_entry (k_mb k m) = 0 \<and> timeout = 0 then Some (Done (- RT_ETIMEOUT, None), k)
      else mb_recv_loop m (rt_thread_self k) timeout 0 k)"

definition rt_mb_recv_resumed :: "nat \<Rightarrow> tid \<Rightarrow> u32 \<Rightarrow> u32 \<Rightarrow> kernel \<Rightarrow> ((int \<times> u32 option) pending \<times> kernel) option" where
  "rt_mb_recv_resumed m t timeout tick_delta k =
     (if t_error (k_thread k t) \<noteq> RT_EOK then Some (Done (t_error (k_thread k t), None), k)
      else mb_recv_loop m (Some t) (time_left timeout tick_delta (k_tick k))
             (if 0 < sint timeout then k_tick k - tick_delta else tick_delta) k)"

definition rt_mb_control :: "nat \<Rightarrow> u8 \<Rightarrow> kernel \<Rightarrow> (int \<times> kernel) option" where
  "rt_mb_control m cmd k =
     (if cmd = 1 then
        do { k \<leftarrow> rt_ipc_list_resume_all (WMbRecv m) k;
             k \<leftarrow> rt_ipc_list_resume_all (WMbSend m) k;
             let k = upd_mb m (\<lambda>b. b\<lparr>b_entry := 0, b_in_offset := 0, b_out_offset := 0\<rparr>) k;
             k \<leftarrow> rt_schedule k;
             Some (RT_EOK, k) }
      else Some (- RT_ERROR, k))"

section \<open>Behaviour\<close>

lemma thread_ok_upd_mb [simp]: "thread_ok k \<Longrightarrow> thread_ok (upd_mb s f k)"
  by (rule thread_ok_same [of k]) (simp_all add: same_sched_def)

lemma mb_init_ok:
  assumes "length pool = unat (ucast sz :: u16)" "0 < unat (ucast sz :: u16)"
  shows "mb_ok (k_mb (snd (rt_mb_init m pool sz flag k)) m)"
    "mb_content (k_mb (snd (rt_mb_init m pool sz flag k)) m) = []"
  using assms by (simp_all add: rt_mb_init_def mb_ok_def mb_content_def)

text \<open>Storing a mail, and what follows: a waiting receiver is made ready and the scheduler runs.\<close>

lemma mb_send_finish_cases:
  assumes ok: "thread_ok k" and l: "k_lock_nest k = 0"
  shows "\<exists>k'. mb_send_finish m value k = Some (Done RT_EOK, k') \<and> thread_ok k'
     \<and> k_mb k' = (k_mb k)(m := mb_put value (k_mb k m))
     \<and> (case k_wait k (WMbRecv m) of
          [] \<Rightarrow> k' = upd_mb m (mb_put value) k
        | u # us \<Rightarrow> runs_highest k' \<and> k_wait k' = (k_wait k)(WMbRecv m := us)
            \<and> k_thread k' = (k_thread k)(u := (k_thread k u)\<lparr>t_stat := READY\<rparr>))"
proof (cases "k_wait k (WMbRecv m)")
  case Nil
  then show ?thesis using ok by (simp add: mb_send_finish_def)
next
  case (Cons u us)
  let ?k = "upd_mb m (mb_put value) k"
  have "thread_ok ?k" "k_lock_nest ?k = 0" "k_wait ?k (WMbRecv m) = u # us" using ok l Cons by simp_all
  from wake_first [OF this] obtain k' where k': "do { k \<leftarrow> rt_ipc_list_resume (WMbRecv m) ?k; rt_schedule k } = Some k'"
    "thread_ok k'" "runs_highest k'" "k_wait k' = (k_wait k)(WMbRecv m := us)"
    "k_thread k' = (k_thread k)(u := (k_thread k u)\<lparr>t_stat := READY\<rparr>)" "k_mb k' = k_mb ?k" by auto
  moreover from k'(1) have "mb_send_finish m value k = Some (Done RT_EOK, k')"
    using Cons by (auto simp: mb_send_finish_def Let_def split: Option.bind_splits)
  ultimately show ?thesis using Cons by simp
qed

lemma mb_recv_finish_cases:
  assumes ok: "thread_ok k" and l: "k_lock_nest k = 0"
  shows "\<exists>k'. mb_recv_finish m k = Some (Done (RT_EOK, Some (fst (mb_get (k_mb k m)))), k') \<and> thread_ok k'
     \<and> k_mb k' = (k_mb k)(m := snd (mb_get (k_mb k m)))
     \<and> (case k_wait k (WMbSend m) of
          [] \<Rightarrow> k' = upd_mb m (\<lambda>b. snd (mb_get b)) k
        | u # us \<Rightarrow> runs_highest k' \<and> k_wait k' = (k_wait k)(WMbSend m := us)
            \<and> k_thread k' = (k_thread k)(u := (k_thread k u)\<lparr>t_stat := READY\<rparr>))"
proof (cases "k_wait k (WMbSend m)")
  case Nil
  have "upd_mb m (\<lambda>_. snd (mb_get (k_mb k m))) k = upd_mb m (\<lambda>b. snd (mb_get b)) k" by (simp add: upd_mb_def)
  then show ?thesis using ok Nil by (simp add: mb_recv_finish_def case_prod_beta)
next
  case (Cons u us)
  let ?k = "upd_mb m (\<lambda>_. snd (mb_get (k_mb k m))) k"
  have "thread_ok ?k" "k_lock_nest ?k = 0" "k_wait ?k (WMbSend m) = u # us" using ok l Cons by simp_all
  from wake_first [OF this] obtain k' where k': "do { k \<leftarrow> rt_ipc_list_resume (WMbSend m) ?k; rt_schedule k } = Some k'"
    "thread_ok k'" "runs_highest k'" "k_wait k' = (k_wait k)(WMbSend m := us)"
    "k_thread k' = (k_thread k)(u := (k_thread k u)\<lparr>t_stat := READY\<rparr>)" "k_mb k' = k_mb ?k" by auto
  moreover from k'(1) have "mb_recv_finish m k = Some (Done (RT_EOK, Some (fst (mb_get (k_mb k m)))), k')"
    using Cons by (auto simp: mb_recv_finish_def Let_def split: Option.bind_splits prod.splits)
  ultimately show ?thesis using Cons by simp
qed

text \<open>Waiting because the mailbox is full, or empty.\<close>

lemma mb_send_waits:
  assumes c: "calling t k" and f: "b_flag (k_mb k m) \<le> 1" and time: "time_ok timeout" "timeout \<noteq> 0"
    and full: "b_entry (k_mb k m) = b_size (k_mb k m)"
  shows "\<exists>k'. mb_send_loop m value (Some t) timeout d k
       = Some (Waiting timeout (if 0 < sint timeout then k_tick k else d), k')
     \<and> blocks_on (WMbSend m) (b_flag (k_mb k m)) t k k' \<and> k_mb k' = k_mb k \<and> t_error (k_thread k' t) = RT_EOK"
proof -
  let ?f = "\<lambda>th. th\<lparr>t_error := RT_EOK\<rparr>"
  obtain k' where "wait_on (WMbSend m) t (b_flag (k_mb k m)) timeout (upd_thread t ?f k) = Some k'"
      "blocks_on (WMbSend m) (b_flag (k_mb k m)) t k k'" "k_mb k' = k_mb k" "t_error (k_thread k' t) = t_error (?f (k_thread k t))"
    using call_blocks [OF c f time(1), of ?f "WMbSend m"] by auto
  then show ?thesis using time(2) full callingD(5-7) [OF c]
    by (intro exI [of _ k']) (simp add: mb_send_loop_def not_in_interrupt_def)
qed

lemma mb_recv_waits:
  assumes c: "calling t k" and f: "b_flag (k_mb k m) \<le> 1" and time: "time_ok timeout" "timeout \<noteq> 0"
    and empty: "b_entry (k_mb k m) = 0"
  shows "\<exists>k'. mb_recv_loop m (Some t) timeout d k
       = Some (Waiting timeout (if 0 < sint timeout then k_tick k else d), k')
     \<and> blocks_on (WMbRecv m) (b_flag (k_mb k m)) t k k' \<and> k_mb k' = k_mb k \<and> t_error (k_thread k' t) = RT_EOK"
proof -
  let ?f = "\<lambda>th. th\<lparr>t_error := RT_EOK\<rparr>"
  obtain k' where "wait_on (WMbRecv m) t (b_flag (k_mb k m)) timeout (upd_thread t ?f k) = Some k'"
      "blocks_on (WMbRecv m) (b_flag (k_mb k m)) t k k'" "k_mb k' = k_mb k" "t_error (k_thread k' t) = t_error (?f (k_thread k t))"
    using call_blocks [OF c f time(1), of ?f "WMbRecv m"] by auto
  then show ?thesis using time(2) empty callingD(5-7) [OF c]
    by (intro exI [of _ k']) (simp add: mb_recv_loop_def not_in_interrupt_def)
qed


end
