(* ===== verification/Rt_Links.thy ===== *)
theory Rt_Links
  imports Vtdr_Prelude
begin

text \<open>
  What the kernel's memory managers share: singly linked lists threaded through memory, rounding to
  the word size, and the contract of an allocator.
\<close>

section \<open>Linked slots\<close>

fun linked :: "(nat \<Rightarrow> nat option) \<Rightarrow> nat option \<Rightarrow> nat list \<Rightarrow> bool" where
  "linked nx p [] = (p = None)"
| "linked nx p (s # ss) = (p = Some s \<and> linked nx (nx s) ss)"

fun follow :: "(nat \<Rightarrow> nat option) \<Rightarrow> nat \<Rightarrow> nat option \<Rightarrow> nat list" where
  "follow nx 0 p = []"
| "follow nx (Suc n) None = []"
| "follow nx (Suc n) (Some s) = s # follow nx n (nx s)"

lemma follow_linked: "linked nx p ss \<Longrightarrow> length ss \<le> n \<Longrightarrow> follow nx n p = ss"
proof (induction ss arbitrary: n p)
  case Nil
  then show ?case by (cases n) simp_all
next
  case (Cons s ss)
  then show ?case by (cases n) simp_all
qed

lemma linked_upd [simp]: "s \<notin> set ss \<Longrightarrow> linked (nx(s := x)) p ss = linked nx p ss"
  by (induction ss arbitrary: p) auto


lemma linked_append: "linked nx p ss \<Longrightarrow> distinct (ss @ [s]) \<Longrightarrow> ss \<noteq> [] \<Longrightarrow>
    linked (nx(s := None, last ss := Some s)) p (ss @ [s])"
proof (induction ss arbitrary: p)
  case Nil
  then show ?case by simp
next
  case (Cons t ss)
  show ?case
  proof (cases "ss = []")
    case True
    then show ?thesis using Cons.prems by auto
  next
    case False
    then have "t \<noteq> s" "t \<noteq> last ss" using Cons.prems by auto
    moreover have "linked (nx(s := None, last ss := Some s)) (nx t) (ss @ [s])"
      by (rule Cons.IH) (use Cons.prems False in simp_all)
    moreover have "last (t # ss) = last ss" using False by simp
    ultimately show ?thesis using Cons.prems(1) by (simp del: fun_upd_apply last.simps add: fun_upd_other)
  qed
qed

section \<open>Rounding\<close>

definition RT_ALIGN4 :: "u32 \<Rightarrow> u32" where
  "RT_ALIGN4 x = (x + 4 - 1) AND NOT (4 - 1)"

definition RT_ALIGN_DOWN4 :: "u32 \<Rightarrow> u32" where
  "RT_ALIGN_DOWN4 x = x AND NOT (4 - 1)"

lemma unat_align_down: "unat (x AND NOT 3 :: u32) = 4 * (unat x div 4)"
proof -
  have "(3 :: u32) = mask 2" by (simp add: mask_eq_exp_minus_1)
  then show ?thesis using unat_and_not_mask [of x 2] by simp
qed

text \<open>
  Rounding up is to the next multiple of four, unless that is no longer a 32-bit number: then it is 0.
\<close>

lemma align_up:
  assumes "unat x \<le> 4294967292"
  shows "unat x \<le> unat (RT_ALIGN4 x)" "unat (RT_ALIGN4 x) < unat x + 4" "4 dvd unat (RT_ALIGN4 x)"
proof -
  have "unat (x + 3) = unat x + 3" using assms by (simp add: unat_word_ariths)
  then have e: "unat (RT_ALIGN4 x) = 4 * ((unat x + 3) div 4)"
    using unat_align_down [of "x + 3"] by (simp add: RT_ALIGN4_def add.commute)
  have "(unat x + 3) mod 4 < 4" "4 * ((unat x + 3) div 4) + (unat x + 3) mod 4 = unat x + 3" by simp_all
  then show "unat x \<le> unat (RT_ALIGN4 x)" "unat (RT_ALIGN4 x) < unat x + 4" unfolding e by linarith+
  show "4 dvd unat (RT_ALIGN4 x)" unfolding e by simp
qed

lemma align_overflow:
  assumes "4294967292 < unat x"
  shows "RT_ALIGN4 x = 0"
proof -
  have "unat x < 4294967296" using unsigned_less [of x] by simp
  then have "(unat x + 3) mod 4294967296 < 4" using assms by (simp add: le_mod_geq)
  then have "unat (x + 3) < 4" by (simp add: unat_word_ariths)
  then have "unat (RT_ALIGN4 x) = 0" using unat_align_down [of "x + 3"] by (simp add: RT_ALIGN4_def add.commute)
  then show ?thesis by (simp add: unsigned_eq_0_iff)
qed

section \<open>Allocators\<close>

datatype ('r, 'b) mem_op = Allocate 'r | Release 'b

text \<open>
  The contract of an allocator with requests \<open>'r\<close> and blocks \<open>'b\<close>: a block it hands out is not live,
  the regions of live blocks do not overlap, and no operation moves or resizes the region of a block
  that stays live.
\<close>

locale allocator =
  fixes ok :: "'s \<Rightarrow> bool" and live :: "'s \<Rightarrow> 'b set" and region :: "'s \<Rightarrow> 'b \<Rightarrow> nat set"
    and alloc :: "'r \<Rightarrow> 's \<Rightarrow> ('b option \<times> 's) option" and release :: "'b \<Rightarrow> 's \<Rightarrow> 's option"
  assumes alloc_law: "ok s \<Longrightarrow> \<exists>x s'. alloc r s = Some (x, s') \<and> ok s'
        \<and> (case x of None \<Rightarrow> live s' = live s | Some b \<Rightarrow> b \<notin> live s \<and> live s' = insert b (live s))
        \<and> (\<forall>c\<in>live s. region s' c = region s c)"
    and release_law: "\<lbrakk>ok s; b \<in> live s\<rbrakk> \<Longrightarrow> \<exists>s'. release b s = Some s' \<and> ok s' \<and> live s' = live s - {b}
        \<and> (\<forall>c\<in>live s'. region s' c = region s c)"
    and apart: "\<lbrakk>ok s; b \<in> live s; c \<in> live s; b \<noteq> c\<rbrakk> \<Longrightarrow> region s b \<inter> region s c = {}"
begin

text \<open>
  A client that releases only what it holds: it keeps the region of each block as it was when the block
  was handed out, and a release of a block it does not hold is not carried out.
\<close>

fun serve :: "('r, 'b) mem_op list \<Rightarrow> ('b \<Rightarrow> nat set option) \<Rightarrow> 's \<Rightarrow> (('b \<Rightarrow> nat set option) \<times> 's) option" where
  "serve [] h s = Some (h, s)"
| "serve (Allocate r # ops) h s =
     (case alloc r s of None \<Rightarrow> None
      | Some (None, s') \<Rightarrow> serve ops h s'
      | Some (Some b, s') \<Rightarrow> serve ops (h(b \<mapsto> region s' b)) s')"
| "serve (Release b # ops) h s =
     (if h b = None then serve ops h s
      else case release b s of None \<Rightarrow> None | Some s' \<Rightarrow> serve ops (h(b := None)) s')"

definition agrees :: "('b \<Rightarrow> nat set option) \<Rightarrow> 's \<Rightarrow> bool" where
  "agrees h s \<longleftrightarrow> ok s \<and> live s = dom h \<and> (\<forall>b\<in>dom h. h b = Some (region s b))"

lemma agrees_alloc:
  assumes a: "agrees h s" and r: "alloc r s = Some (x, s')"
  shows "case x of None \<Rightarrow> agrees h s' | Some b \<Rightarrow> h b = None \<and> agrees (h(b \<mapsto> region s' b)) s'"
proof -
  have ok: "ok s" using a by (simp add: agrees_def)
  from alloc_law [OF ok, of r] r show ?thesis
    using a by (cases x) (auto simp: agrees_def dom_def)
qed

lemma agrees_release:
  assumes a: "agrees h s" and b: "h b \<noteq> None"
  shows "\<exists>s'. release b s = Some s' \<and> agrees (h(b := None)) s'"
proof -
  have "ok s" "b \<in> live s" using a b by (auto simp: agrees_def)
  from release_law [OF this] a show ?thesis by (auto simp: agrees_def)
qed

text \<open>Every sequence of requests is served, and the client and the allocator agree on what is held.\<close>

lemma serve_agrees: "agrees h s \<Longrightarrow> \<exists>h' s'. serve ops h s = Some (h', s') \<and> agrees h' s'"
proof (induction ops arbitrary: h s)
  case Nil
  then show ?case by simp
next
  case (Cons opn ops)
  show ?case
  proof (cases opn)
    case (Allocate r)
    have "ok s" using Cons.prems by (simp add: agrees_def)
    then obtain x s' where a: "alloc r s = Some (x, s')" using alloc_law by blast
    from agrees_alloc [OF Cons.prems a] Cons.IH a Allocate show ?thesis by (cases x) auto
  next
    case (Release b)
    show ?thesis
    proof (cases "h b = None")
      case True
      then show ?thesis using Cons.IH [OF Cons.prems] Release by simp
    next
      case False
      from agrees_release [OF Cons.prems False] obtain s' where "release b s = Some s'" "agrees (h(b := None)) s'" by blast
      then show ?thesis using Cons.IH [of "h(b := None)" s'] Release False by (auto simp del: fun_upd_apply)
    qed
  qed
qed

lemma agrees_at:
  assumes "agrees h s" "h b = Some B"
  shows "b \<in> live s" "B = region s b"
proof -
  have "b \<in> dom h" using assms(2) by blast
  then show "b \<in> live s" "B = region s b" using assms unfolding agrees_def by auto
qed

lemma served_apart: "agrees h s \<Longrightarrow> h b = Some B \<Longrightarrow> h c = Some C \<Longrightarrow> b \<noteq> c \<Longrightarrow> B \<inter> C = {}"
  using agrees_at [of h s] apart [of s b c] unfolding agrees_def by blast

end

end
