(* ===== verification/Rt_Mq.thy ===== *)
theory Rt_Mq
  imports Rt_Mailbox Rt_Links
begin

text \<open>
  Message queues (\<open>src/ipc.c\<close>, the \<open>rt_mq\<close> functions): message slots on two singly linked lists,
  the queue and the free list. Sending and receiving leave the critical section while they copy a
  message, so a slot can be in flight, on neither list; the model has one operation per critical
  section, and the interleavings of these are the runs of \<open>mq_step\<close>.
\<close>

section \<open>The queue\<close>

primrec mq_chain :: "nat \<Rightarrow> msgqueue \<Rightarrow> msgqueue" where
  "mq_chain 0 q = q"
| "mq_chain (Suc n) q =
     (let q = mq_chain n q in q\<lparr>q_next := (q_next q)(n := q_free q), q_free := Some n\<rparr>)"

text \<open>The critical sections of \<open>rt_mq_send\<close>, \<open>rt_mq_urgent\<close> and \<open>rt_mq_recv\<close>, and the copy in between.\<close>

definition mq_reserve :: "msgqueue \<Rightarrow> (nat \<times> msgqueue) option" where
  "mq_reserve q = (case q_free q of None \<Rightarrow> None | Some s \<Rightarrow> Some (s, q\<lparr>q_free := q_next q s\<rparr>))"

definition mq_fill :: "nat \<Rightarrow> u8 list \<Rightarrow> msgqueue \<Rightarrow> msgqueue" where
  "mq_fill s buffer q = q\<lparr>q_data := (q_data q)(s := buffer @ drop (length buffer) (q_data q s))\<rparr>"

definition mq_end_mark :: "nat \<Rightarrow> msgqueue \<Rightarrow> msgqueue" where
  "mq_end_mark s q = q\<lparr>q_next := (q_next q)(s := None)\<rparr>"

definition mq_link_last :: "nat \<Rightarrow> msgqueue \<Rightarrow> msgqueue" where
  "mq_link_last s q =
     (let q = (case q_tail q of None \<Rightarrow> q | Some l \<Rightarrow> q\<lparr>q_next := (q_next q)(l := Some s)\<rparr>);
          q = q\<lparr>q_tail := Some s\<rparr>;
          q = (if q_head q = None then q\<lparr>q_head := Some s\<rparr> else q)
      in q\<lparr>q_entry := q_entry q + 1\<rparr>)"

definition mq_link_first :: "nat \<Rightarrow> msgqueue \<Rightarrow> msgqueue" where
  "mq_link_first s q =
     (let q = q\<lparr>q_next := (q_next q)(s := q_head q)\<rparr>;
          q = q\<lparr>q_head := Some s\<rparr>;
          q = (if q_tail q = None then q\<lparr>q_tail := Some s\<rparr> else q)
      in q\<lparr>q_entry := q_entry q + 1\<rparr>)"

definition mq_unlink :: "msgqueue \<Rightarrow> (nat \<times> msgqueue) option" where
  "mq_unlink q =
     (case q_head q of None \<Rightarrow> None | Some s \<Rightarrow>
        (let q = q\<lparr>q_head := q_next q s\<rparr>;
             q = (if q_tail q = Some s then q\<lparr>q_tail := None\<rparr> else q)
         in Some (s, q\<lparr>q_entry := q_entry q - 1\<rparr>)))"

definition mq_release :: "nat \<Rightarrow> msgqueue \<Rightarrow> msgqueue" where
  "mq_release s q = q\<lparr>q_next := (q_next q)(s := q_free q), q_free := Some s\<rparr>"

text \<open>
  The invariant: \<open>qs\<close> is the queue, \<open>fs\<close> the free list and \<open>out\<close> the slots in flight, and together
  they are all the slots of the pool, each once.
\<close>

definition mq_inv :: "nat set \<Rightarrow> msgqueue \<Rightarrow> nat list \<Rightarrow> nat list \<Rightarrow> bool" where
  "mq_inv out q qs fs \<longleftrightarrow>
     linked (q_next q) (q_head q) qs \<and> linked (q_next q) (q_free q) fs
   \<and> distinct (qs @ fs) \<and> out \<inter> set (qs @ fs) = {} \<and> out \<union> set (qs @ fs) = {..<unat (q_max_msgs q)}
   \<and> q_tail q = (if qs = [] then None else Some (last qs)) \<and> unat (q_entry q) = length qs
   \<and> (\<forall>s<unat (q_max_msgs q). length (q_data q s) = unat (q_msg_size q))"

lemma mq_inv_length:
  assumes "mq_inv out q qs fs"
  shows "length qs + length fs + card out = unat (q_max_msgs q)" "finite out"
proof -
  have u: "out \<union> set (qs @ fs) = {..<unat (q_max_msgs q)}" and i: "out \<inter> set (qs @ fs) = {}"
    and d: "distinct (qs @ fs)" using assms by (simp_all add: mq_inv_def)
  show f: "finite out" by (rule finite_subset [of _ "{..<unat (q_max_msgs q)}"]) (use u in auto)
  have "card (out \<union> set (qs @ fs)) = card out + card (set (qs @ fs))"
    by (rule card_Un_disjoint [OF f _ i]) simp
  moreover have "card (set (qs @ fs)) = length (qs @ fs)" by (rule distinct_card [OF d])
  ultimately show "length qs + length fs + card out = unat (q_max_msgs q)"
    unfolding u by simp
qed

lemma reserve_inv:
  assumes "mq_inv out q qs (s # fs)"
  shows "\<exists>q'. mq_reserve q = Some (s, q') \<and> mq_inv (insert s out) q' qs fs \<and> q_data q' = q_data q
     \<and> q_max_msgs q' = q_max_msgs q \<and> q_msg_size q' = q_msg_size q"
  using assms by (auto simp: mq_reserve_def mq_inv_def)

lemma reserve_full: "mq_inv out q qs [] \<Longrightarrow> mq_reserve q = None"
  by (simp add: mq_reserve_def mq_inv_def)

lemma fill_inv:
  assumes "mq_inv out q qs fs" "s \<in> out" "length buffer \<le> unat (q_msg_size q)"
  shows "mq_inv out (mq_fill s buffer q) qs fs"
    "map (q_data (mq_fill s buffer q)) qs = map (q_data q) qs"
  using assms by (auto simp: mq_fill_def mq_inv_def)

lemma end_mark_inv:
  assumes "mq_inv out q qs fs" "s \<in> out"
  shows "mq_inv out (mq_end_mark s q) qs fs"
proof -
  have "s \<notin> set qs" "s \<notin> set fs" using assms by (auto simp: mq_inv_def)
  then show ?thesis using assms by (simp add: mq_end_mark_def mq_inv_def)
qed

lemma entry_room:
  assumes "mq_inv out q qs fs" "s \<in> out"
  shows "unat (q_entry q + 1) = length qs + 1"
proof -
  have "card out > 0" using assms mq_inv_length(2) [OF assms(1)] card_gt_0_iff by blast
  then have "unat (q_entry q) < unat (q_max_msgs q)"
    using mq_inv_length(1) [OF assms(1)] assms(1) by (simp add: mq_inv_def)
  from unat_succ16 [OF this] show ?thesis using assms(1) by (simp add: mq_inv_def)
qed

lemma link_last_inv:
  assumes inv: "mq_inv out q qs fs" and s: "s \<in> out" and e: "q_next q s = None"
  shows "mq_inv (out - {s}) (mq_link_last s q) (qs @ [s]) fs"
proof -
  have ns: "s \<notin> set qs" "s \<notin> set fs" using inv s by (auto simp: mq_inv_def)
  note r = entry_room [OF inv s]
  have nx: "(q_next q)(s := None) = q_next q" using e by (simp add: fun_eq_iff)
  show ?thesis
  proof (cases "qs = []")
    case True
    then have "q_head q = None" "q_tail q = None" using inv by (simp_all add: mq_inv_def)
    then show ?thesis using inv s e ns r True by (auto simp: mq_inv_def mq_link_last_def Let_def)
  next
    case False
    then have t: "q_tail q = Some (last qs)" "q_head q \<noteq> None"
      using inv by (cases qs; auto simp: mq_inv_def)+
    have l: "last qs \<in> set qs" "last qs \<notin> set fs"
      using last_in_set [OF False] inv by (auto simp: mq_inv_def)
    have "linked ((q_next q)(s := None, last qs := Some s)) (q_head q) (qs @ [s])"
      by (rule linked_append) (use inv False ns in \<open>auto simp: mq_inv_def\<close>)
    then have "linked ((q_next q)(last qs := Some s)) (q_head q) (qs @ [s])" unfolding nx .
    then show ?thesis using inv s ns l r t False by (auto simp: mq_inv_def mq_link_last_def Let_def)
  qed
qed

lemma link_first_inv:
  assumes inv: "mq_inv out q qs fs" and s: "s \<in> out"
  shows "mq_inv (out - {s}) (mq_link_first s q) (s # qs) fs"
proof -
  have ns: "s \<notin> set qs" "s \<notin> set fs" using inv s by (auto simp: mq_inv_def)
  note r = entry_room [OF inv s]
  show ?thesis using inv s ns r by (auto simp: mq_inv_def mq_link_first_def Let_def)
qed

lemma unlink_inv:
  assumes inv: "mq_inv out q (s # qs) fs"
  shows "\<exists>q'. mq_unlink q = Some (s, q') \<and> mq_inv (insert s out) q' qs fs \<and> q_data q' = q_data q
     \<and> q_max_msgs q' = q_max_msgs q \<and> q_msg_size q' = q_msg_size q"
proof -
  have "unat (q_entry q) \<noteq> 0" using inv by (simp add: mq_inv_def)
  from unat_pred16 [OF this] have e: "unat (q_entry q - 1) = length qs" using inv by (simp add: mq_inv_def)
  have t: "(q_tail q = Some s) = (qs = [])" using inv by (auto simp: mq_inv_def)
  show ?thesis using inv e t by (auto simp: mq_unlink_def mq_inv_def Let_def)
qed

lemma release_inv:
  assumes inv: "mq_inv out q qs fs" and s: "s \<in> out"
  shows "mq_inv (out - {s}) (mq_release s q) qs (s # fs)"
proof -
  have ns: "s \<notin> set qs" "s \<notin> set fs" using inv s by (auto simp: mq_inv_def)
  then show ?thesis using inv s by (auto simp: mq_inv_def mq_release_def)
qed

section \<open>Uninterrupted operations\<close>

definition mq_put :: "u8 list \<Rightarrow> msgqueue \<Rightarrow> msgqueue" where
  "mq_put buffer q =
     (case mq_reserve q of None \<Rightarrow> q | Some (s, q) \<Rightarrow> mq_link_last s (mq_fill s buffer (mq_end_mark s q)))"

definition mq_push :: "u8 list \<Rightarrow> msgqueue \<Rightarrow> msgqueue" where
  "mq_push buffer q =
     (case mq_reserve q of None \<Rightarrow> q | Some (s, q) \<Rightarrow> mq_link_first s (mq_fill s buffer q))"

definition mq_get :: "msgqueue \<Rightarrow> u8 list \<times> msgqueue" where
  "mq_get q = (case mq_unlink q of None \<Rightarrow> ([], q) | Some (s, q) \<Rightarrow> (q_data q s, mq_release s q))"

definition mq_queued :: "msgqueue \<Rightarrow> nat list" where
  "mq_queued q = follow (q_next q) (unat (q_max_msgs q)) (q_head q)"

definition mq_unused :: "msgqueue \<Rightarrow> nat list" where
  "mq_unused q = follow (q_next q) (unat (q_max_msgs q)) (q_free q)"

definition mq_ok :: "msgqueue \<Rightarrow> bool" where
  "mq_ok q \<longleftrightarrow> mq_inv {} q (mq_queued q) (mq_unused q)"

definition mq_content :: "msgqueue \<Rightarrow> u8 list list" where
  "mq_content q = map (q_data q) (mq_queued q)"

definition mq_cap :: "msgqueue \<Rightarrow> nat" where
  "mq_cap q = unat (q_max_msgs q)"

definition mq_fits :: "u8 list \<Rightarrow> msgqueue \<Rightarrow> bool" where
  "mq_fits x q \<longleftrightarrow> length x = unat (q_msg_size q)"

lemma mq_inv_lists:
  assumes "mq_inv out q qs fs"
  shows "mq_queued q = qs" "mq_unused q = fs"
proof -
  have "length qs \<le> unat (q_max_msgs q)" "length fs \<le> unat (q_max_msgs q)"
    using mq_inv_length(1) [OF assms] by simp_all
  then show "mq_queued q = qs" "mq_unused q = fs"
    using assms unfolding mq_queued_def mq_unused_def by (auto simp: mq_inv_def intro!: follow_linked)
qed

lemma mq_okI: "mq_inv {} q qs fs \<Longrightarrow> mq_ok q"
  using mq_inv_lists unfolding mq_ok_def by metis

lemma length_mq_content [simp]: "mq_ok q \<Longrightarrow> length (mq_content q) = unat (q_entry q)"
  by (simp add: mq_ok_def mq_inv_def mq_content_def)

lemma fill_fits:
  assumes "mq_inv out q qs fs" "s \<in> out" "mq_fits x q"
  shows "q_data (mq_fill s x q) s = x"
proof -
  have "s < unat (q_max_msgs q)" using assms(1,2) by (auto simp: mq_inv_def)
  then show ?thesis using assms(1,3) by (simp add: mq_inv_def mq_fill_def mq_fits_def)
qed

lemma mq_static [simp]:
  "q_data (mq_link_last s q) = q_data q" "q_max_msgs (mq_link_last s q) = q_max_msgs q"
  "q_msg_size (mq_link_last s q) = q_msg_size q" "q_flag (mq_link_last s q) = q_flag q"
  "q_data (mq_link_first s q) = q_data q" "q_max_msgs (mq_link_first s q) = q_max_msgs q"
  "q_msg_size (mq_link_first s q) = q_msg_size q" "q_flag (mq_link_first s q) = q_flag q"
  "q_data (mq_release s q) = q_data q" "q_max_msgs (mq_release s q) = q_max_msgs q"
  "q_msg_size (mq_release s q) = q_msg_size q"
  "q_data (mq_end_mark s q) = q_data q" "q_max_msgs (mq_end_mark s q) = q_max_msgs q"
  "q_msg_size (mq_end_mark s q) = q_msg_size q" "q_next (mq_end_mark s q) s = None"
  "q_next (mq_fill s b q) = q_next q" "q_max_msgs (mq_fill s b q) = q_max_msgs q"
  "q_msg_size (mq_fill s b q) = q_msg_size q"
  by (simp_all add: mq_link_last_def mq_link_first_def mq_release_def mq_end_mark_def mq_fill_def Let_def split: option.split)

lemma mq_put_inv:
  assumes inv: "mq_inv {} q qs (s # fs)" and x: "length x \<le> unat (q_msg_size q)"
  shows "mq_inv {} (mq_put x q) (qs @ [s]) fs" "q_data (mq_put x q) s = x @ drop (length x) (q_data q s)"
    "\<And>u. u \<noteq> s \<Longrightarrow> q_data (mq_put x q) u = q_data q u" "q_max_msgs (mq_put x q) = q_max_msgs q" "q_msg_size (mq_put x q) = q_msg_size q"
proof -
  from reserve_inv [OF inv] obtain q1 where q1: "mq_reserve q = Some (s, q1)" "mq_inv {s} q1 qs fs"
     "q_data q1 = q_data q" "q_max_msgs q1 = q_max_msgs q" "q_msg_size q1 = q_msg_size q" by blast
  have i: "mq_inv {s} (mq_end_mark s q1) qs fs" by (rule end_mark_inv [OF q1(2)]) simp
  have "mq_inv {s} (mq_fill s x (mq_end_mark s q1)) qs fs" by (rule fill_inv [OF i]) (simp_all add: x q1)
  from link_last_inv [OF this, of s] show "mq_inv {} (mq_put x q) (qs @ [s]) fs" by (simp add: mq_put_def q1)
  show "q_data (mq_put x q) s = x @ drop (length x) (q_data q s)" "q_max_msgs (mq_put x q) = q_max_msgs q"
    "q_msg_size (mq_put x q) = q_msg_size q"
    by (simp_all add: mq_put_def q1 mq_fill_def)
  show "q_data (mq_put x q) u = q_data q u" if "u \<noteq> s" for u
    using that by (simp add: mq_put_def q1 mq_fill_def)
qed

lemma mq_push_inv:
  assumes inv: "mq_inv {} q qs (s # fs)" and x: "length x \<le> unat (q_msg_size q)"
  shows "mq_inv {} (mq_push x q) (s # qs) fs" "q_data (mq_push x q) s = x @ drop (length x) (q_data q s)"
    "\<And>u. u \<noteq> s \<Longrightarrow> q_data (mq_push x q) u = q_data q u" "q_max_msgs (mq_push x q) = q_max_msgs q" "q_msg_size (mq_push x q) = q_msg_size q"
proof -
  from reserve_inv [OF inv] obtain q1 where q1: "mq_reserve q = Some (s, q1)" "mq_inv {s} q1 qs fs"
     "q_data q1 = q_data q" "q_max_msgs q1 = q_max_msgs q" "q_msg_size q1 = q_msg_size q" by blast
  have "mq_inv {s} (mq_fill s x q1) qs fs" by (rule fill_inv [OF q1(2)]) (simp_all add: x q1)
  from link_first_inv [OF this, of s] show "mq_inv {} (mq_push x q) (s # qs) fs" by (simp add: mq_push_def q1)
  show "q_data (mq_push x q) s = x @ drop (length x) (q_data q s)" "q_max_msgs (mq_push x q) = q_max_msgs q"
    "q_msg_size (mq_push x q) = q_msg_size q"
    by (simp_all add: mq_push_def q1 mq_fill_def)
  show "q_data (mq_push x q) u = q_data q u" if "u \<noteq> s" for u
    using that by (simp add: mq_push_def q1 mq_fill_def)
qed

lemma mq_get_inv:
  assumes inv: "mq_inv {} q (s # qs) fs"
  shows "fst (mq_get q) = q_data q s" "mq_inv {} (snd (mq_get q)) qs (s # fs)"
    "q_data (snd (mq_get q)) = q_data q" "q_max_msgs (snd (mq_get q)) = q_max_msgs q" "q_msg_size (snd (mq_get q)) = q_msg_size q"
proof -
  from unlink_inv [OF inv] obtain q1 where q1: "mq_unlink q = Some (s, q1)" "mq_inv {s} q1 qs fs" "q_data q1 = q_data q"
    "q_max_msgs q1 = q_max_msgs q" "q_msg_size q1 = q_msg_size q" by blast
  from release_inv [OF q1(2), of s] show "mq_inv {} (snd (mq_get q)) qs (s # fs)" by (simp add: mq_get_def q1)
  show "fst (mq_get q) = q_data q s" "q_data (snd (mq_get q)) = q_data q"
    "q_max_msgs (snd (mq_get q)) = q_max_msgs q" "q_msg_size (snd (mq_get q)) = q_msg_size q"
    by (simp_all add: mq_get_def q1)
qed

lemma mq_room:
  assumes "mq_ok q" "length (mq_content q) < mq_cap q"
  obtains s fs where "mq_inv {} q (mq_queued q) (s # fs)" "s \<notin> set (mq_queued q)" "length (q_data q s) = unat (q_msg_size q)"
proof -
  have inv: "mq_inv {} q (mq_queued q) (mq_unused q)" using assms by (simp add: mq_ok_def)
  moreover have "length (mq_queued q) < unat (q_max_msgs q)" using assms by (simp add: mq_content_def mq_cap_def)
  ultimately have "mq_unused q \<noteq> []" using mq_inv_length(1) [OF inv] by auto
  then obtain s fs where "mq_unused q = s # fs" by (cases "mq_unused q") auto
  then show ?thesis using that [of s fs] inv by (auto simp: mq_inv_def)
qed

interpretation mq_fifo: urgent_fifo mq_ok mq_content mq_cap mq_fits mq_put mq_get mq_push
proof
  show "length (mq_content s) \<le> mq_cap s" if "mq_ok s" for s
    using that mq_inv_length(1) [of "{}" s] by (force simp: mq_ok_def mq_content_def mq_cap_def)
  show "mq_ok (mq_put x q) \<and> mq_content (mq_put x q) = mq_content q @ [x] \<and> mq_cap (mq_put x q) = mq_cap q"
    if "mq_ok q" "length (mq_content q) < mq_cap q" "mq_fits x q" for q x
  proof -
    from mq_room [OF that(1,2)] obtain s fs where s: "mq_inv {} q (mq_queued q) (s # fs)" "s \<notin> set (mq_queued q)"
      "length (q_data q s) = unat (q_msg_size q)" .
    have "length x \<le> unat (q_msg_size q)" using that(3) by (simp add: mq_fits_def)
    note p = mq_put_inv [OF s(1) this]
    have "map (q_data (mq_put x q)) (mq_queued q) = map (q_data q) (mq_queued q)"
      by (rule map_cong [OF refl]) (metis s(2) p(3))
    then show ?thesis using mq_inv_lists(1) [OF p(1)] mq_okI [OF p(1)] p(2,4) s(3) that(3)
      by (simp add: mq_content_def mq_cap_def mq_fits_def)
  qed
  show "mq_ok (mq_push x q) \<and> mq_content (mq_push x q) = x # mq_content q \<and> mq_cap (mq_push x q) = mq_cap q"
    if "mq_ok q" "length (mq_content q) < mq_cap q" "mq_fits x q" for q x
  proof -
    from mq_room [OF that(1,2)] obtain s fs where s: "mq_inv {} q (mq_queued q) (s # fs)" "s \<notin> set (mq_queued q)"
      "length (q_data q s) = unat (q_msg_size q)" .
    have "length x \<le> unat (q_msg_size q)" using that(3) by (simp add: mq_fits_def)
    note p = mq_push_inv [OF s(1) this]
    have "map (q_data (mq_push x q)) (mq_queued q) = map (q_data q) (mq_queued q)"
      by (rule map_cong [OF refl]) (metis s(2) p(3))
    then show ?thesis using mq_inv_lists(1) [OF p(1)] mq_okI [OF p(1)] p(2,4) s(3) that(3)
      by (simp add: mq_content_def mq_cap_def mq_fits_def)
  qed
  show "fst (mq_get q) = x \<and> mq_ok (snd (mq_get q)) \<and> mq_content (snd (mq_get q)) = xs \<and> mq_cap (snd (mq_get q)) = mq_cap q"
    if "mq_ok q" "mq_content q = x # xs" for q x xs
  proof -
    from that(2) have "map (q_data q) (mq_queued q) = x # xs" by (simp add: mq_content_def)
    then obtain s qs where q: "mq_queued q = s # qs" "q_data q s = x" "map (q_data q) qs = xs"
      by (auto simp: map_eq_Cons_conv)
    then have "mq_inv {} q (s # qs) (mq_unused q)" using that(1) by (simp add: mq_ok_def)
    note g = mq_get_inv [OF this]
    show ?thesis using mq_inv_lists(1) [OF g(2)] mq_okI [OF g(2)] g q by (simp add: mq_content_def mq_cap_def)
  qed
qed

section \<open>Interleaved operations\<close>

text \<open>
  What a slot in flight is held for: being filled by a sender (\<open>Reserved\<close>), filled with its link
  already cleared (\<open>Marked\<close>), or being read by a receiver (\<open>Taken\<close>).
\<close>

datatype phase = Reserved | Marked | Taken

inductive mq_step :: "(nat \<Rightarrow> phase option) \<times> msgqueue \<Rightarrow> (nat \<Rightarrow> phase option) \<times> msgqueue \<Rightarrow> bool" where
  reserve: "mq_reserve q = Some (s, q') \<Longrightarrow> mq_step (fl, q) (fl(s \<mapsto> Reserved), q')"
| mark: "fl s = Some Reserved \<Longrightarrow> mq_step (fl, q) (fl(s \<mapsto> Marked), mq_end_mark s q)"
| fill: "fl s = Some p \<Longrightarrow> p \<noteq> Taken \<Longrightarrow> length b \<le> unat (q_msg_size q) \<Longrightarrow> mq_step (fl, q) (fl, mq_fill s b q)"
| link_last: "fl s = Some Marked \<Longrightarrow> mq_step (fl, q) (fl(s := None), mq_link_last s q)"
| link_first: "fl s = Some Reserved \<Longrightarrow> mq_step (fl, q) (fl(s := None), mq_link_first s q)"
| unlink: "q_entry q \<noteq> 0 \<Longrightarrow> mq_unlink q = Some (s, q') \<Longrightarrow> mq_step (fl, q) (fl(s \<mapsto> Taken), q')"
| release: "fl s = Some Taken \<Longrightarrow> mq_step (fl, q) (fl(s := None), mq_release s q)"

definition flight_ok :: "(nat \<Rightarrow> phase option) \<times> msgqueue \<Rightarrow> bool" where
  "flight_ok x \<longleftrightarrow> (\<exists>qs fs. mq_inv (dom (fst x)) (snd x) qs fs)
     \<and> (\<forall>s. fst x s = Some Marked \<longrightarrow> q_next (snd x) s = None)"

lemma reserve_next: "mq_reserve q = Some (s, q') \<Longrightarrow> q_next q' = q_next q"
  by (auto simp: mq_reserve_def split: option.splits)

lemma unlink_next: "mq_unlink q = Some (s, q') \<Longrightarrow> q_next q' = q_next q"
  by (auto simp: mq_unlink_def Let_def split: option.splits if_splits)

lemma link_last_next: "q_next (mq_link_last s q) = (case q_tail q of None \<Rightarrow> q_next q | Some l \<Rightarrow> (q_next q)(l := Some s))"
  by (simp add: mq_link_last_def Let_def split: option.split)

lemma link_first_next: "q_next (mq_link_first s q) = (q_next q)(s := q_head q)"
  by (simp add: mq_link_first_def Let_def)

lemma release_next: "q_next (mq_release s q) = (q_next q)(s := q_free q)"
  by (simp add: mq_release_def)

lemma mq_step_ok:
  assumes "mq_step x y" "flight_ok x"
  shows "flight_ok y"
  using assms
proof cases
  case (reserve q s q' fl)
  from assms(2) reserve obtain qs fs where i: "mq_inv (dom fl) q qs fs" and m: "\<forall>s. fl s = Some Marked \<longrightarrow> q_next q s = None"
    by (auto simp: flight_ok_def)
  from reserve(3) reserve_full [of "dom fl" q qs] i obtain s' fs' where fs: "fs = s' # fs'" by (cases fs) auto
  from reserve_inv [OF i [unfolded fs]] reserve(3) have "mq_inv (insert s (dom fl)) q' qs fs'" by auto
  then show ?thesis using reserve m reserve_next [OF reserve(3)] by (auto simp: flight_ok_def dom_fun_upd)
next
  case (mark fl s q)
  from assms(2) mark obtain qs fs where i: "mq_inv (dom fl) q qs fs" and m: "\<forall>s. fl s = Some Marked \<longrightarrow> q_next q s = None"
    by (auto simp: flight_ok_def)
  have s: "s \<in> dom fl" using mark by auto
  from end_mark_inv [OF i s] show ?thesis using mark m s
    by (auto simp: flight_ok_def insert_absorb mq_end_mark_def)
next
  case (fill fl s p b q)
  from assms(2) fill obtain qs fs where i: "mq_inv (dom fl) q qs fs" and m: "\<forall>s. fl s = Some Marked \<longrightarrow> q_next q s = None"
    by (auto simp: flight_ok_def)
  have s: "s \<in> dom fl" using fill by auto
  from fill_inv(1) [OF i s fill(5)] show ?thesis using fill m by (auto simp: flight_ok_def)
next
  case (link_last fl s q)
  from assms(2) link_last obtain qs fs where i: "mq_inv (dom fl) q qs fs" and m: "\<forall>s. fl s = Some Marked \<longrightarrow> q_next q s = None"
    by (auto simp: flight_ok_def)
  have s: "s \<in> dom fl" using link_last by auto
  have n: "q_next q s = None" using m link_last by simp
  have "l \<notin> dom fl" if "q_tail q = Some l" for l
    using i that by (auto simp: mq_inv_def split: if_splits)
  then have "\<forall>u. fl u = Some Marked \<longrightarrow> q_next (mq_link_last s q) u = None"
    using m by (auto simp: link_last_next split: option.split)
  then show ?thesis using link_last_inv [OF i s n] link_last by (auto simp: flight_ok_def)
next
  case (link_first fl s q)
  from assms(2) link_first obtain qs fs where i: "mq_inv (dom fl) q qs fs" and m: "\<forall>s. fl s = Some Marked \<longrightarrow> q_next q s = None"
    by (auto simp: flight_ok_def)
  have s: "s \<in> dom fl" using link_first by auto
  show ?thesis using link_first_inv [OF i s] m link_first by (auto simp: flight_ok_def link_first_next)
next
  case (unlink q s q' fl)
  from assms(2) unlink obtain qs fs where i: "mq_inv (dom fl) q qs fs" and m: "\<forall>s. fl s = Some Marked \<longrightarrow> q_next q s = None"
    by (auto simp: flight_ok_def)
  have "qs \<noteq> []" using unlink(4) i by (auto simp: mq_unlink_def mq_inv_def)
  then obtain s' qs' where qs: "qs = s' # qs'" by (cases qs) auto
  from unlink_inv [OF i [unfolded qs]] unlink(4) have "mq_inv (insert s (dom fl)) q' qs' fs" by auto
  then show ?thesis using unlink m unlink_next [OF unlink(4)] by (auto simp: flight_ok_def dom_fun_upd)
next
  case (release fl s q)
  from assms(2) release obtain qs fs where i: "mq_inv (dom fl) q qs fs" and m: "\<forall>s. fl s = Some Marked \<longrightarrow> q_next q s = None"
    by (auto simp: flight_ok_def)
  have s: "s \<in> dom fl" using release by auto
  show ?thesis using release_inv [OF i s] m release by (auto simp: flight_ok_def release_next)
qed

lemma mq_steps_ok: "mq_step\<^sup>*\<^sup>* x y \<Longrightarrow> flight_ok x \<Longrightarrow> flight_ok y"
  by (induction rule: rtranclp_induct) (auto intro: mq_step_ok)

section \<open>The calls\<close>

definition upd_mq :: "nat \<Rightarrow> (msgqueue \<Rightarrow> msgqueue) \<Rightarrow> kernel \<Rightarrow> kernel" where
  "upd_mq m f k = k\<lparr>k_mq := (k_mq k)(m := f (k_mq k m))\<rparr>"

lemma upd_mq_simps [simp]:
  "k_mq (upd_mq m f k) = (k_mq k)(m := f (k_mq k m))"
  "k_thread (upd_mq m f k) = k_thread k"
  "k_priority_table (upd_mq m f k) = k_priority_table k"
  "k_ready_group (upd_mq m f k) = k_ready_group k"
  "k_current (upd_mq m f k) = k_current k"
  "k_lock_nest (upd_mq m f k) = k_lock_nest k"
  "k_interrupt_nest (upd_mq m f k) = k_interrupt_nest k"
  "k_defunct (upd_mq m f k) = k_defunct k"
  "k_tick (upd_mq m f k) = k_tick k"
  "k_timer (upd_mq m f k) = k_timer k"
  "k_timer_list (upd_mq m f k) = k_timer_list k"
  "k_wait (upd_mq m f k) = k_wait k"
  "k_sem (upd_mq m f k) = k_sem k"
  "k_mutex (upd_mq m f k) = k_mutex k"
  "k_event (upd_mq m f k) = k_event k"
  "k_mb (upd_mq m f k) = k_mb k"
  "k_mp (upd_mq m f k) = k_mp k"
  by (simp_all add: upd_mq_def)

text \<open>\<open>slots\<close> stands for the memory handed in: the link words and bytes it happens to hold.\<close>

definition rt_mq_init :: "nat \<Rightarrow> (nat \<Rightarrow> nat option) \<times> (nat \<Rightarrow> u8 list) \<Rightarrow> u32 \<Rightarrow> u32 \<Rightarrow> u8 \<Rightarrow> kernel \<Rightarrow> int \<times> kernel" where
  "rt_mq_init m slots msg_size pool_size flag k =
     (let q_msg :: u16 = ucast (RT_ALIGN4 msg_size);
          q_max :: u16 = ucast (pool_size div (ucast q_msg + 4));
          q = \<lparr>q_flag = flag, q_msg_size = q_msg, q_max_msgs = q_max, q_entry = 0, q_head = None, q_tail = None,
                q_free = None, q_next = fst slots, q_data = snd slots\<rparr>;
          q = mq_chain (unat q_max) q
      in (RT_EOK, upd_mq m (\<lambda>_. q) (k\<lparr>k_wait := (k_wait k)(WMq m := [])\<rparr>)))"

definition rt_mq_detach :: "nat \<Rightarrow> kernel \<Rightarrow> (int \<times> kernel) option" where
  "rt_mq_detach m k = do { k \<leftarrow> rt_ipc_list_resume_all (WMq m) k; Some (RT_EOK, k) }"

definition mq_wake :: "nat \<Rightarrow> kernel \<Rightarrow> (int \<times> kernel) option" where
  "mq_wake m k =
     (if k_wait k (WMq m) \<noteq> []
      then do { k \<leftarrow> rt_ipc_list_resume (WMq m) k; k \<leftarrow> rt_schedule k; Some (RT_EOK, k) }
      else Some (RT_EOK, k))"

text \<open>\<open>buffer\<close> is the \<open>size\<close> bytes at the address that is passed.\<close>

definition rt_mq_send :: "nat \<Rightarrow> u8 list \<Rightarrow> kernel \<Rightarrow> (int \<times> kernel) option" where
  "rt_mq_send m buffer k = do {
     rt_assert (length buffer \<noteq> 0);
     if unat (q_msg_size (k_mq k m)) < length buffer then Some (- RT_ERROR, k)
     else (case mq_reserve (k_mq k m) of
         None \<Rightarrow> Some (- RT_EFULL, k)
       | Some (s, q) \<Rightarrow> mq_wake m (upd_mq m (\<lambda>_. mq_link_last s (mq_fill s buffer (mq_end_mark s q))) k)) }"

definition rt_mq_urgent :: "nat \<Rightarrow> u8 list \<Rightarrow> kernel \<Rightarrow> (int \<times> kernel) option" where
  "rt_mq_urgent m buffer k = do {
     rt_assert (length buffer \<noteq> 0);
     if unat (q_msg_size (k_mq k m)) < length buffer then Some (- RT_ERROR, k)
     else (case mq_reserve (k_mq k m) of
         None \<Rightarrow> Some (- RT_EFULL, k)
       | Some (s, q) \<Rightarrow> mq_wake m (upd_mq m (\<lambda>_. mq_link_first s (mq_fill s buffer q)) k)) }"

text \<open>\<open>rt_mq_recv\<close> with the bytes it copies into the caller's buffer; an empty list behind a positive count would be a null pointer.\<close>

definition mq_recv_finish :: "nat \<Rightarrow> u32 \<Rightarrow> kernel \<Rightarrow> ((int \<times> u8 list) pending \<times> kernel) option" where
  "mq_recv_finish m sz k =
     (case mq_unlink (k_mq k m) of
        None \<Rightarrow> None
      | Some (s, q) \<Rightarrow>
          (let copied = take (if unat sz > unat (q_msg_size q) then unat (q_msg_size q) else unat sz) (q_data q s)
           in Some (Done (RT_EOK, copied), upd_mq m (\<lambda>_. mq_release s q) k)))"

definition mq_recv_loop :: "nat \<Rightarrow> u32 \<Rightarrow> tid option \<Rightarrow> u32 \<Rightarrow> u32 \<Rightarrow> kernel \<Rightarrow> ((int \<times> u8 list) pending \<times> kernel) option" where
  "mq_recv_loop m sz thread timeout tick_delta k =
     (if q_entry (k_mq k m) = 0 then do {
        not_in_interrupt k;
        t \<leftarrow> thread;
        let k = upd_thread t (\<lambda>th. th\<lparr>t_error := RT_EOK\<rparr>) k;
        if timeout = 0
        then Some (Done (- RT_ETIMEOUT, []), upd_thread t (\<lambda>th. th\<lparr>t_error := - RT_ETIMEOUT\<rparr>) k)
        else do {
          let tick_delta = (if 0 < sint timeout then k_tick k else tick_delta);
          k \<leftarrow> wait_on (WMq m) t (q_flag (k_mq k m)) timeout k;
          Some (Waiting timeout tick_delta, k) } }
      else mq_recv_finish m sz k)"

definition rt_mq_recv :: "nat \<Rightarrow> u32 \<Rightarrow> u32 \<Rightarrow> kernel \<Rightarrow> ((int \<times> u8 list) pending \<times> kernel) option" where
  "rt_mq_recv m sz timeout k = do {
     rt_assert (sz \<noteq> 0);
     if q_entry (k_mq k m) = 0 \<and> timeout = 0 then Some (Done (- RT_ETIMEOUT, []), k)
     else mq_recv_loop m sz (rt_thread_self k) timeout 0 k }"

definition rt_mq_recv_resumed :: "nat \<Rightarrow> u32 \<Rightarrow> tid \<Rightarrow> u32 \<Rightarrow> u32 \<Rightarrow> kernel \<Rightarrow> ((int \<times> u8 list) pending \<times> kernel) option" where
  "rt_mq_recv_resumed m sz t timeout tick_delta k =
     (if t_error (k_thread k t) \<noteq> RT_EOK then Some (Done (t_error (k_thread k t), []), k)
      else mq_recv_loop m sz (Some t) (time_left timeout tick_delta (k_tick k))
             (if 0 < sint timeout then k_tick k - tick_delta else tick_delta) k)"

partial_function (option) mq_drain :: "msgqueue \<Rightarrow> msgqueue option" where
  "mq_drain q =
     (case q_head q of
        None \<Rightarrow> Some q
      | Some s \<Rightarrow>
          mq_drain (let q = q\<lparr>q_head := q_next q s\<rparr>;
                        q = (if q_tail q = Some s then q\<lparr>q_tail := None\<rparr> else q)
                    in mq_release s q))"

definition rt_mq_control :: "nat \<Rightarrow> u8 \<Rightarrow> kernel \<Rightarrow> (int \<times> kernel) option" where
  "rt_mq_control m cmd k =
     (if cmd = 1 then
        do { k \<leftarrow> rt_ipc_list_resume_all (WMq m) k;
             q \<leftarrow> mq_drain (k_mq k m);
             let k = upd_mq m (\<lambda>_. q\<lparr>q_entry := 0\<rparr>) k;
             k \<leftarrow> rt_schedule k;
             Some (RT_EOK, k) }
      else Some (- RT_ERROR, k))"

section \<open>Behaviour\<close>

lemma thread_ok_upd_mq [simp]: "thread_ok k \<Longrightarrow> thread_ok (upd_mq s f k)"
  by (rule thread_ok_same [of k]) (simp_all add: same_sched_def)

lemma chain_linked:
  assumes "q_free q = None"
  shows "linked (q_next (mq_chain n q)) (q_free (mq_chain n q)) (rev [0..<n])"
proof (induction n)
  case 0
  then show ?case using assms by simp
next
  case (Suc n)
  have n: "n \<notin> set (rev [0..<n])" by simp
  have "linked ((q_next (mq_chain n q))(n := q_free (mq_chain n q))) (q_free (mq_chain n q)) (rev [0..<n])"
    unfolding linked_upd [OF n] by (rule Suc)
  then show ?case by (simp add: Let_def del: fun_upd_apply) (simp only: fun_upd_same)
qed

lemma chain_fields [simp]:
  "q_head (mq_chain n q) = q_head q" "q_tail (mq_chain n q) = q_tail q" "q_entry (mq_chain n q) = q_entry q"
  "q_max_msgs (mq_chain n q) = q_max_msgs q" "q_msg_size (mq_chain n q) = q_msg_size q" "q_data (mq_chain n q) = q_data q"
  "q_flag (mq_chain n q) = q_flag q"
  by (induction n) (simp_all add: Let_def)

lemma mq_init_inv:
  fixes slots msg_size pool_size flag k m
  defines "q \<equiv> k_mq (snd (rt_mq_init m slots msg_size pool_size flag k)) m"
  assumes mem: "\<And>s. length (snd slots s) = unat (q_msg_size q)"
  shows "mq_inv {} q [] (rev [0..<unat (q_max_msgs q)])"
proof -
  let ?q0 = "\<lparr>q_flag = flag, q_msg_size = q_msg_size q, q_max_msgs = q_max_msgs q, q_entry = 0, q_head = None, q_tail = None,
                q_free = None, q_next = fst slots, q_data = snd slots\<rparr>"
  have q: "q = mq_chain (unat (q_max_msgs q)) ?q0"
    unfolding q_def rt_mq_init_def by (simp add: Let_def)
  have "linked (q_next q) (q_free q) (rev [0..<unat (q_max_msgs q)])"
    by (subst (1 2) q, rule chain_linked) simp
  moreover have "q_head q = None" "q_tail q = None" "q_entry q = 0" "q_data q = snd slots"
    by (subst q, simp)+
  ultimately show ?thesis using mem by (auto simp: mq_inv_def)
qed

lemma mq_drain_inv:
  "mq_inv out (q\<lparr>q_entry := e\<rparr>) qs fs \<Longrightarrow> unat e = length qs \<Longrightarrow>
     \<exists>q'. mq_drain q = Some q' \<and> mq_inv out (q'\<lparr>q_entry := 0\<rparr>) [] (rev qs @ fs) \<and> q_flag q' = q_flag q"
proof (induction qs arbitrary: q e fs)
  case Nil
  then have "q_head q = None" by (simp add: mq_inv_def)
  moreover have "e = 0" using Nil(2) by (simp add: unsigned_eq_0_iff)
  ultimately show ?case using Nil(1) by (subst mq_drain.simps) simp
next
  case (Cons s qs)
  let ?u = "let q = q\<lparr>q_head := q_next q s\<rparr> in if q_tail q = Some s then q\<lparr>q_tail := None\<rparr> else q"
  have h: "q_head q = Some s" using Cons.prems(1) by (simp add: mq_inv_def)
  from unlink_inv [OF Cons.prems(1)] obtain q' where
    q': "mq_unlink (q\<lparr>q_entry := e\<rparr>) = Some (s, q')" "mq_inv (insert s out) q' qs fs" by blast
  have q'u: "q' = ?u\<lparr>q_entry := e - 1\<rparr>" using q'(1) h by (auto simp: mq_unlink_def Let_def)
  have ns: "s \<notin> out" using Cons.prems(1) by (auto simp: mq_inv_def)
  have "mq_inv (insert s out - {s}) (mq_release s q') qs (s # fs)" by (rule release_inv [OF q'(2)]) simp
  moreover have "mq_release s q' = (mq_release s ?u)\<lparr>q_entry := e - 1\<rparr>"
    unfolding q'u by (simp add: mq_release_def)
  ultimately have inv: "mq_inv out ((mq_release s ?u)\<lparr>q_entry := e - 1\<rparr>) qs (s # fs)" using ns by simp
  have "unat (e - 1) = length qs" using Cons.prems(2) unat_pred16 [of e] by simp
  from Cons.IH [OF inv this] obtain q'' where q'': "mq_drain (mq_release s ?u) = Some q''"
    "mq_inv out (q''\<lparr>q_entry := 0\<rparr>) [] (rev qs @ s # fs)" "q_flag q'' = q_flag (mq_release s ?u)" by blast
  have "mq_drain q = mq_drain (mq_release s ?u)"
    by (subst mq_drain.simps) (simp add: h Let_def)
  moreover have "q_flag (mq_release s ?u) = q_flag q" by (simp add: mq_release_def Let_def)
  ultimately show ?case using q'' by simp
qed

lemma mq_wake_cases:
  assumes ok: "thread_ok k" and l: "k_lock_nest k = 0"
  shows "\<exists>k'. mq_wake m k = Some (RT_EOK, k') \<and> thread_ok k' \<and> k_mq k' = k_mq k
     \<and> (case k_wait k (WMq m) of
          [] \<Rightarrow> k' = k
        | u # us \<Rightarrow> runs_highest k' \<and> k_wait k' = (k_wait k)(WMq m := us)
            \<and> k_thread k' = (k_thread k)(u := (k_thread k u)\<lparr>t_stat := READY\<rparr>))"
proof (cases "k_wait k (WMq m)")
  case Nil
  then show ?thesis using ok by (simp add: mq_wake_def)
next
  case (Cons u us)
  from wake_first [OF ok l Cons] obtain k' where k': "do { k \<leftarrow> rt_ipc_list_resume (WMq m) k; rt_schedule k } = Some k'"
    "thread_ok k'" "runs_highest k'" "k_wait k' = (k_wait k)(WMq m := us)"
    "k_thread k' = (k_thread k)(u := (k_thread k u)\<lparr>t_stat := READY\<rparr>)" "k_mq k' = k_mq k" by auto
  moreover from k'(1) have "mq_wake m k = Some (RT_EOK, k')"
    using Cons by (auto simp: mq_wake_def split: Option.bind_splits)
  ultimately show ?thesis using Cons by simp
qed

lemma mq_send_full:
  assumes "mq_ok (k_mq k m)" "length (mq_content (k_mq k m)) = mq_cap (k_mq k m)" "b \<noteq> []"
     "length b \<le> unat (q_msg_size (k_mq k m))"
  shows "rt_mq_send m b k = Some (- RT_EFULL, k)" "rt_mq_urgent m b k = Some (- RT_EFULL, k)"
proof -
  have inv: "mq_inv {} (k_mq k m) (mq_queued (k_mq k m)) (mq_unused (k_mq k m))" using assms(1) by (simp add: mq_ok_def)
  moreover have "mq_unused (k_mq k m) = []"
    using mq_inv_length(1) [OF inv] assms(1,2) by (simp add: mq_content_def mq_cap_def)
  ultimately have "mq_reserve (k_mq k m) = None" using reserve_full by metis
  then show "rt_mq_send m b k = Some (- RT_EFULL, k)" "rt_mq_urgent m b k = Some (- RT_EFULL, k)"
    using assms(3,4) by (simp_all add: rt_mq_send_def rt_mq_urgent_def)
qed

lemma mq_send_room:
  assumes "mq_ok (k_mq k m)" "length (mq_content (k_mq k m)) < mq_cap (k_mq k m)" "b \<noteq> []"
     "length b \<le> unat (q_msg_size (k_mq k m))"
  shows "rt_mq_send m b k = mq_wake m (upd_mq m (mq_put b) k)" "rt_mq_urgent m b k = mq_wake m (upd_mq m (mq_push b) k)"
proof -
  from mq_room [OF assms(1,2)] obtain s fs where "mq_inv {} (k_mq k m) (mq_queued (k_mq k m)) (s # fs)" by blast
  from reserve_inv [OF this] obtain q' where "mq_reserve (k_mq k m) = Some (s, q')" by blast
  then show "rt_mq_send m b k = mq_wake m (upd_mq m (mq_put b) k)" "rt_mq_urgent m b k = mq_wake m (upd_mq m (mq_push b) k)"
    using assms(3,4) by (simp_all add: rt_mq_send_def rt_mq_urgent_def mq_put_def mq_push_def upd_mq_def)
qed

lemma mq_recv_message:
  assumes "mq_ok (k_mq k m)" "mq_content (k_mq k m) = x # xs" "sz \<noteq> 0"
  shows "rt_mq_recv m sz timeout k
     = Some (Done (RT_EOK, take (min (unat sz) (unat (q_msg_size (k_mq k m)))) x), upd_mq m (\<lambda>q. snd (mq_get q)) k)"
proof -
  let ?q = "k_mq k m"
  have e: "q_entry ?q \<noteq> 0"
    using length_mq_content [OF assms(1)] assms(2) by auto
  have inv: "mq_inv {} ?q (mq_queued ?q) (mq_unused ?q)" using assms(1) by (simp add: mq_ok_def)
  obtain s qs where q: "mq_queued ?q = s # qs" "q_data ?q s = x" using assms(2) by (auto simp: mq_content_def)
  from unlink_inv [OF inv [unfolded q(1)]] obtain q' where
    q': "mq_unlink ?q = Some (s, q')" "q_data q' = q_data ?q" "q_msg_size q' = q_msg_size ?q" by blast
  have "(if unat (q_msg_size ?q) < unat sz then unat (q_msg_size ?q) else unat sz) = min (unat sz) (unat (q_msg_size ?q))"
    by simp
  then show ?thesis using assms(3) e q' q(2)
    by (simp add: rt_mq_recv_def mq_recv_loop_def mq_recv_finish_def mq_get_def upd_mq_def Let_def)
qed

lemma mq_recv_waits:
  assumes c: "calling t k" and f: "q_flag (k_mq k m) \<le> 1" and time: "time_ok timeout" "timeout \<noteq> 0"
    and empty: "q_entry (k_mq k m) = 0" and sz: "sz \<noteq> 0"
  shows "\<exists>k'. rt_mq_recv m sz timeout k
       = Some (Waiting timeout (if 0 < sint timeout then k_tick k else 0), k')
     \<and> blocks_on (WMq m) (q_flag (k_mq k m)) t k k' \<and> k_mq k' = k_mq k \<and> t_error (k_thread k' t) = RT_EOK"
proof -
  let ?f = "\<lambda>th. th\<lparr>t_error := RT_EOK\<rparr>"
  obtain k' where "wait_on (WMq m) t (q_flag (k_mq k m)) timeout (upd_thread t ?f k) = Some k'"
      "blocks_on (WMq m) (q_flag (k_mq k m)) t k k'" "k_mq k' = k_mq k" "t_error (k_thread k' t) = t_error (?f (k_thread k t))"
    using call_blocks [OF c f time(1), of ?f "WMq m"] by auto
  then show ?thesis using time(2) empty sz callingD(5-7) [OF c]
    by (intro exI [of _ k']) (simp add: rt_mq_recv_def mq_recv_loop_def)
qed

text \<open>What a message of any admissible length looks like in the queue.\<close>

lemma mq_put_content:
  assumes "mq_ok q" "length (mq_content q) < mq_cap q" "length b \<le> unat (q_msg_size q)"
  shows "\<exists>x. mq_ok (mq_put b q) \<and> mq_content (mq_put b q) = mq_content q @ [x] \<and> take (length b) x = b"
proof -
  from mq_room [OF assms(1,2)] obtain s fs where s: "mq_inv {} q (mq_queued q) (s # fs)" "s \<notin> set (mq_queued q)" .
  note p = mq_put_inv [OF s(1) assms(3)]
  have "map (q_data (mq_put b q)) (mq_queued q) = map (q_data q) (mq_queued q)"
    by (rule map_cong [OF refl]) (metis s(2) p(3))
  then show ?thesis using mq_inv_lists(1) [OF p(1)] mq_okI [OF p(1)] p(2)
    by (intro exI [of _ "q_data (mq_put b q) s"]) (simp add: mq_content_def)
qed

lemma mq_push_content:
  assumes "mq_ok q" "length (mq_content q) < mq_cap q" "length b \<le> unat (q_msg_size q)"
  shows "\<exists>x. mq_ok (mq_push b q) \<and> mq_content (mq_push b q) = x # mq_content q \<and> take (length b) x = b"
proof -
  from mq_room [OF assms(1,2)] obtain s fs where s: "mq_inv {} q (mq_queued q) (s # fs)" "s \<notin> set (mq_queued q)" .
  note p = mq_push_inv [OF s(1) assms(3)]
  have "map (q_data (mq_push b q)) (mq_queued q) = map (q_data q) (mq_queued q)"
    by (rule map_cong [OF refl]) (metis s(2) p(3))
  then show ?thesis using mq_inv_lists(1) [OF p(1)] mq_okI [OF p(1)] p(2)
    by (intro exI [of _ "q_data (mq_push b q) s"]) (simp add: mq_content_def)
qed

end
