(* ===== verification/Rt_Event.thy ===== *)
theory Rt_Event
  imports Rt_Sem
begin

text \<open>
  Events (\<open>src/ipc.c\<close>, the \<open>rt_event\<close> functions): a set of 32 flags; a thread waits for all or for
  any of the flags it names and may clear them on receipt. A send sets flags and walks the list of
  waiting threads once, waking those it satisfies.
\<close>

definition upd_event :: "nat \<Rightarrow> (event \<Rightarrow> event) \<Rightarrow> kernel \<Rightarrow> kernel" where
  "upd_event v f k = k\<lparr>k_event := (k_event k)(v := f (k_event k v))\<rparr>"

lemma upd_event_simps [simp]:
  "k_event (upd_event s f k) = (k_event k)(s := f (k_event k s))"
  "k_thread (upd_event s f k) = k_thread k" "k_priority_table (upd_event s f k) = k_priority_table k"
  "k_ready_group (upd_event s f k) = k_ready_group k" "k_current (upd_event s f k) = k_current k"
  "k_lock_nest (upd_event s f k) = k_lock_nest k" "k_interrupt_nest (upd_event s f k) = k_interrupt_nest k"
  "k_defunct (upd_event s f k) = k_defunct k" "k_tick (upd_event s f k) = k_tick k"
  "k_timer (upd_event s f k) = k_timer k" "k_timer_list (upd_event s f k) = k_timer_list k"
  "k_wait (upd_event s f k) = k_wait k" "k_sem (upd_event s f k) = k_sem k"
  "k_mutex (upd_event s f k) = k_mutex k" "k_mb (upd_event s f k) = k_mb k"
  "k_mq (upd_event s f k) = k_mq k" "k_mp (upd_event s f k) = k_mp k"
  by (simp_all add: upd_event_def)

lemma thread_ok_upd_event [simp]: "thread_ok k \<Longrightarrow> thread_ok (upd_event s f k)"
  by (rule thread_ok_same [of k]) (simp_all add: same_sched_def)

definition rt_event_init :: "nat \<Rightarrow> u8 \<Rightarrow> kernel \<Rightarrow> int \<times> kernel" where
  "rt_event_init v flag k =
     (RT_EOK, upd_event v (\<lambda>_. \<lparr>e_flag = flag, e_set = 0\<rparr>) (k\<lparr>k_wait := (k_wait k)(WEvent v := [])\<rparr>))"

definition rt_event_detach :: "nat \<Rightarrow> kernel \<Rightarrow> (int \<times> kernel) option" where
  "rt_event_detach v k = do { k \<leftarrow> rt_ipc_list_resume_all (WEvent v) k; Some (RT_EOK, k) }"

text \<open>Is a receive with these options satisfied by these flags?\<close>

definition event_match :: "u8 \<Rightarrow> u32 \<Rightarrow> u32 \<Rightarrow> bool" where
  "event_match opt eset flags =
     (if opt AND 1 \<noteq> 0 then flags AND eset = eset
      else if opt AND 2 \<noteq> 0 then flags AND eset \<noteq> 0 else False)"

text \<open>One step of the walk: the thread is examined and, when satisfied, woken.\<close>

definition event_visit :: "nat \<Rightarrow> tid \<Rightarrow> kernel \<Rightarrow> bool \<times> kernel" where
  "event_visit v t k =
     (let th = k_thread k t; flags = e_set (k_event k v) in
      if event_match (t_event_info th) (t_event_set th) flags then
        (let k = (if t_event_info th AND 1 = 0
                  then upd_thread t (\<lambda>th. th\<lparr>t_event_set := t_event_set th AND flags\<rparr>) k else k);
             k = (if t_event_info th AND 4 \<noteq> 0
                  then upd_event v (\<lambda>x. x\<lparr>e_set := e_set x AND NOT (t_event_set (k_thread k t))\<rparr>) k else k)
         in (True, snd (rt_thread_resume t k)))
      else (False, k))"

fun event_walk :: "nat \<Rightarrow> tid list \<Rightarrow> bool \<Rightarrow> kernel \<Rightarrow> bool \<times> kernel" where
  "event_walk v [] need k = (need, k)"
| "event_walk v (t # ts) need k =
     (let (woken, k) = event_visit v t k in event_walk v ts (need \<or> woken) k)"

definition rt_event_send :: "nat \<Rightarrow> u32 \<Rightarrow> kernel \<Rightarrow> (int \<times> kernel) option" where
  "rt_event_send v eset k =
     (if eset = 0 then Some (- RT_ERROR, k)
      else
        (let k = upd_event v (\<lambda>x. x\<lparr>e_set := e_set x OR eset\<rparr>) k;
             (need_schedule, k) = event_walk v (k_wait k (WEvent v)) False k
         in if need_schedule then do { k \<leftarrow> rt_schedule k; Some (RT_EOK, k) } else Some (RT_EOK, k)))"

text \<open>The result of a receive is the error code and what is stored in \<open>*recved\<close>, if anything.\<close>

definition rt_event_recv :: "nat \<Rightarrow> u32 \<Rightarrow> u8 \<Rightarrow> u32 \<Rightarrow> kernel \<Rightarrow> ((int \<times> u32 option) call \<times> kernel) option" where
  "rt_event_recv v eset opt timeout k =
     do { not_in_interrupt k;
          if eset = 0 then Some (Return (- RT_ERROR, None), k)
          else do {
            t \<leftarrow> rt_thread_self k;
            let k = upd_thread t (\<lambda>th. th\<lparr>t_error := RT_EOK\<rparr>) k;
            if event_match opt eset (e_set (k_event k v))
            then let recved = e_set (k_event k v) AND eset;
                     k = (if opt AND 4 \<noteq> 0 then upd_event v (\<lambda>x. x\<lparr>e_set := e_set x AND NOT eset\<rparr>) k else k)
                 in Some (Return (t_error (k_thread k t), Some recved), k)
            else if timeout = 0
            then let k = upd_thread t (\<lambda>th. th\<lparr>t_error := - RT_ETIMEOUT\<rparr>) k
                 in Some (Return (t_error (k_thread k t), None), k)
            else do {
              let k = upd_thread t (\<lambda>th. th\<lparr>t_event_set := eset, t_event_info := opt\<rparr>) k;
              k \<leftarrow> wait_on (WEvent v) t (e_flag (k_event k v)) timeout k;
              Some (Blocked, k) } } }"

definition rt_event_recv_resumed :: "tid \<Rightarrow> kernel \<Rightarrow> int \<times> u32 option" where
  "rt_event_recv_resumed t k =
     (if t_error (k_thread k t) \<noteq> RT_EOK then (t_error (k_thread k t), None)
      else (t_error (k_thread k t), Some (t_event_set (k_thread k t))))"

definition rt_event_control :: "nat \<Rightarrow> u8 \<Rightarrow> u32 \<Rightarrow> kernel \<Rightarrow> (int \<times> kernel) option" where
  "rt_event_control v cmd arg k =
     (if cmd = 1 then
        do { k \<leftarrow> rt_ipc_list_resume_all (WEvent v) k;
             let k = upd_event v (\<lambda>x. x\<lparr>e_set := 0\<rparr>) k;
             k \<leftarrow> rt_schedule k;
             Some (RT_EOK, k) }
      else Some (- RT_ERROR, k))"

section \<open>Behaviour\<close>

definition waits_in_vain :: "nat \<Rightarrow> kernel \<Rightarrow> tid \<Rightarrow> bool" where
  "waits_in_vain v k t \<longleftrightarrow>
     \<not> event_match (t_event_info (k_thread k t)) (t_event_set (k_thread k t)) (e_set (k_event k v))"

lemma event_match_mono: "event_match opt s flags' \<Longrightarrow> flags' AND flags = flags' \<Longrightarrow> event_match opt s flags"
proof -
  assume m: "event_match opt s flags'" and sub: "flags' AND flags = flags'"
  have "flags' AND s = s \<Longrightarrow> flags AND s = s" using sub by (metis and.commute and.assoc)
  moreover have "flags' AND s \<noteq> 0 \<Longrightarrow> flags AND s \<noteq> 0" using sub by (metis and.assoc and_zero_eq)
  ultimately show ?thesis using m by (auto simp: event_match_def split: if_splits)
qed

text \<open>What visiting a waiting thread does.\<close>

lemma event_visit_ok:
  assumes ok: "thread_ok k" and w: "t \<in> set (k_wait k (WEvent v))" and r: "event_visit v t k = (b, k')"
  shows "thread_ok k'" "b = (\<not> waits_in_vain v k t)" "\<not> b \<Longrightarrow> k' = k"
    "k_wait k' = (if b then (k_wait k)(WEvent v := removeAll t (k_wait k (WEvent v))) else k_wait k)"
    "e_set (k_event k' v) AND e_set (k_event k v) = e_set (k_event k' v)"
    "u \<noteq> t \<Longrightarrow> k_thread k' u = k_thread k u" "b \<Longrightarrow> t_stat (k_thread k' t) = READY"
    "k_lock_nest k' = k_lock_nest k"
proof -
  show b: "b = (\<not> waits_in_vain v k t)"
    using r by (auto simp: event_visit_def waits_in_vain_def Let_def split: if_splits)
  show id: "\<not> b \<Longrightarrow> k' = k" using r by (auto simp: event_visit_def Let_def split: if_splits)
  note sok = thread_okD(1) [OF ok]
  have s: "t_stat (k_thread k t) = SUSPEND" by (rule sched_okD(3) [OF sok w])
  have others: "t \<notin> set (k_wait k x)" if "x \<noteq> WEvent v" for x using sched_okD(5) [OF sok w] that by blast
  have all: "thread_ok k' \<and> (b \<longrightarrow> k_wait k' = (k_wait k)(WEvent v := removeAll t (k_wait k (WEvent v)))
      \<and> t_stat (k_thread k' t) = READY) \<and> e_set (k_event k' v) AND e_set (k_event k v) = e_set (k_event k' v)
      \<and> (u \<noteq> t \<longrightarrow> k_thread k' u = k_thread k u) \<and> k_lock_nest k' = k_lock_nest k"
  proof (cases b)
    case False
    then show ?thesis using id ok by simp
  next
    case True
    let ?m = "event_match (t_event_info (k_thread k t)) (t_event_set (k_thread k t)) (e_set (k_event k v))"
    have m: ?m using True b by (simp add: waits_in_vain_def)
    obtain ka where ka: "k' = snd (rt_thread_resume t ka)" "same_sched k ka" "k_timer ka = k_timer k"
        "k_timer_list ka = k_timer_list k" "k_wait ka = k_wait k" "t_stat (k_thread ka t) = SUSPEND"
        "e_set (k_event ka v) AND e_set (k_event k v) = e_set (k_event ka v)"
        "\<And>u. u \<noteq> t \<Longrightarrow> k_thread ka u = k_thread k u" "k_lock_nest ka = k_lock_nest k"
      using r m s by (auto simp: event_visit_def Let_def same_sched_def ac_simps split: if_splits)
    have "thread_ok ka" by (rule thread_ok_same [OF ok ka(2-4)])
    moreover have "k_wait k' = (k_wait k)(WEvent v := removeAll t (k_wait k (WEvent v)))"
      using others by (auto simp: ka(1,5) fun_eq_iff resume_wait [OF ka(6)] removeAll_id)
    ultimately show ?thesis using resume_ok [of ka t] ka by simp
  qed
  show "thread_ok k'" "e_set (k_event k' v) AND e_set (k_event k v) = e_set (k_event k' v)"
    "u \<noteq> t \<Longrightarrow> k_thread k' u = k_thread k u" "b \<Longrightarrow> t_stat (k_thread k' t) = READY" "k_lock_nest k' = k_lock_nest k"
    "k_wait k' = (if b then (k_wait k)(WEvent v := removeAll t (k_wait k (WEvent v))) else k_wait k)"
    using all id by auto
qed

text \<open>
  The walk over (a part of) the waiting list: what is left waiting, waits in vain, and the flags
  only shrink.
\<close>

lemma event_walk_ok:
  assumes "thread_ok k" "distinct ts" "set ts \<subseteq> set (k_wait k (WEvent v))" "event_walk v ts need k = (n, k')"
    and "\<forall>t\<in>set (k_wait k (WEvent v)) - set ts. waits_in_vain v k t"
  shows "thread_ok k' \<and> k_lock_nest k' = k_lock_nest k
     \<and> (\<exists>P. k_wait k' = (k_wait k)(WEvent v := filter P (k_wait k (WEvent v))))
     \<and> (\<forall>t\<in>set (k_wait k' (WEvent v)). waits_in_vain v k' t \<and> k_thread k' t = k_thread k t)
     \<and> (\<forall>t\<in>set (k_wait k (WEvent v)) - set (k_wait k' (WEvent v)). t_stat (k_thread k' t) = READY)
     \<and> e_set (k_event k' v) AND e_set (k_event k v) = e_set (k_event k' v)
     \<and> (\<not> n \<longrightarrow> k' = k) \<and> (n \<longrightarrow> need \<or> set (k_wait k' (WEvent v)) \<noteq> set (k_wait k (WEvent v)))
     \<and> (need \<longrightarrow> n) \<and> (\<forall>u. u \<notin> set ts \<longrightarrow> k_thread k' u = k_thread k u)"
  using assms
proof (induction ts arbitrary: k need)
  case Nil
  then show ?case by (auto intro!: exI [of _ "\<lambda>_. True"])
next
  case (Cons t ts)
  obtain b k1 where v: "event_visit v t k = (b, k1)" by fastforce
  have tw: "t \<in> set (k_wait k (WEvent v))" using Cons.prems(3) by simp
  note vis = event_visit_ok [OF Cons.prems(1) tw v]
  have wait1: "set (k_wait k1 (WEvent v)) = set (k_wait k (WEvent v)) - (if b then {t} else {})"
    by (simp add: vis(4))
  have vain1: "waits_in_vain v k1 u" if "u \<noteq> t" "waits_in_vain v k u" for u
    using that event_match_mono [OF _ vis(5)] vis(6) [OF that(1)] by (auto simp: waits_in_vain_def)
  have "distinct ts" "set ts \<subseteq> set (k_wait k1 (WEvent v))" using Cons.prems(2,3) wait1 by auto
  moreover have "event_walk v ts (need \<or> b) k1 = (n, k')" using Cons.prems(4) v by simp
  moreover have "\<forall>u\<in>set (k_wait k1 (WEvent v)) - set ts. waits_in_vain v k1 u"
  proof
    fix u assume u: "u \<in> set (k_wait k1 (WEvent v)) - set ts"
    show "waits_in_vain v k1 u"
    proof (cases "u = t")
      case True
      then have "\<not> b" using u wait1 by auto
      then show ?thesis using vis(2,3) True by simp
    next
      case False
      then show ?thesis using vain1 u wait1 Cons.prems(5) by (auto split: if_splits)
    qed
  qed
  ultimately have IH: "thread_ok k' \<and> k_lock_nest k' = k_lock_nest k1
     \<and> (\<exists>P. k_wait k' = (k_wait k1)(WEvent v := filter P (k_wait k1 (WEvent v))))
     \<and> (\<forall>t\<in>set (k_wait k' (WEvent v)). waits_in_vain v k' t \<and> k_thread k' t = k_thread k1 t)
     \<and> (\<forall>t\<in>set (k_wait k1 (WEvent v)) - set (k_wait k' (WEvent v)). t_stat (k_thread k' t) = READY)
     \<and> e_set (k_event k' v) AND e_set (k_event k1 v) = e_set (k_event k' v)
     \<and> (\<not> n \<longrightarrow> k' = k1) \<and> (n \<longrightarrow> (need \<or> b) \<or> set (k_wait k' (WEvent v)) \<noteq> set (k_wait k1 (WEvent v)))
     \<and> (need \<or> b \<longrightarrow> n) \<and> (\<forall>u. u \<notin> set ts \<longrightarrow> k_thread k' u = k_thread k1 u)"
    using Cons.IH [OF vis(1)] by blast
  then obtain P where P: "k_wait k' = (k_wait k1)(WEvent v := filter P (k_wait k1 (WEvent v)))" by blast
  have sub': "set (k_wait k' (WEvent v)) \<subseteq> set (k_wait k1 (WEvent v))" using P by auto
  have tts: "t \<notin> set ts" using Cons.prems(2) by simp
  show ?case
  proof (intro conjI)
    show "thread_ok k'" "k_lock_nest k' = k_lock_nest k" using IH vis(8) by auto
    show "\<exists>P. k_wait k' = (k_wait k)(WEvent v := filter P (k_wait k (WEvent v)))"
      by (rule exI [of _ "\<lambda>u. P u \<and> (b \<longrightarrow> u \<noteq> t)"])
        (use P vis(4) in \<open>auto simp: fun_eq_iff removeAll_filter_not_eq conj_commute intro!: filter_cong\<close>)
    show "\<forall>u\<in>set (k_wait k' (WEvent v)). waits_in_vain v k' u \<and> k_thread k' u = k_thread k u"
    proof
      fix u assume u: "u \<in> set (k_wait k' (WEvent v))"
      then have "u \<in> set (k_wait k1 (WEvent v))" using sub' by blast
      then have "u = t \<longrightarrow> \<not> b" using wait1 by auto
      then have "k_thread k1 u = k_thread k u" using vis(3,6) by blast
      then show "waits_in_vain v k' u \<and> k_thread k' u = k_thread k u" using IH u by simp
    qed
    show "\<forall>u\<in>set (k_wait k (WEvent v)) - set (k_wait k' (WEvent v)). t_stat (k_thread k' u) = READY"
    proof
      fix u assume u: "u \<in> set (k_wait k (WEvent v)) - set (k_wait k' (WEvent v))"
      show "t_stat (k_thread k' u) = READY"
      proof (cases "b \<and> u = t")
        case True
        then show ?thesis using IH vis(7) tts by simp
      next
        case False
        then show ?thesis using IH u wait1 by (auto split: if_splits)
      qed
    qed
    show "e_set (k_event k' v) AND e_set (k_event k v) = e_set (k_event k' v)"
      using IH vis(5) by (metis and.assoc)
    show "\<not> n \<longrightarrow> k' = k" using IH vis(3) by blast
    show "n \<longrightarrow> need \<or> set (k_wait k' (WEvent v)) \<noteq> set (k_wait k (WEvent v))"
      using IH wait1 sub' tw by (auto split: if_splits)
    show "need \<longrightarrow> n" using IH by blast
    show "\<forall>u. u \<notin> set (t # ts) \<longrightarrow> k_thread k' u = k_thread k u" using IH vis(6) by simp
  qed
qed

lemma event_send_ok:
  assumes ok: "thread_ok k" and l: "k_lock_nest k = 0" and nz: "flags \<noteq> 0"
    and r: "t_stat (k_thread k u) = READY"
  shows "\<exists>k'. rt_event_send v flags k = Some (RT_EOK, k') \<and> thread_ok k'
     \<and> (\<exists>P. k_wait k' = (k_wait k)(WEvent v := filter P (k_wait k (WEvent v))))
     \<and> (\<forall>t\<in>set (k_wait k' (WEvent v)). waits_in_vain v k' t)
     \<and> (\<forall>t\<in>set (k_wait k (WEvent v)) - set (k_wait k' (WEvent v)). t_stat (k_thread k' t) = READY)
     \<and> (k_wait k' = k_wait k \<longrightarrow> e_set (k_event k' v) = e_set (k_event k v) OR flags)
     \<and> (k_wait k' \<noteq> k_wait k \<longrightarrow> runs_highest k')"
proof -
  let ?e = "upd_event v (\<lambda>x. x\<lparr>e_set := e_set x OR flags\<rparr>) k"
  obtain n kw where walk: "event_walk v (k_wait ?e (WEvent v)) False ?e = (n, kw)" by fastforce
  have e: "thread_ok ?e" using ok by simp
  have "distinct (k_wait ?e (WEvent v))" using sched_okD(4) [OF thread_okD(1) [OF ok]] by simp
  note w = event_walk_ok [OF e this subset_refl walk]
  then have kw: "thread_ok kw" "k_lock_nest kw = k_lock_nest ?e"
    "\<exists>P. k_wait kw = (k_wait ?e)(WEvent v := filter P (k_wait ?e (WEvent v)))"
    "\<forall>t\<in>set (k_wait kw (WEvent v)). waits_in_vain v kw t"
    "\<forall>t\<in>set (k_wait ?e (WEvent v)) - set (k_wait kw (WEvent v)). t_stat (k_thread kw t) = READY"
    "\<not> n \<Longrightarrow> kw = ?e" "n \<Longrightarrow> set (k_wait kw (WEvent v)) \<noteq> set (k_wait ?e (WEvent v))"
    "\<And>x. x \<notin> set (k_wait ?e (WEvent v)) \<Longrightarrow> k_thread kw x = k_thread ?e x"
    by auto
  show ?thesis
  proof (cases n)
    case False
    then have "rt_event_send v flags k = Some (RT_EOK, ?e)"
      using nz walk kw(6) by (simp add: rt_event_send_def Let_def)
    then show ?thesis using False kw e by (intro exI [of _ ?e]) auto
  next
    case True
    have "u \<notin> set (k_wait k (WEvent v))" using sched_okD(3) [OF thread_okD(1) [OF ok], of u "WEvent v"] r by auto
    then have "t_stat (k_thread kw u) = READY" using kw(8) r by simp
    then obtain k' where k': "rt_schedule kw = Some k'" "runs_highest k'"
      using rt_schedule_runs_highest [OF thread_okD(1) [OF kw(1)]] kw(2) l by auto
    note fr = rt_schedule_frame [OF k'(1)]
    have "rt_event_send v flags k = Some (RT_EOK, k')"
      using nz walk True k'(1) by (simp add: rt_event_send_def Let_def)
    moreover have "k_wait k' \<noteq> k_wait k" using kw(7) [OF True] fr(10) by auto
    ultimately show ?thesis using kw(3-5) k'(2) thread_ok_schedule [OF kw(1) k'(1)]
      by (intro exI [of _ k']) (simp add: fr waits_in_vain_def)
  qed
qed

lemma event_recv_cases:
  assumes c: "calling t k" and f: "e_flag (k_event k v) \<le> 1" and time: "time_ok timeout" and nz: "flags \<noteq> 0"
  defines "e \<equiv> upd_thread t (\<lambda>th. th\<lparr>t_error := RT_EOK\<rparr>) k"
  shows "event_match opt flags (e_set (k_event k v)) \<Longrightarrow>
      rt_event_recv v flags opt timeout k = Some (Return (RT_EOK, Some (e_set (k_event k v) AND flags)),
        if opt AND 4 \<noteq> 0 then upd_event v (\<lambda>x. x\<lparr>e_set := e_set x AND NOT flags\<rparr>) e else e)"
    and "\<not> event_match opt flags (e_set (k_event k v)) \<Longrightarrow> timeout = 0 \<Longrightarrow>
      rt_event_recv v flags opt timeout k =
        Some (Return (- RT_ETIMEOUT, None), upd_thread t (\<lambda>th. th\<lparr>t_error := - RT_ETIMEOUT\<rparr>) k)"
    and "\<not> event_match opt flags (e_set (k_event k v)) \<Longrightarrow> timeout \<noteq> 0 \<Longrightarrow>
      \<exists>k'. rt_event_recv v flags opt timeout k = Some (Blocked, k')
        \<and> blocks_on (WEvent v) (e_flag (k_event k v)) t k k' \<and> k_event k' = k_event k
        \<and> t_event_set (k_thread k' t) = flags \<and> t_event_info (k_thread k' t) = opt \<and> t_error (k_thread k' t) = RT_EOK"
proof -
  note cd = callingD [OF c]
  show "event_match opt flags (e_set (k_event k v)) \<Longrightarrow>
      rt_event_recv v flags opt timeout k = Some (Return (RT_EOK, Some (e_set (k_event k v) AND flags)),
        if opt AND 4 \<noteq> 0 then upd_event v (\<lambda>x. x\<lparr>e_set := e_set x AND NOT flags\<rparr>) e else e)"
    unfolding rt_event_recv_def e_def using cd(6,7) nz by (simp add: Let_def)
  show "\<not> event_match opt flags (e_set (k_event k v)) \<Longrightarrow> timeout = 0 \<Longrightarrow>
      rt_event_recv v flags opt timeout k =
        Some (Return (- RT_ETIMEOUT, None), upd_thread t (\<lambda>th. th\<lparr>t_error := - RT_ETIMEOUT\<rparr>) k)"
    unfolding rt_event_recv_def using cd(6,7) nz by (simp add: Let_def upd_thread_def)
  assume m: "\<not> event_match opt flags (e_set (k_event k v))" "timeout \<noteq> 0"
  let ?f = "\<lambda>th. th\<lparr>t_error := RT_EOK, t_event_set := flags, t_event_info := opt\<rparr>"
  obtain k' where k': "wait_on (WEvent v) t (e_flag (k_event k v)) timeout (upd_thread t ?f k) = Some k'"
      "blocks_on (WEvent v) (e_flag (k_event k v)) t k k'" "k_event k' = k_event k"
      "t_event_set (k_thread k' t) = flags" "t_event_info (k_thread k' t) = opt" "t_error (k_thread k' t) = RT_EOK"
    using call_blocks [OF c f time, of ?f "WEvent v"] by auto
  have eq: "upd_thread t (\<lambda>th. th\<lparr>t_event_set := flags, t_event_info := opt\<rparr>) (upd_thread t (\<lambda>th. th\<lparr>t_error := RT_EOK\<rparr>) k)
      = upd_thread t ?f k" by (simp add: upd_thread_def)
  have "rt_event_recv v flags opt timeout k = Some (Blocked, k')"
    unfolding rt_event_recv_def Let_def eq using cd(6,7) nz m k'(1) by (simp add: eq)
  then show "\<exists>k'. rt_event_recv v flags opt timeout k = Some (Blocked, k')
        \<and> blocks_on (WEvent v) (e_flag (k_event k v)) t k k' \<and> k_event k' = k_event k
        \<and> t_event_set (k_thread k' t) = flags \<and> t_event_info (k_thread k' t) = opt \<and> t_error (k_thread k' t) = RT_EOK"
    using k' by (intro exI [of _ k']) simp
qed

end
