(* ===== verification/Rt_Mutex.thy ===== *)
theory Rt_Mutex
  imports Rt_Sem
begin

text \<open>
  Mutexes (\<open>src/ipc.c\<close>, the \<open>rt_mutex\<close> functions): recursive locking by the owner, priority
  inheritance (a more urgent thread that has to wait lends its priority to the owner, who gives it
  back on release) and hand-over of the mutex to the first waiting thread.
\<close>

definition upd_mutex :: "nat \<Rightarrow> (mutex \<Rightarrow> mutex) \<Rightarrow> kernel \<Rightarrow> kernel" where
  "upd_mutex m f k = k\<lparr>k_mutex := (k_mutex k)(m := f (k_mutex k m))\<rparr>"

lemma upd_mutex_simps [simp]:
  "k_mutex (upd_mutex s f k) = (k_mutex k)(s := f (k_mutex k s))"
  "k_thread (upd_mutex s f k) = k_thread k" "k_priority_table (upd_mutex s f k) = k_priority_table k"
  "k_ready_group (upd_mutex s f k) = k_ready_group k" "k_current (upd_mutex s f k) = k_current k"
  "k_lock_nest (upd_mutex s f k) = k_lock_nest k" "k_interrupt_nest (upd_mutex s f k) = k_interrupt_nest k"
  "k_defunct (upd_mutex s f k) = k_defunct k" "k_tick (upd_mutex s f k) = k_tick k"
  "k_timer (upd_mutex s f k) = k_timer k" "k_timer_list (upd_mutex s f k) = k_timer_list k"
  "k_wait (upd_mutex s f k) = k_wait k" "k_sem (upd_mutex s f k) = k_sem k"
  "k_event (upd_mutex s f k) = k_event k" "k_mb (upd_mutex s f k) = k_mb k"
  "k_mq (upd_mutex s f k) = k_mq k" "k_mp (upd_mutex s f k) = k_mp k"
  by (simp_all add: upd_mutex_def)

lemma thread_ok_upd_mutex [simp]: "thread_ok k \<Longrightarrow> thread_ok (upd_mutex s f k)"
  by (rule thread_ok_same [of k]) (simp_all add: same_sched_def)

definition rt_mutex_init :: "nat \<Rightarrow> u8 \<Rightarrow> kernel \<Rightarrow> int \<times> kernel" where
  "rt_mutex_init m flag k =
     (RT_EOK, upd_mutex m (\<lambda>_. \<lparr>m_flag = flag, m_value = 1, m_original_priority = 0xFF, m_hold = 0, m_owner = None\<rparr>)
                (k\<lparr>k_wait := (k_wait k)(WMutex m := [])\<rparr>))"

definition rt_mutex_detach :: "nat \<Rightarrow> kernel \<Rightarrow> (int \<times> kernel) option" where
  "rt_mutex_detach m k = do { k \<leftarrow> rt_ipc_list_resume_all (WMutex m) k; Some (RT_EOK, k) }"

definition rt_mutex_take :: "nat \<Rightarrow> u32 \<Rightarrow> kernel \<Rightarrow> (int call \<times> kernel) option" where
  "rt_mutex_take m time k =
     do { not_in_interrupt k;
          t \<leftarrow> rt_thread_self k;
          let k = upd_thread t (\<lambda>th. th\<lparr>t_error := RT_EOK\<rparr>) k;
          if m_owner (k_mutex k m) = Some t
          then Some (Return RT_EOK, upd_mutex m (\<lambda>x. x\<lparr>m_hold := m_hold x + 1\<rparr>) k)
          else if 0 < m_value (k_mutex k m)
          then Some (Return RT_EOK, upd_mutex m (\<lambda>x. x\<lparr>m_value := m_value x - 1, m_owner := Some t,
                 m_original_priority := t_current_priority (k_thread k t), m_hold := m_hold x + 1\<rparr>) k)
          else if time = 0
          then Some (Return (- RT_ETIMEOUT), upd_thread t (\<lambda>th. th\<lparr>t_error := - RT_ETIMEOUT\<rparr>) k)
          else do {
            ow \<leftarrow> m_owner (k_mutex k m);
            let p = t_current_priority (k_thread k t);
            let k = (if p < t_current_priority (k_thread k ow) then change_priority ow p k else k);
            k \<leftarrow> wait_on (WMutex m) t (m_flag (k_mutex k m)) time k;
            Some (Blocked, k) } }"

definition rt_mutex_take_resumed :: "tid \<Rightarrow> kernel \<Rightarrow> int" where
  "rt_mutex_take_resumed t k =
     (if t_error (k_thread k t) \<noteq> RT_EOK then t_error (k_thread k t) else RT_EOK)"

definition rt_mutex_release :: "nat \<Rightarrow> kernel \<Rightarrow> (int \<times> kernel) option" where
  "rt_mutex_release m k =
     do { t \<leftarrow> rt_thread_self k;
          if m_owner (k_mutex k m) \<noteq> Some t
          then Some (- RT_ERROR, upd_thread t (\<lambda>th. th\<lparr>t_error := - RT_ERROR\<rparr>) k)
          else
            let k = upd_mutex m (\<lambda>x. x\<lparr>m_hold := m_hold x - 1\<rparr>) k in
            if m_hold (k_mutex k m) = 0
            then
              let orig = m_original_priority (k_mutex k m);
                  k = (if orig \<noteq> t_current_priority (k_thread k t) then change_priority t orig k else k)
              in (case k_wait k (WMutex m) of
                    u # _ \<Rightarrow>
                      do { let k = upd_mutex m (\<lambda>x. x\<lparr>m_owner := Some u,
                                 m_original_priority := t_current_priority (k_thread k u), m_hold := m_hold x + 1\<rparr>) k;
                           k \<leftarrow> rt_ipc_list_resume (WMutex m) k;
                           k \<leftarrow> rt_schedule k;
                           Some (RT_EOK, k) }
                  | [] \<Rightarrow> Some (RT_EOK, upd_mutex m (\<lambda>x. x\<lparr>m_value := m_value x + 1, m_owner := None,
                                 m_original_priority := 0xff\<rparr>) k))
            else Some (RT_EOK, k) }"

definition rt_mutex_control :: "nat \<Rightarrow> u8 \<Rightarrow> u32 \<Rightarrow> kernel \<Rightarrow> int \<times> kernel" where
  "rt_mutex_control m cmd arg k = (- RT_ERROR, k)"

section \<open>Behaviour\<close>

text \<open>A mutex is free, or locked at least once by its owner; only a locked mutex is waited for.\<close>

definition mutex_ok :: "nat \<Rightarrow> kernel \<Rightarrow> bool" where
  "mutex_ok m k \<longleftrightarrow>
     (case m_owner (k_mutex k m) of
        None \<Rightarrow> m_value (k_mutex k m) = 1 \<and> m_hold (k_mutex k m) = 0 \<and> k_wait k (WMutex m) = []
      | Some t \<Rightarrow> m_value (k_mutex k m) = 0 \<and> m_hold (k_mutex k m) \<noteq> 0
                  \<and> m_original_priority (k_mutex k m) < 32)"

lemma change_priority_thread:
  "k_thread (change_priority t p k) = (k_thread k)(t := with_priority p (k_thread k t))"
  by (auto simp: change_priority_def Let_def fun_eq_iff intro: thread.equality)

lemma change_priority_simps [simp]:
  "k_current (change_priority t p k) = k_current k" "k_lock_nest (change_priority t p k) = k_lock_nest k"
  "k_interrupt_nest (change_priority t p k) = k_interrupt_nest k" "k_tick (change_priority t p k) = k_tick k"
  "k_sem (change_priority t p k) = k_sem k" "k_mutex (change_priority t p k) = k_mutex k"
  "k_event (change_priority t p k) = k_event k" "k_mb (change_priority t p k) = k_mb k"
  "k_mq (change_priority t p k) = k_mq k" "k_mp (change_priority t p k) = k_mp k"
  by (simp_all add: change_priority_def Let_def)

lemma change_priority_wait: "sched_ok k \<Longrightarrow> k_wait (change_priority t p k) = k_wait k"
proof -
  assume ok: "sched_ok k"
  show ?thesis
  proof (cases "t_stat (k_thread k t) = READY")
    case True
    then have "t \<notin> set (k_wait k w)" for w using sched_okD(3) [OF ok, of t w] by auto
    then show ?thesis by (simp add: change_priority_def Let_def True fun_eq_iff removeAll_id)
  qed (simp add: change_priority_def Let_def)
qed

lemma mutex_take_cases:
  assumes c: "calling t k" and ok: "mutex_ok m k" and f: "m_flag (k_mutex k m) \<le> 1" and time: "time_ok time"
  defines "e \<equiv> upd_thread t (\<lambda>th. th\<lparr>t_error := RT_EOK\<rparr>) k"
  shows "m_owner (k_mutex k m) = Some t \<Longrightarrow>
      rt_mutex_take m time k = Some (Return RT_EOK, upd_mutex m (\<lambda>x. x\<lparr>m_hold := m_hold x + 1\<rparr>) e)"
    and "m_owner (k_mutex k m) = None \<Longrightarrow>
      rt_mutex_take m time k = Some (Return RT_EOK, upd_mutex m (\<lambda>x. x\<lparr>m_value := 0, m_owner := Some t,
                 m_original_priority := t_current_priority (k_thread k t), m_hold := 1\<rparr>) e)"
    and "m_owner (k_mutex k m) = Some ow \<Longrightarrow> ow \<noteq> t \<Longrightarrow> time = 0 \<Longrightarrow>
      rt_mutex_take m time k = Some (Return (- RT_ETIMEOUT), upd_thread t (\<lambda>th. th\<lparr>t_error := - RT_ETIMEOUT\<rparr>) k)"
    and "m_owner (k_mutex k m) = Some ow \<Longrightarrow> ow \<noteq> t \<Longrightarrow> time \<noteq> 0 \<Longrightarrow>
      \<exists>k'. rt_mutex_take m time k = Some (Blocked, k') \<and> thread_ok k' \<and> runs_highest k' \<and> k_current k' \<noteq> Some t
        \<and> t_stat (k_thread k' t) = SUSPEND \<and> t \<in> set (k_wait k' (WMutex m)) \<and> k_mutex k' = k_mutex k
        \<and> t_current_priority (k_thread k' ow) = min (t_current_priority (k_thread k ow)) (t_current_priority (k_thread k t))"
proof -
  note cd = callingD [OF c]
  have start: "rt_mutex_take m time k = (if m_owner (k_mutex k m) = Some t
          then Some (Return RT_EOK, upd_mutex m (\<lambda>x. x\<lparr>m_hold := m_hold x + 1\<rparr>) e)
          else if 0 < m_value (k_mutex k m)
          then Some (Return RT_EOK, upd_mutex m (\<lambda>x. x\<lparr>m_value := m_value x - 1, m_owner := Some t,
                 m_original_priority := t_current_priority (k_thread k t), m_hold := m_hold x + 1\<rparr>) e)
          else if time = 0
          then Some (Return (- RT_ETIMEOUT), upd_thread t (\<lambda>th. th\<lparr>t_error := - RT_ETIMEOUT\<rparr>) e)
          else do {
            ow \<leftarrow> m_owner (k_mutex k m);
            let p = t_current_priority (k_thread k t);
            let k = (if p < t_current_priority (k_thread e ow) then change_priority ow p e else e);
            k \<leftarrow> wait_on (WMutex m) t (m_flag (k_mutex k m)) time k;
            Some (Blocked, k) })"
    unfolding rt_mutex_take_def e_def by (simp add: cd(6,7) Let_def)
  show "m_owner (k_mutex k m) = Some t \<Longrightarrow>
      rt_mutex_take m time k = Some (Return RT_EOK, upd_mutex m (\<lambda>x. x\<lparr>m_hold := m_hold x + 1\<rparr>) e)"
    unfolding start by simp
  show "m_owner (k_mutex k m) = None \<Longrightarrow>
      rt_mutex_take m time k = Some (Return RT_EOK, upd_mutex m (\<lambda>x. x\<lparr>m_value := 0, m_owner := Some t,
                 m_original_priority := t_current_priority (k_thread k t), m_hold := 1\<rparr>) e)"
    using ok unfolding start by (simp add: mutex_ok_def upd_mutex_def e_def upd_thread_def)
  show "m_owner (k_mutex k m) = Some ow \<Longrightarrow> ow \<noteq> t \<Longrightarrow> time = 0 \<Longrightarrow>
      rt_mutex_take m time k = Some (Return (- RT_ETIMEOUT), upd_thread t (\<lambda>th. th\<lparr>t_error := - RT_ETIMEOUT\<rparr>) k)"
    using ok unfolding start by (simp add: mutex_ok_def e_def upd_thread_def)
  assume ow: "m_owner (k_mutex k m) = Some ow" "ow \<noteq> t" "time \<noteq> 0"
  let ?p = "t_current_priority (k_thread k t)"
  let ?lend = "if ?p < t_current_priority (k_thread e ow) then change_priority ow ?p e else e"
  have eok: "thread_ok e" unfolding e_def by (rule thread_ok_error [OF cd(1)])
  have p32: "?p < 32" using sched_okD(7) [OF thread_okD(1) [OF cd(1)], of t] cd(3) by simp
  have lok: "thread_ok ?lend" using eok change_priority_ok [OF eok p32] by simp
  have same: "t_stat (k_thread ?lend v) = t_stat (k_thread k v)" for v
    by (simp add: change_priority_thread e_def)
  obtain u where u: "u \<noteq> t" "t_stat (k_thread k u) = READY" using c unfolding calling_def by blast
  have r: "t_stat (k_thread ?lend t) = READY" and ur: "t_stat (k_thread ?lend u) = READY"
    using same cd(3) u(2) by simp_all
  have lock: "k_lock_nest ?lend = 0" using cd(4) by (simp add: e_def)
  have mx: "k_mutex ?lend = k_mutex k" by (simp add: e_def)
  have fl: "m_flag (k_mutex ?lend m) \<le> 1" using f mx by simp
  obtain k' where k': "wait_on (WMutex m) t (m_flag (k_mutex ?lend m)) time ?lend = Some k'" "thread_ok k'" "runs_highest k'"
     "k_wait k' = (k_wait ?lend)(WMutex m := enqueued (m_flag (k_mutex ?lend m)) ?lend t (k_wait ?lend (WMutex m)))"
     "k_thread k' = (k_thread ?lend)(t := (k_thread ?lend t)\<lparr>t_stat := SUSPEND\<rparr>)" "k_mutex k' = k_mutex ?lend"
    using wait_on_ok [OF lok r fl time ur u(1) lock, of "WMutex m"] by blast
  have "rt_mutex_take m time k = Some (Blocked, k')"
    using ow ok k'(1) unfolding start by (simp add: mutex_ok_def Let_def)
  moreover have "k_current k' \<noteq> Some t" using k'(3,5) unfolding runs_highest_def by auto
  moreover have "t_current_priority (k_thread k' ow) = min (t_current_priority (k_thread k ow)) ?p"
    using ow(2) by (auto simp: k'(5) change_priority_thread e_def min_def)
  moreover have "t_stat (k_thread k' t) = SUSPEND" "t \<in> set (k_wait k' (WMutex m))" by (simp_all add: k'(4,5))
  ultimately show "\<exists>k'. rt_mutex_take m time k = Some (Blocked, k') \<and> thread_ok k' \<and> runs_highest k' \<and> k_current k' \<noteq> Some t
        \<and> t_stat (k_thread k' t) = SUSPEND \<and> t \<in> set (k_wait k' (WMutex m)) \<and> k_mutex k' = k_mutex k
        \<and> t_current_priority (k_thread k' ow) = min (t_current_priority (k_thread k ow)) ?p"
    using k'(2,3,6) mx by (intro exI [of _ k']) simp
qed

text \<open>The owner gives its borrowed priority back.\<close>

definition restored :: "nat \<Rightarrow> tid \<Rightarrow> kernel \<Rightarrow> kernel" where
  "restored m t k =
     (if m_original_priority (k_mutex k m) \<noteq> t_current_priority (k_thread k t)
      then change_priority t (m_original_priority (k_mutex k m)) k else k)"

lemma restored_priority [simp]:
  "t_current_priority (k_thread (restored m t k) t) = m_original_priority (k_mutex k m)"
  "u \<noteq> t \<Longrightarrow> k_thread (restored m t k) u = k_thread k u"
  "t_stat (k_thread (restored m t k) t) = t_stat (k_thread k t)"
  "k_mutex (restored m t k) = k_mutex k" "k_current (restored m t k) = k_current k"
  "k_lock_nest (restored m t k) = k_lock_nest k"
  by (auto simp: restored_def change_priority_thread)

lemma restored_ok:
  assumes "thread_ok k" "m_original_priority (k_mutex k m) < 32"
  shows "thread_ok (restored m t k)" "k_wait (restored m t k) = k_wait k"
  using assms change_priority_ok change_priority_wait [OF thread_okD(1)] by (auto simp: restored_def)

lemma mutex_release_cases:
  assumes c: "thread_ok k" "k_current k = Some t" "k_lock_nest k = 0" and ok: "mutex_ok m k"
  shows "m_owner (k_mutex k m) \<noteq> Some t \<Longrightarrow>
      rt_mutex_release m k = Some (- RT_ERROR, upd_thread t (\<lambda>th. th\<lparr>t_error := - RT_ERROR\<rparr>) k)"
    and "m_owner (k_mutex k m) = Some t \<Longrightarrow> m_hold (k_mutex k m) \<noteq> 1 \<Longrightarrow>
      rt_mutex_release m k = Some (RT_EOK, upd_mutex m (\<lambda>x. x\<lparr>m_hold := m_hold x - 1\<rparr>) k)"
    and "m_owner (k_mutex k m) = Some t \<Longrightarrow> m_hold (k_mutex k m) = 1 \<Longrightarrow> k_wait k (WMutex m) = [] \<Longrightarrow>
      \<exists>k'. rt_mutex_release m k = Some (RT_EOK, k') \<and> thread_ok k' \<and> mutex_ok m k' \<and> m_owner (k_mutex k' m) = None
        \<and> t_current_priority (k_thread k' t) = m_original_priority (k_mutex k m)"
    and "m_owner (k_mutex k m) = Some t \<Longrightarrow> m_hold (k_mutex k m) = 1 \<Longrightarrow> k_wait k (WMutex m) = u # us \<Longrightarrow>
      \<exists>k'. rt_mutex_release m k = Some (RT_EOK, k') \<and> thread_ok k' \<and> mutex_ok m k' \<and> m_owner (k_mutex k' m) = Some u
        \<and> t_stat (k_thread k' u) = READY \<and> k_wait k' (WMutex m) = us \<and> runs_highest k'
        \<and> (t \<noteq> u \<longrightarrow> t_current_priority (k_thread k' t) = m_original_priority (k_mutex k m))"
proof -
  have self: "rt_thread_self k = Some t" using c(2) by (simp add: rt_thread_self_def)
  let ?h = "upd_mutex m (\<lambda>x. x\<lparr>m_hold := m_hold x - 1\<rparr>) k"
  let ?r = "restored m t ?h"
  let ?give = "\<lambda>v. upd_mutex m (\<lambda>x. x\<lparr>m_owner := Some v,
                   m_original_priority := t_current_priority (k_thread ?r v), m_hold := m_hold x + 1\<rparr>) ?r"
  show "m_owner (k_mutex k m) \<noteq> Some t \<Longrightarrow>
      rt_mutex_release m k = Some (- RT_ERROR, upd_thread t (\<lambda>th. th\<lparr>t_error := - RT_ERROR\<rparr>) k)"
    by (simp add: rt_mutex_release_def self)
  show "m_owner (k_mutex k m) = Some t \<Longrightarrow> m_hold (k_mutex k m) \<noteq> 1 \<Longrightarrow>
      rt_mutex_release m k = Some (RT_EOK, upd_mutex m (\<lambda>x. x\<lparr>m_hold := m_hold x - 1\<rparr>) k)"
    by (simp add: rt_mutex_release_def self Let_def)
  assume ow: "m_owner (k_mutex k m) = Some t" and h: "m_hold (k_mutex k m) = 1"
  have own: "m_value (k_mutex k m) = 0" "m_original_priority (k_mutex k m) < 32"
    using ok ow by (simp_all add: mutex_ok_def)
  have r: "thread_ok ?r" "k_wait ?r = k_wait k"
    using restored_ok [of ?h m t] c(1) own(2) by simp_all
  have rel: "rt_mutex_release m k = (case k_wait ?r (WMutex m) of
        v # _ \<Rightarrow> do { let k = ?give v; k \<leftarrow> rt_ipc_list_resume (WMutex m) k; k \<leftarrow> rt_schedule k; Some (RT_EOK, k) }
      | [] \<Rightarrow> Some (RT_EOK, upd_mutex m (\<lambda>x. x\<lparr>m_value := m_value x + 1, m_owner := None,
                                 m_original_priority := 0xff\<rparr>) ?r))"
    unfolding rt_mutex_release_def restored_def self using ow h by (simp add: Let_def cong: list.case_cong)
  show "\<exists>k'. rt_mutex_release m k = Some (RT_EOK, k') \<and> thread_ok k' \<and> mutex_ok m k' \<and> m_owner (k_mutex k' m) = None
        \<and> t_current_priority (k_thread k' t) = m_original_priority (k_mutex k m)"
    if w: "k_wait k (WMutex m) = []"
    using rel r w own h by (simp add: mutex_ok_def)
  assume w: "k_wait k (WMutex m) = u # us"
  have gw: "k_wait (?give u) (WMutex m) = u # us" using w r(2) by simp
  have gok: "thread_ok (?give u)" using r(1) by simp
  have gl: "k_lock_nest (?give u) = 0" using c(3) by simp
  have us: "t_stat (k_thread k u) = SUSPEND" using sched_okD(3) [OF thread_okD(1) [OF c(1)], of u "WMutex m"] w by simp
  obtain k' where k': "do { k \<leftarrow> rt_ipc_list_resume (WMutex m) (?give u); rt_schedule k } = Some k'" "thread_ok k'" "runs_highest k'"
      "k_wait k' = (k_wait (?give u))(WMutex m := us)"
      "k_thread k' = (k_thread (?give u))(u := (k_thread (?give u) u)\<lparr>t_stat := READY\<rparr>)" "k_mutex k' = k_mutex (?give u)"
    using wake_first [OF gok gl gw] by blast
  have "t_stat (k_thread ?r u) = SUSPEND" using us by (cases "u = t") simp_all
  then have p: "t_current_priority (k_thread ?r u) < 32" using sched_okD(7) [OF thread_okD(1) [OF r(1)], of u] by simp
  have "rt_mutex_release m k = Some (RT_EOK, k')"
    using k'(1) w r(2) unfolding rel by (auto simp: Let_def split: Option.bind_splits)
  moreover have "mutex_ok m k'" using own h p by (simp add: mutex_ok_def k'(6))
  moreover have "m_owner (k_mutex k' m) = Some u" by (simp add: k'(6))
  moreover have "t_stat (k_thread k' u) = READY" "k_wait k' (WMutex m) = us" by (simp_all add: k'(4,5))
  moreover have "t \<noteq> u \<longrightarrow> t_current_priority (k_thread k' t) = m_original_priority (k_mutex k m)" by (simp add: k'(5))
  ultimately show "\<exists>k'. rt_mutex_release m k = Some (RT_EOK, k') \<and> thread_ok k' \<and> mutex_ok m k' \<and> m_owner (k_mutex k' m) = Some u
        \<and> t_stat (k_thread k' u) = READY \<and> k_wait k' (WMutex m) = us \<and> runs_highest k'
        \<and> (t \<noteq> u \<longrightarrow> t_current_priority (k_thread k' t) = m_original_priority (k_mutex k m))"
    using k'(2,3) by (intro exI [of _ k']) simp
qed

end
