(* ===== verification/Rt_Wakeup.thy ===== *)
theory Rt_Wakeup
  imports Rt_Thread
begin

text \<open>
  What the expiry of thread timers means for the threads: a second interpretation of the contract of
  time-out functions, with an invariant that follows a set of timed waiters through the check of the
  timers, and from it how long \<open>rt_thread_sleep\<close> sleeps.
\<close>

lemma timeout_thread:
  assumes "rt_thread_timeout t k = Some k'"
  shows "k_thread k' = (k_thread k)(t := (k_thread k t)\<lparr>t_error := - RT_ETIMEOUT, t_stat := READY\<rparr>)"
    "k_wait k' = (\<lambda>w. removeAll t (k_wait k w))" "k_timer_list k' = k_timer_list k" "k_timer k' = k_timer k"
proof -
  let ?w = "rt_schedule_insert_thread t (tlist_remove t (upd_thread t (\<lambda>th. th\<lparr>t_error := - RT_ETIMEOUT\<rparr>) k))"
  have "rt_schedule ?w = Some k'" using assms by (auto simp: rt_thread_timeout_def Let_def split: Option.bind_splits)
  note f = rt_schedule_frame [OF this]
  show "k_thread k' = (k_thread k)(t := (k_thread k t)\<lparr>t_error := - RT_ETIMEOUT, t_stat := READY\<rparr>)"
    by (auto simp: f fun_eq_iff)
  show "k_wait k' = (\<lambda>w. removeAll t (k_wait k w))" "k_timer_list k' = k_timer_list k" "k_timer k' = k_timer k"
    by (auto simp: f fun_eq_iff)
qed

lemma timeout_running_ready:
  assumes ok: "thread_ok k" and s: "t_stat (k_thread k t) = SUSPEND" and r: "running_ready k"
    and x: "rt_thread_timeout t (timer_list_remove (ThreadTimer t) k) = Some k'"
  shows "running_ready k'"
proof -
  let ?r = "timer_list_remove (ThreadTimer t) k"
  let ?w = "rt_schedule_insert_thread t (tlist_remove t (upd_thread t (\<lambda>th. th\<lparr>t_error := - RT_ETIMEOUT\<rparr>) ?r))"
  have sched: "rt_schedule ?w = Some k'" using x by (auto simp: rt_thread_timeout_def Let_def split: Option.bind_splits)
  have "sched_ok ?w" using timeout_wake [OF thread_ok_timer_removed [OF ok]] s by simp
  moreover have "t_stat (k_thread ?w t) = READY" by simp
  moreover have "running_ready ?w" using r by (auto simp: running_ready_def)
  ultimately show ?thesis using schedule_running_ready sched by blast
qed

section \<open>Timed waiters\<close>

text \<open>
  The threads of \<open>S\<close> are either still waiting with their timer running, or were made ready with the
  time-out error and wait for nothing. No timer is periodic: threads' timers never are, and the
  firmware starts no timer of its own.
\<close>

definition wake_inv :: "tid set \<Rightarrow> kernel \<Rightarrow> bool" where
  "wake_inv S k \<longleftrightarrow> thread_ok k \<and> running_ready k \<and> (\<forall>x. \<not> periodic k x)
     \<and> (\<forall>t\<in>S. ThreadTimer t \<in> set (k_timer_list k)
          \<or> (t_stat (k_thread k t) = READY \<and> t_error (k_thread k t) = - RT_ETIMEOUT \<and> (\<forall>w. t \<notin> set (k_wait k w))))"

lemma running_ready_timer [simp]: "running_ready (upd_timer x f k) = running_ready k"
  by (simp add: running_ready_def)

interpretation wakeup: timeout_functions "kernel_timeout no_app_timers" "wake_inv S" for S
proof
  fix k x assume inv: "wake_inv S k" and x: "x \<in> set (k_timer_list k)"
  then have ok: "thread_ok k" by (simp add: wake_inv_def)
  show "\<exists>k'. kernel_timeout no_app_timers x (timer_list_remove x k) = Some k' \<and> k_timer k' = k_timer k
             \<and> k_timer_list k' = removeAll x (k_timer_list k) \<and> k_tick k' = k_tick k
             \<and> wake_inv S (deactivate x k')"
  proof (cases x)
    case (ThreadTimer t)
    from timeout_ok [OF ok, of t] x ThreadTimer obtain k' where
      k': "rt_thread_timeout t (timer_list_remove (ThreadTimer t) k) = Some k'" "k_timer k' = k_timer k"
        "k_timer_list k' = removeAll (ThreadTimer t) (k_timer_list k)" "k_tick k' = k_tick k"
        "thread_ok (deactivate (ThreadTimer t) k')" by blast
    note th = timeout_thread [OF k'(1)]
    have "t_stat (k_thread k t) = SUSPEND" using thread_okD(3) [OF ok, of t] x ThreadTimer by simp
    then have "running_ready k'" using timeout_running_ready [OF ok _ _ k'(1)] inv by (simp add: wake_inv_def)
    then have "wake_inv S (deactivate (ThreadTimer t) k')"
      using inv k'(5) th k'(3) unfolding wake_inv_def by (auto simp: th(1,2) deactivate_def periodic_def)
    then show ?thesis using k' ThreadTimer by auto
  next
    case (AppTimer n)
    have "wake_inv S (deactivate x (timer_list_remove x k))"
      using inv AppTimer thread_ok_deactivate [OF thread_ok_timer_removed [OF ok, of x], of x]
      unfolding wake_inv_def by (auto simp: running_ready_def deactivate_def periodic_def)
    then show ?thesis using AppTimer by (simp add: no_app_timers_def)
  qed
next
  fix k x e k' assume "wake_inv S k" and "periodic k x"
  then show "wake_inv S k'" by (simp add: wake_inv_def)
qed

text \<open>
  The tick interrupt as a whole: every timed waiter whose deadline has come is ready with the
  time-out error and waits for nothing; every other one still waits, its deadline untouched.
\<close>

definition ticking :: "kernel \<Rightarrow> bool" where
  "ticking k \<longleftrightarrow> thread_ok k \<and> timers_ok (k_tick k) k \<and> running_ready k \<and> (\<forall>x. \<not> periodic k x)"

lemma tick_wakes:
  assumes "ticking k"
  shows "\<exists>k'. rt_tick_increase no_app_timers k = Some k' \<and> ticking k' \<and> k_tick k' = k_tick k + 1
     \<and> (\<forall>u. ThreadTimer u \<in> set (k_timer_list k) \<longrightarrow> due (k_tick k + 1) k (ThreadTimer u) \<longrightarrow>
          t_stat (k_thread k' u) = READY \<and> t_error (k_thread k' u) = - RT_ETIMEOUT \<and> (\<forall>w. u \<notin> set (k_wait k' w)))
     \<and> (\<forall>u. ThreadTimer u \<in> set (k_timer_list k) \<longrightarrow> \<not> due (k_tick k + 1) k (ThreadTimer u) \<longrightarrow>
          t_stat (k_thread k' u) = SUSPEND \<and> ThreadTimer u \<in> set (k_timer_list k')
          \<and> k_timer k' (ThreadTimer u) = k_timer k (ThreadTimer u))"
proof -
  have ok: "thread_ok k" and timers: "timers_ok (k_tick k) k" and np: "\<And>x. \<not> periodic k x"
    using assms by (auto simp: ticking_def)
  obtain t where cur: "k_current k = Some t" "t_stat (k_thread k t) = READY"
    using assms by (auto simp: ticking_def running_ready_def)
  from tick_start [OF ok cur, of no_app_timers] obtain k1 where
    k1: "rt_tick_increase no_app_timers k = rt_timer_check (kernel_timeout no_app_timers) k1"
      "thread_ok k1" "k_timer k1 = k_timer k" "k_timer_list k1 = k_timer_list k" "k_tick k1 = k_tick k + 1" 
      "running_ready k1" by blast
  have fit: "0 < tm_init_tick (k_timer k x) \<and> tm_init_tick (k_timer k x) < half_range - 1" if "periodic k x" for x
    using that np by simp
  note t = tick_timers [OF timers k1(3-5) fit]
  have np1: "\<not> periodic k1 x" for x using np [of x] by (simp add: periodic_def k1(3))
  let ?S = "{u. ThreadTimer u \<in> set (k_timer_list k)}"
  have "wake_inv ?S k1" using k1(2,4,6) np1 by (simp add: wake_inv_def)
  from wakeup.check_ok [OF this t] obtain k' where k': "rt_timer_check (kernel_timeout no_app_timers) k1 = Some k'"
      "wake_inv ?S k'" "timers_ok (k_tick k1) k'" "expired k1 k'" by blast
  have tk: "k_tick k' = k_tick k + 1" using k'(4) k1(5) by (simp add: expired_def)
  have due_eq: "due (k_tick k1) k1 x = due (k_tick k + 1) k x" for x by (simp add: due_def k1(3,5))
  have ok': "thread_ok k'" using k'(2) by (simp add: wake_inv_def)
  have left: "ThreadTimer u \<in> set (k_timer_list k') \<longleftrightarrow> ThreadTimer u \<in> set (k_timer_list k) \<and> \<not> due (k_tick k + 1) k (ThreadTimer u)" for u
    using k'(4) np1 unfolding expired_def k1(4) due_eq by auto
  have "t_stat (k_thread k' u) = READY \<and> t_error (k_thread k' u) = - RT_ETIMEOUT \<and> (\<forall>w. u \<notin> set (k_wait k' w))"
    if "ThreadTimer u \<in> set (k_timer_list k)" "due (k_tick k + 1) k (ThreadTimer u)" for u
    using k'(2) that left [of u] unfolding wake_inv_def by blast
  moreover have "t_stat (k_thread k' u) = SUSPEND \<and> ThreadTimer u \<in> set (k_timer_list k')
          \<and> k_timer k' (ThreadTimer u) = k_timer k (ThreadTimer u)"
    if "ThreadTimer u \<in> set (k_timer_list k)" "\<not> due (k_tick k + 1) k (ThreadTimer u)" for u
    using that left [of u] thread_okD(3) [OF ok', of u] k'(4) unfolding expired_def k1(3,4) due_eq by blast
  moreover have "ticking k'" using k'(2,3) k1(5) tk by (simp add: ticking_def wake_inv_def)
  ultimately show ?thesis using k'(1) k1(1) tk by (intro exI [of _ k']) simp
qed

section \<open>How long a sleep lasts\<close>

primrec ticks :: "nat \<Rightarrow> kernel \<Rightarrow> kernel option" where
  "ticks 0 k = Some k"
| "ticks (Suc n) k = do { k \<leftarrow> ticks n k; rt_tick_increase no_app_timers k }"

text \<open>A waiter with \<open>d\<close> ticks to go.\<close>

definition waits_for :: "tid \<Rightarrow> nat \<Rightarrow> kernel \<Rightarrow> bool" where
  "waits_for t d k \<longleftrightarrow> ThreadTimer t \<in> set (k_timer_list k) \<and> dist (k_tick k) k (ThreadTimer t) = d"

lemma due_next:
  assumes "ticking k" "ThreadTimer t \<in> set (k_timer_list k)"
  shows "due (k_tick k + 1) k (ThreadTimer t) \<longleftrightarrow> dist (k_tick k) k (ThreadTimer t) \<le> 1"
proof -
  let ?x = "tm_timeout_tick (k_timer k (ThreadTimer t))"
  have "dist (k_tick k) k (ThreadTimer t) < unat half_range" using assms by (simp add: ticking_def timers_ok_def)
  then have d: "unat (?x - k_tick k) < 2147483647" by (simp add: dist_def)
  have e: "k_tick k + 1 - ?x = 1 - (?x - k_tick k)" by simp
  show ?thesis
  proof (cases "unat (?x - k_tick k) \<le> 1")
    case True
    then have "unat (1 - (?x - k_tick k)) = 1 - unat (?x - k_tick k)"
      using unat_sub [of "?x - k_tick k" 1] by (simp add: word_le_nat_alt)
    then have "k_tick k + 1 - ?x < half_range" unfolding e by (simp add: word_less_nat_alt)
    then show ?thesis using True by (simp add: due_def dist_def)
  next
    case False
    then have "unat (1 - (?x - k_tick k)) = 4294967297 - unat (?x - k_tick k)"
      by (simp add: unat_sub_if_size word_size)
    then have "\<not> k_tick k + 1 - ?x < half_range" unfolding e using d by (simp add: word_less_nat_alt)
    then show ?thesis using False by (simp add: due_def dist_def)
  qed
qed

lemma dist_next: "dist (k_tick k) k x = Suc (Suc d) \<Longrightarrow> dist (k_tick k + 1) k x = Suc d"
proof -
  let ?x = "tm_timeout_tick (k_timer k x)"
  assume "dist (k_tick k) k x = Suc (Suc d)"
  then have d: "unat (?x - k_tick k) = Suc (Suc d)" by (simp add: dist_def)
  have e: "?x - (k_tick k + 1) = (?x - k_tick k) - 1" by simp
  have "unat (?x - (k_tick k + 1)) = Suc d"
    unfolding e using unat_sub [of 1 "?x - k_tick k"] d by (simp add: word_le_nat_alt del: diff_diff_eq)
  then show ?thesis unfolding dist_def .
qed

lemma waits_lasts:
  assumes "ticking k" "waits_for t d k"
  shows "n < max 1 d \<Longrightarrow> \<exists>k'. ticks n k = Some k' \<and> ticking k' \<and> k_tick k' = k_tick k + of_nat n
     \<and> waits_for t (d - n) k'"
proof (induction n)
  case 0
  then show ?case using assms by simp
next
  case (Suc n)
  have lt: "n < max 1 d" and dn: "d - n = Suc (Suc (d - n - 2))" using Suc.prems by linarith+
  from Suc.IH [OF lt] obtain k' where
    k': "ticks n k = Some k'" "ticking k'" "k_tick k' = k_tick k + of_nat n" "waits_for t (d - n) k'" by blast
  have w: "ThreadTimer t \<in> set (k_timer_list k')" "dist (k_tick k') k' (ThreadTimer t) = d - n"
    using k'(4) by (simp_all add: waits_for_def)
  from tick_wakes [OF k'(2)] obtain k'' where k'': "rt_tick_increase no_app_timers k' = Some k''" "ticking k''"
    "k_tick k'' = k_tick k' + 1"
    "\<not> due (k_tick k' + 1) k' (ThreadTimer t) \<longrightarrow> ThreadTimer t \<in> set (k_timer_list k'')
        \<and> k_timer k'' (ThreadTimer t) = k_timer k' (ThreadTimer t)" using w(1) by blast
  have "\<not> due (k_tick k' + 1) k' (ThreadTimer t)" using due_next [OF k'(2) w(1)] w(2) dn by simp
  then have in': "ThreadTimer t \<in> set (k_timer_list k'')" and tm: "k_timer k'' (ThreadTimer t) = k_timer k' (ThreadTimer t)"
    using k''(4) by auto
  have "dist (k_tick k' + 1) k' (ThreadTimer t) = Suc (d - n - 2)" by (rule dist_next) (use w(2) dn in simp)
  then have "dist (k_tick k'') k'' (ThreadTimer t) = d - Suc n" using tm dn by (simp add: dist_def k''(3))
  then show ?case using k'(1,3) k''(1-3) in' by (intro exI [of _ k'']) (simp add: waits_for_def)
qed

lemma waits_ends:
  assumes "ticking k" "waits_for t d k"
  shows "\<exists>k'. ticks (max 1 d) k = Some k' \<and> ticking k' \<and> t_stat (k_thread k' t) = READY
     \<and> t_error (k_thread k' t) = - RT_ETIMEOUT \<and> (\<forall>w. t \<notin> set (k_wait k' w))"
proof -
  obtain m where n: "max 1 d = Suc m" using not0_implies_Suc [of "max 1 d"] by auto
  then have lt: "m < max 1 d" by simp
  from waits_lasts [OF assms lt] obtain k' where k': "ticks m k = Some k'" "ticking k'" "waits_for t (d - m) k'" by blast
  then have w: "ThreadTimer t \<in> set (k_timer_list k')" "dist (k_tick k') k' (ThreadTimer t) = d - m"
    by (simp_all add: waits_for_def)
  have "due (k_tick k' + 1) k' (ThreadTimer t)" using due_next [OF k'(2) w(1)] w(2) n by auto
  with tick_wakes [OF k'(2)] w(1) obtain k'' where "rt_tick_increase no_app_timers k' = Some k''" "ticking k''"
    "t_stat (k_thread k'' t) = READY" "t_error (k_thread k'' t) = - RT_ETIMEOUT" "\<forall>w. t \<notin> set (k_wait k'' w)" by blast
  then show ?thesis unfolding n using k'(1) by (intro exI [of _ k'']) simp
qed

text \<open>Arming an idle thread timer: its deadline is the given time from now.\<close>

lemma arm_deadline:
  assumes ok: "timers_ok (k_tick k) k" and idle: "\<not> active k (ThreadTimer t)" and tick: "tick < half_range"
  shows "\<exists>k'. thread_timer_arm t tick k = Some k' \<and> timers_ok (k_tick k') k' \<and> waits_for t (unat tick) k'
     \<and> (\<forall>x. \<not> periodic k x) = (\<forall>x. \<not> periodic k' x)"
proof -
  let ?k = "upd_timer (ThreadTimer t) (\<lambda>x. x\<lparr>tm_init_tick := tick\<rparr>) k"
  have c: "snd (rt_timer_control (ThreadTimer t) 0 tick k) = ?k" by (simp add: rt_timer_control_def)
  have e: "dist (k_tick k) ?k = dist (k_tick k) k" "active ?k = active k" by (simp_all add: dist_def active_def fun_eq_iff)
  have ok1: "timers_ok (k_tick k) ?k" using ok unfolding timers_ok_def e by simp
  have i: "\<not> active ?k (ThreadTimer t)" using idle by (simp add: active_def)
  have s: "tm_init_tick (k_timer ?k (ThreadTimer t)) < half_range" using tick by simp
  have n: "unat (k_tick ?k + tm_init_tick (k_timer ?k (ThreadTimer t)) - k_tick k) < unat half_range"
    using tick by (simp add: word_less_nat_alt)
  from rt_timer_start_ok [OF ok1 i s n] obtain k' where k': "rt_timer_start (ThreadTimer t) ?k = Some (- RT_EOK, k')"
    "timers_ok (k_tick k) k'" "set (k_timer_list k') = insert (ThreadTimer t) (set (k_timer_list ?k))" "k_tick k' = k_tick ?k"
    "\<And>y. y \<noteq> ThreadTimer t \<Longrightarrow> k_timer k' y = k_timer ?k y"
    "tm_timeout_tick (k_timer k' (ThreadTimer t)) = k_tick ?k + tm_init_tick (k_timer ?k (ThreadTimer t))"
    "periodic k' (ThreadTimer t) = periodic ?k (ThreadTimer t)" by metis
  have a: "thread_timer_arm t tick k = Some k'" using k'(1) by (simp add: thread_timer_arm_def c)
  have per: "periodic k' x = periodic k x" for x
  proof (cases "x = ThreadTimer t")
    case True
    then show ?thesis using k'(7) by (simp add: periodic_def)
  next
    case False
    then show ?thesis using k'(5) [OF False] by (simp add: periodic_def)
  qed
  have "waits_for t (unat tick) k'" using k'(3,4,6) by (simp add: waits_for_def dist_def)
  then show ?thesis using a k'(2,4) per by (intro exI [of _ k']) simp
qed

lemma sleep_waits:
  assumes k: "ticking k" and cur: "k_current k = Some t" "t_stat (k_thread k t) = READY"
    and other: "u \<noteq> t" "t_stat (k_thread k u) = READY" and lock: "k_lock_nest k = 0" and tick: "tick < half_range"
  shows "\<exists>k'. rt_thread_sleep tick k = Some k' \<and> ticking k' \<and> runs_highest k' \<and> t_stat (k_thread k' t) = SUSPEND
     \<and> waits_for t (unat tick) k'"
proof -
  have ok: "thread_ok k" "timers_ok (k_tick k) k" "\<forall>x. \<not> periodic k x" using k by (simp_all add: ticking_def)
  let ?s = "snd (rt_thread_suspend t k)"
  note s = suspend_ok [OF ok(1) cur(2)]
  have st: "k_timer ?s = k_timer k" "k_timer_list ?s = k_timer_list k" "k_tick ?s = k_tick k" by simp_all
  have "timers_ok (k_tick ?s) ?s" using ok(2) unfolding timers_ok_def active_def dist_def st .
  moreover have "\<not> active ?s (ThreadTimer t)" using thread_okD(2) [OF ok(1) cur(2)] by (simp add: active_def)
  ultimately obtain k1 where k1: "thread_timer_arm t tick ?s = Some k1" "timers_ok (k_tick k1) k1" "waits_for t (unat tick) k1"
    "(\<forall>x. \<not> periodic ?s x) = (\<forall>x. \<not> periodic k1 x)" using arm_deadline tick by blast
  note a = arm_simps [OF k1(1)]
  have ok1: "thread_ok k1" by (rule arm_ok [OF s(1,3) k1(1)])
  have u: "t_stat (k_thread k1 u) = READY" using other by (simp add: a(1) rt_thread_suspend_def cur)
  have t: "t_stat (k_thread k1 t) = SUSPEND" using s(3) by (simp add: a(1))
  have "k_lock_nest k1 = 0" using lock by (simp add: a)
  from rt_schedule_runs_highest [OF thread_okD(1) [OF ok1] u this] obtain k' where
    k': "rt_schedule k1 = Some k'" "runs_highest k'" by blast
  note f = rt_schedule_frame [OF k'(1)]
  have np: "\<forall>x. \<not> periodic k' x" using k1(4) ok(3) by (simp add: periodic_def f)
  have "timers_ok (k_tick k') k'" using k1(2) unfolding timers_ok_def active_def dist_def f .
  moreover have "running_ready k'" using k'(2) by (auto simp: runs_highest_def running_ready_def)
  ultimately have "ticking k'" using thread_ok_schedule [OF ok1 k'(1)] np by (simp add: ticking_def)
  moreover have "waits_for t (unat tick) k'" using k1(3) by (simp add: waits_for_def dist_def f)
  moreover have "rt_thread_sleep tick k = Some k'" using cur(1) k1(1) k'(1) by (simp add: rt_thread_sleep_def Let_def)
  ultimately show ?thesis using k'(2) t by (intro exI [of _ k']) (simp add: f)
qed

end
