(* ===== verification/Rt_Demo.thy ===== *)
theory Rt_Demo
  imports Rt_Mq Rt_Event Rt_Mutex Rt_Wakeup
begin

text \<open>
  A concrete kernel in the middle of its work: the idle thread 0 and thread 1, which runs, are ready;
  thread 2 waits for one more tick at most on the list \<open>w\<close>. The objects numbered 0 hold what the
  evaluations need: a taken semaphore, a mutex locked by thread 1 with a lent priority, an event,
  a half full mailbox and a half full message queue.
\<close>

definition demo_thread :: "tstat \<Rightarrow> u8 \<Rightarrow> thread" where
  "demo_thread st p = \<lparr>t_error = 0, t_stat = st, t_current_priority = p, t_init_priority = p,
     t_number_mask = prio_mask p, t_event_set = 3, t_event_info = 5, t_init_tick = 10, t_remaining_tick = 10,
     t_cleanup = False, t_static = True\<rparr>"

lemma demo_thread_fields [simp]:
  "t_stat (demo_thread st p) = st" "t_current_priority (demo_thread st p) = p" "t_number_mask (demo_thread st p) = prio_mask p"
  "t_event_set (demo_thread st p) = 3" "t_event_info (demo_thread st p) = 5" "t_error (demo_thread st p) = 0"
  by (simp_all add: demo_thread_def)

definition demo_mb :: mailbox where
  "demo_mb = \<lparr>b_flag = 0, b_msg_pool = [7, 8], b_size = 2, b_entry = 1, b_in_offset = 1, b_out_offset = 0\<rparr>"

definition demo_mq :: msgqueue where
  "demo_mq = \<lparr>q_flag = 0, q_msg_size = 4, q_max_msgs = 2, q_entry = 1, q_head = Some 0, q_tail = Some 0,
     q_free = Some 1, q_next = (\<lambda>_. None), q_data = (\<lambda>s. [1, 2, 3, 4])\<rparr>"

definition demo :: "waitq \<Rightarrow> kernel" where
  "demo w = \<lparr>
     k_thread = (\<lambda>t. if t = 0 then demo_thread READY 31 else if t = 1 then demo_thread READY 5
                     else if t = 2 then demo_thread SUSPEND 7 else demo_thread INIT 0),
     k_priority_table = (\<lambda>p. if p = 31 then [0] else if p = 5 then [1] else []),
     k_ready_group = prio_mask 31 OR prio_mask 5,
     k_current = Some 1, k_current_priority = 5, k_lock_nest = 0, k_interrupt_nest = 0, k_defunct = [], k_tick = 100,
     k_timer = (\<lambda>x. if x = ThreadTimer 2 then \<lparr>tm_flag = 1, tm_init_tick = 5, tm_timeout_tick = 101\<rparr>
                    else \<lparr>tm_flag = 0, tm_init_tick = 0, tm_timeout_tick = 0\<rparr>),
     k_timer_list = [ThreadTimer 2],
     k_wait = (\<lambda>_. [])(w := [2]),
     k_sem = (\<lambda>_. \<lparr>s_flag = 0, s_value = 0\<rparr>),
     k_mutex = (\<lambda>_. \<lparr>m_flag = 0, m_value = 0, m_original_priority = 9, m_hold = 1, m_owner = Some 1\<rparr>),
     k_event = (\<lambda>_. \<lparr>e_flag = 0, e_set = 0\<rparr>),
     k_mb = (\<lambda>_. demo_mb), k_mq = (\<lambda>_. demo_mq),
     k_mp = (\<lambda>_. \<lparr>p_block_size = 8, p_total_count = 0, p_free_count = 0, p_block_list = None,
                   p_header = (\<lambda>_. NextFree None), p_suspend_count = 0\<rparr>)\<rparr>"

lemma demo_fields [simp]:
  "k_thread (demo w) 0 = demo_thread READY 31" "k_thread (demo w) (Suc 0) = demo_thread READY 5"
  "k_thread (demo w) 2 = demo_thread SUSPEND 7"
  "k_current (demo w) = Some (Suc 0)" "k_lock_nest (demo w) = 0" "k_interrupt_nest (demo w) = 0" "k_tick (demo w) = 100"
  "k_timer_list (demo w) = [ThreadTimer 2]" "k_wait (demo w) = (\<lambda>_. [])(w := [2])"
  "k_sem (demo w) n = \<lparr>s_flag = 0, s_value = 0\<rparr>"
  "k_mutex (demo w) n = \<lparr>m_flag = 0, m_value = 0, m_original_priority = 9, m_hold = 1, m_owner = Some 1\<rparr>"
  "k_event (demo w) n = \<lparr>e_flag = 0, e_set = 0\<rparr>"
  "k_mb (demo w) n = demo_mb" "k_mq (demo w) n = demo_mq"
  by (simp_all add: demo_def)

lemma demo_stat: "t_stat (k_thread (demo w) t) =
    (if t = 0 \<or> t = 1 then READY else if t = 2 then SUSPEND else INIT)"
  by (simp add: demo_def demo_thread_def)

lemma demo_bits: "bit (k_ready_group (demo w)) p \<longleftrightarrow> k_priority_table (demo w) p \<noteq> []"
  by (auto simp: demo_def bit_or_iff bit_prio_mask)

lemma demo_sched_ok: "sched_ok (demo w)"
  unfolding sched_ok_def
proof (intro conjI allI)
  show "bit (k_ready_group (demo w)) p \<longleftrightarrow> k_priority_table (demo w) p \<noteq> []" for p by (rule demo_bits)
qed (auto simp: demo_def demo_thread_def split: if_splits)

lemma demo_thread_ok: "thread_ok (demo w)"
  unfolding thread_ok_def
  by (auto simp: demo_sched_ok demo_stat active_def periodic_def) (auto simp: demo_def split: if_splits)

lemma demo_calling: "calling 1 (demo w)"
  unfolding calling_def
  by (auto simp: demo_thread_ok demo_stat intro: exI [of _ 0])

lemma demo_timers: "timers_ok (k_tick (demo w)) (demo w)"
  by (simp add: timers_ok_def active_def dist_def demo_def)

lemma demo_mb_ok: "mb_ok demo_mb" "mb_content demo_mb = [7]"
  by (simp_all add: mb_ok_def mb_content_def demo_mb_def)

lemma demo_mq_ok: "mq_ok demo_mq" "mq_content demo_mq = [[1, 2, 3, 4]]"
proof -
  have "mq_inv {} demo_mq [0] [1]" by (auto simp: mq_inv_def demo_mq_def)
  from mq_okI [OF this] mq_inv_lists [OF this]
  show "mq_ok demo_mq" "mq_content demo_mq = [[1, 2, 3, 4]]" by (simp_all add: mq_content_def demo_mq_def)
qed

end
