(* ===== verification/Rt_Guarantees.thy ===== *)
theory Rt_Guarantees
  imports Rt_Demo
begin

text \<open>
  What the kernel guarantees to its users, component by component; the hypotheses of each statement
  are shown to hold in the demonstration kernel.
\<close>

section \<open>Scheduling and time\<close>

text \<open>C38: The two-level table look-up of the scheduler finds the most urgent ready priority: the number
  of the lowest set bit of the ready group.\<close>

theorem bitmap_search: "g \<noteq> 0 \<Longrightarrow> highest_ready_priority g = (LEAST p. bit g p)"
proof -
  assume "g \<noteq> 0"
  from highest_lowest_bit [OF this] show ?thesis
    by (intro Least_equality [symmetric]) (auto simp: not_less [symmetric])
qed

theorem bitmap_search_witness: "(LEAST p. bit (0x80000020 :: u32) p) = 5"
  using bitmap_search [of "0x80000020"] by (simp add: highest_ready_priority_def rt_lowest_bitmap_def)



text \<open>C19: One tick interrupt: every timed waiter whose deadline has come is ready with the time-out
  error and waits for nothing; every other timed waiter still waits with its deadline untouched;
  the interrupt returns and leaves the kernel ready for the next one.\<close>

theorem tick_expires:
  assumes "ticking k"
  shows "\<exists>k'. rt_tick_increase no_app_timers k = Some k' \<and> ticking k' \<and> k_tick k' = k_tick k + 1
     \<and> (\<forall>u. ThreadTimer u \<in> set (k_timer_list k) \<longrightarrow>
          (if due (k_tick k + 1) k (ThreadTimer u)
           then t_stat (k_thread k' u) = READY \<and> t_error (k_thread k' u) = - RT_ETIMEOUT \<and> (\<forall>w. u \<notin> set (k_wait k' w))
           else t_stat (k_thread k' u) = SUSPEND \<and> ThreadTimer u \<in> set (k_timer_list k')
                \<and> k_timer k' (ThreadTimer u) = k_timer k (ThreadTimer u)))"
  using tick_wakes [OF assms] by auto

lemma demo_ticking: "ticking (demo w)"
proof -
  have "\<not> periodic (demo w) x" for x by (cases "x = ThreadTimer 2") (simp_all add: periodic_def demo_def)
  then show ?thesis using demo_thread_ok demo_timers by (simp add: ticking_def running_ready_def demo_stat)
qed

theorem tick_expires_witness:
  "\<exists>k'. rt_tick_increase no_app_timers (demo (WSem 0)) = Some k' \<and> t_error (k_thread k' 2) = - RT_ETIMEOUT"
  using tick_expires [OF demo_ticking [of "WSem 0"]] by (auto simp: due_def demo_def)

text \<open>C4: A thread that sleeps for \<open>tick\<close> ticks is suspended, stays so through the next
  \<open>tick\<close> minus one tick interrupts, and is ready after the last one (a sleep of 0 ends at the next).\<close>

theorem sleep_duration:
  assumes "ticking k" "k_current k = Some t" "t_stat (k_thread k t) = READY"
    "u \<noteq> t" "t_stat (k_thread k u) = READY" "k_lock_nest k = 0" "tick < half_range"
  shows "\<exists>k'. rt_thread_sleep tick k = Some k' \<and> runs_highest k' \<and> t_stat (k_thread k' t) = SUSPEND
     \<and> (\<forall>n < max 1 (unat tick). \<exists>k''. ticks n k' = Some k'' \<and> t_stat (k_thread k'' t) = SUSPEND)
     \<and> (\<exists>k''. ticks (max 1 (unat tick)) k' = Some k'' \<and> t_stat (k_thread k'' t) = READY)"
proof -
  from sleep_waits [OF assms] obtain k' where k': "rt_thread_sleep tick k = Some k'" "ticking k'" "runs_highest k'"
    "t_stat (k_thread k' t) = SUSPEND" "waits_for t (unat tick) k'" by blast
  have "\<exists>k''. ticks n k' = Some k'' \<and> t_stat (k_thread k'' t) = SUSPEND" if "n < max 1 (unat tick)" for n
    using waits_lasts [OF k'(2,5) that] thread_okD(3) by (force simp: waits_for_def ticking_def)
  then show ?thesis using waits_ends [OF k'(2,5)] k' by blast
qed

theorem sleep_duration_witness:
  "\<exists>k' k''. rt_thread_sleep 3 (demo (WSem 0)) = Some k' \<and> ticks 3 k' = Some k'' \<and> t_stat (k_thread k'' 1) = READY"
  using sleep_duration [OF demo_ticking [of "WSem 0"], where t = 1 and u = 0 and tick = 3] by (auto simp: demo_stat)

text \<open>A tick count converts from milliseconds by rounding up, as long as the product does not overflow.\<close>

theorem ticks_of_milliseconds:
  assumes "unat ms \<le> 42949662"
  shows "unat (rt_tick_from_millisecond ms) = (unat ms + 9) div 10"
proof -
  have u: "unat (100 * ms + 999) = 100 * unat ms + 999" using assms by (simp add: unat_word_ariths)
  have "(100 * unat ms + 999) div (100 * 10) = (unat ms + 9) div 10" unfolding div_mult2_eq by simp
  then show ?thesis unfolding rt_tick_from_millisecond_def by (simp add: unat_div u)
qed

theorem ticks_of_milliseconds_witness: "unat (rt_tick_from_millisecond 25) = 3"
  using ticks_of_milliseconds [of 25] by simp

text \<open>Asking a timer to become periodic does not make it periodic, and asking for one shot does not
  stop a periodic one: the control commands change the bit of soft timers instead.\<close>

theorem timer_control_misses_flag:
  "periodic (snd (rt_timer_control x 3 arg k)) x = periodic k x
   \<and> periodic (snd (rt_timer_control x 2 arg k)) x = periodic k x
   \<and> tm_flag (k_timer (snd (rt_timer_control x 3 arg k)) x) AND 4 = 4"
proof -
  have "(f OR 4) AND 2 = f AND (2::u8)" for f
    by (rule bit_word_eqI) (auto simp: bit_simps dest: bit_imp_possible_bit)
  moreover have "(f AND NOT 4) AND 2 = f AND (2::u8)" for f
    by (rule bit_word_eqI) (auto simp: bit_simps dest: bit_imp_possible_bit)
  moreover have "(f OR 4) AND 4 = (4::u8)" for f
    by (rule bit_word_eqI) (auto simp: bit_simps dest: bit_imp_possible_bit)
  ultimately show ?thesis by (simp add: rt_timer_control_def periodic_def)
qed

section \<open>Waiting lists\<close>

text \<open>A thread that starts to wait on a list kept by priority comes after all waiters of its own and
  more urgent priorities and before all others, so the list stays sorted and equal priorities stay
  in the order of arrival; on a list kept by arrival it comes last.\<close>

theorem waiting_order:
  assumes "thread_ok k" "t_stat (k_thread k t) = READY" "flag \<le> 1"
    and sorted: "flag = RT_IPC_FLAG_PRIO \<longrightarrow> sorted (map (\<lambda>u. t_current_priority (k_thread k u)) (k_wait k w))"
  shows "k_wait (rt_ipc_list_suspend w t flag k) w =
     (if flag = RT_IPC_FLAG_FIFO then k_wait k w @ [t]
      else filter (\<lambda>u. t_current_priority (k_thread k u) \<le> t_current_priority (k_thread k t)) (k_wait k w)
           @ t # filter (\<lambda>u. t_current_priority (k_thread k t) < t_current_priority (k_thread k u)) (k_wait k w))"
proof -
  have "flag = 0 \<or> flag = 1"
    using assms(3) by (metis One_nat_def le_less less_one unat_0 unat_1 word_le_nat_alt word_less_nat_alt word_unat_eq_iff)
  then show ?thesis
    using ipc_suspend_wait [OF assms(1-3), of w] sorted prio_insert_split by (auto simp: enqueued_def)
qed

theorem waiting_order_witness: "k_wait (rt_ipc_list_suspend (WSem 0) 1 1 (demo (WSem 0))) (WSem 0) = [1, 2]"
  using waiting_order [OF demo_thread_ok [of "WSem 0"], of 1 1 "WSem 0"] by (simp add: demo_stat)

text \<open>Detaching a semaphore makes every thread that waits for it ready, with an error to return, and
  nobody waits afterwards.\<close>

theorem sem_detach_wakes_all:
  assumes "thread_ok k"
  shows "\<exists>k'. rt_sem_detach s k = Some (RT_EOK, k') \<and> thread_ok k' \<and> k_wait k' (WSem s) = []
     \<and> (\<forall>t\<in>set (k_wait k (WSem s)). t_stat (k_thread k' t) = READY \<and> rt_sem_take_resumed t k' = - RT_ERROR)"
  using resume_all_ok [OF assms, of "WSem s"] by (auto simp: rt_sem_detach_def rt_sem_take_resumed_def)

theorem sem_detach_wakes_all_witness:
  "\<exists>k'. rt_sem_detach 0 (demo (WSem 0)) = Some (RT_EOK, k') \<and> t_stat (k_thread k' 2) = READY"
  using sem_detach_wakes_all [OF demo_thread_ok [of "WSem 0"], of 0] by auto

section \<open>Semaphores\<close>

text \<open>Taking a semaphore, on every branch: a positive value is decremented; with value 0 the call
  returns the time-out at once when it may not wait, and otherwise suspends the caller on the
  waiting list, with the most urgent ready thread running, and leaves the semaphore alone.\<close>

theorem sem_take_branches:
  assumes "calling t k" "s_flag (k_sem k s) \<le> 1" "time_ok time"
  shows "\<exists>r k'. rt_sem_take s time k = Some (r, k') \<and> thread_ok k' \<and>
     (if 0 < s_value (k_sem k s) then r = Return RT_EOK \<and> k' = upd_sem s (\<lambda>x. x\<lparr>s_value := s_value x - 1\<rparr>) k
      else if time = 0 then r = Return (- RT_ETIMEOUT) \<and> k' = k
      else r = Blocked \<and> blocks_on (WSem s) (s_flag (k_sem k s)) t k k' \<and> k_sem k' = k_sem k)"
proof (cases "0 < s_value (k_sem k s) \<or> time = 0")
  case True
  then show ?thesis using callingD(1) [OF assms(1)] by (auto simp: rt_sem_take_def)
next
  case False
  then have "s_value (k_sem k s) = 0" "time \<noteq> 0" by (auto simp: word_gt_0)
  from sem_take_blocks [OF assms(1-3) this(2,1)] False show ?thesis by (auto simp: blocks_on_def)
qed

theorem sem_take_branches_witness:
  "\<exists>k'. rt_sem_take 0 4 (demo (WSem 0)) = Some (Blocked, k') \<and> k_wait k' (WSem 0) = [2, 1]"
  using sem_take_branches [OF demo_calling [of "WSem 0"], of 0 4]
  by (auto simp: time_ok_def blocks_on_def enqueued_def)

text \<open>Releasing a semaphore hands it to the first waiter, which becomes ready while the value stays;
  with no waiter the value is incremented, modulo the 16 bits it has. Either way nobody waits for a
  semaphore with a positive value afterwards, if that was so before.\<close>

theorem sem_release_branches:
  assumes "thread_ok k" "k_lock_nest k = 0" "sem_ok k"
  shows "\<exists>k'. rt_sem_release s k = Some (RT_EOK, k') \<and> thread_ok k' \<and> sem_ok k' \<and>
     (case k_wait k (WSem s) of
        [] \<Rightarrow> k' = upd_sem s (\<lambda>x. x\<lparr>s_value := s_value x + 1\<rparr>) k
      | u # us \<Rightarrow> k_sem k' = k_sem k \<and> k_wait k' = (k_wait k)(WSem s := us) \<and> runs_highest k'
          \<and> k_thread k' = (k_thread k)(u := (k_thread k u)\<lparr>t_stat := READY\<rparr>))"
proof (cases "k_wait k (WSem s)")
  case Nil
  then show ?thesis using sem_release_cases(1) [OF assms(1,2) Nil] assms by (auto simp: sem_ok_def)
next
  case (Cons u us)
  from sem_release_cases(2) [OF assms(1,2) Cons] obtain k' where k': "rt_sem_release s k = Some (RT_EOK, k')" "thread_ok k'"
    "runs_highest k'" "k_wait k' = (k_wait k)(WSem s := us)"
    "k_thread k' = (k_thread k)(u := (k_thread k u)\<lparr>t_stat := READY\<rparr>)" "k_sem k' = k_sem k" by blast
  moreover have "sem_ok k'" using assms(3) Cons unfolding sem_ok_def k'(4,6) by auto
  ultimately show ?thesis using Cons by simp
qed

theorem sem_release_branches_witness:
  "\<exists>k'. rt_sem_release 0 (demo (WSem 0)) = Some (RT_EOK, k') \<and> t_stat (k_thread k' 2) = READY"
  using sem_release_branches [OF demo_thread_ok [of "WSem 0"], of 0] by (auto simp: sem_ok_def)

text \<open>A semaphore with the largest value and no waiter is empty after one more release: all its
  units are lost.\<close>

theorem sem_release_wraps:
  assumes "s_value (k_sem k s) = 0xFFFF" "k_wait k (WSem s) = []"
  shows "\<exists>k'. rt_sem_release s k = Some (RT_EOK, k') \<and> s_value (k_sem k' s) = 0"
  using assms by (simp add: rt_sem_release_def)

theorem sem_release_wraps_witness:
  "\<exists>k'. rt_sem_release 1 (upd_sem 1 (\<lambda>x. x\<lparr>s_value := 0xFFFF\<rparr>) (demo (WSem 0))) = Some (RT_EOK, k') \<and> s_value (k_sem k' 1) = 0"
  using sem_release_wraps [of "upd_sem 1 (\<lambda>x. x\<lparr>s_value := 0xFFFF\<rparr>) (demo (WSem 0))" 1] by simp

section \<open>Mutexes\<close>

text \<open>C13: A thread that waits for a locked mutex lends its priority to the owner: the owner's priority
  becomes the more urgent of the two, and the caller is suspended on the waiting list while the
  most urgent ready thread runs.\<close>

theorem mutex_take_lends_priority:
  assumes "calling t k" "mutex_ok m k" "m_flag (k_mutex k m) \<le> 1" "time_ok time" "time \<noteq> 0"
    "m_owner (k_mutex k m) = Some ow" "ow \<noteq> t"
  shows "\<exists>k'. rt_mutex_take m time k = Some (Blocked, k') \<and> thread_ok k' \<and> runs_highest k'
     \<and> t_stat (k_thread k' t) = SUSPEND \<and> t \<in> set (k_wait k' (WMutex m)) \<and> k_mutex k' = k_mutex k
     \<and> t_current_priority (k_thread k' ow) = min (t_current_priority (k_thread k ow)) (t_current_priority (k_thread k t))"
  using mutex_take_cases(4) [OF assms(1-4,6,7,5)] by blast

text \<open>The demonstration kernel with the mutex locked by the idle thread.\<close>

definition demo_locked :: kernel where
  "demo_locked = upd_mutex 0 (\<lambda>x. x\<lparr>m_owner := Some 0, m_original_priority := 31\<rparr>) (demo (WSem 0))"

lemma demo_locked_calling: "calling 1 demo_locked"
  using demo_calling [of "WSem 0"] by (auto simp: demo_locked_def calling_def)

theorem mutex_take_lends_priority_witness:
  "\<exists>k'. rt_mutex_take 0 4 demo_locked = Some (Blocked, k') \<and> t_current_priority (k_thread k' 0) = 5"
  using mutex_take_lends_priority [OF demo_locked_calling, of 0 4 0]
  by (auto simp: demo_locked_def mutex_ok_def time_ok_def)

text \<open>C14: The last release of a mutex by its owner gives the lent priority back and hands the mutex to
  the first waiter, which becomes ready, or frees it when nobody waits; a release by any other
  thread is refused and changes nothing but its error code.\<close>

theorem mutex_release_restores:
  assumes "thread_ok k" "k_current k = Some t" "k_lock_nest k = 0" "mutex_ok m k"
  shows "\<exists>e k'. rt_mutex_release m k = Some (e, k') \<and>
     (if m_owner (k_mutex k m) \<noteq> Some t then e = - RT_ERROR \<and> k' = upd_thread t (\<lambda>th. th\<lparr>t_error := - RT_ERROR\<rparr>) k
      else e = RT_EOK \<and>
       (if m_hold (k_mutex k m) \<noteq> 1 then k' = upd_mutex m (\<lambda>x. x\<lparr>m_hold := m_hold x - 1\<rparr>) k
        else thread_ok k' \<and> mutex_ok m k' \<and>
         (case k_wait k (WMutex m) of
            [] \<Rightarrow> m_owner (k_mutex k' m) = None
                 \<and> t_current_priority (k_thread k' t) = m_original_priority (k_mutex k m)
          | u # us \<Rightarrow> m_owner (k_mutex k' m) = Some u \<and> t_stat (k_thread k' u) = READY \<and> k_wait k' (WMutex m) = us
                 \<and> runs_highest k'
                 \<and> (t = u \<or> t_current_priority (k_thread k' t) = m_original_priority (k_mutex k m)))))"
proof -
  note c = mutex_release_cases [OF assms]
  show ?thesis
  proof (cases "m_owner (k_mutex k m) = Some t \<and> m_hold (k_mutex k m) = 1")
    case True
    then have o: "m_owner (k_mutex k m) = Some t" "m_hold (k_mutex k m) = 1" by simp_all
    show ?thesis
    proof (cases "k_wait k (WMutex m)")
      case Nil
      from c(3) [OF o Nil] show ?thesis using o Nil by auto
    next
      case (Cons u us)
      from c(4) [OF o Cons] show ?thesis using o Cons by auto
    qed
  next
    case False
    then show ?thesis using c(1,2) by auto
  qed
qed

theorem mutex_release_restores_witness:
  "\<exists>k'. rt_mutex_release 0 (demo (WMutex 0)) = Some (RT_EOK, k') \<and> m_owner (k_mutex k' 0) = Some 2
     \<and> t_current_priority (k_thread k' 1) = 9"
  using mutex_release_restores [OF demo_thread_ok [of "WMutex 0"], of 1 0] by (auto simp: mutex_ok_def)

text \<open>A mutex counts how often its owner has locked it in 8 bits without a check: locked for the
  256th time, it counts zero holds, and then one release too few of the owner's leaves it locked.\<close>

theorem mutex_hold_wraps:
  assumes "calling t k" "m_owner (k_mutex k m) = Some t" "m_hold (k_mutex k m) = 0xFF"
  shows "\<exists>k'. rt_mutex_take m time k = Some (Return RT_EOK, k') \<and> m_hold (k_mutex k' m) = 0 \<and> \<not> mutex_ok m k'"
  using assms(2,3) callingD(6,7) [OF assms(1)] by (simp add: rt_mutex_take_def mutex_ok_def Let_def)

theorem mutex_hold_wraps_witness:
  "\<exists>k'. rt_mutex_take 0 4 (upd_mutex 0 (\<lambda>x. x\<lparr>m_hold := 0xFF\<rparr>) (demo (WSem 0))) = Some (Return RT_EOK, k')
     \<and> m_hold (k_mutex k' 0) = 0"
proof -
  have "calling 1 (upd_mutex 0 (\<lambda>x. x\<lparr>m_hold := 0xFF\<rparr>) (demo (WSem 0)))"
    using demo_calling [of "WSem 0"] by (auto simp: calling_def)
  from mutex_hold_wraps [OF this, of 0] show ?thesis by auto
qed

section \<open>Events\<close>

text \<open>C18: No wake-up is lost: after sending events every thread still waiting for the event object waits
  for something that is not there; every thread that stopped waiting is ready; when nobody was woken
  the events stay set.\<close>

theorem event_send_wakes:
  assumes "thread_ok k" "k_lock_nest k = 0" "flags \<noteq> 0" "t_stat (k_thread k u) = READY"
  shows "\<exists>k'. rt_event_send v flags k = Some (RT_EOK, k') \<and> thread_ok k'
     \<and> (\<forall>t\<in>set (k_wait k' (WEvent v)). t \<in> set (k_wait k (WEvent v)) \<and> waits_in_vain v k' t)
     \<and> (\<forall>t\<in>set (k_wait k (WEvent v)) - set (k_wait k' (WEvent v)). t_stat (k_thread k' t) = READY)
     \<and> (k_wait k' = k_wait k \<longrightarrow> e_set (k_event k' v) = e_set (k_event k v) OR flags)
     \<and> (k_wait k' = k_wait k \<or> runs_highest k')"
proof -
  from event_send_ok [OF assms] obtain k' P where k': "rt_event_send v flags k = Some (RT_EOK, k')" "thread_ok k'"
     "k_wait k' = (k_wait k)(WEvent v := filter P (k_wait k (WEvent v)))"
     "\<forall>t\<in>set (k_wait k' (WEvent v)). waits_in_vain v k' t"
     "\<forall>t\<in>set (k_wait k (WEvent v)) - set (k_wait k' (WEvent v)). t_stat (k_thread k' t) = READY"
     "k_wait k' = k_wait k \<longrightarrow> e_set (k_event k' v) = e_set (k_event k v) OR flags"
     "k_wait k' \<noteq> k_wait k \<longrightarrow> runs_highest k'" by blast
  then show ?thesis by (intro exI [of _ k']) auto
qed

theorem event_send_wakes_witness:
  "\<exists>k'. rt_event_send 0 1 (demo (WEvent 0)) = Some (RT_EOK, k') \<and> thread_ok k'"
  using event_send_wakes [OF demo_thread_ok [of "WEvent 0"], of 1 1 0] by (auto simp: demo_stat)

text \<open>Receiving events, on every branch: when the wanted combination is there the call returns the
  wanted events and clears all of them if asked to; otherwise it returns the time-out, or suspends
  the caller with its request recorded where the sender will look for it.\<close>

theorem event_recv_branches:
  assumes "calling t k" "e_flag (k_event k v) \<le> 1" "time_ok timeout" "flags \<noteq> 0"
  shows "\<exists>r k'. rt_event_recv v flags opt timeout k = Some (r, k') \<and>
     (if event_match opt flags (e_set (k_event k v))
      then r = Return (RT_EOK, Some (e_set (k_event k v) AND flags))
           \<and> e_set (k_event k' v) = (if opt AND 4 \<noteq> 0 then e_set (k_event k v) AND NOT flags else e_set (k_event k v))
      else if timeout = 0 then r = Return (- RT_ETIMEOUT, None) \<and> k_event k' = k_event k
      else r = Blocked \<and> blocks_on (WEvent v) (e_flag (k_event k v)) t k k' \<and> k_event k' = k_event k
           \<and> t_event_set (k_thread k' t) = flags \<and> t_event_info (k_thread k' t) = opt)"
proof (cases "event_match opt flags (e_set (k_event k v))")
  case True
  from event_recv_cases(1) [OF assms True] show ?thesis using True by simp
next
  case False
  show ?thesis
  proof (cases "timeout = 0")
    case True
    from event_recv_cases(2) [OF assms False True] show ?thesis using False True by simp
  next
    case wait: False
    from event_recv_cases(3) [OF assms False wait] show ?thesis using False wait by auto
  qed
qed

theorem event_recv_branches_witness:
  "\<exists>k'. rt_event_recv 0 6 5 4 (demo (WEvent 0)) = Some (Blocked, k') \<and> t_event_set (k_thread k' 1) = 6"
  using event_recv_branches [OF demo_calling [of "WEvent 0"], of 0 4 6 5]
  by (auto simp: time_ok_def event_match_def)

section \<open>Mailboxes\<close>

text \<open>Sending a mail, on every branch: with room the mail goes behind all others, and the first
  waiting receiver becomes ready; a full mailbox refuses a caller that may not wait and otherwise
  suspends it on the senders' list with the mails untouched.\<close>

theorem mb_send_branches:
  assumes "calling t k" "mb_ok (k_mb k m)" "b_flag (k_mb k m) \<le> 1" "time_ok timeout"
  shows "\<exists>r k'. rt_mb_send_wait m value timeout k = Some (r, k') \<and> thread_ok k' \<and> mb_ok (k_mb k' m) \<and>
     (if length (mb_content (k_mb k m)) < mb_cap (k_mb k m)
      then r = Done RT_EOK \<and> mb_content (k_mb k' m) = mb_content (k_mb k m) @ [value]
        \<and> (case k_wait k (WMbRecv m) of [] \<Rightarrow> k_wait k' = k_wait k
           | u # us \<Rightarrow> k_wait k' = (k_wait k)(WMbRecv m := us) \<and> t_stat (k_thread k' u) = READY \<and> runs_highest k')
      else if timeout = 0 then r = Done (- RT_EFULL) \<and> k' = k
      else (\<exists>d. r = Waiting timeout d) \<and> blocks_on (WMbSend m) (b_flag (k_mb k m)) t k k' \<and> k_mb k' = k_mb k)"
proof -
  note cd = callingD [OF assms(1)]
  have full: "length (mb_content (k_mb k m)) < mb_cap (k_mb k m) \<longleftrightarrow> b_entry (k_mb k m) \<noteq> b_size (k_mb k m)"
    using assms(2) by (auto simp: mb_ok_def mb_cap_def order_le_less unsigned_word_eqI)
  show ?thesis
  proof (cases "b_entry (k_mb k m) = b_size (k_mb k m)")
    case True
    then show ?thesis
      using mb_send_waits [OF assms(1,3,4) _ True, of "value" 0] assms(2) cd full
      by (cases "timeout = 0") (auto simp: rt_mb_send_wait_def blocks_on_def)
  next
    case False
    then have "length (mb_content (k_mb k m)) < mb_cap (k_mb k m)" using full by simp
    then have room: "unat (b_entry (k_mb k m)) < unat (b_size (k_mb k m))" by (simp add: mb_cap_def)
    have "rt_mb_send_wait m value timeout k = mb_send_finish m value k"
      using False by (simp add: rt_mb_send_wait_def mb_send_loop_def)
    with mb_send_finish_cases [OF cd(1,4), of m "value"] mb_put_ok [OF assms(2) room, of "value"]
    show ?thesis using False full by (cases "k_wait k (WMbRecv m)") auto
  qed
qed

theorem mb_send_branches_witness:
  "\<exists>k'. rt_mb_send_wait 0 9 4 (demo (WMbRecv 0)) = Some (Done RT_EOK, k') \<and> mb_content (k_mb k' 0) = [7, 9]
     \<and> t_stat (k_thread k' 2) = READY"
  using mb_send_branches [OF demo_calling [of "WMbRecv 0"], of 0 4 9] demo_mb_ok
  by (auto simp: time_ok_def mb_cap_def) (auto simp: demo_mb_def)

text \<open>Receiving a mail, on every branch: the oldest mail comes out, and the first waiting sender becomes
  ready; an empty mailbox returns the time-out to a caller that may not wait and otherwise suspends
  it on the receivers' list.\<close>

theorem mb_recv_branches:
  assumes "calling t k" "mb_ok (k_mb k m)" "b_flag (k_mb k m) \<le> 1" "time_ok timeout"
  shows "\<exists>r k'. rt_mb_recv m timeout k = Some (r, k') \<and> thread_ok k' \<and> mb_ok (k_mb k' m) \<and>
     (case mb_content (k_mb k m) of
        x # xs \<Rightarrow> r = Done (RT_EOK, Some x) \<and> mb_content (k_mb k' m) = xs
        \<and> (case k_wait k (WMbSend m) of [] \<Rightarrow> k_wait k' = k_wait k
           | u # us \<Rightarrow> k_wait k' = (k_wait k)(WMbSend m := us) \<and> t_stat (k_thread k' u) = READY \<and> runs_highest k')
      | [] \<Rightarrow> if timeout = 0 then r = Done (- RT_ETIMEOUT, None) \<and> k' = k
        else (\<exists>d. r = Waiting timeout d) \<and> blocks_on (WMbRecv m) (b_flag (k_mb k m)) t k k' \<and> k_mb k' = k_mb k)"
proof -
  note cd = callingD [OF assms(1)]
  show ?thesis
  proof (cases "mb_content (k_mb k m)")
    case Nil
    then have "length (mb_content (k_mb k m)) = 0" by simp
    then have e: "b_entry (k_mb k m) = 0" by (simp add: unsigned_eq_0_iff)
    show ?thesis
      using mb_recv_waits [OF assms(1,3,4) _ e, of 0] assms(2) cd Nil e
      by (cases "timeout = 0") (auto simp: rt_mb_recv_def blocks_on_def)
  next
    case (Cons x xs)
    then have "length (mb_content (k_mb k m)) \<noteq> 0" by simp
    then have e: "b_entry (k_mb k m) \<noteq> 0" by auto
    then have "rt_mb_recv m timeout k = mb_recv_finish m k" by (simp add: rt_mb_recv_def mb_recv_loop_def)
    with mb_recv_finish_cases [OF cd(1,4), of m] mb_get_ok [OF assms(2) Cons]
    show ?thesis using Cons by (cases "k_wait k (WMbSend m)") auto
  qed
qed

theorem mb_recv_branches_witness:
  "\<exists>k'. rt_mb_recv 0 4 (demo (WMbSend 0)) = Some (Done (RT_EOK, Some 7), k') \<and> mb_content (k_mb k' 0) = []"
  using mb_recv_branches [OF demo_calling [of "WMbSend 0"], of 0 4] demo_mb_ok
  by (auto simp: time_ok_def) (auto simp: demo_mb_def)

text \<open>C17: Mailboxes keep order and lose nothing: whatever sequence of stores and fetches an empty mailbox
  goes through, what came out is the beginning of what went in, the rest is what it holds, and it
  never holds more than its size.\<close>

theorem mb_order:
  assumes "mb_ok b" "mb_content b = []" "mb_fifo.run ops b = Some (ins, outs, b')"
  shows "outs @ mb_content b' = ins \<and> mb_ok b' \<and> length (mb_content b') \<le> mb_cap b"
  using mb_fifo.fifo_order [OF assms(1,3)] mb_fifo.bounded [of b'] assms(2) by auto

theorem mb_order_witness:
  "\<exists>b'. mb_fifo.run [Put 5, Get] (snd (mb_get demo_mb)) = Some ([5], [5], b') \<and> mb_content b' = []"
proof -
  let ?b = "snd (mb_get demo_mb)"
  have c: "mb_content ?b = []" and ok: "mb_ok ?b" using mb_get_ok [OF demo_mb_ok] by simp_all
  have s: "b_size ?b = 2" using mb_get_fields(4) [OF demo_mb_ok(1)] by (simp add: demo_mb_def)
  have e: "unat (b_entry ?b) = 0" using c length_mb_content [of ?b] by simp
  have p: "mb_ok (mb_put 5 ?b)" "mb_content (mb_put 5 ?b) = [5]"
    using mb_put_ok [OF ok, of 5] c e s by simp_all
  have r: "mb_fifo.run [Put 5, Get] ?b = Some ([5], [5], snd (mb_get (mb_put 5 ?b)))"
    using c s p mb_get_ok(1) [OF p] by (simp add: mb_cap_def del: length_mb_content)
  from mb_order [OF ok c r] show ?thesis using r by simp
qed

section \<open>Message queues\<close>

text \<open>C7: However the critical sections of any number of senders and receivers interleave after
  initialisation, every slot of the pool is in exactly one place: queued, free or held by one of the
  calls in progress. In particular no slot is handed out while somebody holds it or its message waits.\<close>

theorem mq_slots_disjoint:
  fixes slots msg_size pool_size flag k m
  defines "q0 \<equiv> k_mq (snd (rt_mq_init m slots msg_size pool_size flag k)) m"
  assumes "\<And>s. length (snd slots s) = unat (q_msg_size q0)" and run: "mq_step\<^sup>*\<^sup>* (Map.empty, q0) (fl, q)"
  shows "\<exists>qs fs. linked (q_next q) (q_head q) qs \<and> linked (q_next q) (q_free q) fs \<and> distinct (qs @ fs)
     \<and> dom fl \<inter> set (qs @ fs) = {} \<and> dom fl \<union> set (qs @ fs) = {..<unat (q_max_msgs q)} \<and> unat (q_entry q) = length qs"
proof -
  have "mq_inv {} q0 [] (rev [0..<unat (q_max_msgs q0)])"
    using mq_init_inv [of slots m msg_size pool_size flag k] assms(2) unfolding q0_def by blast
  then have "flight_ok (Map.empty, q0)" by (auto simp: flight_ok_def)
  from mq_steps_ok [OF run this] show ?thesis unfolding flight_ok_def mq_inv_def by simp blast
qed

text \<open>Two slots of four bytes.\<close>

definition demo_mq_new :: msgqueue where
  "demo_mq_new = k_mq (snd (rt_mq_init 0 (\<lambda>_. None, \<lambda>_. [0, 0, 0, 0]) 3 16 0 (demo (WSem 0)))) 0"

lemma demo_mq_new_fields: "demo_mq_new = \<lparr>q_flag = 0, q_msg_size = 4, q_max_msgs = 2, q_entry = 0, q_head = None,
    q_tail = None, q_free = Some 1, q_next = (\<lambda>_. None)(0 := None, 1 := Some 0), q_data = \<lambda>_. [0, 0, 0, 0]\<rparr>"
proof -
  have "RT_ALIGN4 3 = 4" by (simp add: RT_ALIGN4_def)
  moreover have "mq_chain 2 = mq_chain (Suc (Suc 0))" by (simp only: numeral_2_eq_2)
  ultimately show ?thesis
    unfolding demo_mq_new_def rt_mq_init_def by (simp add: Let_def)
qed

theorem mq_slots_disjoint_witness:
  "\<exists>fl q. mq_step\<^sup>*\<^sup>* (Map.empty, demo_mq_new) (fl, q) \<and> fl 1 = Some Reserved
     \<and> (\<exists>qs fs. dom fl \<inter> set (qs @ fs) = {} \<and> dom fl \<union> set (qs @ fs) = {..<2})"
proof -
  obtain q where q: "mq_reserve demo_mq_new = Some (1, q)" "q_max_msgs q = 2"
    by (simp add: mq_reserve_def demo_mq_new_fields)
  then have step: "mq_step\<^sup>*\<^sup>* (Map.empty, demo_mq_new) (Map.empty(1 \<mapsto> Reserved), q)"
    by (intro r_into_rtranclp mq_step.reserve)
  have "length (snd (\<lambda>_. None :: nat option, \<lambda>_. [0, 0, 0, 0 :: u8]) s) = unat (q_msg_size demo_mq_new)" for s :: nat
    by (simp add: demo_mq_new_fields)
  from mq_slots_disjoint [OF this [unfolded demo_mq_new_def] step [unfolded demo_mq_new_def]]
  show ?thesis using step q(2) by (intro exI [of _ "Map.empty(1 \<mapsto> Reserved)"] exI [of _ q]) auto
qed

text \<open>Sending to a message queue, on every branch: a message that is too long is refused, a full queue
  refuses any, and otherwise the message goes behind all others and the first waiting receiver
  becomes ready; an urgent message goes in front of all others.\<close>

theorem mq_send_branches:
  assumes "thread_ok k" "k_lock_nest k = 0" "mq_ok (k_mq k m)" "msg \<noteq> []"
  shows "(if unat (q_msg_size (k_mq k m)) < length msg
       then rt_mq_send m msg k = Some (- RT_ERROR, k) \<and> rt_mq_urgent m msg k = Some (- RT_ERROR, k)
       else if length (mq_content (k_mq k m)) = mq_cap (k_mq k m)
       then rt_mq_send m msg k = Some (- RT_EFULL, k) \<and> rt_mq_urgent m msg k = Some (- RT_EFULL, k)
       else (\<exists>k' x. rt_mq_send m msg k = Some (RT_EOK, k') \<and> mq_ok (k_mq k' m)
               \<and> mq_content (k_mq k' m) = mq_content (k_mq k m) @ [x] \<and> take (length msg) x = msg
               \<and> (case k_wait k (WMq m) of [] \<Rightarrow> True | u # us \<Rightarrow> t_stat (k_thread k' u) = READY \<and> k_wait k' (WMq m) = us))
          \<and> (\<exists>k' x. rt_mq_urgent m msg k = Some (RT_EOK, k') \<and> mq_ok (k_mq k' m)
               \<and> mq_content (k_mq k' m) = x # mq_content (k_mq k m) \<and> take (length msg) x = msg
               \<and> (case k_wait k (WMq m) of [] \<Rightarrow> True | u # us \<Rightarrow> t_stat (k_thread k' u) = READY \<and> k_wait k' (WMq m) = us)))"
proof (cases "unat (q_msg_size (k_mq k m)) < length msg")
  case True
  then show ?thesis using assms(4) by (simp add: rt_mq_send_def rt_mq_urgent_def)
next
  case False
  then have len: "length msg \<le> unat (q_msg_size (k_mq k m))" by simp
  show ?thesis
  proof (cases "length (mq_content (k_mq k m)) = mq_cap (k_mq k m)")
    case True
    then show ?thesis using mq_send_full [OF assms(3) True assms(4) len] False by simp
  next
    case nf: False
    then have room: "length (mq_content (k_mq k m)) < mq_cap (k_mq k m)"
      using mq_fifo.bounded [OF assms(3)] by simp
    note s = mq_send_room [OF assms(3) room assms(4) len]
    from mq_put_content [OF assms(3) room len] obtain x where x: "mq_ok (mq_put msg (k_mq k m))"
      "mq_content (mq_put msg (k_mq k m)) = mq_content (k_mq k m) @ [x]" "take (length msg) x = msg" by blast
    from mq_push_content [OF assms(3) room len] obtain y where y: "mq_ok (mq_push msg (k_mq k m))"
      "mq_content (mq_push msg (k_mq k m)) = y # mq_content (k_mq k m)" "take (length msg) y = msg" by blast
    have ok: "thread_ok (upd_mq m f k)" "k_lock_nest (upd_mq m f k) = 0" for f using assms(1,2) by simp_all
    have a: "\<exists>k' x. rt_mq_send m msg k = Some (RT_EOK, k') \<and> mq_ok (k_mq k' m)
               \<and> mq_content (k_mq k' m) = mq_content (k_mq k m) @ [x] \<and> take (length msg) x = msg
               \<and> (case k_wait k (WMq m) of [] \<Rightarrow> True | u # us \<Rightarrow> t_stat (k_thread k' u) = READY \<and> k_wait k' (WMq m) = us)"
      using mq_wake_cases [OF ok(1) [of "mq_put msg"] ok(2), of m] x unfolding s by (fastforce split: list.splits)
    have b: "\<exists>k' x. rt_mq_urgent m msg k = Some (RT_EOK, k') \<and> mq_ok (k_mq k' m)
               \<and> mq_content (k_mq k' m) = x # mq_content (k_mq k m) \<and> take (length msg) x = msg
               \<and> (case k_wait k (WMq m) of [] \<Rightarrow> True | u # us \<Rightarrow> t_stat (k_thread k' u) = READY \<and> k_wait k' (WMq m) = us)"
      using mq_wake_cases [OF ok(1) [of "mq_push msg"] ok(2), of m] y unfolding s by (fastforce split: list.splits)
    show ?thesis using a b False nf by simp
  qed
qed

theorem mq_send_branches_witness:
  "\<exists>k' x. rt_mq_urgent 0 [9] (demo (WMq 0)) = Some (RT_EOK, k') \<and> mq_content (k_mq k' 0) = [x, [1, 2, 3, 4]] \<and> hd x = 9"
proof -
  have "\<exists>k' x. rt_mq_urgent 0 [9] (demo (WMq 0)) = Some (RT_EOK, k') \<and> mq_content (k_mq k' 0) = [x, [1, 2, 3, 4]] \<and> take 1 x = [9]"
    using mq_send_branches [OF demo_thread_ok [of "WMq 0"], of 0 "[9]"] demo_mq_ok
    by (simp add: mq_cap_def demo_mq_def) blast
  then show ?thesis by (metis hd_take list.sel(1) zero_less_one)
qed

text \<open>Receiving from a queue that holds messages takes the first one out, truncated to the caller's size.\<close>

theorem mq_recv_first:
  assumes "mq_ok (k_mq k m)" "mq_content (k_mq k m) = x # xs" "sz \<noteq> 0"
  shows "\<exists>k'. rt_mq_recv m sz timeout k
       = Some (Done (RT_EOK, take (min (unat sz) (unat (q_msg_size (k_mq k m)))) x), k')
     \<and> mq_ok (k_mq k' m) \<and> mq_content (k_mq k' m) = xs"
  using mq_recv_message [OF assms] mq_fifo.get_law [OF assms(1,2)] by simp

theorem mq_recv_first_witness:
  "\<exists>k'. rt_mq_recv 0 3 7 (demo (WSem 0)) = Some (Done (RT_EOK, [1, 2, 3]), k') \<and> mq_content (k_mq k' 0) = []"
  using mq_recv_first [of "demo (WSem 0)" 0 "[1, 2, 3, 4]" "[]" 3 7] demo_mq_ok by (auto simp: demo_mq_def)

text \<open>Resetting a queue empties it and returns every slot to the free list, however long the queue.\<close>

theorem mq_reset_empties:
  assumes "thread_ok k" "k_lock_nest k = 0" "mq_ok (k_mq k m)" "t_stat (k_thread k u) = READY"
  shows "\<exists>k'. rt_mq_control m 1 k = Some (RT_EOK, k') \<and> thread_ok k' \<and> mq_ok (k_mq k' m) \<and> mq_content (k_mq k' m) = []
     \<and> length (mq_unused (k_mq k' m)) = mq_cap (k_mq k' m) \<and> k_wait k' (WMq m) = []"
proof -
  from resume_all_ok [OF assms(1), of "WMq m"] obtain k1 where k1: "rt_ipc_list_resume_all (WMq m) k = Some k1" "thread_ok k1"
    "k_wait k1 = (k_wait k)(WMq m := [])" "k_lock_nest k1 = k_lock_nest k" "k_mq k1 = k_mq k"
    "\<forall>t. k_thread k1 t = (if t \<in> set (k_wait k (WMq m))
           then (k_thread k t)\<lparr>t_error := - RT_ERROR, t_stat := READY\<rparr> else k_thread k t)" by blast
  let ?q = "k_mq k m"
  have inv: "mq_inv {} (?q\<lparr>q_entry := q_entry ?q\<rparr>) (mq_queued ?q) (mq_unused ?q)" using assms(3) by (simp add: mq_ok_def)
  have "unat (q_entry ?q) = length (mq_queued ?q)" using assms(3) by (simp add: mq_ok_def mq_inv_def)
  from mq_drain_inv [OF inv this] obtain q' where q': "mq_drain ?q = Some q'"
    "mq_inv {} (q'\<lparr>q_entry := 0\<rparr>) [] (rev (mq_queued ?q) @ mq_unused ?q)" by blast
  let ?k = "upd_mq m (\<lambda>_. q'\<lparr>q_entry := 0\<rparr>) k1"
  have ok: "thread_ok ?k" "k_lock_nest ?k = 0" "t_stat (k_thread ?k u) = READY" using k1 assms(2,4) by simp_all
  from rt_schedule_runs_highest [OF thread_okD(1) [OF ok(1)] ok(3,2)] obtain k' where k': "rt_schedule ?k = Some k'" by blast
  note f = rt_schedule_frame [OF k']
  have "rt_mq_control m 1 k = Some (RT_EOK, k')" using k1(1,5) q'(1) k' by (simp add: rt_mq_control_def)
  moreover have "k_mq k' m = q'\<lparr>q_entry := 0\<rparr>" by (simp add: f)
  moreover have "k_wait k' (WMq m) = []" by (simp add: f k1(3))
  moreover have "length (mq_unused (q'\<lparr>q_entry := 0\<rparr>)) = mq_cap (q'\<lparr>q_entry := 0\<rparr>)"
    using mq_inv_lists(2) [OF q'(2)] mq_inv_length(1) [OF q'(2)] by (simp add: mq_cap_def)
  ultimately show ?thesis
    using thread_ok_schedule [OF ok(1) k'] mq_okI [OF q'(2)] mq_inv_lists(1) [OF q'(2)] by (simp add: mq_content_def)
qed

theorem mq_reset_empties_witness:
  "\<exists>k'. rt_mq_control 0 1 (demo (WMq 0)) = Some (RT_EOK, k') \<and> mq_content (k_mq k' 0) = []"
  using mq_reset_empties [OF demo_thread_ok [of "WMq 0"], of 0 1] demo_mq_ok by (auto simp: demo_stat)

text \<open>A timed call that is woken without finding what it wants goes on waiting for exactly the rest of
  its time, and for none once the time is over, as long as less than half the range of the tick has passed.\<close>

theorem remaining_time:
  assumes "time_ok timeout" "0 < sint timeout" "unat (tick - d) < 2147483648"
  shows "unat (time_left timeout d tick) = unat timeout - unat (tick - d)"
  using time_left_exact [OF assms] .

theorem remaining_time_witness: "unat (time_left 10 100 107) = 3 \<and> unat (time_left 10 100 120) = 0"
  using remaining_time [of 10 107 100] remaining_time [of 10 120 100] by (simp add: time_ok_def)

end
