(* ===== verification/Rt_Mempool.thy ===== *)
theory Rt_Mempool
  imports Rt_Ipc Rt_Links
begin

text \<open>
  Memory pools (\<open>src/mempool.c\<close>): equal blocks, each behind one word that links it into the free list
  or names the pool that owns it. Blocks are named by their index in the pool.
\<close>

section \<open>The pool\<close>

definition upd_mp :: "nat \<Rightarrow> (mempool \<Rightarrow> mempool) \<Rightarrow> kernel \<Rightarrow> kernel" where
  "upd_mp m f k = k\<lparr>k_mp := (k_mp k)(m := f (k_mp k m))\<rparr>"

lemma upd_mp_simps [simp]:
  "k_mp (upd_mp m f k) = (k_mp k)(m := f (k_mp k m))"
  "k_thread (upd_mp m f k) = k_thread k"
  "k_priority_table (upd_mp m f k) = k_priority_table k"
  "k_ready_group (upd_mp m f k) = k_ready_group k"
  "k_current (upd_mp m f k) = k_current k"
  "k_lock_nest (upd_mp m f k) = k_lock_nest k"
  "k_interrupt_nest (upd_mp m f k) = k_interrupt_nest k"
  "k_defunct (upd_mp m f k) = k_defunct k"
  "k_tick (upd_mp m f k) = k_tick k"
  "k_timer (upd_mp m f k) = k_timer k"
  "k_timer_list (upd_mp m f k) = k_timer_list k"
  "k_wait (upd_mp m f k) = k_wait k"
  "k_sem (upd_mp m f k) = k_sem k"
  "k_mutex (upd_mp m f k) = k_mutex k"
  "k_event (upd_mp m f k) = k_event k"
  "k_mb (upd_mp m f k) = k_mb k"
  "k_mq (upd_mp m f k) = k_mq k"
  by (simp_all add: upd_mp_def)

primrec mp_chain :: "nat \<Rightarrow> (nat \<Rightarrow> block_header) \<Rightarrow> nat \<Rightarrow> block_header" where
  "mp_chain 0 h = h"
| "mp_chain (Suc n) h = (mp_chain n h)(n := NextFree (Some (n + 1)))"

text \<open>
  \<open>mem\<close> stands for the words in the memory handed in. With no room for a single block the code ends
  the list in front of the memory; the model has no value there.
\<close>

definition rt_mp_init :: "nat \<Rightarrow> (nat \<Rightarrow> block_header) \<Rightarrow> u32 \<Rightarrow> u32 \<Rightarrow> kernel \<Rightarrow> (int \<times> kernel) option" where
  "rt_mp_init m mem sz block_size k =
     (let sz = RT_ALIGN_DOWN4 sz;
          block_size = RT_ALIGN4 block_size;
          total = sz div (block_size + 4)
      in if total = 0 then None
         else Some (RT_EOK,
           upd_mp m (\<lambda>_. \<lparr>p_block_size = block_size, p_total_count = total, p_free_count = total, p_block_list = Some 0,
               p_header = (mp_chain (unat total) mem)(unat total - 1 := NextFree None), p_suspend_count = 0\<rparr>)
             (k\<lparr>k_wait := (k_wait k)(WMp m := [])\<rparr>)))"

partial_function (option) mp_resume_all :: "nat \<Rightarrow> kernel \<Rightarrow> kernel option" where
  "mp_resume_all m k =
     (case k_wait k (WMp m) of
        [] \<Rightarrow> Some k
      | t # _ \<Rightarrow>
          mp_resume_all m
            (upd_mp m (\<lambda>p. p\<lparr>p_suspend_count := p_suspend_count p - 1\<rparr>)
              (snd (rt_thread_resume t (upd_thread t (\<lambda>th. th\<lparr>t_error := - RT_ERROR\<rparr>) k)))))"

definition rt_mp_detach :: "nat \<Rightarrow> kernel \<Rightarrow> (int \<times> kernel) option" where
  "rt_mp_detach m k = do { k \<leftarrow> mp_resume_all m k; Some (RT_EOK, k) }"

text \<open>Taking the first block; an empty list is a null pointer that is read through.\<close>

definition mp_pop :: "nat \<Rightarrow> mempool \<Rightarrow> (nat \<times> mempool) option" where
  "mp_pop m p =
     (case p_block_list p of
        None \<Rightarrow> None
      | Some b \<Rightarrow>
         (case p_header p b of
            OwnedBy _ \<Rightarrow> None
          | NextFree n \<Rightarrow> Some (b, p\<lparr>p_free_count := p_free_count p - 1, p_block_list := n,
                                    p_header := (p_header p)(b := OwnedBy m)\<rparr>)))"

definition mp_push :: "nat \<Rightarrow> mempool \<Rightarrow> mempool" where
  "mp_push b p = p\<lparr>p_free_count := p_free_count p + 1, p_header := (p_header p)(b := NextFree (p_block_list p)),
                   p_block_list := Some b\<rparr>"

definition rt_mp_alloc :: "nat \<Rightarrow> u32 \<Rightarrow> kernel \<Rightarrow> (nat option call \<times> kernel) option" where
  "rt_mp_alloc m time k =
     (if p_free_count (k_mp k m) \<noteq> 0
      then do { (b, p) \<leftarrow> mp_pop m (k_mp k m); Some (Return (Some b), upd_mp m (\<lambda>_. p) k) }
      else if time = 0 then Some (Return None, k)
      else do {
        not_in_interrupt k;
        t \<leftarrow> rt_thread_self k;
        let k = snd (rt_thread_suspend t k);
        let k = k\<lparr>k_wait := (k_wait k)(WMp m := t # k_wait k (WMp m))\<rparr>;
        let k = upd_mp m (\<lambda>p. p\<lparr>p_suspend_count := p_suspend_count p + 1\<rparr>) k;
        k \<leftarrow> (if 0 < sint time then thread_timer_arm t time k else Some k);
        k \<leftarrow> rt_schedule k;
        Some (Blocked, k) })"

definition rt_mp_alloc_resumed :: "nat \<Rightarrow> tid \<Rightarrow> kernel \<Rightarrow> (nat option \<times> kernel) option" where
  "rt_mp_alloc_resumed m t k =
     (if t_error (k_thread k t) \<noteq> RT_EOK then Some (None, k)
      else do { (b, p) \<leftarrow> mp_pop m (k_mp k m); Some (Some b, upd_mp m (\<lambda>_. p) k) })"

text \<open>
  The header of the block tells its pool; a block that is not allocated has a link there instead. With
  a positive count of waiters and nobody in the list, the code takes the list head for a thread.
\<close>

definition rt_mp_free :: "nat \<Rightarrow> nat \<Rightarrow> kernel \<Rightarrow> kernel option" where
  "rt_mp_free m b k =
     (if p_header (k_mp k m) b \<noteq> OwnedBy m then None
      else
        (let k = upd_mp m (mp_push b) k in
         if 0 < p_suspend_count (k_mp k m) then
           (case k_wait k (WMp m) of
              [] \<Rightarrow> None
            | t # _ \<Rightarrow>
               (let k = upd_thread t (\<lambda>th. th\<lparr>t_error := RT_EOK\<rparr>) k;
                    k = snd (rt_thread_resume t k);
                    k = upd_mp m (\<lambda>p. p\<lparr>p_suspend_count := p_suspend_count p - 1\<rparr>) k
                in rt_schedule k))
         else Some k))"

section \<open>Blocks are neither lost nor given twice\<close>

definition mp_next :: "mempool \<Rightarrow> nat \<Rightarrow> nat option" where
  "mp_next p b = (case p_header p b of NextFree n \<Rightarrow> n | OwnedBy _ \<Rightarrow> None)"

definition mp_inv :: "nat \<Rightarrow> mempool \<Rightarrow> nat list \<Rightarrow> bool" where
  "mp_inv m p fs \<longleftrightarrow> linked (mp_next p) (p_block_list p) fs \<and> distinct fs \<and> set fs \<subseteq> {..<unat (p_total_count p)}
     \<and> unat (p_free_count p) = length fs
     \<and> (\<forall>b<unat (p_total_count p). if b \<in> set fs then (\<exists>n. p_header p b = NextFree n) else p_header p b = OwnedBy m)"

definition mp_ok :: "nat \<Rightarrow> mempool \<Rightarrow> bool" where
  "mp_ok m p \<longleftrightarrow> mp_inv m p (follow (mp_next p) (unat (p_total_count p)) (p_block_list p))"

definition mp_live :: "nat \<Rightarrow> mempool \<Rightarrow> nat set" where
  "mp_live m p = {b. b < unat (p_total_count p) \<and> p_header p b = OwnedBy m}"

text \<open>The bytes of a block, counted from the start of the pool's memory.\<close>

definition mp_region :: "mempool \<Rightarrow> nat \<Rightarrow> nat set" where
  "mp_region p b = (let stride = unat (p_block_size p) + 4 in {b * stride + 4..<(b + 1) * stride})"

lemma mp_inv_length: "mp_inv m p fs \<Longrightarrow> length fs \<le> unat (p_total_count p)"
  using card_mono [of "{..<unat (p_total_count p)}" "set fs"] distinct_card [of fs] by (simp add: mp_inv_def)

lemma mp_okI: "mp_inv m p fs \<Longrightarrow> mp_ok m p"
  using follow_linked [of "mp_next p" "p_block_list p" fs "unat (p_total_count p)"] mp_inv_length [of m p fs]
  by (simp add: mp_ok_def mp_inv_def)

lemma mp_live_inv: "mp_inv m p fs \<Longrightarrow> mp_live m p = {..<unat (p_total_count p)} - set fs"
  by (auto simp: mp_inv_def mp_live_def split: if_splits)

lemma mp_next_upd: "mp_next (p\<lparr>p_free_count := c, p_block_list := l, p_header := (p_header p)(b := h)\<rparr>)
    = (mp_next p)(b := case h of NextFree n \<Rightarrow> n | OwnedBy _ \<Rightarrow> None)"
  by (auto simp: mp_next_def fun_eq_iff split: block_header.split)

lemma mp_pop_inv:
  assumes inv: "mp_inv m p (b # fs)"
  shows "\<exists>p'. mp_pop m p = Some (b, p') \<and> mp_inv m p' fs \<and> p_block_size p' = p_block_size p
     \<and> p_total_count p' = p_total_count p \<and> p_suspend_count p' = p_suspend_count p \<and> b \<notin> mp_live m p
     \<and> mp_live m p' = insert b (mp_live m p)"
proof -
  have b: "b < unat (p_total_count p)" "b \<notin> set fs" "p_block_list p = Some b" "linked (mp_next p) (mp_next p b) fs"
    using inv by (auto simp: mp_inv_def)
  then obtain n where n: "p_header p b = NextFree n" "mp_next p b = n"
    using inv unfolding mp_inv_def mp_next_def by fastforce
  let ?p = "p\<lparr>p_free_count := p_free_count p - 1, p_block_list := n, p_header := (p_header p)(b := OwnedBy m)\<rparr>"
  have c: "unat (p_free_count p) = Suc (length fs)" using inv by (simp add: mp_inv_def)
  then have "unat (p_free_count p - 1) = length fs"
    using unat_sub [of 1 "p_free_count p"] by (simp add: word_le_nat_alt)
  then have inv': "mp_inv m ?p fs" using inv b n unfolding mp_inv_def mp_next_upd by (auto simp del: fun_upd_apply) (auto split: if_splits)
  have "mp_live m ?p = insert b (mp_live m p)" "b \<notin> mp_live m p"
    using mp_live_inv [OF inv] mp_live_inv [OF inv'] b by auto
  moreover have "mp_pop m p = Some (b, ?p)" using b n by (simp add: mp_pop_def)
  ultimately show ?thesis using inv' by auto
qed

lemma mp_push_inv:
  assumes inv: "mp_inv m p fs" and b: "b \<in> mp_live m p"
  shows "mp_inv m (mp_push b p) (b # fs)" "mp_live m (mp_push b p) = mp_live m p - {b}"
proof -
  have l: "b < unat (p_total_count p)" "b \<notin> set fs" using b mp_live_inv [OF inv] by auto
  have "length (b # fs) \<le> unat (p_total_count p)"
    using card_mono [of "{..<unat (p_total_count p)}" "set (b # fs)"] distinct_card [of "b # fs"] inv l by (simp add: mp_inv_def)
  moreover have "unat (p_total_count p) < 4294967296" using unsigned_less [of "p_total_count p"] by simp
  ultimately have "unat (p_free_count p + 1) = length (b # fs)" using inv by (simp add: mp_inv_def unat_word_ariths)
  moreover have "mp_next (mp_push b p) = (mp_next p)(b := p_block_list p)"
    by (auto simp: mp_push_def mp_next_def fun_eq_iff)
  moreover have "p_header (mp_push b p) = (p_header p)(b := NextFree (p_block_list p))" "p_block_list (mp_push b p) = Some b"
    "p_total_count (mp_push b p) = p_total_count p" "p_free_count (mp_push b p) = p_free_count p + 1"
    by (simp_all add: mp_push_def)
  ultimately show inv': "mp_inv m (mp_push b p) (b # fs)"
    using inv l unfolding mp_inv_def by (auto simp del: fun_upd_apply) (auto split: if_splits)
  show "mp_live m (mp_push b p) = mp_live m p - {b}"
    unfolding mp_live_inv [OF inv] mp_live_inv [OF inv'] by (auto simp: mp_push_def)
qed

text \<open>Allocation that does not wait, and the release, as an allocator.\<close>

definition mp_try :: "nat \<Rightarrow> mempool \<Rightarrow> (nat option \<times> mempool) option" where
  "mp_try m p = (if p_free_count p \<noteq> 0 then do { (b, p) \<leftarrow> mp_pop m p; Some (Some b, p) } else Some (None, p))"

definition mp_give_back :: "nat \<Rightarrow> nat \<Rightarrow> mempool \<Rightarrow> mempool option" where
  "mp_give_back m b p = (if p_header p b \<noteq> OwnedBy m then None else Some (mp_push b p))"

lemma mp_region_apart: "b \<noteq> c \<Longrightarrow> mp_region p b \<inter> mp_region p c = {}"
proof -
  have "mp_region p b \<inter> mp_region p c = {}" if "b < c" for b c
  proof -
    let ?s = "unat (p_block_size p) + 4"
    have "(b + 1) * ?s \<le> c * ?s" using that by (intro mult_le_mono1) simp
    then have "\<forall>x\<in>mp_region p b. \<forall>y\<in>mp_region p c. x < y" by (auto simp: mp_region_def Let_def)
    then show ?thesis by fastforce
  qed
  then show "b \<noteq> c \<Longrightarrow> mp_region p b \<inter> mp_region p c = {}" by (metis inf_commute linorder_neqE_nat)
qed

lemma mp_region_cong: "p_block_size p' = p_block_size p \<Longrightarrow> mp_region p' b = mp_region p b"
  by (simp add: mp_region_def)

interpretation mp_blocks: allocator "mp_ok m" "mp_live m" mp_region "\<lambda>_ :: unit. mp_try m" "mp_give_back m" for m
proof
  fix p and r :: unit assume "mp_ok m p"
  then obtain fs where inv: "mp_inv m p fs" by (auto simp: mp_ok_def)
  show "\<exists>x s'. mp_try m p = Some (x, s') \<and> mp_ok m s'
        \<and> (case x of None \<Rightarrow> mp_live m s' = mp_live m p | Some b \<Rightarrow> b \<notin> mp_live m p \<and> mp_live m s' = insert b (mp_live m p))
        \<and> (\<forall>c\<in>mp_live m p. mp_region s' c = mp_region p c)"
  proof (cases fs)
    case Nil
    then have "p_free_count p = 0" using inv by (simp add: mp_inv_def unsigned_eq_0_iff)
    then show ?thesis using inv mp_okI by (auto simp: mp_try_def)
  next
    case (Cons b gs)
    from mp_pop_inv [OF inv [unfolded Cons]] obtain p' where p': "mp_pop m p = Some (b, p')" "mp_inv m p' gs"
      "p_block_size p' = p_block_size p" "b \<notin> mp_live m p" "mp_live m p' = insert b (mp_live m p)" by blast
    have "p_free_count p \<noteq> 0" using inv Cons by (auto simp: mp_inv_def)
    then show ?thesis using p' mp_okI [OF p'(2)] mp_region_cong [OF p'(3)]
      by (intro exI [of _ "Some b"] exI [of _ p']) (simp add: mp_try_def)
  qed
next
  fix p b assume "mp_ok m p" and b: "b \<in> mp_live m p"
  then obtain fs where inv: "mp_inv m p fs" by (auto simp: mp_ok_def)
  have "p_header p b = OwnedBy m" using b by (simp add: mp_live_def)
  then show "\<exists>s'. mp_give_back m b p = Some s' \<and> mp_ok m s' \<and> mp_live m s' = mp_live m p - {b}
        \<and> (\<forall>c\<in>mp_live m s'. mp_region s' c = mp_region p c)"
    using mp_push_inv [OF inv b] mp_okI by (auto simp: mp_give_back_def mp_push_def mp_region_def)
next
  show "mp_region p b \<inter> mp_region p c = {}" if "mp_ok m p" "b \<in> mp_live m p" "c \<in> mp_live m p" "b \<noteq> c" for p b c
    by (rule mp_region_apart [OF that(4)])
qed

section \<open>Initialisation\<close>

lemma mp_chain_app: "mp_chain n h i = (if i < n then NextFree (Some (i + 1)) else h i)"
  by (induction n) auto

lemma linked_upto:
  assumes "\<And>i. i < n \<Longrightarrow> nx i = (if Suc i = n then None else Some (Suc i))"
  shows "i < n \<Longrightarrow> linked nx (Some i) [i..<n]"
proof (induction "n - i" arbitrary: i)
  case 0
  then show ?case by simp
next
  case (Suc d)
  show ?case
  proof (cases "Suc i = n")
    case True
    then show ?thesis using Suc.prems assms [of i] by (simp add: upt_conv_Cons)
  next
    case False
    then have "linked nx (Some (Suc i)) [Suc i..<n]" using Suc by simp
    then show ?thesis using Suc.prems assms [of i] False by (simp add: upt_conv_Cons)
  qed
qed

lemma mp_init_ok:
  assumes "rt_mp_init m mem sz block_size k = Some (e, k')"
  shows "mp_ok m (k_mp k' m)" "mp_live m (k_mp k' m) = {}" "e = RT_EOK"
    "p_total_count (k_mp k' m) = RT_ALIGN_DOWN4 sz div (RT_ALIGN4 block_size + 4)"
proof -
  let ?total = "RT_ALIGN_DOWN4 sz div (RT_ALIGN4 block_size + 4)"
  let ?h = "(mp_chain (unat ?total) mem)(unat ?total - 1 := NextFree None)"
  have t0: "?total \<noteq> 0" and p: "k_mp k' m = \<lparr>p_block_size = RT_ALIGN4 block_size, p_total_count = ?total, p_free_count = ?total,
      p_block_list = Some 0, p_header = ?h, p_suspend_count = 0\<rparr>" and e: "e = RT_EOK"
    using assms by (auto simp: rt_mp_init_def Let_def split: if_splits)
  then have t: "0 < unat ?total" by (simp add: unat_gt_0)
  have nx: "mp_next (k_mp k' m) i = (if Suc i = unat ?total then None else Some (Suc i))" if "i < unat ?total" for i
    using that by (auto simp: p mp_next_def mp_chain_app)
  have "linked (mp_next (k_mp k' m)) (Some 0) [0..<unat ?total]" by (rule linked_upto [OF nx t])
  moreover have "\<exists>n. ?h i = NextFree n" if "i < unat ?total" for i using that by (auto simp: mp_chain_app)
  ultimately have inv: "mp_inv m (k_mp k' m) [0..<unat ?total]" by (auto simp: mp_inv_def p)
  show "mp_ok m (k_mp k' m)" by (rule mp_okI [OF inv])
  show "mp_live m (k_mp k' m) = {}" unfolding mp_live_inv [OF inv] by (auto simp: p)
  show "e = RT_EOK" "p_total_count (k_mp k' m) = ?total" by (simp_all add: e p)
qed

section \<open>Waiting for a block\<close>

lemma thread_ok_upd_mp [simp]: "thread_ok (upd_mp s f k) = thread_ok k"
proof
  show "thread_ok (upd_mp s f k) \<Longrightarrow> thread_ok k" by (rule thread_ok_same [of "upd_mp s f k"]) (simp_all add: same_sched_def)
  show "thread_ok k \<Longrightarrow> thread_ok (upd_mp s f k)" by (rule thread_ok_same [of k]) (simp_all add: same_sched_def)
qed

lemma mp_alloc_waits:
  assumes c: "calling t k" and time: "time_ok time" "time \<noteq> 0" and none: "p_free_count (k_mp k m) = 0"
  shows "\<exists>k'. rt_mp_alloc m time k = Some (Blocked, k') \<and> thread_ok k' \<and> runs_highest k'
     \<and> t_stat (k_thread k' t) = SUSPEND \<and> t_error (k_thread k' t) = t_error (k_thread k t)
     \<and> k_wait k' = (k_wait k)(WMp m := t # k_wait k (WMp m))
     \<and> k_mp k' = (k_mp k)(m := (k_mp k m)\<lparr>p_suspend_count := p_suspend_count (k_mp k m) + 1\<rparr>)"
proof -
  note cd = callingD [OF c]
  let ?s = "snd (rt_thread_suspend t k)"
  note s = suspend_ok [OF cd(1,3)]
  note sw = suspend_wait [OF thread_okD(1) [OF cd(1)] cd(3)]
  let ?w = "?s\<lparr>k_wait := (k_wait ?s)(WMp m := t # k_wait ?s (WMp m))\<rparr>"
  let ?m = "upd_mp m (\<lambda>p. p\<lparr>p_suspend_count := p_suspend_count p + 1\<rparr>) ?w"
  have "sched_ok ?w"
    by (rule wait_list_extend [OF thread_okD(1) [OF s(1)] s(3) s(2) refl])
      (use s(2) sched_okD(4) [OF thread_okD(1) [OF s(1)], of "WMp m"] in \<open>auto simp: loose_def\<close>)
  then have "thread_ok ?w" using thread_okD(2-4) [OF s(1)] by (auto simp: thread_ok_def active_def periodic_def)
  then have wok: "thread_ok ?m" by simp
  obtain k1 where k1: "(if 0 < sint time then thread_timer_arm t time ?m else Some ?m) = Some k1"
      "thread_ok k1" "k1 = ?m\<lparr>k_timer := k_timer k1, k_timer_list := k_timer_list k1\<rparr>"
  proof (cases "0 < sint time")
    case True
    then have "time < half_range" using time by (simp add: time_ok_def)
    then obtain k1 where a: "thread_timer_arm t time ?m = Some k1" using arm_returns [of time ?m t] by blast
    have "t_stat (k_thread ?m t) = SUSPEND" using s(3) by simp
    from that [OF _ arm_ok [OF wok this a] arm_frame(1) [OF a]] True a show ?thesis by simp
  next
    case False
    from that [OF _ wok] False show ?thesis by simp
  qed
  have k1s: "k_thread k1 = k_thread ?s" "k_wait k1 = k_wait ?m" "k_lock_nest k1 = k_lock_nest k" "k_mp k1 = k_mp ?m"
    by (subst k1(3), simp)+
  obtain u where u: "u \<noteq> t" "t_stat (k_thread k u) = READY" using c unfolding calling_def by blast
  then have ur: "t_stat (k_thread k1 u) = READY" by (simp add: k1s rt_thread_suspend_def)
  from rt_schedule_runs_highest [OF thread_okD(1) [OF k1(2)] ur] obtain k' where
    k': "rt_schedule k1 = Some k'" "runs_highest k'" using cd(4) k1s(3) by auto
  note f = rt_schedule_frame [OF k'(1)]
  have "rt_mp_alloc m time k = Some (Blocked, k')"
    using k1(1) k'(1) none time(2) cd(6,7) by (simp add: rt_mp_alloc_def Let_def)
  moreover have "k_wait k' = (k_wait k)(WMp m := t # k_wait k (WMp m))" by (simp add: f k1s fun_eq_iff sw)
  moreover have "t_error (k_thread k' t) = t_error (k_thread k t)" by (simp add: f k1s rt_thread_suspend_def)
  ultimately show ?thesis using thread_ok_schedule [OF k1(2) k'(1)] k'(2) s(3)
    by (intro exI [of _ k']) (simp add: f k1s)
qed

lemma mp_free_wakes:
  assumes ok: "thread_ok k" and l: "k_lock_nest k = 0" and b: "p_header (k_mp k m) b = OwnedBy m"
    and c: "p_suspend_count (k_mp k m) \<noteq> 0" and w: "k_wait k (WMp m) = u # us"
  shows "\<exists>k'. rt_mp_free m b k = Some k' \<and> thread_ok k' \<and> runs_highest k'
     \<and> t_stat (k_thread k' u) = READY \<and> t_error (k_thread k' u) = RT_EOK \<and> k_wait k' = (k_wait k)(WMp m := us)
     \<and> k_mp k' = (k_mp k)(m := (mp_push b (k_mp k m))\<lparr>p_suspend_count := p_suspend_count (k_mp k m) - 1\<rparr>)"
proof -
  let ?e = "upd_thread u (\<lambda>th. th\<lparr>t_error := RT_EOK\<rparr>) (upd_mp m (mp_push b) k)"
  have e: "thread_ok ?e" "k_wait ?e (WMp m) = u # us" using thread_ok_error ok w by simp_all
  note r = resume_first [OF e]
  let ?r = "snd (rt_thread_resume u ?e)"
  let ?m = "upd_mp m (\<lambda>p. p\<lparr>p_suspend_count := p_suspend_count p - 1\<rparr>) ?r"
  have mok: "thread_ok ?m" and mr: "t_stat (k_thread ?m u) = READY" using r(3,4) by simp_all
  have ml: "k_lock_nest ?m = 0" using l by simp
  from rt_schedule_runs_highest [OF thread_okD(1) [OF mok] mr ml] obtain k' where
    k': "rt_schedule ?m = Some k'" "runs_highest k'" by blast
  note f = rt_schedule_frame [OF k'(1)]
  have sc: "p_suspend_count (mp_push b p) = p_suspend_count p" for p by (simp add: mp_push_def)
  have "rt_mp_free m b k = Some k'" using b c w k'(1) by (simp add: rt_mp_free_def Let_def sc word_gt_0)
  moreover have "t_error (k_thread k' u) = RT_EOK" using r(2) by (simp add: f resume_thread)
  ultimately show ?thesis using thread_ok_schedule [OF mok k'(1)] k'(2) r(4,5)
    by (intro exI [of _ k']) (simp add: f sc)
qed

end
