(* ===== verification/Rt_Heap.thy ===== *)
theory Rt_Heap
  imports Rt_Links "HOL-Library.Monad_Syntax"
begin

text \<open>
  The system heap (\<open>src/mem.c\<close>): the memory is tiled by blocks, each behind a header of 12 bytes with
  the offsets of its neighbours; a used entry ends the tiling; \<open>lfree\<close> is where the search for a free
  block starts. Addresses are offsets from the start of the heap. The heap's semaphore, which every
  operation holds while it works, makes the operations atomic; it is not part of this state.
\<close>

section \<open>State and operations\<close>

record heap_mem =
  hm_magic :: u16
  hm_used :: bool
  hm_next :: nat
  hm_prev :: nat

record heap =
  h_size :: nat
  h_mem :: "nat \<Rightarrow> heap_mem"
  h_lfree :: nat
  h_data :: "nat \<Rightarrow> u8"

abbreviation (input) HEAP_MAGIC :: u16 where "HEAP_MAGIC \<equiv> 0x1ea0"

definition heap_end :: "heap \<Rightarrow> nat" where
  "heap_end h = h_size h + 12"

definition upd_hm :: "nat \<Rightarrow> (heap_mem \<Rightarrow> heap_mem) \<Rightarrow> heap \<Rightarrow> heap" where
  "upd_hm c f h = h\<lparr>h_mem := (h_mem h)(c := f (h_mem h c))\<rparr>"

text \<open>The difference of two unsigned 32-bit numbers.\<close>

definition sub32 :: "nat \<Rightarrow> nat \<Rightarrow> nat" where
  "sub32 a b = (a + 2 ^ 32 - b) mod 2 ^ 32"

definition must :: "bool \<Rightarrow> unit option" where
  "must c = (if c then Some () else None)"

definition rt_system_heap_init :: "u32 \<Rightarrow> u32 \<Rightarrow> heap \<Rightarrow> heap" where
  "rt_system_heap_init begin_addr end_addr h =
     (let begin_align = RT_ALIGN4 begin_addr; end_align = RT_ALIGN_DOWN4 end_addr in
      if end_align > 24 \<and> end_align - 24 \<ge> begin_align then
        (let h = h\<lparr>h_size := unat (end_align - begin_align - 24)\<rparr>;
             h = upd_hm 0 (\<lambda>m. m\<lparr>hm_magic := HEAP_MAGIC, hm_next := heap_end h, hm_prev := 0, hm_used := False\<rparr>) h;
             h = upd_hm (heap_end h) (\<lambda>m. m\<lparr>hm_magic := HEAP_MAGIC, hm_used := True, hm_next := heap_end h,
                                             hm_prev := heap_end h\<rparr>) h
         in h\<lparr>h_lfree := 0\<rparr>)
      else h)"

definition merge_next :: "nat \<Rightarrow> nat \<Rightarrow> heap \<Rightarrow> heap" where
  "merge_next a n h = (let h = upd_hm a (\<lambda>m. m\<lparr>hm_next := n\<rparr>) h in upd_hm n (\<lambda>m. m\<lparr>hm_prev := a\<rparr>) h)"

definition coalesce :: "nat \<Rightarrow> nat \<Rightarrow> heap \<Rightarrow> heap" where
  "coalesce a b h =
     (let h = (if h_lfree h = b then h\<lparr>h_lfree := a\<rparr> else h) in merge_next a (hm_next (h_mem h b)) h)"

definition plug_holes :: "nat \<Rightarrow> heap \<Rightarrow> heap option" where
  "plug_holes mem h = do {
     must (mem < heap_end h);
     must (\<not> hm_used (h_mem h mem));
     let nmem = hm_next (h_mem h mem);
     let h = (if mem \<noteq> nmem \<and> \<not> hm_used (h_mem h nmem) \<and> nmem \<noteq> heap_end h
              then coalesce mem nmem h else h);
     let pmem = hm_prev (h_mem h mem);
     Some (if pmem \<noteq> mem \<and> \<not> hm_used (h_mem h pmem) then coalesce pmem mem h else h) }"

partial_function (option) malloc_search :: "nat \<Rightarrow> nat \<Rightarrow> heap \<Rightarrow> nat \<Rightarrow> nat option option" where
  "malloc_search limit sz h ptr =
     (if ptr < limit then
        (if \<not> hm_used (h_mem h ptr) \<and> sz \<le> sub32 (hm_next (h_mem h ptr)) (ptr + 12) then Some (Some ptr)
         else malloc_search limit sz h (hm_next (h_mem h ptr)))
      else Some None)"

definition split_block :: "nat \<Rightarrow> nat \<Rightarrow> heap \<Rightarrow> heap" where
  "split_block ptr ptr2 h =
     (let next = hm_next (h_mem h ptr);
          h = upd_hm ptr2 (\<lambda>m. m\<lparr>hm_used := False, hm_next := next, hm_prev := ptr\<rparr>) h;
          h = upd_hm ptr (\<lambda>m. m\<lparr>hm_next := ptr2\<rparr>) h
      in if next \<noteq> heap_end h then upd_hm next (\<lambda>m. m\<lparr>hm_prev := ptr2\<rparr>) h else h)"

definition malloc_take :: "nat \<Rightarrow> nat \<Rightarrow> heap \<Rightarrow> heap" where
  "malloc_take ptr sz h =
     (let h = (if sz + 12 + 12 \<le> sub32 (hm_next (h_mem h ptr)) (ptr + 12) then split_block ptr (ptr + 12 + sz) h else h)
      in upd_hm ptr (\<lambda>m. m\<lparr>hm_used := True, hm_magic := HEAP_MAGIC\<rparr>) h)"

partial_function (option) next_free :: "heap \<Rightarrow> nat \<Rightarrow> nat option" where
  "next_free h l = (if hm_used (h_mem h l) \<and> l \<noteq> heap_end h then next_free h (hm_next (h_mem h l)) else Some l)"

definition rt_malloc :: "u32 \<Rightarrow> heap \<Rightarrow> (nat option \<times> heap) option" where
  "rt_malloc sz h =
     (if sz = 0 then Some (None, h)
      else
        (let n = unat (RT_ALIGN4 sz) in
         if h_size h < n then Some (None, h)
         else
           (let n = (if n < 12 then 12 else n) in do {
              found \<leftarrow> malloc_search (sub32 (h_size h) n) n h (h_lfree h);
              case found of
                None \<Rightarrow> Some (None, h)
              | Some ptr \<Rightarrow> do {
                  let h = malloc_take ptr n h;
                  h \<leftarrow> (if ptr = h_lfree h
                        then do { l \<leftarrow> next_free h (h_lfree h);
                                  must (l = heap_end h \<or> \<not> hm_used (h_mem h l));
                                  Some (h\<lparr>h_lfree := l\<rparr>) }
                        else Some h);
                  must (ptr + 12 + n \<le> heap_end h);
                  must ((ptr + 12) mod 4 = 0);
                  must (ptr mod 4 = 0);
                  Some (Some (ptr + 12), h) } })))"

text \<open>A pointer less than a header into the heap would be read in front of it: no value here.\<close>

definition rt_free :: "nat option \<Rightarrow> heap \<Rightarrow> heap option" where
  "rt_free rmem h =
     (case rmem of
        None \<Rightarrow> Some h
      | Some d \<Rightarrow> do {
          must (d mod 4 = 0);
          must (d < heap_end h);
          must (12 \<le> d);
          let mem = d - 12;
          must (hm_used (h_mem h mem));
          must (hm_magic (h_mem h mem) = HEAP_MAGIC);
          let h = upd_hm mem (\<lambda>m. m\<lparr>hm_used := False, hm_magic := 0\<rparr>) h;
          let h = (if mem < h_lfree h then h\<lparr>h_lfree := mem\<rparr> else h);
          plug_holes mem h })"

definition heap_copy :: "nat \<Rightarrow> nat \<Rightarrow> nat \<Rightarrow> heap \<Rightarrow> heap" where
  "heap_copy dst src n h = h\<lparr>h_data := (\<lambda>a. if dst \<le> a \<and> a < dst + n then h_data h (src + (a - dst)) else h_data h a)\<rparr>"

definition rt_realloc :: "nat option \<Rightarrow> u32 \<Rightarrow> heap \<Rightarrow> (nat option \<times> heap) option" where
  "rt_realloc rmem newsize h =
     (let newsize = RT_ALIGN4 newsize; n = unat newsize in
      if h_size h < n then Some (None, h)
      else case rmem of
        None \<Rightarrow> rt_malloc newsize h
      | Some d \<Rightarrow>
          if heap_end h \<le> d then Some (Some d, h)
          else do {
            must (12 \<le> d);
            let ptr = d - 12;
            let sz = sub32 (sub32 (hm_next (h_mem h ptr)) ptr) 12;
            if sz = n then Some (Some d, h)
            else if n + 12 + 12 < sz then do {
              let h = split_block ptr (ptr + 12 + n) h;
              let h = upd_hm (ptr + 12 + n) (\<lambda>m. m\<lparr>hm_magic := HEAP_MAGIC\<rparr>) h;
              h \<leftarrow> plug_holes (ptr + 12 + n) h;
              Some (Some d, h) }
            else do {
              (nmem, h) \<leftarrow> rt_malloc newsize h;
              case nmem of
                None \<Rightarrow> Some (None, h)
              | Some e \<Rightarrow> do { h \<leftarrow> rt_free (Some d) (heap_copy e d (if sz < n then sz else n) h); Some (Some e, h) } } })"

definition rt_calloc :: "u32 \<Rightarrow> u32 \<Rightarrow> heap \<Rightarrow> (nat option \<times> heap) option" where
  "rt_calloc count sz h = do {
     (p, h) \<leftarrow> rt_malloc (count * sz) h;
     case p of None \<Rightarrow> Some (None, h)
     | Some d \<Rightarrow> Some (Some d, h\<lparr>h_data := (\<lambda>a. if d \<le> a \<and> a < d + unat (count * sz) then 0 else h_data h a)\<rparr>) }"

section \<open>The tiling\<close>

fun chained :: "(nat \<Rightarrow> heap_mem) \<Rightarrow> nat \<Rightarrow> nat \<Rightarrow> nat list \<Rightarrow> nat \<Rightarrow> bool" where
  "chained m pr p [] e = (p = e)"
| "chained m pr p (c # cs) e = (p = c \<and> 4 dvd c \<and> c + 12 \<le> hm_next (m c) \<and> hm_prev (m c) = pr
     \<and> chained m c (hm_next (m c)) cs e)"

lemma chained_append:
  "chained m pr p (xs @ ys) e \<longleftrightarrow> (\<exists>q. chained m pr p xs q \<and> chained m (last (pr # xs)) q ys e)"
  by (induction xs arbitrary: pr p) auto

lemma chained_bounds:
  "chained m pr p cs e \<Longrightarrow> p + 12 * length cs \<le> e \<and> (\<forall>c\<in>set cs. p \<le> c \<and> c + 12 \<le> hm_next (m c) \<and> hm_next (m c) \<le> e \<and> 4 dvd c)"
  by (induction cs arbitrary: pr p) fastforce+

lemma chained_sorted:
  "chained m pr p cs e \<Longrightarrow> sorted_wrt (\<lambda>c d. hm_next (m c) \<le> d) cs"
  by (induction cs arbitrary: pr p) (auto dest: chained_bounds)

lemma chained_distinct: "chained m pr p cs e \<Longrightarrow> distinct cs"
proof (induction cs arbitrary: pr p)
  case (Cons c cs)
  then show ?case using chained_bounds [of m c "hm_next (m c)" cs e] by fastforce
qed simp

lemma chained_end: "chained m pr p cs e \<Longrightarrow> e \<notin> set cs"
  using chained_bounds [of m pr p cs e] by fastforce

lemma chained_upd [simp]: "c \<notin> set cs \<Longrightarrow> chained (m(c := x)) pr p cs e = chained m pr p cs e"
  by (induction cs arbitrary: pr p) auto

text \<open>The header at the front of a chain takes a new predecessor.\<close>

lemma chained_reprev:
  assumes "chained m pr p cs e"
  shows "chained (m(p := (m p)\<lparr>hm_prev := pr'\<rparr>)) pr' p cs e"
proof (cases cs)
  case Nil
  then show ?thesis using assms by simp
next
  case (Cons c ds)
  then have "c \<notin> set ds" using chained_distinct [OF assms] by simp
  then show ?thesis using assms Cons by simp
qed

text \<open>Updates that leave links alone.\<close>

lemma chained_links:
  assumes "\<And>c. c \<in> set cs \<Longrightarrow> hm_next (m' c) = hm_next (m c) \<and> hm_prev (m' c) = hm_prev (m c)"
  shows "chained m' pr p cs e = chained m pr p cs e"
  using assms by (induction cs arbitrary: pr p) auto

text \<open>Walking over the tiling; the number of blocks is bounded by the size of the heap.\<close>

fun walk :: "(nat \<Rightarrow> heap_mem) \<Rightarrow> nat \<Rightarrow> nat \<Rightarrow> nat \<Rightarrow> nat list" where
  "walk m 0 p e = []"
| "walk m (Suc n) p e = (if p = e then [] else p # walk m n (hm_next (m p)) e)"

lemma walk_chained: "chained m pr p cs e \<Longrightarrow> length cs \<le> n \<Longrightarrow> walk m n p e = cs"
proof (induction cs arbitrary: pr p n)
  case Nil
  then show ?case by (cases n) auto
next
  case (Cons c cs)
  then obtain k where "n = Suc k" by (cases n) auto
  moreover have "c \<noteq> e" using chained_end [OF Cons.prems(1)] by auto
  ultimately show ?case using Cons.prems Cons.IH [of c "hm_next (m c)" k] by simp
qed

definition heap_chain :: "heap \<Rightarrow> nat list" where
  "heap_chain h = walk (h_mem h) (heap_end h) 0 (heap_end h)"

definition tiled :: "heap \<Rightarrow> nat list \<Rightarrow> bool" where
  "tiled h cs \<longleftrightarrow> chained (h_mem h) 0 0 cs (heap_end h) \<and> heap_end h < 2 ^ 32 \<and> hm_used (h_mem h (heap_end h))
     \<and> (\<forall>c\<in>set cs. c + 12 < heap_end h \<and> (hm_used (h_mem h c) \<longrightarrow> hm_magic (h_mem h c) = HEAP_MAGIC))"

text \<open>No two neighbours are free.\<close>

definition coalesced :: "heap \<Rightarrow> nat list \<Rightarrow> bool" where
  "coalesced h cs \<longleftrightarrow> successively (\<lambda>c d. hm_used (h_mem h c) \<or> hm_used (h_mem h d)) cs"

definition starts_free :: "heap \<Rightarrow> nat list \<Rightarrow> bool" where
  "starts_free h cs \<longleftrightarrow> h_lfree h = heap_end h \<or> h_lfree h \<in> set cs \<and> \<not> hm_used (h_mem h (h_lfree h))"

definition heap_inv :: "heap \<Rightarrow> nat list \<Rightarrow> bool" where
  "heap_inv h cs \<longleftrightarrow> tiled h cs \<and> coalesced h cs \<and> starts_free h cs"

definition heap_ok :: "heap \<Rightarrow> bool" where
  "heap_ok h \<longleftrightarrow> heap_inv h (heap_chain h) \<and> 12 \<le> h_size h"

lemma heap_inv_chain: "heap_inv h cs \<Longrightarrow> heap_chain h = cs"
  unfolding heap_chain_def
  by (rule walk_chained [where pr = 0]) (auto simp: heap_inv_def tiled_def dest: chained_bounds)

lemma heap_okI: "heap_inv h cs \<Longrightarrow> 12 \<le> h_size h \<Longrightarrow> heap_ok h"
  using heap_inv_chain by (auto simp: heap_ok_def)

definition heap_live :: "heap \<Rightarrow> nat set" where
  "heap_live h = {c + 12 |c. c \<in> set (heap_chain h) \<and> hm_used (h_mem h c)}"

definition heap_region :: "heap \<Rightarrow> nat \<Rightarrow> nat set" where
  "heap_region h d = {d..<hm_next (h_mem h (d - 12))}"

lemma sub32_le: "b \<le> a \<Longrightarrow> a < 2 ^ 32 \<Longrightarrow> sub32 a b = a - b"
proof -
  assume a: "b \<le> a" "a < 2 ^ 32"
  then have "a + 2 ^ 32 - b = (a - b) + 2 ^ 32" by simp
  then show ?thesis unfolding sub32_def using a by (metis le_add_diff_inverse2 mod_add_self2 mod_less less_imp_diff_less)
qed

lemma must_simps [simp]: "must True = Some ()" "must False = None" "must c = Some u \<longleftrightarrow> c"
  by (simp_all add: must_def)

section \<open>Splitting and merging\<close>

lemma chained_split:
  assumes c: "chained m pr p (xs @ c # ys) e" and c2: "c + 12 \<le> c2" "c2 + 12 \<le> hm_next (m c)" "4 dvd c2"
    and at: "hm_next (m' c) = c2" "hm_prev (m' c) = hm_prev (m c)" "hm_next (m' c2) = hm_next (m c)" "hm_prev (m' c2) = c"
      "\<And>d. d \<noteq> c \<Longrightarrow> d \<noteq> c2 \<Longrightarrow> hm_next (m' d) = hm_next (m d)"
      "\<And>d. d \<noteq> c \<Longrightarrow> d \<noteq> c2 \<Longrightarrow> d \<noteq> e \<Longrightarrow> hm_prev (m' d) = (if d = hm_next (m c) then c2 else hm_prev (m d))"
  shows "chained m' pr p (xs @ c # c2 # ys) e"
proof -
  let ?n = "hm_next (m c)"
  from c have x: "chained m pr p xs c" and cc: "4 dvd c" "hm_prev (m c) = last (pr # xs)" and y: "chained m c ?n ys e"
    unfolding chained_append by auto
  have nx: "d \<notin> set xs" if "c \<le> d" for d using chained_bounds [OF x] that by fastforce
  have bx: "\<forall>d\<in>set xs. d < c" using nx by (meson not_le)
  have "chained m' pr p xs c \<longleftrightarrow> chained m pr p xs c"
  proof (rule chained_links)
    fix d assume d: "d \<in> set xs"
    then have "d < c" using bx by blast
    moreover have "c \<le> e" using chained_bounds [OF y] c2 by linarith
    ultimately show "hm_next (m' d) = hm_next (m d) \<and> hm_prev (m' d) = hm_prev (m d)" using c2 at(5,6) [of d] by auto
  qed
  moreover have "chained m' c2 ?n ys e"
  proof (cases ys)
    case Nil
    then show ?thesis using y by simp
  next
    case (Cons b zs)
    have b: "b = ?n" "chained m b (hm_next (m b)) zs e" "b + 12 \<le> hm_next (m b)" using y Cons by auto
    have z: "\<forall>d\<in>set zs. b < d \<and> d < e" using chained_bounds [OF b(2)] b(3) by fastforce
    have be: "b < e" using chained_bounds [OF b(2)] b(3) by linarith
    have "chained m' b (hm_next (m b)) zs e \<longleftrightarrow> chained m b (hm_next (m b)) zs e"
      by (rule chained_links) (use z b(1) c2 at(5,6) in fastforce)
    then show ?thesis using y Cons b c2 at(5,6) [of b] be by auto
  qed
  ultimately show ?thesis using x cc at(1-4) c2 unfolding chained_append by auto
qed

lemma chained_merge:
  assumes c: "chained m pr p (xs @ a # b # ys) e"
    and at: "hm_next (m' a) = hm_next (m b)" "\<And>d. d \<noteq> a \<Longrightarrow> hm_next (m' d) = hm_next (m d)"
      "hm_prev (m' (hm_next (m b))) = a" "\<And>d. d \<noteq> hm_next (m b) \<Longrightarrow> hm_prev (m' d) = hm_prev (m d)"
  shows "chained m' pr p (xs @ a # ys) e"
proof -
  let ?n = "hm_next (m b)"
  from c have x: "chained m pr p xs a" and ca: "4 dvd a" "hm_prev (m a) = last (pr # xs)" "a + 12 \<le> b" "hm_next (m a) = b" "b + 12 \<le> ?n"
    and y: "chained m b ?n ys e" unfolding chained_append by auto
  have bx: "\<forall>d\<in>set xs. d < a" using chained_bounds [OF x] by fastforce
  have "chained m' pr p xs a \<longleftrightarrow> chained m pr p xs a"
    by (rule chained_links) (use bx ca at in fastforce)
  moreover have "chained m' a ?n ys e"
  proof (cases ys)
    case Nil
    then show ?thesis using y by simp
  next
    case (Cons d zs)
    have d: "d = ?n" "chained m d (hm_next (m d)) zs e" "d + 12 \<le> hm_next (m d)" using y Cons by auto
    have z: "\<forall>f\<in>set zs. d < f" using chained_bounds [OF d(2)] d(3) by fastforce
    have "chained m' d (hm_next (m d)) zs e \<longleftrightarrow> chained m d (hm_next (m d)) zs e"
      by (rule chained_links) (use z d(1) ca at in fastforce)
    then show ?thesis using y Cons d ca at by auto
  qed
  ultimately show ?thesis using x ca at unfolding chained_append by auto
qed

lemma upd_hm_simps [simp]:
  "heap_end (upd_hm c f h) = heap_end h" "h_size (upd_hm c f h) = h_size h" "h_lfree (upd_hm c f h) = h_lfree h"
  "h_data (upd_hm c f h) = h_data h" "h_mem (upd_hm c f h) d = (if d = c then f (h_mem h c) else h_mem h d)"
  by (simp_all add: upd_hm_def heap_end_def)

lemma coalesce_simps [simp]:
  "heap_end (coalesce a b h) = heap_end h" "h_size (coalesce a b h) = h_size h" "h_data (coalesce a b h) = h_data h"
  "h_lfree (coalesce a b h) = (if h_lfree h = b then a else h_lfree h)"
  "hm_used (h_mem (coalesce a b h) d) = hm_used (h_mem h d)" "hm_magic (h_mem (coalesce a b h) d) = hm_magic (h_mem h d)"
  "hm_next (h_mem (coalesce a b h) d) = (if d = a then hm_next (h_mem h b) else hm_next (h_mem h d))"
  "hm_prev (h_mem (coalesce a b h) d) = (if d = hm_next (h_mem h b) then a else hm_prev (h_mem h d))"
  by (simp_all add: coalesce_def merge_next_def Let_def heap_end_def)

lemma split_block_simps [simp]:
  "heap_end (split_block a b h) = heap_end h" "h_size (split_block a b h) = h_size h" "h_data (split_block a b h) = h_data h"
  "h_lfree (split_block a b h) = h_lfree h"
  by (simp_all add: split_block_def Let_def)

lemma split_block_mem:
  assumes "a < b" "b < hm_next (h_mem h a)"
  shows "hm_used (h_mem (split_block a b h) d) = (d \<noteq> b \<and> hm_used (h_mem h d))"
    "hm_magic (h_mem (split_block a b h) d) = hm_magic (h_mem h d)"
    "hm_next (h_mem (split_block a b h) d) = (if d = a then b else if d = b then hm_next (h_mem h a) else hm_next (h_mem h d))"
    "hm_prev (h_mem (split_block a b h) d)
       = (if d = b then a else if d = hm_next (h_mem h a) \<and> d \<noteq> heap_end h then b else hm_prev (h_mem h d))"
  using assms by (simp_all add: split_block_def Let_def)

lemma tiled_bounds:
  assumes "tiled h cs" "c \<in> set cs"
  shows "c + 12 \<le> hm_next (h_mem h c)" "hm_next (h_mem h c) \<le> heap_end h" "4 dvd c" "c + 12 < heap_end h"
    "heap_end h < 2 ^ 32"
  using assms chained_bounds [of "h_mem h" 0 0 cs "heap_end h"] by (auto simp: tiled_def)

lemma tiled_at:
  assumes "tiled h (xs @ c # ys)"
  shows "chained (h_mem h) c (hm_next (h_mem h c)) ys (heap_end h)" "hm_prev (h_mem h c) = last (0 # xs)"
    "chained (h_mem h) (last (0 # xs)) c (c # ys) (heap_end h)"
    "hm_next (h_mem h c) = (case ys of [] \<Rightarrow> heap_end h | b # _ \<Rightarrow> b)"
  using assms unfolding tiled_def chained_append by (auto split: list.splits)

lemma tiled_prev_self:
  assumes "tiled h (xs @ c # ys)"
  shows "hm_prev (h_mem h c) = c \<longleftrightarrow> xs = []"
proof -
  have x: "chained (h_mem h) 0 0 xs c" using assms unfolding tiled_def chained_append by auto
  have "\<forall>d\<in>set xs. d < c" using chained_bounds [OF x] by fastforce
  then have "xs \<noteq> [] \<Longrightarrow> last xs < c" by simp
  moreover have "xs = [] \<Longrightarrow> c = 0" using x by simp
  ultimately show ?thesis using tiled_at(2) [OF assms] by auto
qed

lemma tiled_coalesce:
  assumes t: "tiled h (xs @ a # b # ys)" and f: "\<not> hm_used (h_mem h a)" "\<not> hm_used (h_mem h b)"
  shows "tiled (coalesce a b h) (xs @ a # ys)"
proof -
  have "chained (h_mem (coalesce a b h)) 0 0 (xs @ a # ys) (heap_end h)"
    by (rule chained_merge [where m = "h_mem h" and b = b]) (use t in \<open>auto simp: tiled_def\<close>)
  then show ?thesis using t by (auto simp: tiled_def)
qed

text \<open>What filling the holes around a free block guarantees to the blocks in use.\<close>

definition same_used :: "heap \<Rightarrow> nat list \<Rightarrow> heap \<Rightarrow> nat list \<Rightarrow> bool" where
  "same_used h cs h' cs' \<longleftrightarrow> h_size h' = h_size h \<and> h_data h' = h_data h
     \<and> {c \<in> set cs'. hm_used (h_mem h' c)} = {c \<in> set cs. hm_used (h_mem h c)}
     \<and> (\<forall>c\<in>set cs. hm_used (h_mem h c) \<longrightarrow> hm_next (h_mem h' c) = hm_next (h_mem h c))"

lemma same_used_trans: "same_used h cs h' cs' \<Longrightarrow> same_used h' cs' h'' cs'' \<Longrightarrow> same_used h cs h'' cs''"
  unfolding same_used_def by (auto simp: set_eq_iff)

lemma same_used_refl: "same_used h cs h cs"
  by (simp add: same_used_def)

lemma same_used_coalesce:
  assumes "\<not> hm_used (h_mem h a)" "\<not> hm_used (h_mem h b)"
  shows "same_used h (xs @ a # b # ys) (coalesce a b h) (xs @ a # ys)"
  using assms by (auto simp: same_used_def)

lemma starts_free_coalesce:
  assumes "starts_free h (xs @ a # b # ys)" "\<not> hm_used (h_mem h a)"
  shows "starts_free (coalesce a b h) (xs @ a # ys)"
  using assms by (auto simp: starts_free_def)

lemma coalesced_append:
  "coalesced h (xs @ ys) \<longleftrightarrow> coalesced h xs \<and> coalesced h ys
     \<and> (xs = [] \<or> ys = [] \<or> hm_used (h_mem h (last xs)) \<or> hm_used (h_mem h (hd ys)))"
  by (auto simp: coalesced_def successively_append_iff)

lemma coalesced_Nil [simp]: "coalesced h []"
  by (simp add: coalesced_def)

lemma coalesced_Cons:
  "coalesced h (c # ys) \<longleftrightarrow> coalesced h ys \<and> (ys = [] \<or> hm_used (h_mem h c) \<or> hm_used (h_mem h (hd ys)))"
  by (cases ys) (auto simp: coalesced_def)

lemma coalesced_used:
  assumes "\<And>c. c \<in> set cs \<Longrightarrow> hm_used (h_mem h c) \<Longrightarrow> hm_used (h_mem h' c)" "coalesced h cs"
  shows "coalesced h' cs"
  using assms(2) unfolding coalesced_def by (rule successively_mono) (use assms(1) in auto)

lemma coalesced_coalesce [simp]: "coalesced (coalesce a b h) cs = coalesced h cs"
  by (simp add: coalesced_def)

text \<open>The forward half of filling holes, then the backward half.\<close>

lemma plug_forward:
  assumes t: "tiled h (xs @ c # ys)" "starts_free h (xs @ c # ys)" "coalesced h ys" and f: "\<not> hm_used (h_mem h c)"
  defines "n \<equiv> hm_next (h_mem h c)"
  defines "h1 \<equiv> (if c \<noteq> n \<and> \<not> hm_used (h_mem h n) \<and> n \<noteq> heap_end h then coalesce c n h else h)"
  shows "\<exists>zs. tiled h1 (xs @ c # zs) \<and> starts_free h1 (xs @ c # zs) \<and> coalesced h1 (c # zs)
     \<and> same_used h (xs @ c # ys) h1 (xs @ c # zs)"
proof (cases ys)
  case Nil
  then have "n = heap_end h" using tiled_at(4) [OF t(1)] by (simp add: n_def)
  then have "h1 = h" by (simp add: h1_def)
  then show ?thesis using t Nil same_used_refl by (intro exI [of _ "[]"]) (simp add: coalesced_def)
next
  case (Cons b zs)
  have n: "n = b" using tiled_at(4) [OF t(1)] Cons by (simp add: n_def)
  have e: "b \<noteq> heap_end h" using tiled_bounds(4) [OF t(1), of b] Cons by simp
  have cb: "c \<noteq> b" using tiled_bounds(1) [OF t(1), of c] n by (simp add: n_def)
  show ?thesis
  proof (cases "hm_used (h_mem h b)")
    case True
    then have "h1 = h" by (simp add: h1_def n)
    then show ?thesis using t Cons True same_used_refl by (intro exI [of _ ys]) (simp add: coalesced_Cons)
  next
    case False
    then have h1: "h1 = coalesce c b h" using n e cb by (simp add: h1_def)
    have "coalesced h (c # zs)" using t(3) False Cons by (auto simp: coalesced_Cons)
    then show ?thesis unfolding h1
      using tiled_coalesce [of h xs c b zs] starts_free_coalesce [of h xs c b zs] same_used_coalesce [of h c b xs zs] t Cons f False
      by (intro exI [of _ zs]) simp
  qed
qed

lemma plug_backward:
  assumes t: "tiled h (xs @ c # ys)" "starts_free h (xs @ c # ys)" "coalesced h xs" "coalesced h (c # ys)"
    and f: "\<not> hm_used (h_mem h c)"
  defines "p \<equiv> hm_prev (h_mem h c)"
  defines "h1 \<equiv> (if p \<noteq> c \<and> \<not> hm_used (h_mem h p) then coalesce p c h else h)"
  shows "\<exists>cs. heap_inv h1 cs \<and> same_used h (xs @ c # ys) h1 cs"
proof (cases xs rule: rev_cases)
  case Nil
  then have "p = c" using tiled_prev_self [OF t(1)] by (simp add: p_def)
  then have "h1 = h" by (simp add: h1_def)
  then show ?thesis using t Nil same_used_refl [of h ys] same_used_refl [of h "c # ys"] by (intro exI [of _ "c # ys"]) (simp add: heap_inv_def)
next
  case (snoc ws b)
  have p: "p = b" using tiled_at(2) [OF t(1)] snoc by (simp add: p_def)
  have bc: "b \<noteq> c" using tiled_prev_self [OF t(1)] snoc p by (auto simp: p_def)
  show ?thesis
  proof (cases "hm_used (h_mem h b)")
    case True
    then have h1: "h1 = h" by (simp add: h1_def p)
    have "coalesced h (xs @ c # ys)" unfolding coalesced_append using t(3,4) snoc True by simp
    then show ?thesis unfolding h1 using t same_used_refl by (intro exI [of _ "xs @ c # ys"]) (simp add: heap_inv_def)
  next
    case False
    then have h1: "h1 = coalesce b c h" using p bc by (simp add: h1_def)
    have w: "coalesced h ws" "ws = [] \<or> hm_used (h_mem h (last ws))"
      using t(3) False snoc by (auto simp: coalesced_append)
    have "coalesced h (ws @ b # ys)" using w t(4) f by (auto simp: coalesced_append coalesced_Cons)
    then show ?thesis unfolding h1
      using tiled_coalesce [of h ws b c ys] starts_free_coalesce [of h ws b c ys] same_used_coalesce [of h b c ws ys] t snoc f False
      by (intro exI [of _ "ws @ b # ys"]) (simp add: heap_inv_def)
  qed
qed

lemma plug_holes_ok:
  assumes t: "tiled h (xs @ c # ys)" "starts_free h (xs @ c # ys)" "coalesced h xs" "coalesced h ys"
    and f: "\<not> hm_used (h_mem h c)"
  shows "\<exists>h' cs. plug_holes c h = Some h' \<and> heap_inv h' cs \<and> same_used h (xs @ c # ys) h' cs"
proof -
  define n where "n = hm_next (h_mem h c)"
  define h1 where "h1 = (if c \<noteq> n \<and> \<not> hm_used (h_mem h n) \<and> n \<noteq> heap_end h then coalesce c n h else h)"
  define p where "p = hm_prev (h_mem h1 c)"
  define h2 where "h2 = (if p \<noteq> c \<and> \<not> hm_used (h_mem h1 p) then coalesce p c h1 else h1)"
  have u: "hm_used (h_mem h1 d) = hm_used (h_mem h d)" for d by (simp add: h1_def)
  have e: "plug_holes c h = Some h2"
    using f tiled_bounds(4) [OF t(1), of c] by (simp add: plug_holes_def h2_def p_def h1_def n_def Let_def)
  obtain zs where z: "tiled h1 (xs @ c # zs)" "starts_free h1 (xs @ c # zs)" "coalesced h1 (c # zs)"
     "same_used h (xs @ c # ys) h1 (xs @ c # zs)"
    using plug_forward [OF t(1,2,4) f] unfolding n_def [symmetric] h1_def [symmetric] by blast
  have x: "coalesced h1 xs" using coalesced_used [OF _ t(3), of h1] u by simp
  obtain cs where "heap_inv h2 cs" "same_used h1 (xs @ c # zs) h2 cs"
    using plug_backward [OF z(1,2) x z(3)] u f unfolding p_def [symmetric] h2_def [symmetric] by blast
  then show ?thesis using e same_used_trans [OF z(4)] by blast
qed

section \<open>Searching\<close>

lemma malloc_search_chain:
  assumes "chained (h_mem h) pr p ys e" "limit \<le> e" "e < 2 ^ 32"
  shows "\<exists>r. malloc_search limit n h p = Some r \<and>
    (case r of
       None \<Rightarrow> \<forall>c\<in>set ys. c < limit \<longrightarrow> hm_used (h_mem h c) \<or> hm_next (h_mem h c) - (c + 12) < n
     | Some c \<Rightarrow> c \<in> set ys \<and> c < limit \<and> \<not> hm_used (h_mem h c) \<and> n \<le> hm_next (h_mem h c) - (c + 12))"
  using assms(1)
proof (induction ys arbitrary: pr p)
  case Nil
  then show ?case using assms(2) by (subst malloc_search.simps) simp
next
  case (Cons c cs)
  have c: "p = c" "c + 12 \<le> hm_next (h_mem h c)" "chained (h_mem h) c (hm_next (h_mem h c)) cs e" using Cons.prems by auto
  have b: "hm_next (h_mem h c) \<le> e" "\<forall>d\<in>set cs. hm_next (h_mem h c) \<le> d" using chained_bounds [OF c(3)] by auto
  have s: "sub32 (hm_next (h_mem h c)) (c + 12) = hm_next (h_mem h c) - (c + 12)"
    using sub32_le [OF c(2)] b(1) assms(3) by simp
  consider "limit \<le> c" | "c < limit" "\<not> hm_used (h_mem h c)" "n \<le> hm_next (h_mem h c) - (c + 12)"
    | "c < limit" "hm_used (h_mem h c) \<or> hm_next (h_mem h c) - (c + 12) < n" by linarith
  then show ?case
  proof cases
    case 1
    then show ?thesis using b c by (subst malloc_search.simps) auto
  next
    case 2
    then show ?thesis using c s by (subst malloc_search.simps) simp
  next
    case 3
    then have "malloc_search limit n h p = malloc_search limit n h (hm_next (h_mem h c))"
      using c(1) s by (subst malloc_search.simps) auto
    then show ?thesis using Cons.IH [OF c(3)] 3(2) by (fastforce split: option.splits)
  qed
qed

lemma next_free_chain:
  assumes "chained (h_mem h) pr p ys (heap_end h)"
  shows "\<exists>l. next_free h p = Some l \<and> (l = heap_end h \<or> l \<in> set ys \<and> \<not> hm_used (h_mem h l))"
  using assms
proof (induction ys arbitrary: pr p)
  case Nil
  then show ?case by (subst next_free.simps) simp
next
  case (Cons c cs)
  have c: "p = c" "chained (h_mem h) c (hm_next (h_mem h c)) cs (heap_end h)" using Cons.prems by auto
  have e: "c \<noteq> heap_end h" using chained_end [OF Cons.prems] by auto
  show ?case
  proof (cases "hm_used (h_mem h c)")
    case True
    then have "next_free h p = next_free h (hm_next (h_mem h c))" using c e by (subst next_free.simps) simp
    then show ?thesis using Cons.IH [OF c(2)] by auto
  next
    case False
    then show ?thesis using c by (subst next_free.simps) simp
  qed
qed

section \<open>Allocation\<close>

lemma tiled_split:
  assumes t: "tiled h (xs @ c # ys)" and n: "c + 12 + n + 12 < hm_next (h_mem h c)" "4 dvd n"
  shows "tiled (split_block c (c + 12 + n) h) (xs @ c # (c + 12 + n) # ys)"
proof -
  let ?b = "c + 12 + n" and ?h = "split_block c (c + 12 + n) h"
  note m = split_block_mem [of c ?b h]
  have c: "c < ?b" "?b < hm_next (h_mem h c)" "hm_next (h_mem h c) \<le> heap_end h" "4 dvd c"
    using n tiled_bounds [OF t, of c] by simp_all
  have "chained (h_mem ?h) 0 0 (xs @ c # ?b # ys) (heap_end h)"
    by (rule chained_split [where m = "h_mem h"]) (use t n c m in \<open>auto simp: tiled_def\<close>)
  then show ?thesis using t c n m by (auto simp: tiled_def)
qed

lemma split_new:
  assumes t: "tiled h (xs @ c # ys)" and n: "c < b" "b < hm_next (h_mem h c)"
  shows "b \<notin> set (xs @ c # ys)" "b \<noteq> heap_end h"
proof -
  have x: "chained (h_mem h) 0 0 xs c" using t unfolding tiled_def chained_append by auto
  have "\<forall>d\<in>set xs. d < c" using chained_bounds [OF x] by fastforce
  moreover have "\<forall>d\<in>set ys. hm_next (h_mem h c) \<le> d" using chained_bounds [OF tiled_at(1) [OF t]] by blast
  ultimately show "b \<notin> set (xs @ c # ys)" using n by fastforce
  show "b \<noteq> heap_end h" using n tiled_bounds(2) [OF t, of c] by simp
qed

text \<open>The block a search found becomes the block in use, its tail a block of its own if one fits there.\<close>

lemma malloc_take_ok:
  assumes t: "tiled h (xs @ c # ys)" "coalesced h (xs @ c # ys)" "starts_free h (xs @ c # ys)"
    and f: "\<not> hm_used (h_mem h c)" "n \<le> hm_next (h_mem h c) - (c + 12)" "4 dvd n" "12 \<le> n"
  defines "h1 \<equiv> malloc_take c n h"
  shows "\<exists>zs. tiled h1 (xs @ c # zs) \<and> coalesced h1 (xs @ c # zs) \<and> h_lfree h1 = h_lfree h
     \<and> (h_lfree h \<noteq> c \<longrightarrow> starts_free h1 (xs @ c # zs))
     \<and> {d \<in> set (xs @ c # zs). hm_used (h_mem h1 d)} = insert c {d \<in> set (xs @ c # ys). hm_used (h_mem h d)}
     \<and> (\<forall>d\<in>set (xs @ c # ys). d \<noteq> c \<longrightarrow> hm_next (h_mem h1 d) = hm_next (h_mem h d))
     \<and> h_size h1 = h_size h \<and> h_data h1 = h_data h
     \<and> c + 12 + n \<le> hm_next (h_mem h1 c) \<and> hm_next (h_mem h1 c) < c + 12 + n + 24"
proof -
  let ?b = "c + 12 + n"
  note cb = tiled_bounds [OF t(1), of c, simplified]
  have s: "sub32 (hm_next (h_mem h c)) (c + 12) = hm_next (h_mem h c) - (c + 12)"
    using sub32_le cb by simp
  have y: "coalesced h ys" "ys = [] \<or> hm_used (h_mem h (hd ys))" "coalesced h xs"
    using t(2) f(1) by (auto simp: coalesced_append coalesced_Cons)
  have cx: "c \<notin> set xs" "c \<notin> set ys"
    using chained_distinct [of "h_mem h" 0 0 "xs @ c # ys"] t(1) by (auto simp: tiled_def)
  have ce: "c \<noteq> heap_end h" using cb by simp
  show ?thesis
  proof (cases "n + 12 + 12 \<le> hm_next (h_mem h c) - (c + 12)")
    case True
    then have b: "c < ?b" "?b < hm_next (h_mem h c)" "?b + 12 < hm_next (h_mem h c)" using cb by auto
    define h0 where "h0 = split_block c ?b h"
    note m = split_block_mem [OF b(1,2), folded h0_def]
    have h1: "h1 = upd_hm c (\<lambda>m. m\<lparr>hm_used := True, hm_magic := HEAP_MAGIC\<rparr>) h0"
      using True s by (simp add: h1_def malloc_take_def h0_def)
    note new = split_new [OF t(1) b(1,2), simplified]
    have z: "tiled h0 (xs @ c # ?b # ys)" using tiled_split [OF t(1) b(3) f(3)] by (simp add: h0_def)
    have e: "heap_end h0 = heap_end h" by (simp add: h0_def)
    have ch: "chained (h_mem h1) 0 0 (xs @ c # ?b # ys) (heap_end h) = chained (h_mem h0) 0 0 (xs @ c # ?b # ys) (heap_end h)"
      by (rule chained_links) (simp add: h1)
    have ti: "tiled h1 (xs @ c # ?b # ys)" using z ce ch unfolding tiled_def by (auto simp: h1 e)
    have u: "hm_used (h_mem h1 d) \<longleftrightarrow> d = c \<or> d \<noteq> ?b \<and> hm_used (h_mem h d)" for d by (simp add: h1 m)
    have "coalesced h1 xs" by (rule coalesced_used [OF _ y(3)]) (use u new in auto)
    moreover have "coalesced h1 ys" by (rule coalesced_used [OF _ y(1)]) (use u new in auto)
    moreover have "ys = [] \<or> hm_used (h_mem h1 (hd ys))" using y(2) u new by (cases ys) auto
    ultimately have co: "coalesced h1 (xs @ c # ?b # ys)" using u by (auto simp: coalesced_append coalesced_Cons)
    have nx: "hm_next (h_mem h1 d) = (if d = c then ?b else if d = ?b then hm_next (h_mem h c) else hm_next (h_mem h d))" for d
      by (simp add: h1 m)
    have re: "h_lfree h1 = h_lfree h" "h_size h1 = h_size h" "h_data h1 = h_data h" "heap_end h1 = heap_end h"
      by (simp_all add: h1 h0_def)
    have "h_lfree h \<noteq> c \<longrightarrow> h_lfree h \<in> set (xs @ c # ys) \<longrightarrow> \<not> hm_used (h_mem h (h_lfree h))
        \<longrightarrow> \<not> hm_used (h_mem h1 (h_lfree h))" unfolding u by blast
    then have st: "h_lfree h \<noteq> c \<longrightarrow> starts_free h1 (xs @ c # ?b # ys)"
      using t(3) unfolding starts_free_def re by simp blast
    have us: "{d \<in> set (xs @ c # ?b # ys). hm_used (h_mem h1 d)} = insert c {d \<in> set (xs @ c # ys). hm_used (h_mem h d)}"
      unfolding u using new by auto
    have ke: "\<forall>d\<in>set (xs @ c # ys). d \<noteq> c \<longrightarrow> hm_next (h_mem h1 d) = hm_next (h_mem h d)"
      unfolding nx using new by auto
    have le: "c + 12 + n \<le> hm_next (h_mem h1 c)" "hm_next (h_mem h1 c) < c + 12 + n + 24" by (simp_all add: nx)
    show ?thesis
      by (rule exI [of _ "?b # ys"], intro conjI) (rule ti co st us ke re le)+
  next
    case False
    have h1: "h1 = upd_hm c (\<lambda>m. m\<lparr>hm_used := True, hm_magic := HEAP_MAGIC\<rparr>) h"
      using False s by (simp add: h1_def malloc_take_def)
    have ch: "chained (h_mem h1) 0 0 (xs @ c # ys) (heap_end h) = chained (h_mem h) 0 0 (xs @ c # ys) (heap_end h)"
      by (rule chained_links) (simp add: h1)
    have ti: "tiled h1 (xs @ c # ys)" using t(1) ce ch unfolding tiled_def by (auto simp: h1)
    have co: "coalesced h1 (xs @ c # ys)" by (rule coalesced_used [OF _ t(2)]) (simp add: h1)
    have st: "h_lfree h \<noteq> c \<longrightarrow> starts_free h1 (xs @ c # ys)" using t(3) by (auto simp: h1 starts_free_def)
    have us: "{d \<in> set (xs @ c # ys). hm_used (h_mem h1 d)} = insert c {d \<in> set (xs @ c # ys). hm_used (h_mem h d)}"
      by (auto simp: h1)
    have ke: "\<forall>d\<in>set (xs @ c # ys). d \<noteq> c \<longrightarrow> hm_next (h_mem h1 d) = hm_next (h_mem h d)" by (simp add: h1)
    have re: "h_lfree h1 = h_lfree h" "h_size h1 = h_size h" "h_data h1 = h_data h" by (simp_all add: h1)
    have le: "c + 12 + n \<le> hm_next (h_mem h1 c)" "hm_next (h_mem h1 c) < c + 12 + n + 24"
      using f(2) False cb by (simp_all add: h1)
    show ?thesis
      by (rule exI [of _ ys], intro conjI) (rule ti co st us ke re le)+
  qed
qed

text \<open>The number of bytes a request reserves.\<close>

definition malloc_bytes :: "u32 \<Rightarrow> nat" where
  "malloc_bytes sz = max 12 (unat (RT_ALIGN4 sz))"

lemma malloc_bytes: "4 dvd malloc_bytes sz" "12 \<le> malloc_bytes sz"
proof -
  have "4 dvd unat (RT_ALIGN4 sz)"
    using align_up(3) [of sz] align_overflow [of sz] by (cases "unat sz \<le> 4294967292") simp_all
  then show "4 dvd malloc_bytes sz" by (simp add: malloc_bytes_def max_def)
qed (simp add: malloc_bytes_def)

text \<open>The free blocks that a search from \<open>lfree\<close> can find; it stops short of the last ones.\<close>

definition searched :: "heap \<Rightarrow> nat \<Rightarrow> nat set" where
  "searched h n = {c \<in> set (heap_chain h). \<not> hm_used (h_mem h c) \<and> h_lfree h \<le> c \<and> c < h_size h - n
     \<and> n \<le> hm_next (h_mem h c) - (c + 12)}"

lemma lfree_rest:
  assumes "heap_inv h cs"
  obtains ys pr where "chained (h_mem h) pr (h_lfree h) ys (heap_end h)" "set ys = {c \<in> set cs. h_lfree h \<le> c}"
proof (cases "h_lfree h = heap_end h")
  case True
  have "\<not> heap_end h \<le> c" if "c \<in> set cs" for c using tiled_bounds(4) [of h cs c] that assms by (simp add: heap_inv_def)
  then show ?thesis using True that [of 0 "[]"] by simp
next
  case False
  then have "h_lfree h \<in> set cs" using assms by (simp add: heap_inv_def starts_free_def)
  then obtain xs ys where c: "cs = xs @ h_lfree h # ys" by (meson split_list)
  have t: "tiled h (xs @ h_lfree h # ys)" using assms c by (simp add: heap_inv_def)
  then have x: "chained (h_mem h) 0 0 xs (h_lfree h)" unfolding tiled_def chained_append by auto
  have "\<forall>d\<in>set xs. d < h_lfree h" using chained_bounds [OF x] by fastforce
  moreover have "\<forall>d\<in>set ys. h_lfree h \<le> d" using chained_bounds [OF tiled_at(3) [OF t]] by simp
  ultimately have "set (h_lfree h # ys) = {d \<in> set cs. h_lfree h \<le> d}" unfolding c by fastforce
  then show ?thesis using that [OF tiled_at(3) [OF t]] by blast
qed

lemma malloc_search_ok:
  assumes "heap_inv h cs" "n \<le> h_size h"
  shows "\<exists>r. malloc_search (sub32 (h_size h) n) n h (h_lfree h) = Some r \<and>
     (case r of None \<Rightarrow> searched h n = {} | Some c \<Rightarrow> c \<in> searched h n)"
proof -
  obtain ys pr where y: "chained (h_mem h) pr (h_lfree h) ys (heap_end h)" "set ys = {c \<in> set cs. h_lfree h \<le> c}"
    using lfree_rest [OF assms(1)] by blast
  have e: "heap_end h < 2 ^ 32" using assms(1) by (simp add: heap_inv_def tiled_def)
  then have l: "sub32 (h_size h) n = h_size h - n" using assms(2) by (intro sub32_le) (simp_all add: heap_end_def)
  have "h_size h - n \<le> heap_end h" by (simp add: heap_end_def)
  from malloc_search_chain [OF y(1) this e, of n] show ?thesis
    unfolding l searched_def heap_inv_chain [OF assms(1)] y(2)
    by (fastforce split: option.splits)
qed

lemma heap_live_image:
  "heap_inv h cs \<Longrightarrow> heap_live h = (\<lambda>c. c + 12) ` {c \<in> set cs. hm_used (h_mem h c)}"
  using heap_inv_chain by (auto simp: heap_live_def)

lemma heap_region_at [simp]: "heap_region h (c + 12) = {c + 12..<hm_next (h_mem h c)}"
  by (simp add: heap_region_def)

lemma same_used_live:
  assumes "same_used h cs h' cs'" "heap_inv h' cs'"
  shows "heap_live h' = (\<lambda>c. c + 12) ` {c \<in> set cs. hm_used (h_mem h c)}"
  using assms heap_live_image [OF assms(2)] by (simp add: same_used_def)

text \<open>Every block starts behind the header in front of it, and ends before the next header.\<close>

lemma heap_inside:
  assumes "heap_ok h" "d \<in> heap_live h"
  shows "{d - 12..<d} \<union> heap_region h d \<subseteq> {0..<heap_end h}"
proof -
  have i: "heap_inv h (heap_chain h)" and t: "tiled h (heap_chain h)" using assms(1) by (simp_all add: heap_ok_def heap_inv_def)
  obtain c where c: "d = c + 12" "c \<in> set (heap_chain h)" using assms(2) heap_live_image [OF i] by auto
  show ?thesis using tiled_bounds(1,2) [OF t c(2)] unfolding c heap_region_at by auto
qed

lemma heap_apart:
  assumes "heap_ok h" "d \<in> heap_live h" "e \<in> heap_live h" "d \<noteq> e"
  shows "({d - 12..<d} \<union> heap_region h d) \<inter> ({e - 12..<e} \<union> heap_region h e) = {}"
proof -
  let ?cs = "heap_chain h"
  have i: "heap_inv h ?cs" and t: "tiled h ?cs" using assms(1) by (simp_all add: heap_ok_def heap_inv_def)
  obtain c where c: "d = c + 12" "c \<in> set ?cs" using assms(2) heap_live_image [OF i] by auto
  obtain f where f: "e = f + 12" "f \<in> set ?cs" using assms(3) heap_live_image [OF i] by auto
  have so: "sorted_wrt (\<lambda>c d. hm_next (h_mem h c) \<le> d) ?cs"
    using chained_sorted t unfolding tiled_def by blast
  have "hm_next (h_mem h c) \<le> f \<or> hm_next (h_mem h f) \<le> c"
    using so c(2) f(2) assms(4) c(1) f(1) by (auto simp: sorted_wrt_iff_nth_less in_set_conv_nth) (metis nat_neq_iff)
  then show ?thesis
    using tiled_bounds(1) [OF t c(2)] tiled_bounds(1) [OF t f(2)] unfolding c f heap_region_at by auto
qed

lemma rt_malloc_ok:
  assumes h: "heap_ok h"
  shows "\<exists>x h'. rt_malloc sz h = Some (x, h') \<and> heap_ok h' \<and> h_size h' = h_size h \<and> h_data h' = h_data h \<and>
    (case x of
       None \<Rightarrow> h' = h \<and> (sz = 0 \<or> h_size h < malloc_bytes sz \<or> searched h (malloc_bytes sz) = {})
     | Some d \<Rightarrow> 12 \<le> d \<and> d - 12 \<in> searched h (malloc_bytes sz) \<and> 4 dvd d \<and> d \<notin> heap_live h
         \<and> heap_live h' = insert d (heap_live h) \<and> (\<forall>e\<in>heap_live h. heap_region h' e = heap_region h e)
         \<and> malloc_bytes sz \<le> card (heap_region h' d) \<and> card (heap_region h' d) < malloc_bytes sz + 24)"
proof -
  let ?n = "unat (RT_ALIGN4 sz)" and ?m = "malloc_bytes sz"
  have sz: "12 \<le> h_size h" and i: "heap_inv h (heap_chain h)" using h by (simp_all add: heap_ok_def)
  have m: "(if ?n < 12 then 12 else ?n) = ?m" by (simp add: malloc_bytes_def)
  consider "sz = 0" | "sz \<noteq> 0" "h_size h < ?n" | "sz \<noteq> 0" "?n \<le> h_size h" by linarith
  then show ?thesis
  proof cases
    case 1
    then show ?thesis using h by (simp add: rt_malloc_def)
  next
    case 2
    then show ?thesis using h by (auto simp: rt_malloc_def malloc_bytes_def)
  next
    case 3
    then have le: "?m \<le> h_size h" using sz by (simp add: malloc_bytes_def)
    obtain r where r: "malloc_search (sub32 (h_size h) ?m) ?m h (h_lfree h) = Some r"
      "case r of None \<Rightarrow> searched h ?m = {} | Some c \<Rightarrow> c \<in> searched h ?m"
      using malloc_search_ok [OF i le] by blast
    show ?thesis
    proof (cases r)
      case None
      then show ?thesis using r 3 h by (simp add: rt_malloc_def m Let_def)
    next
      case (Some c)
      then have c: "c \<in> searched h ?m" using r(2) by simp
      then obtain xs ys where cs: "heap_chain h = xs @ c # ys" by (auto simp: searched_def dest: split_list)
      have f: "\<not> hm_used (h_mem h c)" "?m \<le> hm_next (h_mem h c) - (c + 12)" using c by (simp_all add: searched_def)
      have t: "tiled h (xs @ c # ys)" "coalesced h (xs @ c # ys)" "starts_free h (xs @ c # ys)"
        using i cs by (simp_all add: heap_inv_def)
      note b = tiled_bounds [OF t(1), of c, simplified]
      define h1 where "h1 = malloc_take c ?m h"
      obtain zs where z: "tiled h1 (xs @ c # zs)" "coalesced h1 (xs @ c # zs)" "h_lfree h1 = h_lfree h"
        "h_lfree h \<noteq> c \<longrightarrow> starts_free h1 (xs @ c # zs)"
        "{d \<in> set (xs @ c # zs). hm_used (h_mem h1 d)} = insert c {d \<in> set (xs @ c # ys). hm_used (h_mem h d)}"
        "\<forall>d\<in>set (xs @ c # ys). d \<noteq> c \<longrightarrow> hm_next (h_mem h1 d) = hm_next (h_mem h d)"
        "h_size h1 = h_size h" "h_data h1 = h_data h"
        "c + 12 + ?m \<le> hm_next (h_mem h1 c)" "hm_next (h_mem h1 c) < c + 12 + ?m + 24"
        using malloc_take_ok [OF t f malloc_bytes] unfolding h1_def [symmetric] by blast
      obtain l where l: "next_free h1 c = Some l" "l = heap_end h1 \<or> l \<in> set (c # zs) \<and> \<not> hm_used (h_mem h1 l)"
        using next_free_chain [OF tiled_at(3) [OF z(1)]] by blast
      define h2 where "h2 = (if c = h_lfree h then h1\<lparr>h_lfree := l\<rparr> else h1)"
      have e: "h_mem h2 = h_mem h1" "heap_end h2 = heap_end h1" "h_size h2 = h_size h1" "h_data h2 = h_data h1"
        by (simp_all add: h2_def heap_end_def)
      have he: "heap_end h1 = heap_end h" using z(7) by (simp add: heap_end_def)
      have i2: "heap_inv h2 (xs @ c # zs)"
        using z(1-4) l(2) unfolding heap_inv_def tiled_def coalesced_def starts_free_def e by (auto simp: h2_def)
      have le2: "c + 12 + ?m \<le> heap_end h" using f(2) b by linarith
      have d4: "(c + 12) mod 4 = 0" "c mod 4 = 0" using b(3) by presburger+
      have run: "rt_malloc sz h = Some (Some (c + 12), h2)"
      proof (cases "h_lfree h = c")
        case True
        have "rt_malloc sz h = do {
            l \<leftarrow> next_free h1 c; must (l = heap_end h1 \<or> \<not> hm_used (h_mem h1 l));
            must (c + 12 + ?m \<le> heap_end h1); must ((c + 12) mod 4 = 0); must (c mod 4 = 0);
            Some (Some (c + 12), h1\<lparr>h_lfree := l\<rparr>) }"
          using 3 r(1) Some z(3) by (simp add: rt_malloc_def m Let_def h1_def [symmetric] True heap_end_def)
        then show ?thesis using l le2 d4 True he by (auto simp: h2_def must_def)
      next
        case False
        then have "rt_malloc sz h = do {
            must (c + 12 + ?m \<le> heap_end h1); must ((c + 12) mod 4 = 0); must (c mod 4 = 0);
            Some (Some (c + 12), h1) }"
          using 3 r(1) Some z(3) by (simp add: rt_malloc_def m Let_def h1_def [symmetric] heap_end_def)
        then show ?thesis using le2 d4 False he by (simp add: h2_def must_def)
      qed
      have lv: "heap_live h2 = insert (c + 12) (heap_live h)"
        using heap_live_image [OF i2] heap_live_image [OF i] z(5) unfolding cs e by auto
      moreover have "c + 12 \<notin> heap_live h" using f(1) heap_live_image [OF i] by auto
      moreover have "\<forall>x\<in>heap_live h. heap_region h2 x = heap_region h x"
        using heap_live_image [OF i] z(6) f(1) unfolding cs e by (auto simp: e)
      moreover have "card (heap_region h2 (c + 12)) = hm_next (h_mem h1 c) - (c + 12)" by (simp only: heap_region_at e card_atLeastLessThan)
      moreover have "heap_ok h2" using i2 heap_okI sz z(7) e by simp
      ultimately show ?thesis using run c b(3) z(7,8,9,10) e d4(1) by (auto simp: dvd_eq_mod_eq_0 simp del: heap_region_at)
    qed
  qed
qed

text \<open>Freeing returns the block to the free ones and merges it with the free neighbours.\<close>

lemma rt_free_ok:
  assumes h: "heap_ok h" and d: "d \<in> heap_live h"
  shows "\<exists>h'. rt_free (Some d) h = Some h' \<and> heap_ok h' \<and> h_size h' = h_size h \<and> h_data h' = h_data h
    \<and> heap_live h' = heap_live h - {d} \<and> (\<forall>e\<in>heap_live h'. heap_region h' e = heap_region h e)"
proof -
  have sz: "12 \<le> h_size h" and i: "heap_inv h (heap_chain h)" using h by (simp_all add: heap_ok_def)
  obtain c where c: "d = c + 12" "c \<in> set (heap_chain h)" "hm_used (h_mem h c)" using d heap_live_image [OF i] by auto
  then obtain xs ys where cs: "heap_chain h = xs @ c # ys" by (meson split_list)
  have t: "tiled h (xs @ c # ys)" "coalesced h (xs @ c # ys)" "starts_free h (xs @ c # ys)"
    using i cs by (simp_all add: heap_inv_def)
  note b = tiled_bounds [OF t(1), of c, simplified]
  have cx: "c \<notin> set xs" "c \<notin> set ys"
    using chained_distinct [of "h_mem h" 0 0 "xs @ c # ys"] t(1) by (auto simp: tiled_def)
  have mg: "hm_magic (h_mem h c) = HEAP_MAGIC" using t(1) c(3) by (simp add: tiled_def)
  have d4: "(c + 12) mod 4 = 0" using b(3) by presburger
  define h1 where "h1 = upd_hm c (\<lambda>m. m\<lparr>hm_used := False, hm_magic := 0\<rparr>) h"
  define h2 where "h2 = (if c < h_lfree h1 then h1\<lparr>h_lfree := c\<rparr> else h1)"
  have "h_lfree h1 = h_lfree h" by (simp add: h1_def)
  then have run: "rt_free (Some d) h = plug_holes c h2"
    using c d4 b mg by (simp add: rt_free_def must_def h1_def [symmetric] h2_def Let_def)
  have e: "h_mem h2 = h_mem h1" "heap_end h2 = heap_end h" "h_size h2 = h_size h" "h_data h2 = h_data h"
    by (simp_all add: h2_def h1_def) (simp_all add: heap_end_def upd_hm_def)
  have ch: "chained (h_mem h1) 0 0 (xs @ c # ys) (heap_end h) = chained (h_mem h) 0 0 (xs @ c # ys) (heap_end h)"
    by (rule chained_links) (simp add: h1_def)
  have ti: "tiled h2 (xs @ c # ys)" using t(1) ch cx b(4) unfolding tiled_def e by (auto simp: h1_def)
  have xy: "coalesced h xs" "coalesced h ys" using t(2) by (auto simp: coalesced_append coalesced_Cons)
  have "coalesced h2 xs" by (rule coalesced_used [OF _ xy(1)]) (use cx in \<open>auto simp: e h1_def\<close>)
  moreover have "coalesced h2 ys" by (rule coalesced_used [OF _ xy(2)]) (use cx in \<open>auto simp: e h1_def\<close>)
  moreover have "starts_free h2 (xs @ c # ys)" using t(3) unfolding starts_free_def e by (auto simp: h2_def h1_def)
  moreover have nu: "\<not> hm_used (h_mem h2 c)" by (simp add: e h1_def)
  ultimately obtain h' cs' where p: "plug_holes c h2 = Some h'" "heap_inv h' cs'" "same_used h2 (xs @ c # ys) h' cs'"
    using plug_holes_ok [OF ti] by blast
  have lv: "heap_live h' = heap_live h - {d}"
    using same_used_live [OF p(3,2)] heap_live_image [OF i] cx unfolding cs c(1) by (auto simp: e h1_def)
  moreover have "\<forall>x\<in>heap_live h'. heap_region h' x = heap_region h x"
    using p(3) same_used_live [OF p(3,2)] unfolding same_used_def by (auto simp: e h1_def split: if_splits)
  moreover have "h_size h' = h_size h" "h_data h' = h_data h" using p(3) by (simp_all add: same_used_def e)
  ultimately show ?thesis using run p(1) heap_okI [OF p(2)] sz by simp
qed

interpretation heap_blocks: allocator heap_ok heap_live heap_region rt_malloc "\<lambda>d. rt_free (Some d)"
proof
  fix h r
  assume "heap_ok h"
  from rt_malloc_ok [OF this, of r] show "\<exists>x s'. rt_malloc r h = Some (x, s') \<and> heap_ok s' \<and>
      (case x of None \<Rightarrow> heap_live s' = heap_live h | Some b \<Rightarrow> b \<notin> heap_live h \<and> heap_live s' = insert b (heap_live h)) \<and>
      (\<forall>c\<in>heap_live h. heap_region s' c = heap_region h c)"
    by (fastforce split: option.splits)
next
  fix h b
  assume "heap_ok h" "b \<in> heap_live h"
  from rt_free_ok [OF this] show "\<exists>s'. rt_free (Some b) h = Some s' \<and> heap_ok s' \<and> heap_live s' = heap_live h - {b} \<and>
      (\<forall>c\<in>heap_live s'. heap_region s' c = heap_region h c)" by blast
next
  fix h b c
  assume "heap_ok h" "b \<in> heap_live h" "c \<in> heap_live h" "b \<noteq> c"
  from heap_apart [OF this] show "heap_region h b \<inter> heap_region h c = {}" by blast
qed

section \<open>Reallocation, clearing, initialisation\<close>

lemma align_idem: "RT_ALIGN4 (RT_ALIGN4 x) = RT_ALIGN4 x"
proof (cases "unat x \<le> 4294967292")
  case True
  have d: "4 dvd unat (RT_ALIGN4 x)" by (rule align_up(3) [OF True])
  have "unat (RT_ALIGN4 x) < 4294967296" using unsigned_less [of "RT_ALIGN4 x"] by simp
  then have le: "unat (RT_ALIGN4 x) \<le> 4294967292" using d by presburger
  have "unat (RT_ALIGN4 (RT_ALIGN4 x)) = unat (RT_ALIGN4 x)" using align_up [OF le] d by presburger
  then show ?thesis by (simp add: word_unat_eq_iff)
next
  case False
  then show ?thesis using align_overflow [of x] align_overflow [of 0] by (simp add: RT_ALIGN4_def)
qed

lemma heap_copy_simps [simp]:
  "h_mem (heap_copy e d n h) = h_mem h" "heap_end (heap_copy e d n h) = heap_end h" "h_size (heap_copy e d n h) = h_size h"
  "h_lfree (heap_copy e d n h) = h_lfree h" "heap_chain (heap_copy e d n h) = heap_chain h"
  "heap_live (heap_copy e d n h) = heap_live h" "heap_region (heap_copy e d n h) = heap_region h"
  "heap_ok (heap_copy e d n h) = heap_ok h"
  by (simp_all add: heap_copy_def heap_end_def heap_chain_def heap_live_def heap_region_def fun_eq_iff
      heap_ok_def heap_inv_def tiled_def coalesced_def starts_free_def)

lemma heap_data_simps [simp]:
  "heap_chain (h\<lparr>h_data := f\<rparr>) = heap_chain h"
  "heap_live (h\<lparr>h_data := f\<rparr>) = heap_live h" "heap_region (h\<lparr>h_data := f\<rparr>) = heap_region h"
  "heap_ok (h\<lparr>h_data := f\<rparr>) = heap_ok h"
  by (simp_all add: heap_end_def heap_chain_def heap_live_def heap_region_def fun_eq_iff
      heap_ok_def heap_inv_def tiled_def coalesced_def starts_free_def)

text \<open>Shrinking in place: the tail becomes a free block.\<close>

lemma shrink_ok:
  assumes h: "heap_ok h" and c: "c \<in> set (heap_chain h)" "hm_used (h_mem h c)"
    and n: "c + 12 + n + 12 < hm_next (h_mem h c)" "4 dvd n"
  shows "\<exists>h'. plug_holes (c + 12 + n) (upd_hm (c + 12 + n) (\<lambda>m. m\<lparr>hm_magic := HEAP_MAGIC\<rparr>) (split_block c (c + 12 + n) h)) = Some h'
    \<and> heap_ok h' \<and> h_size h' = h_size h \<and> h_data h' = h_data h \<and> heap_live h' = heap_live h
    \<and> heap_region h' (c + 12) = {c + 12..<c + 12 + n}
    \<and> (\<forall>e\<in>heap_live h - {c + 12}. heap_region h' e = heap_region h e)"
proof -
  let ?b = "c + 12 + n"
  have sz: "12 \<le> h_size h" and i: "heap_inv h (heap_chain h)" using h by (simp_all add: heap_ok_def)
  obtain xs ys where cs: "heap_chain h = xs @ c # ys" using c(1) by (meson split_list)
  have t: "tiled h (xs @ c # ys)" "coalesced h (xs @ c # ys)" "starts_free h (xs @ c # ys)"
    using i cs by (simp_all add: heap_inv_def)
  have b: "c < ?b" "?b < hm_next (h_mem h c)" using n by auto
  define h0 where "h0 = split_block c ?b h"
  define h1 where "h1 = upd_hm ?b (\<lambda>m. m\<lparr>hm_magic := HEAP_MAGIC\<rparr>) h0"
  note m = split_block_mem [OF b, folded h0_def]
  note new = split_new [OF t(1) b, simplified]
  have z: "tiled h0 (xs @ c # ?b # ys)" using tiled_split [OF t(1) n] by (simp add: h0_def)
  have ch: "chained (h_mem h1) 0 0 (xs @ c # ?b # ys) (heap_end h0) = chained (h_mem h0) 0 0 (xs @ c # ?b # ys) (heap_end h0)"
    by (rule chained_links) (simp add: h1_def)
  have e: "heap_end h1 = heap_end h0" "heap_end h0 = heap_end h" "h_lfree h1 = h_lfree h" "h_size h1 = h_size h" "h_data h1 = h_data h"
    by (simp_all add: h1_def h0_def)
  have u: "hm_used (h_mem h1 d) = (d \<noteq> ?b \<and> hm_used (h_mem h d))" for d by (simp add: h1_def m)
  have ti: "tiled h1 ((xs @ [c]) @ ?b # ys)" using z ch m unfolding tiled_def e by (auto simp: h1_def)
  have xy: "coalesced h (xs @ [c])" "coalesced h ys" using t(2) by (auto simp: coalesced_append coalesced_Cons)
  have bn: "hm_used (h_mem h1 d) = hm_used (h_mem h d)" if "d \<in> set (xs @ c # ys)" for d
    using split_new(1) [OF t(1) b] that u [of d] by blast
  have "coalesced h1 (xs @ [c])" by (rule coalesced_used [OF _ xy(1)]) (use bn in auto)
  moreover have "coalesced h1 ys" by (rule coalesced_used [OF _ xy(2)]) (use bn in auto)
  ultimately have co: "coalesced h1 (xs @ [c])" "coalesced h1 ys" .
  have "h_lfree h \<in> set (xs @ c # ys) \<longrightarrow> \<not> hm_used (h_mem h (h_lfree h)) \<longrightarrow> \<not> hm_used (h_mem h1 (h_lfree h))"
    unfolding u by blast
  then have st: "starts_free h1 ((xs @ [c]) @ ?b # ys)" using t(3) unfolding starts_free_def e by simp blast
  have "\<not> hm_used (h_mem h1 ?b)" by (simp add: u)
  from plug_holes_ok [OF ti st co this] obtain h' cs' where
    p: "plug_holes ?b h1 = Some h'" "heap_inv h' cs'" "same_used h1 ((xs @ [c]) @ ?b # ys) h' cs'" by blast
  have us: "{d \<in> set ((xs @ [c]) @ ?b # ys). hm_used (h_mem h1 d)} = {d \<in> set (xs @ c # ys). hm_used (h_mem h d)}"
    unfolding u using new by auto
  have lv: "heap_live h' = heap_live h"
    unfolding same_used_live [OF p(3,2)] us heap_live_image [OF i] cs ..
  have nx: "hm_next (h_mem h' d) = (if d = c then ?b else hm_next (h_mem h d))" if "d \<in> set (xs @ c # ys)" "hm_used (h_mem h d)" for d
  proof -
    have "d \<noteq> ?b" using that(1) new by auto
    then have "hm_next (h_mem h' d) = hm_next (h_mem h1 d)" using p(3) that u unfolding same_used_def by auto
    then show ?thesis using \<open>d \<noteq> ?b\<close> by (simp add: h1_def m)
  qed
  have "heap_region h' (c + 12) = {c + 12..<?b}" using nx [of c] c(2) by simp
  moreover have "\<forall>e\<in>heap_live h - {c + 12}. heap_region h' e = heap_region h e"
    using nx unfolding heap_live_image [OF i] cs by auto
  moreover have "h_size h' = h_size h" "h_data h' = h_data h" using p(3) by (simp_all add: same_used_def e)
  ultimately show ?thesis using p(1) lv heap_okI [OF p(2)] sz by (simp add: h1_def h0_def)
qed

definition heap_len :: "heap \<Rightarrow> nat \<Rightarrow> nat" where
  "heap_len h d = card (heap_region h d)"

lemma heap_region_len:
  assumes "heap_ok h" "d \<in> heap_live h"
  shows "heap_region h d = {d..<d + heap_len h d}"
proof -
  have i: "heap_inv h (heap_chain h)" and t: "tiled h (heap_chain h)" using assms(1) by (simp_all add: heap_ok_def heap_inv_def)
  obtain c where c: "d = c + 12" "c \<in> set (heap_chain h)" using assms(2) heap_live_image [OF i] by auto
  show ?thesis using tiled_bounds(1) [OF t c(2)] by (simp add: heap_len_def c(1))
qed

lemma rt_realloc_ok:
  fixes ns :: u32
  assumes h: "heap_ok h" and d: "d \<in> heap_live h"
  defines "n \<equiv> unat (RT_ALIGN4 ns)"
  shows "\<exists>x h'. rt_realloc (Some d) ns h = Some (x, h') \<and> heap_ok h' \<and> h_size h' = h_size h \<and>
    (case x of None \<Rightarrow> h' = h
     | Some e \<Rightarrow> (e = d \<or> e \<notin> heap_live h) \<and> heap_live h' = insert e (heap_live h - {d}) \<and> n \<le> heap_len h' e
        \<and> (\<forall>i<min (heap_len h d) n. h_data h' (e + i) = h_data h (d + i))
        \<and> (\<forall>f\<in>heap_live h - {d}. heap_region h' f = heap_region h f \<and> (\<forall>a\<in>heap_region h f. h_data h' a = h_data h a)))"
proof -
  have sz: "12 \<le> h_size h" and i: "heap_inv h (heap_chain h)" and t: "tiled h (heap_chain h)" using h by (simp_all add: heap_ok_def heap_inv_def)
  obtain c where c: "d = c + 12" "c \<in> set (heap_chain h)" "hm_used (h_mem h c)" using d heap_live_image [OF i] by auto
  note b = tiled_bounds [OF t c(2)]
  have len: "heap_len h d = hm_next (h_mem h c) - c - 12" by (simp add: heap_len_def c(1))
  have s: "sub32 (sub32 (hm_next (h_mem h c)) c) 12 = heap_len h d"
    using b by (simp add: sub32_le len)
  have n4: "4 dvd n" unfolding n_def using align_up(3) [of ns] align_overflow [of ns] by (cases "unat ns \<le> 4294967292") simp_all
  have dc: "d - 12 = c" "12 \<le> d" "\<not> heap_end h \<le> d" using b c(1) by simp_all
  note run = rt_realloc_def Let_def n_def [symmetric] dc s must_def
  consider "h_size h < n" | "n \<le> h_size h" "heap_len h d = n" | "n \<le> h_size h" "heap_len h d \<noteq> n" "n + 12 + 12 < heap_len h d"
    | "n \<le> h_size h" "heap_len h d \<noteq> n" "\<not> n + 12 + 12 < heap_len h d" by linarith
  then show ?thesis
  proof cases
    case 1
    then show ?thesis using h by (simp add: rt_realloc_def n_def Let_def)
  next
    case 2
    then have "rt_realloc (Some d) ns h = Some (Some d, h)" by (simp add: run)
    then show ?thesis using 2 h d by (auto simp: insert_absorb)
  next
    case 3
    have "c + 12 + n + 12 < hm_next (h_mem h c)" using 3(3) len by simp
    from shrink_ok [OF h c(2,3) this n4] obtain h' where
      "plug_holes (c + 12 + n) (upd_hm (c + 12 + n) (\<lambda>m. m\<lparr>hm_magic := HEAP_MAGIC\<rparr>) (split_block c (c + 12 + n) h)) = Some h'"
      and p: "heap_ok h'" "h_size h' = h_size h" "h_data h' = h_data h" "heap_live h' = heap_live h"
        "heap_region h' (c + 12) = {c + 12..<c + 12 + n}"
        "\<forall>e\<in>heap_live h - {c + 12}. heap_region h' e = heap_region h e" by blast
    then have r: "rt_realloc (Some d) ns h = Some (Some d, h')" using 3 by (simp add: run)
    have "n \<le> heap_len h' d" using p(5) c(1) by (simp add: heap_len_def del: heap_region_at)
    then show ?thesis using r p c(1) d by (auto simp: insert_absorb)
  next
    case 4
    obtain x h1 where m: "rt_malloc (RT_ALIGN4 ns) h = Some (x, h1)" "heap_ok h1" "h_size h1 = h_size h" "h_data h1 = h_data h"
      "case x of None \<Rightarrow> h1 = h | Some e \<Rightarrow> e \<notin> heap_live h \<and> heap_live h1 = insert e (heap_live h)
         \<and> (\<forall>e\<in>heap_live h. heap_region h1 e = heap_region h e) \<and> malloc_bytes (RT_ALIGN4 ns) \<le> card (heap_region h1 e)"
      using rt_malloc_ok [OF h, of "RT_ALIGN4 ns"] by (fastforce split: option.splits)
    show ?thesis
    proof (cases x)
      case None
      then have "rt_realloc (Some d) ns h = Some (None, h)" using 4 m by (simp add: run)
      then show ?thesis using h by simp
    next
      case (Some e)
      define k where "k = (if heap_len h d < n then heap_len h d else n)"
      have mk: "min (heap_len h d) n = k" by (simp add: k_def)
      define h2 where "h2 = heap_copy e d k h1"
      have e: "e \<notin> heap_live h" "heap_live h1 = insert e (heap_live h)"
        "\<forall>f\<in>heap_live h. heap_region h1 f = heap_region h f" "malloc_bytes (RT_ALIGN4 ns) \<le> card (heap_region h1 e)"
        using m(5) Some by simp_all
      have nl: "n \<le> heap_len h1 e" using e(4) by (simp add: heap_len_def malloc_bytes_def align_idem n_def)
      have h2: "heap_ok h2" "d \<in> heap_live h2" using m(2) e(2) d by (simp_all add: h2_def)
      obtain h' where f: "rt_free (Some d) h2 = Some h'" "heap_ok h'" "h_size h' = h_size h2" "h_data h' = h_data h2"
         "heap_live h' = heap_live h2 - {d}" "\<forall>e\<in>heap_live h'. heap_region h' e = heap_region h2 e"
        using rt_free_ok [OF h2] by blast
      have r: "rt_realloc (Some d) ns h = Some (Some e, h')"
        using 4 m(1) Some f(1) unfolding h2_def by (cases "heap_len h d < n") (simp_all add: run k_def)
      have ed: "e \<noteq> d" using e(1) d by blast
      have lv: "heap_live h' = insert e (heap_live h - {d})" using f(5) e(2) ed by (auto simp: h2_def)
      have el: "e \<in> heap_live h1" "e \<in> heap_live h'" using e(2) lv by simp_all
      have er: "heap_region h1 e = {e..<e + heap_len h1 e}" by (rule heap_region_len [OF m(2) el(1)])
      have dat: "h_data h' a = (if e \<le> a \<and> a < e + k then h_data h (d + (a - e)) else h_data h a)" for a
        using f(4) m(4) by (simp add: h2_def heap_copy_def)
      have "heap_len h' e = heap_len h1 e" using f(6) el(2) by (simp add: heap_len_def h2_def)
      then have g1: "n \<le> heap_len h' e" using nl by simp
      have g2: "heap_region h' f = heap_region h f \<and> (\<forall>a\<in>heap_region h f. h_data h' a = h_data h a)"
        if "f \<in> heap_live h - {d}" for f
      proof -
        have fl: "f \<in> heap_live h1" "f \<in> heap_live h'" "f \<noteq> e" using that lv e(1,2) by auto
        have "heap_region h' f = heap_region h f" using f(6) fl(2) e(3) that by (simp add: h2_def)
        moreover have "heap_region h1 f \<inter> heap_region h1 e = {}" using heap_blocks.apart [OF m(2) fl(1) el(1) fl(3)] .
        moreover have "heap_region h1 f = heap_region h f" using e(3) that by blast
        moreover have "{e..<e + k} \<subseteq> heap_region h1 e" using nl unfolding er by (auto simp: k_def)
        ultimately show ?thesis using dat by fastforce
      qed
      have "h_size h' = h_size h" using f(3) m(3) by (simp add: h2_def)
      moreover have "\<forall>i<min (heap_len h d) n. h_data h' (e + i) = h_data h (d + i)" unfolding mk using dat by simp
      ultimately show ?thesis using r f(2) lv e(1) g1 g2 by auto
    qed
  qed
qed

text \<open>Clearing memory.\<close>

lemma rt_calloc_ok:
  assumes h: "heap_ok h"
  shows "\<exists>x h'. rt_calloc count sz h = Some (x, h') \<and> heap_ok h' \<and>
    (case x of None \<Rightarrow> h' = h
     | Some d \<Rightarrow> d \<notin> heap_live h \<and> heap_live h' = insert d (heap_live h)
        \<and> (\<forall>a\<in>{d..<d + unat (count * sz)}. h_data h' a = 0)
        \<and> (\<forall>f\<in>heap_live h. heap_region h' f = heap_region h f))"
proof -
  obtain x h1 where m: "rt_malloc (count * sz) h = Some (x, h1)" "heap_ok h1"
      "case x of None \<Rightarrow> h1 = h | Some e \<Rightarrow> e \<notin> heap_live h \<and> heap_live h1 = insert e (heap_live h)
         \<and> (\<forall>e\<in>heap_live h. heap_region h1 e = heap_region h e)"
    using rt_malloc_ok [OF h, of "count * sz"] by (fastforce split: option.splits)
  show ?thesis
  proof (cases x)
    case None
    then show ?thesis using m by (simp add: rt_calloc_def)
  next
    case (Some d)
    define h' where "h' = h1\<lparr>h_data := (\<lambda>a. if d \<le> a \<and> a < d + unat (count * sz) then 0 else h_data h1 a)\<rparr>"
    have "rt_calloc count sz h = Some (Some d, h')" using m(1) Some by (simp add: rt_calloc_def h'_def)
    then show ?thesis using m(2,3) Some by (simp add: h'_def)
  qed
qed

text \<open>Initialisation leaves one free block, provided at least 36 bytes lie between the rounded ends.\<close>

lemma rt_system_heap_init_ok:
  fixes a b :: u32 and h :: heap
  defines "ba \<equiv> unat (RT_ALIGN4 a)" and "ea \<equiv> unat (RT_ALIGN_DOWN4 b)"
  assumes room: "ba + 36 \<le> ea"
  defines "h' \<equiv> rt_system_heap_init a b h"
  shows "heap_ok h'" "heap_live h' = {}" "h_size h' = ea - ba - 24" "heap_end h' + 12 = ea - ba" "h_lfree h' = 0"
    "heap_chain h' = [0]"
proof -
  let ?e = "RT_ALIGN_DOWN4 b" and ?b = "RT_ALIGN4 a"
  have e: "ea < 2 ^ 32" unfolding ea_def using unsigned_less [of ?e] by simp
  have g: "24 < ?e" using room by (simp add: word_less_nat_alt ea_def)
  have s1: "unat (?e - 24) = ea - 24" using g by (simp add: unat_sub word_le_nat_alt word_less_nat_alt ea_def)
  have l: "?b \<le> ?e - 24" using room s1 by (simp add: word_le_nat_alt ba_def)
  have le: "?b \<le> ?e" using room by (simp add: word_le_nat_alt ba_def ea_def)
  have s2: "unat (?e - ?b) = ea - ba" using le by (simp add: unat_sub ea_def ba_def)
  have "24 \<le> ?e - ?b" using room s2 by (simp add: word_le_nat_alt)
  then have s3: "unat (?e - ?b - 24) = ea - ba - 24" using s2 by (simp add: unat_sub)
  define h0 where "h0 = h\<lparr>h_size := ea - ba - 24\<rparr>"
  define h1 where "h1 = upd_hm 0 (\<lambda>m. m\<lparr>hm_magic := HEAP_MAGIC, hm_next := heap_end h0, hm_prev := 0, hm_used := False\<rparr>) h0"
  have h': "h' = (upd_hm (heap_end h1) (\<lambda>m. m\<lparr>hm_magic := HEAP_MAGIC, hm_used := True, hm_next := heap_end h1,
                                             hm_prev := heap_end h1\<rparr>) h1)\<lparr>h_lfree := 0\<rparr>"
    using g l s3 by (simp add: h'_def rt_system_heap_init_def Let_def h1_def h0_def)
  have sz: "h_size h' = ea - ba - 24" by (simp add: h' h1_def h0_def)
  then show "h_size h' = ea - ba - 24" .
  have ee: "heap_end h' = ea - ba - 12" using room by (simp add: heap_end_def sz)
  then show "heap_end h' + 12 = ea - ba" using room by simp
  have e0: "heap_end h0 = ea - ba - 12" "heap_end h1 = ea - ba - 12" using room by (simp_all add: heap_end_def h0_def h1_def)
  have m: "hm_next (h_mem h' 0) = ea - ba - 12" "hm_prev (h_mem h' 0) = 0" "\<not> hm_used (h_mem h' 0)"
    "hm_used (h_mem h' (ea - ba - 12))"
    using room e0 by (simp_all add: h' h1_def)
  show "h_lfree h' = 0" by (simp add: h')
  then have i: "heap_inv h' [0]"
    using room e m ee unfolding heap_inv_def tiled_def coalesced_def starts_free_def by auto
  show "heap_chain h' = [0]" by (rule heap_inv_chain [OF i])
  show "heap_ok h'" using heap_okI [OF i] sz room by simp
  show "heap_live h' = {}" using heap_live_image [OF i] m by auto
qed

end
