(* ===== verification/Rt_Memory.thy ===== *)
theory Rt_Memory
  imports Rt_Demo Rt_Mempool Rt_Heap
begin

text \<open>
  What the kernel's memory managers guarantee to the threads that use them, and where they do not.
\<close>

section \<open>The system heap\<close>

text \<open>C8: From the initialisation of the heap on, whatever sequence of allocations and releases a client makes,
  every call returns, the blocks the client holds lie inside the heap, no block overlaps another one or
  its header, and no two free blocks are neighbours.\<close>

theorem heap_history:
  assumes "unat (RT_ALIGN4 a) + 36 \<le> unat (RT_ALIGN_DOWN4 b)"
  shows "\<exists>held h'. heap_blocks.serve ops Map.empty (rt_system_heap_init a b h) = Some (held, h')
     \<and> dom held = heap_live h' \<and> coalesced h' (heap_chain h')
     \<and> (\<forall>d B. held d = Some B \<longrightarrow> B = {d..<d + heap_len h' d} \<and> {d - 12..<d} \<union> B \<subseteq> {0..<heap_end h'})
     \<and> (\<forall>d e B C. held d = Some B \<longrightarrow> held e = Some C \<longrightarrow> d \<noteq> e \<longrightarrow> ({d - 12..<d} \<union> B) \<inter> ({e - 12..<e} \<union> C) = {})"
proof -
  let ?h = "rt_system_heap_init a b h"
  have "heap_blocks.agrees Map.empty ?h"
    using rt_system_heap_init_ok [OF assms] by (simp add: heap_blocks.agrees_def)
  from heap_blocks.serve_agrees [OF this] obtain held h' where
    s: "heap_blocks.serve ops Map.empty ?h = Some (held, h')" and ag: "heap_blocks.agrees held h'" by blast
  have ok: "heap_ok h'" and dom: "dom held = heap_live h'" using ag by (simp_all add: heap_blocks.agrees_def)
  note at = heap_blocks.agrees_at [OF ag]
  have r1: "B = {d..<d + heap_len h' d}" "{d - 12..<d} \<union> B \<subseteq> {0..<heap_end h'}" if "held d = Some B" for d B
    unfolding at(2) [OF that] by (intro heap_region_len [OF ok at(1) [OF that]] heap_inside [OF ok at(1) [OF that]])+
  have r2: "({d - 12..<d} \<union> B) \<inter> ({e - 12..<e} \<union> C) = {}" if "held d = Some B" "held e = Some C" "d \<noteq> e" for d e B C
    unfolding at(2) [OF that(1)] at(2) [OF that(2)] by (rule heap_apart [OF ok at(1) [OF that(1)] at(1) [OF that(2)] that(3)])
  have r3: "coalesced h' (heap_chain h')" using ok by (simp add: heap_ok_def heap_inv_def)
  show ?thesis
    by (intro exI [of _ held] exI [of _ h'] conjI s dom r3 allI impI) (erule r1 r2 | assumption)+
qed

text \<open>The 4096 bytes from 0x20000000 on.\<close>

definition demo_memory :: heap where
  "demo_memory = \<lparr>h_size = 0, h_mem = (\<lambda>_. \<lparr>hm_magic = 0, hm_used = False, hm_next = 0, hm_prev = 0\<rparr>), h_lfree = 0, h_data = (\<lambda>_. 0)\<rparr>"

definition demo_heap :: heap where
  "demo_heap = rt_system_heap_init 0x20000000 0x20001000 demo_memory"

lemma demo_bounds: "unat (RT_ALIGN4 0x20000000) + 36 \<le> unat (RT_ALIGN_DOWN4 0x20001000)"
  by (simp add: RT_ALIGN4_def RT_ALIGN_DOWN4_def)

theorem heap_history_witness:
  "\<exists>held h'. heap_blocks.serve [Allocate 10, Allocate 20, Release 12, Allocate 5] Map.empty demo_heap = Some (held, h')
     \<and> dom held = heap_live h' \<and> coalesced h' (heap_chain h')"
  using heap_history [OF demo_bounds, of "[Allocate 10, Allocate 20, Release 12, Allocate 5]" demo_memory, folded demo_heap_def]
  by (elim exE conjE, intro exI conjI)

text \<open>A fresh heap grants a request exactly when the reserved size is smaller than the memory there is: a
  request for all of it is refused, although the free block is as large as the request.\<close>

theorem fresh_heap_alloc:
  assumes "unat (RT_ALIGN4 a) + 36 \<le> unat (RT_ALIGN_DOWN4 b)"
  shows "\<exists>h'. rt_malloc sz (rt_system_heap_init a b h)
     = Some (if sz = 0 \<or> h_size (rt_system_heap_init a b h) \<le> malloc_bytes sz then None else Some 12, h')"
proof -
  let ?h = "rt_system_heap_init a b h"
  note i = rt_system_heap_init_ok [OF assms, of h]
  obtain x h' where m: "rt_malloc sz ?h = Some (x, h')" and
    c: "case x of None \<Rightarrow> h' = ?h \<and> (sz = 0 \<or> h_size ?h < malloc_bytes sz \<or> searched ?h (malloc_bytes sz) = {})
        | Some d \<Rightarrow> 12 \<le> d \<and> d - 12 \<in> searched ?h (malloc_bytes sz)"
    using rt_malloc_ok [OF i(1), of sz] by (fastforce split: option.splits)
  have free: "\<not> hm_used (h_mem ?h 0)" using i(2,6) by (auto simp: heap_live_def)
  have ends: "hm_next (h_mem ?h 0) = h_size ?h + 12"
    using i(1,6) by (simp add: heap_ok_def heap_inv_def tiled_def heap_end_def)
  have s: "searched ?h (malloc_bytes sz) = (if malloc_bytes sz < h_size ?h then {0} else {})"
    using free ends by (auto simp: searched_def i(5,6))
  show ?thesis
  proof (cases x)
    case None
    then show ?thesis using m c s by (auto split: if_splits)
  next
    case (Some d)
    then have d: "d = 12" "malloc_bytes sz < h_size ?h" using c s by (auto split: if_splits)
    have "sz \<noteq> 0" using m Some by (auto simp: rt_malloc_def)
    then show ?thesis using m Some d by auto
  qed
qed

lemma demo_heap_size: "h_size demo_heap = 4072"
  unfolding demo_heap_def rt_system_heap_init_ok(3) [OF demo_bounds] by (simp add: RT_ALIGN4_def RT_ALIGN_DOWN4_def)

theorem fresh_heap_alloc_witness:
  "(\<exists>h'. rt_malloc 4072 demo_heap = Some (None, h')) \<and> (\<exists>h'. rt_malloc 4064 demo_heap = Some (Some 12, h'))"
proof -
  have "malloc_bytes 4072 = 4072" "malloc_bytes 4064 = 4064" by (simp_all add: malloc_bytes_def RT_ALIGN4_def)
  then show ?thesis
    using fresh_heap_alloc [OF demo_bounds, of 4072 demo_memory, folded demo_heap_def]
      fresh_heap_alloc [OF demo_bounds, of 4064 demo_memory, folded demo_heap_def]
    by (simp add: demo_heap_size)
qed

text \<open>A request so large that rounding it up to the word size leaves 32 bits is granted with a block of
  less than 36 bytes.\<close>

theorem huge_request_granted:
  assumes "unat (RT_ALIGN4 a) + 60 \<le> unat (RT_ALIGN_DOWN4 b)" "4294967292 < unat sz"
  shows "\<exists>d h'. rt_malloc sz (rt_system_heap_init a b h) = Some (Some d, h') \<and> heap_len h' d < 36"
proof -
  have room: "unat (RT_ALIGN4 a) + 36 \<le> unat (RT_ALIGN_DOWN4 b)" using assms(1) by simp
  let ?h = "rt_system_heap_init a b h"
  note i = rt_system_heap_init_ok [OF room, of h]
  have z: "malloc_bytes sz = 12" using align_overflow [OF assms(2)] by (simp add: malloc_bytes_def)
  have free: "\<not> hm_used (h_mem ?h 0)" using i(2,6) by (auto simp: heap_live_def)
  have ends: "hm_next (h_mem ?h 0) = h_size ?h + 12"
    using i(1,6) by (simp add: heap_ok_def heap_inv_def tiled_def heap_end_def)
  have "searched ?h 12 = {0}" using free ends assms(1) by (auto simp: searched_def i(3,5,6))
  moreover have "sz \<noteq> 0" using assms(2) by auto
  moreover have "\<not> h_size ?h < 12" using assms(1) i(3) by simp
  ultimately show ?thesis using rt_malloc_ok [OF i(1), of sz] unfolding z heap_len_def
    by (fastforce split: option.splits)
qed

theorem huge_request_granted_witness:
  "\<exists>d h'. rt_malloc 0xFFFFFFFE demo_heap = Some (Some d, h') \<and> heap_len h' d < 36"
  using huge_request_granted [where a = "0x20000000" and b = "0x20001000" and sz = "0xFFFFFFFE" and h = demo_memory, folded demo_heap_def]
  by (simp add: RT_ALIGN4_def RT_ALIGN_DOWN4_def)

text \<open>C37: Changing the size of a block, on every branch: the call returns; either nothing has changed and there
  is no block, or the client holds one block in its place, in place or elsewhere, large enough, with the
  old contents up to the smaller of the two sizes; no other block moves and no byte of one changes.\<close>

theorem realloc_keeps_contents:
  fixes ns :: u32
  assumes "heap_ok h" "d \<in> heap_live h"
  shows "\<exists>x h'. rt_realloc (Some d) ns h = Some (x, h') \<and> heap_ok h' \<and>
    (case x of None \<Rightarrow> h' = h
     | Some e \<Rightarrow> (e = d \<or> e \<notin> heap_live h) \<and> heap_live h' = insert e (heap_live h - {d})
        \<and> unat (RT_ALIGN4 ns) \<le> heap_len h' e
        \<and> (\<forall>i<min (heap_len h d) (unat (RT_ALIGN4 ns)). h_data h' (e + i) = h_data h (d + i))
        \<and> (\<forall>f\<in>heap_live h - {d}. heap_region h' f = heap_region h f \<and> (\<forall>a\<in>heap_region h f. h_data h' a = h_data h a)))"
  using rt_realloc_ok [OF assms, of ns] by blast

lemma demo_heap_block: "\<exists>h. rt_malloc 100 demo_heap = Some (Some 12, h) \<and> heap_ok h \<and> heap_live h = {12}"
proof -
  note i = rt_system_heap_init_ok [OF demo_bounds, of demo_memory, folded demo_heap_def]
  have m: "malloc_bytes 100 = 100" by (simp add: malloc_bytes_def RT_ALIGN4_def)
  have free: "\<not> hm_used (h_mem demo_heap 0)" using i(2,6) by (auto simp: heap_live_def)
  have ends: "hm_next (h_mem demo_heap 0) = 4084"
    using i(1,6) by (simp add: heap_ok_def heap_inv_def tiled_def heap_end_def demo_heap_size)
  have s: "searched demo_heap 100 = {0}" using free ends by (auto simp: searched_def i(5,6) demo_heap_size)
  from rt_malloc_ok [OF i(1), of 100] show ?thesis unfolding m s i(2) demo_heap_size
    by (fastforce split: option.splits)
qed

theorem realloc_keeps_contents_witness:
  "\<exists>h x h'. heap_live h = {12} \<and> rt_realloc (Some 12) 200 h = Some (x, h') \<and> heap_ok h'"
proof -
  obtain h where "heap_ok h" "heap_live h = {12}" using demo_heap_block by blast
  with realloc_keeps_contents [of h 12 200] show ?thesis by blast
qed

section \<open>Memory pools\<close>

text \<open>C12: From the initialisation of a pool on, whatever sequence of allocations and releases its clients make,
  the calls return, no block is handed out while somebody holds it, the blocks held do not overlap and
  lie inside the pool's memory, and each is as large as was asked for.\<close>

theorem pool_history:
  assumes "rt_mp_init m mem sz block_size k = Some (e, k')"
  shows "\<exists>held p. mp_blocks.serve m ops Map.empty (k_mp k' m) = Some (held, p) \<and> e = RT_EOK \<and> mp_ok m p
     \<and> dom held = {b. b < unat (p_total_count p) \<and> p_header p b = OwnedBy m}
     \<and> (\<forall>b B. held b = Some B \<longrightarrow> B = mp_region p b \<and> B \<subseteq> {0..<unat (p_total_count p) * (unat (p_block_size p) + 4)}
            \<and> card B = unat (p_block_size p))
     \<and> (\<forall>b c B C. held b = Some B \<longrightarrow> held c = Some C \<longrightarrow> b \<noteq> c \<longrightarrow> B \<inter> C = {})"
proof -
  have "mp_blocks.agrees m Map.empty (k_mp k' m)"
    using mp_init_ok [OF assms] by (simp add: mp_blocks.agrees_def)
  from mp_blocks.serve_agrees [OF this] obtain held p where
    s: "mp_blocks.serve m ops Map.empty (k_mp k' m) = Some (held, p)" and ag: "mp_blocks.agrees m held p" by blast
  have ok: "mp_ok m p" and dom: "dom held = mp_live m p" using ag by (simp_all add: mp_blocks.agrees_def)
  note at = mp_blocks.agrees_at [OF ag]
  let ?s = "unat (p_block_size p) + 4"
  have r1: "B \<subseteq> {0..<unat (p_total_count p) * ?s}" "card B = unat (p_block_size p)" if "held b = Some B" for b B
  proof -
    have "b < unat (p_total_count p)" using at(1) [OF that] by (simp add: mp_live_def)
    then have "(b + 1) * ?s \<le> unat (p_total_count p) * ?s" by (intro mult_le_mono1) simp
    then show "B \<subseteq> {0..<unat (p_total_count p) * ?s}" unfolding at(2) [OF that] mp_region_def Let_def by auto
    have "(b + 1) * ?s - (b * ?s + 4) = unat (p_block_size p)" by simp
    then show "card B = unat (p_block_size p)" unfolding at(2) [OF that] mp_region_def Let_def by (simp only: card_atLeastLessThan)
  qed
  have e: "e = RT_EOK" by (rule mp_init_ok(3) [OF assms])
  have r3: "dom held = {b. b < unat (p_total_count p) \<and> p_header p b = OwnedBy m}" using dom by (simp add: mp_live_def)
  show ?thesis
    by (intro exI [of _ held] exI [of _ p] conjI s e ok r3 allI impI)
      (erule at(2) r1 | erule (2) mp_blocks.served_apart [OF ag])+
qed

theorem pool_history_witness:
  "\<exists>k held p. rt_mp_init 0 (\<lambda>_. OwnedBy 9) 24 8 (demo (WSem 0)) = Some (RT_EOK, k)
     \<and> mp_blocks.serve 0 [Allocate (), Allocate (), Allocate (), Release 1] Map.empty (k_mp k 0) = Some (held, p) \<and> mp_ok 0 p"
proof -
  have "RT_ALIGN_DOWN4 24 = 24" "RT_ALIGN4 8 = 8" by (simp_all add: RT_ALIGN_DOWN4_def RT_ALIGN4_def)
  then obtain k where k: "rt_mp_init 0 (\<lambda>_. OwnedBy 9) 24 8 (demo (WSem 0)) = Some (RT_EOK, k)"
    by (simp add: rt_mp_init_def Let_def)
  from pool_history [OF k, of "[Allocate (), Allocate (), Allocate (), Release 1]"] show ?thesis
    by (elim exE conjE, intro exI conjI) (rule k | assumption)+
qed

text \<open>Allocating from a pool, on every branch: a free block is taken at once and was nobody's; with none
  left a caller that does not wait gets none, and another one becomes the first of the waiters, in front
  of all who came before it.\<close>

theorem pool_alloc_branches:
  assumes "calling t k" "mp_ok m (k_mp k m)" "time_ok time"
  shows "\<exists>r k'. rt_mp_alloc m time k = Some (r, k') \<and> thread_ok k' \<and>
     (if p_free_count (k_mp k m) \<noteq> 0
      then \<exists>b p. r = Return (Some b) \<and> k' = upd_mp m (\<lambda>_. p) k \<and> mp_ok m p \<and> b \<notin> mp_live m (k_mp k m)
             \<and> mp_live m p = insert b (mp_live m (k_mp k m))
      else if time = 0 then r = Return None \<and> k' = k
      else r = Blocked \<and> runs_highest k' \<and> t_stat (k_thread k' t) = SUSPEND
        \<and> k_wait k' = (k_wait k)(WMp m := t # k_wait k (WMp m))
        \<and> p_suspend_count (k_mp k' m) = p_suspend_count (k_mp k m) + 1)"
proof -
  have ok: "thread_ok k" by (rule callingD(1) [OF assms(1)])
  consider "p_free_count (k_mp k m) \<noteq> 0" | "p_free_count (k_mp k m) = 0" "time = 0" | "p_free_count (k_mp k m) = 0" "time \<noteq> 0" by blast
  then show ?thesis
  proof cases
    case 1
    obtain fs where inv: "mp_inv m (k_mp k m) fs" using assms(2) by (auto simp: mp_ok_def)
    then obtain b gs where fs: "fs = b # gs" using 1 by (cases fs) (auto simp: mp_inv_def unsigned_eq_0_iff)
    from mp_pop_inv [OF inv [unfolded fs]] obtain p where p: "mp_pop m (k_mp k m) = Some (b, p)" "mp_inv m p gs"
      "b \<notin> mp_live m (k_mp k m)" "mp_live m p = insert b (mp_live m (k_mp k m))" by blast
    then show ?thesis using 1 ok mp_okI [OF p(2)] by (intro exI [of _ "Return (Some b)"] exI [of _ "upd_mp m (\<lambda>_. p) k"]) (auto simp: rt_mp_alloc_def)
  next
    case 2
    then show ?thesis using ok by (simp add: rt_mp_alloc_def)
  next
    case 3
    from mp_alloc_waits [OF assms(1,3) 3(2,1)] 3 show ?thesis by fastforce
  qed
qed

lemma demo_pool_ok: "mp_ok 0 (k_mp (demo w) 0)"
  by (simp add: mp_ok_def mp_inv_def demo_def)

theorem pool_alloc_branches_witness:
  "\<exists>k'. rt_mp_alloc 0 4 (demo (WMp 0)) = Some (Blocked, k') \<and> k_wait k' (WMp 0) = [1, 2]"
  using pool_alloc_branches [OF demo_calling demo_pool_ok, of 4 "WMp 0"]
  by (auto simp: time_ok_def) (auto simp: demo_def)

text \<open>Releasing a block, on every branch: without waiters it goes back to the free blocks; with waiters
  the latest one becomes ready; when the pool counts waiters but nobody waits, what the code does
  is undefined.\<close>

theorem pool_free_branches:
  assumes "thread_ok k" "k_lock_nest k = 0" "mp_ok m (k_mp k m)" "b \<in> mp_live m (k_mp k m)"
  shows "if p_suspend_count (k_mp k m) = 0
     then rt_mp_free m b k = Some (upd_mp m (mp_push b) k) \<and> mp_ok m (mp_push b (k_mp k m))
        \<and> mp_live m (mp_push b (k_mp k m)) = mp_live m (k_mp k m) - {b}
     else (case k_wait k (WMp m) of
         [] \<Rightarrow> rt_mp_free m b k = None
       | u # us \<Rightarrow> \<exists>k'. rt_mp_free m b k = Some k' \<and> thread_ok k' \<and> runs_highest k' \<and> t_stat (k_thread k' u) = READY
           \<and> t_error (k_thread k' u) = RT_EOK \<and> k_wait k' = (k_wait k)(WMp m := us)
           \<and> p_suspend_count (k_mp k' m) = p_suspend_count (k_mp k m) - 1)"
proof -
  obtain fs where inv: "mp_inv m (k_mp k m) fs" using assms(3) by (auto simp: mp_ok_def)
  note p = mp_push_inv [OF inv assms(4)] mp_okI [OF mp_push_inv(1) [OF inv assms(4)]]
  have b: "p_header (k_mp k m) b = OwnedBy m" using assms(4) by (simp add: mp_live_def)
  have c: "p_suspend_count (mp_push b (k_mp k m)) = p_suspend_count (k_mp k m)" by (simp add: mp_push_def)
  show ?thesis
  proof (cases "p_suspend_count (k_mp k m) = 0")
    case True
    then show ?thesis using b c p(2,3) by (simp add: rt_mp_free_def)
  next
    case False
    show ?thesis
    proof (cases "k_wait k (WMp m)")
      case Nil
      then show ?thesis using False b c by (simp add: rt_mp_free_def word_gt_0)
    next
      case (Cons u us)
      then show ?thesis using mp_free_wakes [OF assms(1,2) b False Cons] False by auto
    qed
  qed
qed

text \<open>A pool with a single block, which is held.\<close>

definition demo_pool :: kernel where
  "demo_pool = upd_mp 0 (\<lambda>_. \<lparr>p_block_size = 8, p_total_count = 1, p_free_count = 0, p_block_list = None,
     p_header = (\<lambda>_. OwnedBy 0), p_suspend_count = 0\<rparr>) (demo (WSem 0))"

lemma demo_pool: "thread_ok demo_pool" "k_lock_nest demo_pool = 0" "mp_ok 0 (k_mp demo_pool 0)" "0 \<in> mp_live 0 (k_mp demo_pool 0)"
  "p_suspend_count (k_mp demo_pool 0) = 0"
  by (simp_all add: demo_pool_def demo_thread_ok mp_ok_def mp_inv_def mp_live_def)

theorem pool_free_branches_witness: "rt_mp_free 0 0 demo_pool = Some (upd_mp 0 (mp_push 0) demo_pool)"
  using pool_free_branches [OF demo_pool(1-4)] by (simp add: demo_pool(5))

text \<open>C40: A waiter whose time runs out leaves the list of waiters but stays counted, so that the next release of
  a block of that pool takes the list itself for a thread.\<close>

theorem pool_timeout_breaks_free:
  assumes "calling t k" "time_ok time" "time \<noteq> 0" "p_free_count (k_mp k m) = 0"
    "p_suspend_count (k_mp k m) = 0" "k_wait k (WMp m) = []"
  shows "\<exists>k1 k2. rt_mp_alloc m time k = Some (Blocked, k1) \<and> rt_thread_timeout t k1 = Some k2
     \<and> k_wait k2 (WMp m) = [] \<and> p_suspend_count (k_mp k2 m) = 1 \<and> (\<forall>b. rt_mp_free m b k2 = None)"
proof -
  from mp_alloc_waits [OF assms(1-4)] obtain k1 where k1: "rt_mp_alloc m time k = Some (Blocked, k1)" "thread_ok k1"
    "t_stat (k_thread k1 t) = SUSPEND" "k_wait k1 = (k_wait k)(WMp m := t # k_wait k (WMp m))"
    "k_mp k1 = (k_mp k)(m := (k_mp k m)\<lparr>p_suspend_count := p_suspend_count (k_mp k m) + 1\<rparr>)" by blast
  let ?w = "rt_schedule_insert_thread t (tlist_remove t (upd_thread t (\<lambda>th. th\<lparr>t_error := - RT_ETIMEOUT\<rparr>) k1))"
  have "t_stat (k_thread ?w t) = READY" by simp
  then obtain k2 where k2: "rt_schedule ?w = Some k2" using rt_schedule_returns timeout_wake [OF k1(2,3)] by blast
  then have to: "rt_thread_timeout t k1 = Some k2" using k1(3) by (simp add: rt_thread_timeout_def)
  have w: "k_wait k2 (WMp m) = []" using timeout_thread(2) [OF to] k1(4) assms(6) by simp
  have "k_mp k2 = k_mp k1" by (simp add: rt_schedule_frame [OF k2])
  then have c: "p_suspend_count (k_mp k2 m) = 1" using k1(5) assms(5) by simp
  have "rt_mp_free m b k2 = None" for b
    using w c by (simp add: rt_mp_free_def mp_push_def word_gt_0)
  then show ?thesis using k1(1) to w c by blast
qed

theorem pool_timeout_breaks_free_witness:
  "\<exists>k1 k2. rt_mp_alloc 0 4 (demo (WSem 0)) = Some (Blocked, k1) \<and> rt_thread_timeout 1 k1 = Some k2 \<and> rt_mp_free 0 0 k2 = None"
  using pool_timeout_breaks_free [OF demo_calling [of "WSem 0"], of 4 0] by (auto simp: time_ok_def) (auto simp: demo_def)

end
