(* ===== verification/Rt_Service.thy ===== *)
theory Rt_Service
  imports Vtdr_Prelude
begin

text \<open>
  The memory and string functions of the kernel (\<open>kservice.c\<close>), over a memory of bytes. Pointers are words
  and go round at the end of the memory as they do on the processor; words are stored little endian. A
  loop over a string ends at its zero byte only, so it is a partial function.
\<close>

type_synonym memory = "u32 \<Rightarrow> u8"

section \<open>Words in memory\<close>

definition store_word :: "memory \<Rightarrow> u32 \<Rightarrow> u32 \<Rightarrow> memory" where
  "store_word m a w = m(a := ucast w, a + 1 := ucast (drop_bit 8 w), a + 2 := ucast (drop_bit 16 w), a + 3 := ucast (drop_bit 24 w))"

definition load_word :: "memory \<Rightarrow> u32 \<Rightarrow> u32" where
  "load_word m a = ucast (m a) OR push_bit 8 (ucast (m (a + 1))) OR push_bit 16 (ucast (m (a + 2))) OR push_bit 24 (ucast (m (a + 3)))"

definition UNALIGNED :: "u32 \<Rightarrow> bool" where
  "UNALIGNED x \<longleftrightarrow> x AND 3 \<noteq> 0"

section \<open>Filling and copying\<close>

text \<open>The loops byte by byte.\<close>

primrec set_bytes :: "nat \<Rightarrow> u8 \<Rightarrow> u32 \<Rightarrow> memory \<Rightarrow> memory" where
  "set_bytes 0 d a m = m"
| "set_bytes (Suc n) d a m = set_bytes n d (a + 1) (m(a := d))"

primrec copy_bytes :: "nat \<Rightarrow> u32 \<Rightarrow> u32 \<Rightarrow> memory \<Rightarrow> memory" where
  "copy_bytes 0 d s m = m"
| "copy_bytes (Suc n) d s m = copy_bytes n (d + 1) (s + 1) (m(d := m s))"

text \<open>The loops word by word and four words by four; they give back what is left to do.\<close>

fun set_words :: "u32 \<Rightarrow> nat \<Rightarrow> u32 \<Rightarrow> memory \<Rightarrow> nat \<times> u32 \<times> memory" where
  "set_words w n a m = (if 4 \<le> n then set_words w (n - 4) (a + 4) (store_word m a w) else (n, a, m))"

fun set_blocks :: "u32 \<Rightarrow> nat \<Rightarrow> u32 \<Rightarrow> memory \<Rightarrow> nat \<times> u32 \<times> memory" where
  "set_blocks w n a m =
     (if 16 \<le> n
      then set_blocks w (n - 16) (a + 16) (store_word (store_word (store_word (store_word m a w) (a + 4) w) (a + 8) w) (a + 12) w)
      else (n, a, m))"

declare set_words.simps [simp del] set_blocks.simps [simp del]

definition rt_memset :: "u32 \<Rightarrow> u32 \<Rightarrow> u32 \<Rightarrow> memory \<Rightarrow> memory" where
  "rt_memset s c count m =
     (let d = c AND 0xff
      in if \<not> count < 4 \<and> \<not> UNALIGNED s
         then
           let buffer = push_bit 8 d OR d;
               buffer = buffer OR push_bit 16 buffer;
               (n, a, m) = set_blocks buffer (unat count) s m;
               (n, a, m) = set_words buffer n a m
           in set_bytes n (ucast d) a m
         else set_bytes (unat count) (ucast d) s m)"

definition copy_word :: "memory \<Rightarrow> u32 \<Rightarrow> u32 \<Rightarrow> memory" where
  "copy_word m d s = store_word m d (load_word m s)"

fun copy_words :: "nat \<Rightarrow> u32 \<Rightarrow> u32 \<Rightarrow> memory \<Rightarrow> nat \<times> u32 \<times> u32 \<times> memory" where
  "copy_words n d s m = (if 4 \<le> n then copy_words (n - 4) (d + 4) (s + 4) (copy_word m d s) else (n, d, s, m))"

fun copy_blocks :: "nat \<Rightarrow> u32 \<Rightarrow> u32 \<Rightarrow> memory \<Rightarrow> nat \<times> u32 \<times> u32 \<times> memory" where
  "copy_blocks n d s m =
     (if 16 \<le> n
      then copy_blocks (n - 16) (d + 16) (s + 16)
        (copy_word (copy_word (copy_word (copy_word m d s) (d + 4) (s + 4)) (d + 8) (s + 8)) (d + 12) (s + 12))
      else (n, d, s, m))"

declare copy_words.simps [simp del] copy_blocks.simps [simp del]

definition rt_memcpy :: "u32 \<Rightarrow> u32 \<Rightarrow> u32 \<Rightarrow> memory \<Rightarrow> memory" where
  "rt_memcpy dst src count m =
     (if \<not> count < 16 \<and> \<not> UNALIGNED src \<and> \<not> UNALIGNED dst
      then
        let (n, d, s, m) = copy_blocks (unat count) dst src m;
            (n, d, s, m) = copy_words n d s m
        in copy_bytes n d s m
      else copy_bytes (unat count) dst src m)"

primrec copy_down :: "nat \<Rightarrow> u32 \<Rightarrow> u32 \<Rightarrow> memory \<Rightarrow> memory" where
  "copy_down 0 d s m = m"
| "copy_down (Suc n) d s m = copy_down n (d - 1) (s - 1) (m(d - 1 := m (s - 1)))"

definition rt_memmove :: "u32 \<Rightarrow> u32 \<Rightarrow> u32 \<Rightarrow> memory \<Rightarrow> memory" where
  "rt_memmove dest src n m =
     (if src < dest \<and> dest < src + n then copy_down (unat n) (dest + n) (src + n) m else copy_bytes (unat n) dest src m)"

section \<open>Strings\<close>

primrec rt_memcmp :: "memory \<Rightarrow> u32 \<Rightarrow> u32 \<Rightarrow> nat \<Rightarrow> int" where
  "rt_memcmp m cs ct 0 = 0"
| "rt_memcmp m cs ct (Suc n) =
     (let res = uint (m cs) - uint (m ct) in if res \<noteq> 0 then res else rt_memcmp m (cs + 1) (ct + 1) n)"

partial_function (option) string_end :: "memory \<Rightarrow> u32 \<Rightarrow> u32 option" where
  "string_end m sc = (if m sc \<noteq> 0 then string_end m (sc + 1) else Some sc)"

definition rt_strlen :: "memory \<Rightarrow> u32 \<Rightarrow> u32 option" where
  "rt_strlen m s = map_option (\<lambda>sc. sc - s) (string_end m s)"

text \<open>The null pointer stands for not found. The strings are shorter than half the address space, so that their
  lengths are not negative in the \<open>int\<close> variables of the code.\<close>

fun strstr_loop :: "memory \<Rightarrow> u32 \<Rightarrow> u32 \<Rightarrow> nat \<Rightarrow> nat \<Rightarrow> u32" where
  "strstr_loop m s1 s2 0 l2 = 0"
| "strstr_loop m s1 s2 (Suc l1) l2 =
     (if l2 \<le> Suc l1 then (if rt_memcmp m s1 s2 l2 = 0 then s1 else strstr_loop m (s1 + 1) s2 l1 l2) else 0)"

definition rt_strstr :: "memory \<Rightarrow> u32 \<Rightarrow> u32 \<Rightarrow> u32 option" where
  "rt_strstr m s1 s2 =
     (case rt_strlen m s2 of None \<Rightarrow> None
      | Some l2 \<Rightarrow>
          (if l2 = 0 then Some s1
           else case rt_strlen m s1 of None \<Rightarrow> None | Some l1 \<Rightarrow> Some (strstr_loop m s1 s2 (unat l1) (unat l2))))"

definition lower :: "u8 \<Rightarrow> u8" where
  "lower c = (if 65 \<le> c \<and> c \<le> 90 then c + 32 else c)"

partial_function (option) rt_strcasecmp :: "memory \<Rightarrow> u32 \<Rightarrow> u32 \<Rightarrow> u32 option" where
  "rt_strcasecmp m a b =
     (let ca = lower (m a); cb = lower (m b)
      in if ca = cb \<and> ca \<noteq> 0 then rt_strcasecmp m (a + 1) (b + 1) else Some (ucast ca - ucast cb))"

fun strncpy_loop :: "nat \<Rightarrow> u32 \<Rightarrow> u32 \<Rightarrow> memory \<Rightarrow> memory" where
  "strncpy_loop 0 d s m = m"
| "strncpy_loop (Suc n) d s m =
     (let c = m s; m = m(d := c) in if c = 0 then set_bytes n 0 (d + 1) m else strncpy_loop n (d + 1) (s + 1) m)"

definition rt_strncpy :: "u32 \<Rightarrow> u32 \<Rightarrow> u32 \<Rightarrow> memory \<Rightarrow> memory" where
  "rt_strncpy dst src n m = strncpy_loop (unat n) dst src m"

text \<open>The difference is kept in a signed char and returned without its sign.\<close>

primrec rt_strncmp :: "memory \<Rightarrow> u32 \<Rightarrow> u32 \<Rightarrow> nat \<Rightarrow> u32" where
  "rt_strncmp m cs ct 0 = 0"
| "rt_strncmp m cs ct (Suc n) =
     (let res = scast (m cs - m ct) in if res \<noteq> 0 \<or> m cs = 0 then res else rt_strncmp m (cs + 1) (ct + 1) n)"

partial_function (option) rt_strcmp :: "memory \<Rightarrow> u32 \<Rightarrow> u32 \<Rightarrow> u32 option" where
  "rt_strcmp m cs ct = (if m cs \<noteq> 0 \<and> m cs = m ct then rt_strcmp m (cs + 1) (ct + 1) else Some (ucast (m cs) - ucast (m ct)))"

section \<open>The word loops are the byte loops\<close>

lemma set_bytes_add: "set_bytes (k + n) d a m = set_bytes n d (a + of_nat k) (set_bytes k d a m)"
  by (induction k arbitrary: a m) (simp_all add: add.assoc)

lemma copy_bytes_add: "copy_bytes (k + n) d s m = copy_bytes n (d + of_nat k) (s + of_nat k) (copy_bytes k d s m)"
  by (induction k arbitrary: d s m) (simp_all add: add.assoc)

lemma fill_word:
  assumes "d = c AND 0xff" "w = push_bit 8 d OR d" "w' = w OR push_bit 16 w"
  shows "store_word m a w' = set_bytes 4 (ucast d) a m"
proof -
  have m: "(0xff :: u32) = mask 8" by (simp add: mask_eq_exp_minus_1)
  have b: "bit d n \<longleftrightarrow> n < 8 \<and> bit c n" for n unfolding assms(1) m by (auto simp: bit_simps)
  have "(ucast w' :: u8) = ucast d" "(ucast (drop_bit 8 w') :: u8) = ucast d" "(ucast (drop_bit 16 w') :: u8) = ucast d" "(ucast (drop_bit 24 w') :: u8) = ucast d"
    unfolding assms(2,3) by (rule bit_word_eqI; auto simp: bit_simps b)+
  then show ?thesis by (simp add: store_word_def numeral_eq_Suc add.assoc)
qed

definition fills :: "u32 \<Rightarrow> u8 \<Rightarrow> bool" where
  "fills w v \<longleftrightarrow> (\<forall>a m. store_word m a w = set_bytes 4 v a m)"

lemma set_words_bytes: "fills w v \<Longrightarrow> (case set_words w n a m of (n, a, m) \<Rightarrow> set_bytes n v a m) = set_bytes n v a m"
proof (induction w n a m rule: set_words.induct)
  case (1 w n a m)
  show ?case
  proof (cases "4 \<le> n")
    case True
    then have "set_bytes n v a m = set_bytes (n - 4) v (a + 4) (store_word m a w)"
      using set_bytes_add [of 4 "n - 4" v a m] "1.prems" by (simp add: fills_def)
    then show ?thesis using 1 True by (subst set_words.simps) simp
  qed (simp add: set_words.simps)
qed

lemma set_blocks_bytes: "fills w v \<Longrightarrow> (case set_blocks w n a m of (n, a, m) \<Rightarrow> set_bytes n v a m) = set_bytes n v a m"
proof (induction w n a m rule: set_blocks.induct)
  case (1 w n a m)
  let ?m = "store_word (store_word (store_word (store_word m a w) (a + 4) w) (a + 8) w) (a + 12) w"
  have "?m = set_bytes 16 v a m"
    using "1.prems" set_bytes_add [of 4 12 v a m] set_bytes_add [of 4 8 v "a + 4"] set_bytes_add [of 4 4 v "a + 8"] by (simp add: fills_def add.assoc)
  show ?case
  proof (cases "16 \<le> n")
    case True
    then have "set_bytes n v a m = set_bytes (n - 16) v (a + 16) ?m"
      using set_bytes_add [of 16 "n - 16" v a m] \<open>?m = set_bytes 16 v a m\<close> by simp
    then show ?thesis using 1 True by (subst set_blocks.simps) simp
  qed (simp add: set_blocks.simps)
qed

lemma memset_bytes: "rt_memset s c count m = set_bytes (unat count) (ucast (c AND 0xff)) s m"
proof -
  let ?d = "c AND 0xff" let ?b = "push_bit 8 ?d OR ?d" let ?w = "?b OR push_bit 16 ?b"
  have w: "fills ?w (ucast ?d)" unfolding fills_def using fill_word [OF refl refl refl] by blast
  obtain n a m' where b: "set_blocks ?w (unat count) s m = (n, a, m')" by (metis prod_cases3)
  obtain n' a' m'' where c: "set_words ?w n a m' = (n', a', m'')" by (metis prod_cases3)
  have "set_bytes n (ucast ?d) a m' = set_bytes (unat count) (ucast ?d) s m"
    using set_blocks_bytes [OF w, of "unat count" s m] unfolding b by (simp only: prod.case)
  moreover have "set_bytes n' (ucast ?d) a' m'' = set_bytes n (ucast ?d) a m'"
    using set_words_bytes [OF w, of n a m'] unfolding c by (simp only: prod.case)
  ultimately show ?thesis unfolding rt_memset_def Let_def by (simp only: b c prod.case if_cancel)
qed

text \<open>Two aligned words are the same word or do not overlap.\<close>

lemma aligned_mod: "\<not> UNALIGNED x \<longleftrightarrow> unat x mod 4 = 0"
proof -
  have "(3 :: u32) = mask 2" by (simp add: mask_eq_exp_minus_1)
  then have "unat (x AND 3) = unat x mod 4" using unat_and_mask [of x 2] by simp
  then show ?thesis by (simp add: UNALIGNED_def word_unat_eq_iff)
qed

lemma aligned_apart:
  assumes "\<not> UNALIGNED d" "\<not> UNALIGNED s" "d \<noteq> s" "i < 4" "j < 4"
  shows "s + of_nat i \<noteq> d + of_nat j"
proof
  assume "s + of_nat i = d + of_nat j"
  moreover have "unat (x + of_nat k) = (unat x + k) mod 4294967296" if "k < 4" for x :: u32 and k
    using that by (simp add: unat_word_ariths unat_of_nat mod_simps)
  ultimately have "(unat s + i) mod 4294967296 = (unat d + j) mod 4294967296" using assms(4,5) by metis
  then have eq: "(unat s + i) mod 4294967296 div 4 = (unat d + j) mod 4294967296 div 4" by (rule arg_cong)
  have word: "(unat x + k) mod 4294967296 div 4 = unat x div 4" if "unat x mod 4 = 0" "k < 4" for x :: u32 and k
  proof -
    have q: "unat x = 4 * (unat x div 4)" using that(1) by presburger
    moreover have "unat x < 4294967296" using unsigned_less [of x] by simp
    ultimately have "unat x div 4 < 1073741824" by linarith
    then have "(4 * (unat x div 4) + k) mod 4294967296 div 4 = unat x div 4" using that(2) by simp
    then show ?thesis using q by simp
  qed
  have z: "unat s mod 4 = 0" "unat d mod 4 = 0" using assms(1,2) by (simp_all only: aligned_mod)
  have "unat s div 4 = unat d div 4" by (rule trans [OF word [OF z(1) assms(4), symmetric] trans [OF eq word [OF z(2) assms(5)]]])
  then have "unat s = unat d" using z div_mult_mod_eq [of "unat s" 4] div_mult_mod_eq [of "unat d" 4] by linarith
  then show False using assms(3) by (simp add: word_unat_eq_iff)
qed

lemma copy_word_bytes:
  assumes "\<not> UNALIGNED d" "\<not> UNALIGNED s"
  shows "copy_word m d s = copy_bytes 4 d s m"
proof -
  have w: "copy_word m d s = m(d := m s, d + 1 := m (s + 1), d + 2 := m (s + 2), d + 3 := m (s + 3))"
  proof -
    let ?w = "load_word m s"
    have "(ucast ?w :: u8) = m s" "(ucast (drop_bit 8 ?w) :: u8) = m (s + 1)" "(ucast (drop_bit 16 ?w) :: u8) = m (s + 2)"
      "(ucast (drop_bit 24 ?w) :: u8) = m (s + 3)"
      by (rule bit_word_eqI; auto simp: load_word_def bit_simps dest: bit_imp_le_length)+
    then show ?thesis by (simp add: copy_word_def store_word_def)
  qed
  have e: "copy_bytes 4 d s m = (let m1 = m(d := m s); m2 = m1(d + 1 := m1 (s + 1)); m3 = m2(d + 2 := m2 (s + 2)) in m3(d + 3 := m3 (s + 3)))"
    by (simp add: numeral_eq_Suc add.assoc)
  show ?thesis
  proof (cases "d = s")
    case True
    then show ?thesis unfolding w e Let_def by (auto simp: fun_eq_iff)
  next
    case False
    have "s + 1 \<noteq> d" "s + 2 \<noteq> d" "s + 3 \<noteq> d" "s + 2 \<noteq> d + 1" "s + 3 \<noteq> d + 1" "s + 3 \<noteq> d + 2"
      using aligned_apart [OF assms False, of 1 0] aligned_apart [OF assms False, of 2 0] aligned_apart [OF assms False, of 3 0]
        aligned_apart [OF assms False, of 2 1] aligned_apart [OF assms False, of 3 1] aligned_apart [OF assms False, of 3 2] by simp_all
    then show ?thesis unfolding w e Let_def by simp
  qed
qed

lemma aligned_next: "\<not> UNALIGNED x \<Longrightarrow> \<not> UNALIGNED (x + 4)"
proof -
  assume "\<not> UNALIGNED x"
  then have "unat x mod 4 = 0" by (simp add: aligned_mod)
  then have "(unat x + 4) mod 4294967296 mod 4 = 0" by (simp add: mod_mod_cancel)
  then show ?thesis by (simp add: aligned_mod unat_word_ariths)
qed

lemma aligned_far: "\<not> UNALIGNED x \<Longrightarrow> \<not> UNALIGNED (x + 8) \<and> \<not> UNALIGNED (x + 12) \<and> \<not> UNALIGNED (x + 16)"
  using aligned_next [of x] aligned_next [of "x + 4"] aligned_next [of "x + 8"] aligned_next [of "x + 12"] by (simp add: add.assoc)

lemma copy_words_bytes:
  "\<not> UNALIGNED d \<Longrightarrow> \<not> UNALIGNED s \<Longrightarrow> (case copy_words n d s m of (n, d, s, m) \<Rightarrow> copy_bytes n d s m) = copy_bytes n d s m"
proof (induction n d s m rule: copy_words.induct)
  case (1 n d s m)
  show ?case
  proof (cases "4 \<le> n")
    case True
    then have "copy_bytes n d s m = copy_bytes (n - 4) (d + 4) (s + 4) (copy_word m d s)"
      using copy_bytes_add [of 4 "n - 4" d s m] copy_word_bytes [OF "1.prems"] by simp
    then show ?thesis using 1 True aligned_next by (subst copy_words.simps) simp
  qed (simp add: copy_words.simps)
qed

lemma copy_blocks_bytes:
  "\<not> UNALIGNED d \<Longrightarrow> \<not> UNALIGNED s \<Longrightarrow> (case copy_blocks n d s m of (n, d, s, m) \<Rightarrow> \<not> UNALIGNED d \<and> \<not> UNALIGNED s \<and> copy_bytes n d s m = copy_bytes n0 d0 s0 m0)
    \<longleftrightarrow> copy_bytes n d s m = copy_bytes n0 d0 s0 m0"
proof (induction n d s m rule: copy_blocks.induct)
  case (1 n d s m)
  let ?m = "copy_word (copy_word (copy_word (copy_word m d s) (d + 4) (s + 4)) (d + 8) (s + 8)) (d + 12) (s + 12)"
  have m: "?m = copy_bytes 16 d s m"
    using copy_bytes_add [of 4 12 d s m] copy_bytes_add [of 4 8 "d + 4" "s + 4"] copy_bytes_add [of 4 4 "d + 8" "s + 8"]
      copy_word_bytes "1.prems" aligned_next aligned_far by (simp add: add.assoc)
  show ?case
  proof (cases "16 \<le> n")
    case True
    then have "copy_bytes n d s m = copy_bytes (n - 16) (d + 16) (s + 16) ?m"
      using copy_bytes_add [of 16 "n - 16" d s m] m by simp
    then show ?thesis using 1 True aligned_far by (subst copy_blocks.simps) simp
  qed (use "1.prems" in \<open>simp add: copy_blocks.simps\<close>)
qed

lemma memcpy_bytes: "rt_memcpy d s count m = copy_bytes (unat count) d s m"
proof (cases "\<not> count < 16 \<and> \<not> UNALIGNED s \<and> \<not> UNALIGNED d")
  case True
  obtain n d1 s1 m1 where b: "copy_blocks (unat count) d s m = (n, d1, s1, m1)" by (metis prod_cases4)
  obtain n2 d2 s2 m2 where c: "copy_words n d1 s1 m1 = (n2, d2, s2, m2)" by (metis prod_cases4)
  have "\<not> UNALIGNED d1" "\<not> UNALIGNED s1" "copy_bytes n d1 s1 m1 = copy_bytes (unat count) d s m"
    using copy_blocks_bytes [where d = d and s = s and n = "unat count" and m = m and ?n0.0 = "unat count" and ?d0.0 = d and ?s0.0 = s and ?m0.0 = m] True b
    by simp_all
  moreover from this(1,2) have "copy_bytes n2 d2 s2 m2 = copy_bytes n d1 s1 m1" using copy_words_bytes [of d1 s1 n m1] c by simp
  ultimately show ?thesis using True by (simp only: rt_memcpy_def Let_def b c prod.case if_True simp_thms)
next
  case False
  then show ?thesis by (simp only: rt_memcpy_def if_False)
qed

section \<open>Moving overlapping memory\<close>

definition moved :: "u32 \<Rightarrow> u32 \<Rightarrow> nat \<Rightarrow> memory \<Rightarrow> memory" where
  "moved d s n m = (\<lambda>x. if unat (x - d) < n then m (s + (x - d)) else m x)"

lemma unat_pred: "k \<noteq> 0 \<Longrightarrow> unat (k - 1) = unat k - 1" for k :: u32
  by (simp add: unat_minus_one)

lemma copy_up_moved:
  "n \<le> 4294967296 \<Longrightarrow> d = s \<or> n \<le> unat (d - s) \<Longrightarrow> copy_bytes n d s m = moved d s n m"
proof (induction n arbitrary: d s m)
  case 0
  then show ?case by (simp add: moved_def)
next
  case (Suc n)
  let ?m = "m(d := m s)"
  have "(d + 1) - (s + 1) = d - s" by simp
  then have ih: "copy_bytes n (d + 1) (s + 1) ?m = moved (d + 1) (s + 1) n ?m" using Suc by (intro Suc.IH) auto
  have "moved (d + 1) (s + 1) n ?m x = moved d s (Suc n) m x" for x
  proof -
    define k where "k = x - d"
    have k: "x - (d + 1) = k - 1" "s + 1 + (k - 1) = s + k" by (simp_all add: k_def algebra_simps)
    show ?thesis
    proof (cases "k = 0")
      case True
      then have "unat (k - 1) = 4294967295" by (simp add: unsigned_minus_1_eq_mask mask_eq_exp_minus_1)
      then show ?thesis using Suc.prems(1) True by (simp add: moved_def k k_def)
    next
      case False
      have "s + k \<noteq> d \<or> d = s" if "unat k < Suc n"
      proof (rule disjCI)
        assume "d \<noteq> s"
        then have "Suc n \<le> unat (d - s)" using Suc.prems(2) by simp
        then show "s + k \<noteq> d" using that by (auto simp: add.commute)
      qed
      moreover have "x \<noteq> d" using False by (simp add: k_def)
      moreover have "unat (k - 1) < n \<longleftrightarrow> unat k < Suc n" using unat_pred [OF False] False by (simp add: unat_eq_0 [symmetric]) linarith
      ultimately show ?thesis unfolding moved_def k by (auto simp: k_def [symmetric])
    qed
  qed
  then show ?case using ih by (simp add: fun_eq_iff)
qed

lemma copy_down_moved:
  "n \<le> 4294967295 \<Longrightarrow> n \<le> unat (s - d) \<Longrightarrow> copy_down n (d + of_nat n) (s + of_nat n) m = moved d s n m"
proof (induction n arbitrary: m)
  case 0
  then show ?case by (simp add: moved_def)
next
  case (Suc n)
  let ?m = "m(d + of_nat n := m (s + of_nat n))"
  have ih: "copy_down n (d + of_nat n) (s + of_nat n) ?m = moved d s n ?m" using Suc by (intro Suc.IH) auto
  have u: "unat (of_nat n :: u32) = n" using Suc.prems(1) by (simp add: unat_of_nat)
  have "moved d s n ?m x = moved d s (Suc n) m x" for x
  proof -
    define k where "k = x - d"
    have x: "x = d + k" by (simp add: k_def)
    have "s + k \<noteq> d + of_nat n" if "unat k < n"
    proof
      assume "s + k = d + of_nat n"
      then have "s - d = of_nat n - k" by (simp add: algebra_simps)
      moreover have "k \<le> of_nat n" using that u by (simp add: word_le_nat_alt)
      ultimately have "unat (s - d) = n - unat k" using u by (simp add: unat_sub)
      then show False using Suc.prems(2) by simp
    qed
    moreover have "k = of_nat n \<longleftrightarrow> unat k = n" using u by (auto simp: word_unat_eq_iff)
    ultimately show ?thesis unfolding moved_def x by (auto simp: less_Suc_eq)
  qed
  moreover have "copy_down (Suc n) (d + of_nat (Suc n)) (s + of_nat (Suc n)) m = copy_down n (d + of_nat n) (s + of_nat n) ?m"
    by (simp add: algebra_simps)
  ultimately show ?case using ih by (simp add: fun_eq_iff)
qed

lemma memmove_moved:
  assumes "unat d + unat n < 4294967296" "unat s + unat n < 4294967296"
  shows "rt_memmove d s n m = moved d s (unat n) m"
proof -
  have sn: "unat (s + n) = unat s + unat n" using assms(2) by (simp add: unat_word_ariths)
  show ?thesis
  proof (cases "s < d \<and> d < s + n")
    case True
    then have lt: "unat s < unat d" "unat d < unat s + unat n" using sn by (simp_all add: word_less_nat_alt)
    moreover have "unat (s - d) = unat s + 4294967296 - unat d" using lt(1) by (simp add: unat_sub_if')
    ultimately have "unat n \<le> unat (s - d)" "unat n \<le> 4294967295" using assms(1) unsigned_less [of d] by simp_all
    then show ?thesis using True copy_down_moved [of "unat n" s d m] by (simp add: rt_memmove_def)
  next
    case False
    have "d = s \<or> unat n \<le> unat (d - s)"
    proof (cases "s < d")
      case True
      then have "unat s + unat n \<le> unat d" using False sn by (simp add: word_less_nat_alt)
      moreover have "unat (d - s) = unat d - unat s" using True by (simp add: unat_sub)
      ultimately have "unat n \<le> unat (d - s)" by linarith
      then show ?thesis by (rule disjI2)
    next
      case f: False
      show ?thesis
      proof (rule disjCI)
        assume "\<not> unat n \<le> unat (d - s)"
        moreover have "unat d \<le> unat s" using f by (simp add: word_less_nat_alt)
        ultimately show "d = s" using assms(2) by (auto simp: unat_sub_if' word_unat_eq_iff split: if_split_asm)
      qed
    qed
    then show ?thesis using False copy_up_moved [of "unat n" d s m] assms(1) by (auto simp: rt_memmove_def)
  qed
qed

section \<open>What the string functions return\<close>

text \<open>A string in memory: its characters, none of them zero, and a zero byte.\<close>

primrec str_at :: "memory \<Rightarrow> u32 \<Rightarrow> u8 list \<Rightarrow> bool" where
  "str_at m a [] \<longleftrightarrow> m a = 0"
| "str_at m a (x # xs) \<longleftrightarrow> m a = x \<and> x \<noteq> 0 \<and> str_at m (a + 1) xs"

lemma string_end_at: "str_at m a xs \<Longrightarrow> string_end m a = Some (a + of_nat (length xs))"
proof (induction xs arbitrary: a)
  case Nil
  then show ?case by (subst string_end.simps) simp
next
  case (Cons x xs)
  then have "string_end m a = string_end m (a + 1)" by (subst string_end.simps) simp
  then show ?case using Cons by (simp add: add.assoc)
qed

lemma strlen_at: "str_at m a xs \<Longrightarrow> rt_strlen m a = Some (of_nat (length xs))"
  by (simp add: rt_strlen_def string_end_at)

lemma memcmp_zero: "rt_memcmp m a c n = 0 \<longleftrightarrow> (\<forall>i<n. m (a + of_nat i) = m (c + of_nat i))"
proof (induction n arbitrary: a c)
  case (Suc n)
  have "(\<forall>i<Suc n. m (a + of_nat i) = m (c + of_nat i)) \<longleftrightarrow> m a = m c \<and> (\<forall>i<n. m (a + 1 + of_nat i) = m (c + 1 + of_nat i))"
    by (auto simp: All_less_Suc2 add.assoc)
  then show ?case using Suc.IH [of "a + 1" "c + 1"] by (auto simp: Let_def word_uint_eq_iff)
qed simp

lemma str_at_nth: "str_at m a xs \<Longrightarrow> i < length xs \<Longrightarrow> m (a + of_nat i) = xs ! i"
proof (induction xs arbitrary: a i)
  case (Cons x xs)
  then show ?case by (cases i) (auto simp: add.assoc [symmetric])
qed simp

text \<open>Where a list of characters begins with another one.\<close>

definition begins :: "u8 list \<Rightarrow> u8 list \<Rightarrow> bool" where
  "begins xs ys \<longleftrightarrow> take (length ys) xs = ys"

lemma memcmp_begins:
  assumes "str_at m a xs" "str_at m c ys" "length ys \<le> length xs"
  shows "rt_memcmp m a c (length ys) = 0 \<longleftrightarrow> begins xs ys"
  using assms str_at_nth [OF assms(1)] str_at_nth [OF assms(2)]
  by (auto simp: memcmp_zero begins_def list_eq_iff_nth_eq)

fun first_at :: "u8 list \<Rightarrow> u8 list \<Rightarrow> nat option" where
  "first_at [] ys = (if ys = [] then Some 0 else None)"
| "first_at (x # xs) ys = (if begins (x # xs) ys then Some 0 else map_option Suc (first_at xs ys))"

lemma first_at_short: "length xs < length ys \<Longrightarrow> first_at xs ys = None"
  by (induction xs) (auto simp: begins_def)

lemma strstr_loop_first:
  assumes "str_at m c ys" "ys \<noteq> []"
  shows "str_at m a xs \<Longrightarrow> strstr_loop m a c (length xs) (length ys) = (case first_at xs ys of None \<Rightarrow> 0 | Some i \<Rightarrow> a + of_nat i)"
proof (induction xs arbitrary: a)
  case Nil
  then show ?case using assms(2) by simp
next
  case (Cons x xs)
  show ?case
  proof (cases "length ys \<le> length (x # xs)")
    case True
    then have b: "rt_memcmp m a c (length ys) = 0 \<longleftrightarrow> begins (x # xs) ys" by (rule memcmp_begins [OF Cons.prems assms(1)])
    have "str_at m (a + 1) xs" using Cons.prems by simp
    from Cons.IH [OF this] show ?thesis using True b by (auto simp: add.assoc split: option.splits)
  next
    case False
    then show ?thesis using first_at_short [of "x # xs" ys] by simp
  qed
qed

lemma first_at_least:
  "first_at xs ys = (if \<exists>i\<le>length xs. begins (drop i xs) ys then Some (LEAST i. begins (drop i xs) ys) else None)"
proof (induction xs)
  case Nil
  have "(LEAST i. ys = []) = (0 :: nat)" if "ys = []" using that by (simp add: Least_equality)
  then show ?case by (auto simp: begins_def Least_eq_0)
next
  case (Cons x xs)
  let ?P = "\<lambda>i. begins (drop i (x # xs)) ys"
  have sh: "(\<exists>i\<le>length (x # xs). ?P i) \<longleftrightarrow> ?P 0 \<or> (\<exists>i\<le>length xs. begins (drop i xs) ys)"
  proof -
    have "(\<exists>i\<le>Suc n. P i) \<longleftrightarrow> P 0 \<or> (\<exists>i\<le>n. P (Suc i))" for n and P :: "nat \<Rightarrow> bool"
      by (metis Suc_le_mono le0 not0_implies_Suc)
    from this [of "length xs" ?P] show ?thesis by simp
  qed
  show ?case
  proof (cases "?P 0")
    case True
    then show ?thesis using sh by (simp add: Least_eq_0)
  next
    case False
    have "(LEAST i. ?P i) = Suc (LEAST i. ?P (Suc i))" if "?P j" for j by (rule Least_Suc [OF that False])
    then show ?thesis using Cons sh False by (auto; metis drop_Suc_Cons)
  qed
qed

end
