(* ===== verification/Rt_Print.thy ===== *)
theory Rt_Print
  imports Rt_Service
begin

text \<open>
  Formatted output of the kernel (\<open>kservice.c\<close>), as it is configured: no precision, no long long, no
  prefixes. The buffer is a memory counted from its start; a pointer is a position, and characters behind the
  end of the buffer move the position but are not stored. A format that takes arguments that are not
  there, or of another type, has no result.
\<close>

section \<open>Output\<close>

type_synonym out = "nat \<times> (nat \<Rightarrow> u8)"

text \<open>A position that may be written, given the last one.\<close>

definition fits :: "nat \<Rightarrow> nat \<Rightarrow> bool" where
  "fits e p \<longleftrightarrow> p \<le> e"

definition emit :: "nat \<Rightarrow> u8 \<Rightarrow> out \<Rightarrow> out" where
  "emit e c r = (Suc (fst r), if fits e (fst r) then (snd r)(fst r := c) else snd r)"

primrec emits :: "nat \<Rightarrow> u8 list \<Rightarrow> out \<Rightarrow> out" where
  "emits e [] r = r"
| "emits e (c # cs) r = emits e cs (emit e c r)"

text \<open>The loop \<open>while (sz-- > 0)\<close>, which leaves a negative size.\<close>

function pad :: "nat \<Rightarrow> u8 \<Rightarrow> int \<Rightarrow> out \<Rightarrow> int \<times> out" where
  "pad e c sz r = (if 0 < sz then pad e c (sz - 1) (emit e c r) else (sz - 1, r))"
  by pat_completeness auto
termination by (relation "measure (\<lambda>(e, c, sz, r). nat sz)") auto

declare pad.simps [simp del]

section \<open>Numbers\<close>

definition ZEROPAD :: u8 where "ZEROPAD = 1"
definition SIGN :: u8 where "SIGN = 2"
definition PLUS :: u8 where "PLUS = 4"
definition SPACE :: u8 where "SPACE = 8"
definition LEFT :: u8 where "LEFT = 16"
definition SPECIAL :: u8 where "SPECIAL = 32"
definition LARGE :: u8 where "LARGE = 64"

text \<open>The remainder and what is left of the number; every base but 10 is taken for 16.\<close>

definition divide :: "u32 \<Rightarrow> u32 \<Rightarrow> u32 \<times> u32" where
  "divide n base = (if base = 10 then (n mod 10, n div 10) else (n mod 16, n div 16))"

definition digit :: "bool \<Rightarrow> u32 \<Rightarrow> u8" where
  "digit large d = (if d < 10 then 0x30 + ucast d else (if large then 0x37 else 0x57) + ucast d)"

lemma divide_less: "n \<noteq> 0 \<Longrightarrow> unat (snd (divide n base)) < unat n"
  by (auto simp: divide_def unat_div intro!: div_less_dividend) (auto simp: word_unat_eq_iff)

function number_digits :: "bool \<Rightarrow> u32 \<Rightarrow> u32 \<Rightarrow> u8 list" where
  "number_digits large base num =
     (if num \<noteq> 0 then digit large (fst (divide num base)) # number_digits large base (snd (divide num base)) else [])"
  by pat_completeness auto
termination by (relation "measure (\<lambda>(large, base, num). unat num)") (auto intro: divide_less)

declare number_digits.simps [simp del]

definition print_number :: "nat \<Rightarrow> u32 \<Rightarrow> u32 \<Rightarrow> int \<Rightarrow> u8 \<Rightarrow> out \<Rightarrow> out" where
  "print_number e num base s type r =
     (let large = type AND LARGE \<noteq> 0;
          type = (if type AND LEFT \<noteq> 0 then type AND NOT ZEROPAD else type);
          c = (if type AND ZEROPAD \<noteq> 0 then 0x30 else 0x20);
          (sign, num) =
            (if type AND SIGN \<noteq> 0 then
               (if sint num < 0 then (0x2d, - num)
                else if type AND PLUS \<noteq> 0 then (0x2b, num) else if type AND SPACE \<noteq> 0 then (0x20, num) else (0, num))
             else (0, num));
          tmp = (if num = 0 then [0x30] else number_digits large base num);
          sz = s - int (length tmp);
          (sz, r) = (if type AND (ZEROPAD OR LEFT) = 0 then pad e 0x20 sz r else (sz, r));
          (sz, r) = (if sign \<noteq> 0 then (if fits e (fst r) then sz - 1 else sz, emit e sign r) else (sz, r));
          (sz, r) = (if type AND LEFT = 0 then pad e c sz r else (sz, r));
          r = emits e (rev tmp) r
      in snd (pad e 0x20 sz r))"

section \<open>Formats\<close>

datatype arg = Int_arg u32 | Str_arg "u8 list option"

datatype spec = Lit "u8 list" | Char u8 u8 int | Text "u8 list" u8 int | Number u32 u32 int u8

definition isdigit :: "u8 \<Rightarrow> bool" where
  "isdigit c \<longleftrightarrow> c - 0x30 < 10"

fun skip_atoi :: "int \<Rightarrow> u8 list \<Rightarrow> int \<times> u8 list" where
  "skip_atoi i [] = (i, [])"
| "skip_atoi i (c # cs) = (if isdigit c then skip_atoi (i * 10 + uint c - 0x30) cs else (i, c # cs))"

fun get_flags :: "u8 \<Rightarrow> u8 list \<Rightarrow> u8 \<times> u8 list" where
  "get_flags f [] = (f, [])"
| "get_flags f (c # cs) =
     (if c = 0x2d then get_flags (f OR LEFT) cs else if c = 0x2b then get_flags (f OR PLUS) cs
      else if c = 0x20 then get_flags (f OR SPACE) cs else if c = 0x23 then get_flags (f OR SPECIAL) cs
      else if c = 0x30 then get_flags (f OR ZEROPAD) cs else (f, c # cs))"

fun get_width :: "u8 \<Rightarrow> u8 list \<Rightarrow> arg list \<Rightarrow> (int \<times> u8 \<times> u8 list \<times> arg list) option" where
  "get_width f [] args = Some (- 1, f, [], args)"
| "get_width f (c # cs) args =
     (if isdigit c then (let (w, cs) = skip_atoi 0 (c # cs) in Some (w, f, cs, args))
      else if c = 0x2a then
        (case args of Int_arg a # args \<Rightarrow> Some (if sint a < 0 then (- sint a, f OR LEFT, cs, args) else (sint a, f, cs, args)) | _ \<Rightarrow> None)
      else Some (- 1, f, c # cs, args))"

definition get_qualifier :: "u8 list \<Rightarrow> u8 \<times> u8 list" where
  "get_qualifier cs = (case cs of c # cs' \<Rightarrow> if c = 0x68 \<or> c = 0x6c then (c, cs') else (0, cs) | [] \<Rightarrow> (0, cs))"

fun get_number :: "u8 \<Rightarrow> u8 \<Rightarrow> u32 \<Rightarrow> u32" where
  "get_number q f a = (if q = 0x68 then (if f AND SIGN \<noteq> 0 then scast (ucast a :: u16) else ucast (ucast a :: u16)) else a)"

text \<open>The conversion character: c, s, p, per cent, o, X, x, d, i, u.\<close>

fun get_spec :: "u8 \<Rightarrow> int \<Rightarrow> u8 \<Rightarrow> u8 list \<Rightarrow> arg list \<Rightarrow> (spec \<times> u8 list \<times> arg list) option" where
  "get_spec f w q [] args = Some (Lit [0x25], [], args)"
| "get_spec f w q (c # cs) args =
     (if c = 0x63 then (case args of Int_arg a # args \<Rightarrow> Some (Char (ucast a) f w, cs, args) | _ \<Rightarrow> None)
      else if c = 0x73 then
        (case args of Str_arg s # args \<Rightarrow> Some (Text (case s of None \<Rightarrow> [0x28, 0x4e, 0x55, 0x4c, 0x4c, 0x29] | Some s \<Rightarrow> s) f w, cs, args) | _ \<Rightarrow> None)
      else if c = 0x70 then
        (case args of Int_arg a # args \<Rightarrow>
           Some (if w = - 1 then Number a 16 8 (f OR ZEROPAD) else Number a 16 w f, cs, args) | _ \<Rightarrow> None)
      else if c = 0x25 then Some (Lit [0x25], cs, args)
      else if c \<in> {0x6f, 0x58, 0x78, 0x64, 0x69, 0x75} then
        (let base = (if c = 0x6f then 8 else if c = 0x58 \<or> c = 0x78 then 16 else 10);
             f = (if c = 0x58 then f OR LARGE else if c = 0x64 \<or> c = 0x69 then f OR SIGN else f)
         in case args of Int_arg a # args \<Rightarrow> Some (Number (get_number q f a) base w f, cs, args) | _ \<Rightarrow> None)
      else Some (Lit [0x25, c], cs, args))"

definition parse :: "u8 list \<Rightarrow> arg list \<Rightarrow> (spec \<times> u8 list \<times> arg list) option" where
  "parse cs args =
     (let (f, cs) = get_flags 0 cs
      in case get_width f cs args of None \<Rightarrow> None
         | Some (w, f, cs, args) \<Rightarrow> (let (q, cs) = get_qualifier cs in get_spec f w q cs args))"

text \<open>The loops \<open>while (--field_width > 0)\<close> and \<open>while (len < field_width--)\<close>.\<close>

definition pad_char :: "nat \<Rightarrow> int \<Rightarrow> out \<Rightarrow> int \<times> out" where
  "pad_char e w r = (let (w, r) = pad e 0x20 (w - 1) r in (w + 1, r))"

definition pad_text :: "nat \<Rightarrow> int \<Rightarrow> int \<Rightarrow> out \<Rightarrow> int \<times> out" where
  "pad_text e len w r = (let (n, r) = pad e 0x20 (w - len) r in (n + len, r))"

fun print_spec :: "nat \<Rightarrow> spec \<Rightarrow> out \<Rightarrow> out" where
  "print_spec e (Lit cs) r = emits e cs r"
| "print_spec e (Char c f w) r =
     (let (w, r) = (if f AND LEFT = 0 then pad_char e w r else (w, r)) in snd (pad_char e w (emit e c r)))"
| "print_spec e (Text s f w) r =
     (let (w, r) = (if f AND LEFT = 0 then pad_text e (int (length s)) w r else (w, r))
      in snd (pad_text e (int (length s)) w (emits e s r)))"
| "print_spec e (Number num base w f) r = print_number e num base w f r"

lemma skip_atoi_length: "length (snd (skip_atoi i cs)) \<le> length cs"
  by (induction i cs rule: skip_atoi.induct) auto

lemma get_flags_length: "length (snd (get_flags f cs)) \<le> length cs"
  by (induction f cs rule: get_flags.induct) auto

lemma get_width_length: "get_width f cs args = Some (w, f', cs', args') \<Longrightarrow> length cs' \<le> length cs"
  using skip_atoi_length [of 0 cs]
  by (cases cs) (auto split: if_split_asm list.splits arg.splits prod.splits)

lemma get_spec_length: "get_spec f w q cs args = Some (sp, cs', args') \<Longrightarrow> length cs' \<le> length cs"
  by (cases cs) (auto simp: Let_def split: if_split_asm list.splits arg.splits)

lemma parse_length: "parse cs args = Some (sp, cs', args') \<Longrightarrow> length cs' \<le> length cs"
proof -
  assume p: "parse cs args = Some (sp, cs', args')"
  let ?c1 = "snd (get_flags 0 cs)"
  obtain w f c2 as where w: "get_width (fst (get_flags 0 cs)) ?c1 args = Some (w, f, c2, as)"
    and s: "get_spec f w (fst (get_qualifier c2)) (snd (get_qualifier c2)) as = Some (sp, cs', args')"
    using p by (auto simp: parse_def case_prod_beta split: option.splits)
  have "length (snd (get_qualifier c2)) \<le> length c2" by (auto simp: get_qualifier_def split: list.split)
  then show ?thesis using get_spec_length [OF s] get_width_length [OF w] get_flags_length [of 0 cs] by linarith
qed

section \<open>The whole format\<close>

function format_loop :: "nat \<Rightarrow> u8 list \<Rightarrow> arg list \<Rightarrow> out \<Rightarrow> out option" where
  "format_loop e [] args r = Some r"
| "format_loop e (c # cs) args r =
     (if c \<noteq> 0x25 then format_loop e cs args (emit e c r)
      else case parse cs args of None \<Rightarrow> None | Some (sp, cs', args') \<Rightarrow> format_loop e cs' args' (print_spec e sp r))"
  by pat_completeness auto
termination by (relation "measure (\<lambda>(e, cs, args, r). length cs)") (auto simp: le_imp_less_Suc dest: parse_length)

text \<open>The last position of the buffer; if its address lies in front of the buffer it is the end of the memory.\<close>

definition buffer_end :: "u32 \<Rightarrow> u32 \<Rightarrow> nat" where
  "buffer_end buf sz = (let e = buf + sz - 1 in unat ((if e < buf then - 1 else e) - buf))"

definition vsnprintf :: "u32 \<Rightarrow> u32 \<Rightarrow> u8 list \<Rightarrow> arg list \<Rightarrow> (nat \<Rightarrow> u8) \<Rightarrow> (nat \<times> (nat \<Rightarrow> u8)) option" where
  "vsnprintf buf sz fmt args m =
     (let e = buffer_end buf sz
      in case format_loop e fmt args (0, m) of None \<Rightarrow> None
         | Some (p, m) \<Rightarrow> Some (p, if fits e p then m(p := 0) else m(e := 0)))"

definition rt_snprintf :: "u32 \<Rightarrow> u32 \<Rightarrow> u8 list \<Rightarrow> arg list \<Rightarrow> (nat \<Rightarrow> u8) \<Rightarrow> (nat \<times> (nat \<Rightarrow> u8)) option" where
  "rt_snprintf = vsnprintf"

definition rt_vsprintf :: "u32 \<Rightarrow> u8 list \<Rightarrow> arg list \<Rightarrow> (nat \<Rightarrow> u8) \<Rightarrow> (nat \<times> (nat \<Rightarrow> u8)) option" where
  "rt_vsprintf buf fmt args m = vsnprintf buf (- 1) fmt args m"

definition rt_sprintf :: "u32 \<Rightarrow> u8 list \<Rightarrow> arg list \<Rightarrow> (nat \<Rightarrow> u8) \<Rightarrow> (nat \<times> (nat \<Rightarrow> u8)) option" where
  "rt_sprintf = rt_vsprintf"

text \<open>The console gets as many bytes of the buffer (and of what lies behind its 128 bytes) as the text would have.\<close>

definition rt_kprintf :: "u32 \<Rightarrow> u8 list \<Rightarrow> arg list \<Rightarrow> (nat \<Rightarrow> u8) \<Rightarrow> (u8 list \<times> (nat \<Rightarrow> u8)) option" where
  "rt_kprintf rt_log_buf fmt args m =
     (case vsnprintf rt_log_buf 128 fmt args m of None \<Rightarrow> None | Some (n, m) \<Rightarrow> Some (List.map m [0..<n], m))"

section \<open>The text of a format\<close>

text \<open>The same text without a buffer. A sign does not count for the width when the field is filled with spaces.\<close>

definition spaces :: "int \<Rightarrow> u8 list" where
  "spaces n = replicate (nat n) 0x20"

definition number_text :: "u32 \<Rightarrow> u32 \<Rightarrow> int \<Rightarrow> u8 \<Rightarrow> u8 list" where
  "number_text num base w type =
     (let minus = type AND SIGN \<noteq> 0 \<and> sint num < 0;
          num = (if minus then - num else num);
          sign = (if minus then [0x2d] else if type AND SIGN = 0 then [] else if type AND PLUS \<noteq> 0 then [0x2b] else if type AND SPACE \<noteq> 0 then [0x20] else []);
          ds = (if num = 0 then [0x30] else rev (number_digits (type AND LARGE \<noteq> 0) base num));
          left = type AND LEFT \<noteq> 0; zero = type AND ZEROPAD \<noteq> 0; free = w - int (length ds)
      in if left then sign @ ds @ spaces (free - int (length sign))
         else if zero then sign @ replicate (nat (free - int (length sign))) 0x30 @ ds
         else spaces free @ sign @ ds)"

fun spec_text :: "spec \<Rightarrow> u8 list" where
  "spec_text (Lit cs) = cs"
| "spec_text (Char c f w) = (if f AND LEFT = 0 then spaces (w - 1) @ [c] else c # spaces (w - 1))"
| "spec_text (Text s f w) = (if f AND LEFT = 0 then spaces (w - int (length s)) @ s else s @ spaces (w - int (length s)))"
| "spec_text (Number num base w f) = number_text num base w f"

function format_text :: "u8 list \<Rightarrow> arg list \<Rightarrow> u8 list option" where
  "format_text [] args = Some []"
| "format_text (c # cs) args =
     (if c \<noteq> 0x25 then map_option ((#) c) (format_text cs args)
      else case parse cs args of None \<Rightarrow> None | Some (sp, cs', args') \<Rightarrow> map_option ((@) (spec_text sp)) (format_text cs' args'))"
  by pat_completeness auto
termination by (relation "measure (\<lambda>(cs, args). length cs)") (auto simp: le_imp_less_Suc dest: parse_length)

section \<open>What is stored\<close>

lemma emits_append: "emits e (xs @ ys) r = emits e ys (emits e xs r)"
  by (induction xs arbitrary: r) simp_all

lemma emits_fst [simp]: "fst (emits e xs r) = fst r + length xs"
  by (induction xs arbitrary: r) (simp_all add: emit_def)

lemma fits_le: "fits e p \<Longrightarrow> q \<le> p \<Longrightarrow> fits e q"
  by (simp add: fits_def)

lemma emits_behind: "\<not> fits e (fst r) \<Longrightarrow> snd (emits e xs r) = snd r"
proof (induction xs arbitrary: r)
  case (Cons x xs)
  have "\<not> fits e (fst (emit e x r))" using Cons.prems fits_le [of e "Suc (fst r)" "fst r"] by (auto simp: emit_def)
  from Cons.IH [OF this] Cons.prems show ?case by (simp add: emit_def)
qed simp

lemma emits_snd: "snd (emits e xs r) = (\<lambda>i. if fst r \<le> i \<and> i < fst r + length xs \<and> fits e i then xs ! (i - fst r) else snd r i)"
proof (induction xs arbitrary: r)
  case (Cons x xs)
  have f: "fst (emit e x r) = Suc (fst r)" by (simp add: emit_def)
  have p: "(if Suc (fst r) \<le> i \<and> i < Suc (fst r) + length xs \<and> fits e i then xs ! (i - Suc (fst r)) else snd (emit e x r) i)
    = (if fst r \<le> i \<and> i < fst r + length (x # xs) \<and> fits e i then (x # xs) ! (i - fst r) else snd r i)" for i
    by (cases "i = fst r") (auto simp: emit_def nth_Cons' Suc_diff_le)
  show ?case unfolding emits.simps Cons.IH f by (rule ext) (rule p)
qed (auto simp: fun_eq_iff)

lemma pad_emits: "pad e c n r = (if 0 < n then - 1 else n - 1, emits e (replicate (nat n) c) r)"
proof (induction e c n r rule: pad.induct)
  case (1 e c n r)
  show ?case
  proof (cases "0 < n")
    case True
    then have "nat n = Suc (nat (n - 1))" by simp
    then show ?thesis using True 1 by (subst pad.simps) auto
  qed (simp add: pad.simps)
qed

text \<open>A step that puts a text into the buffer: what fits of it is stored, and the position is right if all of it fits.\<close>

definition prints :: "nat \<Rightarrow> u8 list \<Rightarrow> out \<Rightarrow> out \<Rightarrow> bool" where
  "prints e xs r r' \<longleftrightarrow> snd r' = snd (emits e xs r) \<and> fst r + length xs \<le> fst r' \<and> (fits e (fst r + length xs) \<longrightarrow> fst r' = fst r + length xs)"

lemma prints_emits: "prints e xs r (emits e xs r)"
  by (simp add: prints_def)

lemma prints_trans:
  assumes "prints e xs r r1" "prints e ys r1 r2"
  shows "prints e (xs @ ys) r r2"
proof (cases "fits e (fst r + length xs)")
  case True
  then have "r1 = emits e xs r" using assms(1) by (simp add: prints_def prod_eq_iff)
  then show ?thesis using assms(2) by (simp add: prints_def emits_append add.assoc)
next
  case False
  then have f: "\<not> fits e (fst r1)" "\<not> fits e (fst r + length xs + length ys)"
    using assms(1) fits_le by (auto simp: prints_def)
  have "snd r2 = snd r1" using assms(2) emits_behind [OF f(1)] by (simp add: prints_def)
  moreover have "snd (emits e (xs @ ys) r) = snd r1"
    using emits_behind [of e "emits e xs r" ys] False assms(1) by (simp add: prints_def emits_append)
  ultimately show ?thesis using assms f(2) by (simp add: prints_def add.assoc [symmetric])
qed

text \<open>Behind the buffer nothing is stored, so only the length counts.\<close>

lemma prints_behind: "\<not> fits e (fst r) \<Longrightarrow> length xs \<le> length ys \<Longrightarrow> prints e xs r (emits e ys r)"
  using fits_le [of e "fst r + length xs" "fst r"] by (auto simp: prints_def emits_behind)

text \<open>The sign of a number, which is not counted when it does not fit.\<close>

definition put_sign :: "nat \<Rightarrow> u8 list \<Rightarrow> int \<Rightarrow> out \<Rightarrow> int \<times> out" where
  "put_sign e sign n r = (if sign \<noteq> [] then (if fits e (fst r) then n - 1 else n, emit e (hd sign) r) else (n, r))"

lemma put_sign_emits:
  assumes "length sign \<le> 1"
  shows "snd (put_sign e sign n r) = emits e sign r" "fst (put_sign e sign n r) \<le> n"
    "sign = [] \<or> fits e (fst r) \<Longrightarrow> fst (put_sign e sign n r) = n - int (length sign)"
    "n - int (length sign) \<le> fst (put_sign e sign n r)"
  using assms by (cases sign; simp add: put_sign_def)+

lemma print_left:
  assumes "length sign \<le> 1"
  shows "prints e (sign @ ds @ spaces (n - int (length sign))) r
    (snd (pad e 0x20 (fst (put_sign e sign n r)) (emits e ds (snd (put_sign e sign n r)))))"
proof (cases "sign = [] \<or> fits e (fst r)")
  case True
  then show ?thesis using put_sign_emits [OF assms] by (simp add: pad_emits emits_append [symmetric] spaces_def prints_emits)
next
  case False
  have "nat (n - int (length sign)) \<le> nat (fst (put_sign e sign n r))" using put_sign_emits(4) [OF assms, of n e r] by simp
  then have "prints e (sign @ ds @ spaces (n - int (length sign))) r
      (emits e (sign @ ds @ replicate (nat (fst (put_sign e sign n r))) 0x20) r)"
    using False by (intro prints_behind) (simp_all add: spaces_def)
  then show ?thesis using put_sign_emits(1) [OF assms] by (simp add: pad_emits emits_append)
qed

lemma print_zeros:
  assumes "length sign \<le> 1"
  shows "prints e (sign @ replicate (nat (n - int (length sign))) c @ ds) r
    (snd (pad e 0x20 (fst (pad e c (fst (put_sign e sign n r)) (snd (put_sign e sign n r))))
      (emits e ds (snd (pad e c (fst (put_sign e sign n r)) (snd (put_sign e sign n r)))))))"
proof (cases "sign = [] \<or> fits e (fst r)")
  case True
  then show ?thesis using put_sign_emits [OF assms] by (simp add: pad_emits emits_append [symmetric] prints_emits)
next
  case False
  have "nat (n - int (length sign)) \<le> nat (fst (put_sign e sign n r))" using put_sign_emits(4) [OF assms, of n e r] by simp
  then have "prints e (sign @ replicate (nat (n - int (length sign))) c @ ds) r
      (emits e (sign @ replicate (nat (fst (put_sign e sign n r))) c @ ds) r)"
    using False by (intro prints_behind) simp_all
  then show ?thesis using put_sign_emits(1) [OF assms] by (simp add: pad_emits emits_append)
qed

lemma print_spaces:
  assumes "length sign \<le> 1" "r1 = snd (pad e 0x20 n r)" "n1 = fst (pad e 0x20 n r)"
  shows "snd (pad e 0x20 (fst (pad e 0x20 (fst (put_sign e sign n1 r1)) (snd (put_sign e sign n1 r1))))
      (emits e ds (snd (pad e 0x20 (fst (put_sign e sign n1 r1)) (snd (put_sign e sign n1 r1)))))) = emits e (spaces n @ sign @ ds) r"
proof -
  have "n1 < 0" by (simp add: assms(3) pad_emits)
  then have "fst (put_sign e sign n1 r1) < 0" using put_sign_emits(2) [OF assms(1), of e n1 r1] by simp
  then show ?thesis using put_sign_emits(1) [OF assms(1)] by (simp add: pad_emits emits_append assms(2) spaces_def)
qed

text \<open>The flags are bits.\<close>

lemma flag_bits:
  "type AND ZEROPAD = 0 \<longleftrightarrow> \<not> bit type 0" "type AND SIGN = 0 \<longleftrightarrow> \<not> bit type 1" "type AND PLUS = 0 \<longleftrightarrow> \<not> bit type 2"
  "type AND SPACE = 0 \<longleftrightarrow> \<not> bit type 3" "type AND LEFT = 0 \<longleftrightarrow> \<not> bit type 4" "type AND LARGE = 0 \<longleftrightarrow> \<not> bit type 6"
  "type AND (ZEROPAD OR LEFT) = 0 \<longleftrightarrow> \<not> bit type 0 \<and> \<not> bit type 4"
  using and_exp_eq_0_iff_not_bit [of type 0] and_exp_eq_0_iff_not_bit [of type 1] and_exp_eq_0_iff_not_bit [of type 2]
    and_exp_eq_0_iff_not_bit [of type 3] and_exp_eq_0_iff_not_bit [of type 4] and_exp_eq_0_iff_not_bit [of type 6]
  by (simp_all add: ZEROPAD_def SIGN_def PLUS_def SPACE_def LEFT_def LARGE_def or_eq_0_iff bit.conj_disj_distrib del: word_bitwise_1_simps or_numerals)

lemma not_zeropad: "bit (type AND NOT ZEROPAD) n \<longleftrightarrow> bit type n \<and> n \<noteq> 0" for type :: u8
  by (auto simp: ZEROPAD_def bit_simps dest: bit_imp_le_length)

lemma print_number_prints: "prints e (number_text num base w type) r (print_number e num base w type r)"
proof -
  define minus where "minus \<longleftrightarrow> bit type 1 \<and> sint num < 0"
  define n where "n = (if minus then - num else num)"
  define sign :: "u8 list" where "sign = (if minus then [0x2d] else if \<not> bit type 1 then [] else if bit type 2 then [0x2b]
    else if bit type 3 then [0x20] else [])"
  define tmp where "tmp = (if n = 0 then [0x30] else number_digits (bit type 6) base n)"
  define free where "free = w - int (length tmp)"
  have sl: "length sign \<le> 1" by (simp add: sign_def)
  have tx: "number_text num base w type =
      (if bit type 4 then sign @ rev tmp @ spaces (free - int (length sign))
       else if bit type 0 then sign @ replicate (nat (free - int (length sign))) 0x30 @ rev tmp else spaces free @ sign @ rev tmp)"
    unfolding number_text_def Let_def flag_bits by (auto simp: minus_def n_def sign_def tmp_def free_def)
  have code: "print_number e num base w type r =
      (let (k, q) = (if \<not> bit type 0 \<and> \<not> bit type 4 then pad e 0x20 free r else (free, r));
           (k, q) = put_sign e sign k q;
           (k, q) = (if bit type 4 then (k, q) else pad e (if bit type 0 then 0x30 else 0x20) k q)
       in snd (pad e 0x20 k (emits e (rev tmp) q)))"
    unfolding print_number_def flag_bits not_zeropad
    by (auto simp: Let_def minus_def n_def sign_def tmp_def free_def put_sign_def flag_bits not_zeropad case_prod_beta)
  show ?thesis
  proof (cases "bit type 4")
    case True
    then show ?thesis unfolding tx code using print_left [where e = e and ds = "rev tmp" and n = free and r = r, OF sl] by (simp add: case_prod_beta)
  next
    case l: False
    show ?thesis
    proof (cases "bit type 0")
      case True
      then show ?thesis using l unfolding tx code using print_zeros [where e = e and c = "0x30" and ds = "rev tmp" and n = free and r = r, OF sl] by (simp add: case_prod_beta)
    next
      case False
      then show ?thesis using l unfolding tx code
        using print_spaces [where e = e and n = free and r = r and ds = "rev tmp", OF sl refl refl] by (simp add: case_prod_beta prints_emits)
    qed
  qed
qed

lemma print_spec_prints: "prints e (spec_text sp) r (print_spec e sp r)"
proof (cases sp)
  case (Char c f w)
  have "emit e c q = emits e [c] q" for q by simp
  then show ?thesis unfolding Char
    by (auto simp: pad_char_def case_prod_beta pad_emits spaces_def emits_append [symmetric] prints_emits simp del: emits.simps)
next
  case (Text s f w)
  then show ?thesis
    by (auto simp: pad_text_def case_prod_beta pad_emits spaces_def emits_append [symmetric] prints_emits)
qed (simp_all add: prints_emits print_number_prints)

lemma format_loop_prints:
  "case format_text cs args of None \<Rightarrow> format_loop e cs args r = None
   | Some xs \<Rightarrow> \<exists>r'. format_loop e cs args r = Some r' \<and> prints e xs r r'"
proof (induction e cs args r rule: format_loop.induct)
  case (1 e args r)
  then show ?case using prints_emits [of e "[]" r] by simp
next
  case (2 e c cs args r)
  show ?case
  proof (cases "c = 0x25")
    case False
    have "prints e [c] r (emit e c r)" using prints_emits [of e "[c]" r] by simp
    then show ?thesis using 2(1) [OF False] False prints_trans [of e "[c]" r "emit e c r"] by (fastforce split: option.splits)
  next
    case True
    show ?thesis
    proof (cases "parse cs args")
      case (Some p)
      obtain sp cs' args' where p: "p = (sp, cs', args')" by (metis prod_cases3)
      have "\<not> c \<noteq> 0x25" using True by simp
      from 2(2) [OF this Some p [symmetric] refl] show ?thesis
        using True Some p prints_trans [OF print_spec_prints [of e sp r]] by (auto split: option.splits)
    qed (simp add: True)
  qed
qed

section \<open>The buffer\<close>

lemma buffer_end_in: "0 < sz \<Longrightarrow> unat buf + unat sz \<le> 4294967296 \<Longrightarrow> buffer_end buf sz = unat sz - 1"
proof -
  assume sz: "0 < sz" and le: "unat buf + unat sz \<le> 4294967296"
  have s: "unat (sz - 1) = unat sz - 1" "1 \<le> unat sz" using sz by (auto simp: unat_sub word_less_nat_alt word_le_nat_alt)
  have "unat (buf + (sz - 1)) = unat buf + (unat sz - 1)" using s le by (simp add: unat_word_ariths)
  then have "\<not> buf + (sz - 1) < buf" by (simp only: word_less_nat_alt) 
  then have "\<not> buf + sz - 1 < buf" by (simp only: add_diff_eq simp_thms)
  moreover have "buf + sz - 1 - buf = sz - 1" by simp
  ultimately show ?thesis using s by (simp add: buffer_end_def Let_def)
qed

text \<open>The text, cut to the buffer and ended by a zero.\<close>

definition in_buffer :: "nat \<Rightarrow> u8 list \<Rightarrow> (nat \<Rightarrow> u8) \<Rightarrow> nat \<Rightarrow> u8" where
  "in_buffer l xs m = (\<lambda>i. if i < min (length xs) l then xs ! i else if i = min (length xs) l then 0 else m i)"

lemma vsnprintf_stored:
  assumes "format_text fmt args = Some xs"
  shows "\<exists>n. vsnprintf buf sz fmt args m = Some (n, in_buffer (buffer_end buf sz) xs m)
    \<and> length xs \<le> n \<and> (length xs \<le> buffer_end buf sz \<longrightarrow> n = length xs)"
proof -
  let ?e = "buffer_end buf sz"
  obtain n m' where f: "format_loop ?e fmt args (0, m) = Some (n, m')" and p: "prints ?e xs (0, m) (n, m')"
    using format_loop_prints [where cs = fmt and args = args and e = ?e and r = "(0, m)"] assms by auto
  have m': "m' = (\<lambda>i. if i < length xs \<and> i \<le> ?e then xs ! i else m i)" and n: "length xs \<le> n" "length xs \<le> ?e \<Longrightarrow> n = length xs"
    using p by (auto simp: prints_def emits_snd fits_def)
  have "(if fits ?e n then m'(n := 0) else m'(?e := 0)) = in_buffer ?e xs m"
  proof (cases "length xs \<le> ?e")
    case True
    then show ?thesis using n by (auto simp: m' in_buffer_def fits_def fun_eq_iff)
  next
    case False
    then have "min (length xs) ?e = ?e" by simp
    then show ?thesis using False n by (auto simp: m' in_buffer_def fits_def fun_eq_iff)
  qed
  then show ?thesis using f n by (simp add: vsnprintf_def)
qed

lemma vsnprintf_none: "format_text fmt args = None \<Longrightarrow> vsnprintf buf sz fmt args m = None"
  using format_loop_prints [where cs = fmt and args = args and e = "buffer_end buf sz" and r = "(0, m)"] by (simp add: vsnprintf_def)

section \<open>Reading numbers back\<close>

lemma skip_atoi_append: "\<forall>c\<in>set xs. isdigit c \<Longrightarrow> skip_atoi i (xs @ ys) = skip_atoi (fst (skip_atoi i xs)) ys"
  by (induction xs arbitrary: i) auto

lemma digit_cases: "d < 10 \<Longrightarrow> d \<in> {0, 1, 2, 3, 4, 5, 6, 7, 8, 9}" for d :: u32
  by (simp add: word_less_nat_alt word_unat_eq_iff) presburger

lemma digit_isdigit: "d < 10 \<Longrightarrow> isdigit (digit large d)"
  by (drule digit_cases) (auto simp: isdigit_def digit_def)

lemma digit_value: "d < 10 \<Longrightarrow> uint (digit large d) = uint d + 48"
  by (drule digit_cases) (auto simp: digit_def)

lemma number_digits_decimal: "\<forall>c\<in>set (number_digits large 10 n). isdigit c"
proof (induction large "10 :: u32" n rule: number_digits.induct)
  case (1 large n)
  then show ?case
    by (subst number_digits.simps) (auto simp: divide_def intro!: digit_isdigit word_mod_less_divisor)
qed

lemma number_digits_value: "skip_atoi 0 (rev (number_digits large 10 n)) = (uint n, [])"
proof (induction large "10 :: u32" n rule: number_digits.induct)
  case (1 large n)
  show ?case
  proof (cases "n = 0")
    case True
    then show ?thesis by (simp add: number_digits.simps)
  next
    case False
    have d: "n mod 10 < 10" by (rule word_mod_less_divisor) simp
    have "skip_atoi 0 (rev (number_digits large 10 n)) = skip_atoi (uint (n div 10)) [digit large (n mod 10)]"
      using False 1 number_digits_decimal [of large "n div 10"]
      by (subst number_digits.simps) (simp add: divide_def skip_atoi_append)
    then show ?thesis
      using digit_isdigit [OF d, of large] digit_value [OF d, of large] by (simp add: uint_div uint_mod)
  qed
qed

lemma number_digits_length: "unat n < 10 ^ k \<Longrightarrow> length (number_digits large 10 n) \<le> k"
proof (induction k arbitrary: n)
  case 0
  then show ?case by (simp add: number_digits.simps unat_eq_0)
next
  case (Suc k)
  then have "unat (n div 10) < 10 ^ k" by (simp add: unat_div)
  from Suc.IH [OF this] show ?case by (subst number_digits.simps) (simp add: divide_def)
qed

end
