(* ===== verification/Rt_Library.thy ===== *)
theory Rt_Library
  imports Rt_Print
begin

text \<open>
  What the kernel's library functions do, on every input: memory filled and copied, strings searched,
  numbers and texts printed into a buffer and sent to the console.
\<close>

section \<open>Memory\<close>

lemma set_bytes_fun: "n \<le> 4294967296 \<Longrightarrow> set_bytes n d a m = (\<lambda>x. if unat (x - a) < n then d else m x)"
proof (induction n arbitrary: a m)
  case (Suc n)
  have "(if unat (x - (a + 1)) < n then d else (m(a := d)) x) = (if unat (x - a) < Suc n then d else m x)" for x
  proof (cases "x = a")
    case False
    then have "unat (x - a - 1) = unat (x - a) - 1" "0 < unat (x - a)" by (simp_all add: unat_pred unat_gt_0)
    then show ?thesis using False by (auto simp: diff_diff_eq [symmetric])
  qed auto
  then show ?case using Suc by (simp add: fun_eq_iff)
qed simp

text \<open>C28: Filling memory sets exactly the given number of bytes from the address on, for every address, value and
  count; copying is the copying of single bytes in ascending order, also where the areas overlap, although
  both work on words and blocks of words when the addresses are aligned.
\<close>

theorem memset_memcpy_exact:
  "rt_memset s c count m = (\<lambda>x. if x - s < count then ucast c else m x) \<and> rt_memcpy d s count m = copy_bytes (unat count) d s m"
proof -
  have "unat count < 4294967296" using unsigned_less [of count, where 'a = nat] by simp
  then have "unat count \<le> 4294967296" by simp
  moreover have "(ucast (c AND 0xff) :: u8) = ucast c"
  proof -
    have m: "(0xff :: u32) = mask 8" by (simp add: mask_eq_exp_minus_1)
    show ?thesis unfolding m by (rule bit_word_eqI) (auto simp: bit_simps)
  qed
  ultimately show ?thesis by (simp add: memset_bytes memcpy_bytes set_bytes_fun word_less_nat_alt)
qed

text \<open>C29: Moving memory puts into the target what the source held before, also where they overlap, and changes
  nothing else, for areas that do not go round the end of the memory.
\<close>

theorem memmove_exact:
  assumes "unat dest + unat n < 4294967296" "unat src + unat n < 4294967296"
  shows "rt_memmove dest src n m = (\<lambda>x. if x - dest < n then m (src + (x - dest)) else m x)"
  using memmove_moved [OF assms] by (simp add: moved_def word_less_nat_alt)

theorem memmove_exact_witness: "rt_memmove 0x102 0x100 4 (\<lambda>x. ucast x) 0x105 = 3"
  using memmove_exact [of "0x102" 4 "0x100" "\<lambda>x. ucast x"] by simp

text \<open>\<open>rt_strstr\<close> returns the address of the first place where the searched string begins, and the null pointer
  if there is none.
\<close>

theorem strstr_first:
  assumes "str_at m a xs" "str_at m c ys" "length xs < 2147483648" "length ys < 2147483648"
  shows "rt_strstr m a c = Some (if \<exists>i\<le>length xs. begins (drop i xs) ys then a + of_nat (LEAST i. begins (drop i xs) ys) else 0)"
proof -
  have "rt_strstr m a c = Some (case first_at xs ys of None \<Rightarrow> 0 | Some i \<Rightarrow> a + of_nat i)"
  proof (cases "ys = []")
    case True
    then show ?thesis using strlen_at [OF assms(2)] by (cases xs) (simp_all add: rt_strstr_def begins_def)
  next
    case False
    have "unat (of_nat (length xs) :: u32) = length xs" "unat (of_nat (length ys) :: u32) = length ys"
      using assms(3,4) by (simp_all add: unat_of_nat)
    moreover from this(2) have "(of_nat (length ys) :: u32) \<noteq> 0" using False by (auto simp: word_unat_eq_iff)
    ultimately show ?thesis
      using strlen_at [OF assms(1)] strlen_at [OF assms(2)] strstr_loop_first [OF assms(2) False assms(1)] by (simp add: rt_strstr_def)
  qed
  then show ?thesis unfolding first_at_least by (auto split: if_split_asm)
qed

theorem strstr_first_witness:
  "\<exists>m. rt_strstr m 0x100 0x200 = Some 0x101"
proof -
  let ?m = "(\<lambda>_. 0)(0x100 := 7, 0x101 := 8, 0x102 := 8, 0x200 := 8)"
  have "(LEAST i. begins (drop i [7, 8, 8]) [8]) = 1"
    by (rule Least_equality) (auto simp: begins_def numeral_eq_Suc not_less_eq_eq [symmetric] intro: ccontr)
  moreover have "\<exists>i\<le>length [7, 8, 8 :: u8]. begins (drop i [7, 8, 8]) [8]"
    by (rule exI [of _ 1]) (simp add: begins_def)
  ultimately have "rt_strstr ?m 0x100 0x200 = Some 0x101"
    using strstr_first [of ?m "0x100" "[7, 8, 8]" "0x200" "[8]"] by simp
  then show ?thesis by blast
qed

section \<open>Formatted output\<close>

text \<open>C30: \<open>rt_snprintf\<close> stores the text of its format, cut to the size of the buffer less one and always ended by a
  zero, and changes nothing behind it; when the text fits it returns its length, and otherwise at least that.
\<close>

theorem snprintf_text:
  assumes "0 < sz" "unat buf + unat sz \<le> 4294967296" "format_text fmt args = Some xs"
  shows "\<exists>n m'. rt_snprintf buf sz fmt args m = Some (n, m') \<and> length xs \<le> n \<and> (length xs < unat sz \<longrightarrow> n = length xs)
    \<and> (\<forall>i < min (length xs) (unat sz - 1). m' i = xs ! i) \<and> m' (min (length xs) (unat sz - 1)) = 0
    \<and> (\<forall>i > min (length xs) (unat sz - 1). m' i = m i)"
proof -
  have e: "buffer_end buf sz = unat sz - 1" by (rule buffer_end_in [OF assms(1,2)])
  have "0 < unat sz" using assms(1) by (simp add: word_less_nat_alt)
  then show ?thesis using vsnprintf_stored [OF assms(3), of buf sz m] unfolding e rt_snprintf_def by (fastforce simp: in_buffer_def)
qed

theorem snprintf_text_witness:
  "\<exists>n m'. rt_snprintf 0x20000000 4 [0x25, 0x35, 0x73] [Str_arg (Some [0x41, 0x42])] (\<lambda>_. 7) = Some (n, m') \<and> 5 \<le> n \<and> m' 0 = 0x20 \<and> m' 3 = 0 \<and> m' 4 = 7"
proof -
  have t: "format_text [0x25, 0x35, 0x73] [Str_arg (Some [0x41, 0x42])] = Some [0x20, 0x20, 0x20, 0x41, 0x42]"
    by (simp add: parse_def get_qualifier_def spaces_def isdigit_def LEFT_def numeral_3_eq_3)
  have s: "(0 :: u32) < 4" "unat (0x20000000 :: u32) + unat (4 :: u32) \<le> 4294967296" by simp_all
  have n: "min (length [0x20, 0x20, 0x20, 0x41, 0x42 :: u8]) (unat (4 :: u32) - 1) = 3" by simp
  obtain n m' where "rt_snprintf 0x20000000 4 [0x25, 0x35, 0x73] [Str_arg (Some [0x41, 0x42])] (\<lambda>_. 7) = Some (n, m')" "5 \<le> n"
    and c: "\<forall>i<3. m' i = [0x20, 0x20, 0x20, 0x41, 0x42] ! i" "m' 3 = 0" "\<forall>i>3. m' i = 7"
    using snprintf_text [OF s t, of "\<lambda>_. 7"] unfolding n by auto
  moreover have "m' 0 = 0x20" using spec [OF c(1), of 0] by simp
  moreover have "m' 4 = 7" using spec [OF c(3), of 4] by simp
  ultimately show ?thesis using c(2) by blast
qed






text \<open>C32: \<open>rt_kprintf\<close> of a text of 128 characters or more hands more bytes to the console than its buffer holds: the
  first 127 characters, a zero, and then what lies behind the buffer.
\<close>

theorem kprintf_overrun:
  assumes "format_text fmt args = Some xs" "128 \<le> length xs" "unat buf + 128 \<le> 4294967296"
  shows "\<exists>out m'. rt_kprintf buf fmt args m = Some (out, m') \<and> length xs \<le> length out \<and> take 127 out = take 127 xs
    \<and> out ! 127 = 0 \<and> drop 128 out = List.map m [128..<length out]"
proof -
  have e: "buffer_end buf 128 = 127" using buffer_end_in [of 128 buf] assms(3) by simp
  obtain n where n: "vsnprintf buf 128 fmt args m = Some (n, in_buffer 127 xs m)" "length xs \<le> n"
    using vsnprintf_stored [OF assms(1), of buf 128 m] unfolding e by blast
  let ?out = "List.map (in_buffer 127 xs m) [0..<n]"
  have "take 127 ?out = take 127 xs" using n(2) assms(2) by (intro nth_equalityI) (auto simp: in_buffer_def)
  moreover have "?out ! 127 = 0" using n(2) assms(2) by (simp add: in_buffer_def)
  moreover have "drop 128 ?out = List.map m [128..<n]" using n(2) assms(2) by (intro nth_equalityI) (auto simp: in_buffer_def)
  ultimately show ?thesis using n by (simp add: rt_kprintf_def)
qed

theorem kprintf_overrun_witness:
  "\<exists>out m'. rt_kprintf 0x20000000 (replicate 130 0x41) [] (\<lambda>_. 7) = Some (out, m') \<and> drop 128 out = List.map (\<lambda>_. 7) [128..<length out] \<and> 130 \<le> length out"
proof -
  have "format_text (replicate n 0x41) [] = Some (replicate n 0x41)" for n by (induction n) simp_all
  from kprintf_overrun [OF this, of 130 "0x20000000" "\<lambda>_. 7"] show ?thesis by auto
qed

end
