(* ===== verification/Rt_Object.thy ===== *)
theory Rt_Object
  imports Rt_Service Rt_Heap Rt_Sched
begin

text \<open>
  The registry of kernel objects (\<open>object.c\<close>): one list of objects per class, newest first, in which objects
  are found by name. The header of an object lies in memory at its address: the name in eight bytes, then
  the class, marked when the object is static, then the flag. Objects that are allocated lie in blocks of the
  heap. The sizes of the classes are fields of the state, as they are in the containers of the code. The hooks are not
  set; the class \<open>Unknown\<close> is the number of containers, and a container behind them has no value.
\<close>

section \<open>State and operations\<close>

record registry =
  rg_kernel :: kernel
  rg_mem :: memory
  rg_lists :: "nat \<Rightarrow> u32 list"
  rg_size :: "nat \<Rightarrow> u32"
  rg_heap :: heap
  rg_heap_ptr :: u32

definition RT_Object_Class_Device :: u8 where "RT_Object_Class_Device = 7"
definition RT_Object_Class_Unknown :: u8 where "RT_Object_Class_Unknown = 9"
definition RT_Object_Class_Static :: u8 where "RT_Object_Class_Static = 0x80"

abbreviation (input) RT_NAME_MAX :: nat where "RT_NAME_MAX \<equiv> 8"

definition object_type :: "memory \<Rightarrow> u32 \<Rightarrow> u8" where
  "object_type m obj = m (obj + 8)"

definition link_object :: "u8 \<Rightarrow> u32 \<Rightarrow> registry \<Rightarrow> registry" where
  "link_object type obj s = s\<lparr>rg_lists := (rg_lists s)(unat type := obj # rg_lists s (unat type))\<rparr>"

definition unlink_object :: "u32 \<Rightarrow> registry \<Rightarrow> registry" where
  "unlink_object obj s = s\<lparr>rg_lists := (\<lambda>c. removeAll obj (rg_lists s c))\<rparr>"

definition rt_object_init :: "u32 \<Rightarrow> u8 \<Rightarrow> u32 \<Rightarrow> registry \<Rightarrow> registry option" where
  "rt_object_init obj type name s = do {
     rt_assert (type < RT_Object_Class_Unknown);
     let m = (rg_mem s)(obj + 8 := type OR RT_Object_Class_Static);
     let m = rt_strncpy obj name 8 m;
     Some (link_object type obj (s\<lparr>rg_mem := m\<rparr>)) }"

definition rt_object_detach :: "u32 \<Rightarrow> registry \<Rightarrow> registry option" where
  "rt_object_detach obj s = do { rt_assert (obj \<noteq> 0); Some (unlink_object obj s) }"

text \<open>Address 0 is the null pointer.\<close>

definition rt_object_allocate :: "u8 \<Rightarrow> u32 \<Rightarrow> registry \<Rightarrow> (u32 \<times> registry) option" where
  "rt_object_allocate type name s = do {
     not_in_interrupt (rg_kernel s);
     rt_assert (type < RT_Object_Class_Unknown);
     (p, h) \<leftarrow> rt_malloc (rg_size s (unat type)) (rg_heap s);
     let s = s\<lparr>rg_heap := h\<rparr>;
     case p of None \<Rightarrow> Some (0, s)
     | Some d \<Rightarrow> do {
         let obj = rg_heap_ptr s + of_nat d;
         let m = (rg_mem s)(obj + 8 := type, obj + 9 := 0);
         let m = rt_strncpy obj name 8 m;
         Some (obj, link_object type obj (s\<lparr>rg_mem := m\<rparr>)) } }"

definition rt_object_delete :: "u32 \<Rightarrow> registry \<Rightarrow> registry option" where
  "rt_object_delete obj s = do {
     rt_assert (obj \<noteq> 0);
     rt_assert (object_type (rg_mem s) obj AND RT_Object_Class_Static = 0);
     let s = unlink_object obj s;
     h \<leftarrow> rt_free (Some (unat (obj - rg_heap_ptr s))) (rg_heap s);
     Some (s\<lparr>rg_heap := h\<rparr>) }"

definition rt_object_is_systemobject :: "u32 \<Rightarrow> registry \<Rightarrow> int option" where
  "rt_object_is_systemobject obj s = do {
     rt_assert (obj \<noteq> 0);
     Some (if object_type (rg_mem s) obj AND RT_Object_Class_Static \<noteq> 0 then RT_EOK else - RT_ERROR) }"

text \<open>The walk along a container.\<close>

primrec find_object :: "memory \<Rightarrow> u32 \<Rightarrow> u32 list \<Rightarrow> u32" where
  "find_object m name [] = 0"
| "find_object m name (obj # objs) = (if rt_strncmp m obj name RT_NAME_MAX = 0 then obj else find_object m name objs)"

definition rt_object_find :: "u32 \<Rightarrow> u8 \<Rightarrow> registry \<Rightarrow> (u32 \<times> registry) option" where
  "rt_object_find name type s =
     (if name = 0 \<or> RT_Object_Class_Unknown < type then Some (0, s)
      else do {
        rt_assert (k_interrupt_nest (rg_kernel s) = 0);
        let k = rt_enter_critical (rg_kernel s);
        rt_assert (type < RT_Object_Class_Unknown);
        let obj = find_object (rg_mem s) name (rg_lists s (unat type));
        k \<leftarrow> rt_exit_critical k;
        Some (obj, s\<lparr>rg_kernel := k\<rparr>) })"

section \<open>Names\<close>

text \<open>The name at an address: what is there before a zero, at most as many characters as there is room for.\<close>

primrec name_at :: "nat \<Rightarrow> memory \<Rightarrow> u32 \<Rightarrow> u8 list" where
  "name_at 0 m a = []"
| "name_at (Suc n) m a = (if m a = 0 then [] else m a # name_at n m (a + 1))"

lemma scast_zero: "(scast v :: u32) = 0 \<longleftrightarrow> v = 0" for v :: u8
proof
  assume z: "(scast v :: u32) = 0"
  show "v = 0"
  proof (rule bit_word_eqI)
    fix n assume "n < LENGTH(8)"
    then have "bit v n \<longleftrightarrow> bit (scast v :: u32) n" by (cases "n = 7") (auto simp: bit_simps min_def)
    then show "bit v n \<longleftrightarrow> bit (0 :: u8) n" using z by simp
  qed
qed simp

lemma strncmp_name: "rt_strncmp m a b n = 0 \<longleftrightarrow> name_at n m a = name_at n m b"
proof (induction n arbitrary: a b)
  case (Suc n)
  have "(scast (m a - m b) :: u32) = 0 \<longleftrightarrow> m a = m b" by (simp add: scast_zero)
  then show ?case using Suc by (auto simp: Let_def)
qed simp

lemma find_object_name:
  "find_object m name objs = (case List.find (\<lambda>obj. name_at 8 m obj = name_at 8 m name) objs of None \<Rightarrow> 0 | Some obj \<Rightarrow> obj)"
  by (induction objs) (simp_all add: strncmp_name del: rt_strncmp.simps name_at.simps)

lemma name_at_cong: "\<forall>i<n. m (a + of_nat i) = m' (a + of_nat i) \<Longrightarrow> name_at n m a = name_at n m' a"
proof (induction n arbitrary: a)
  case (Suc n)
  have "m a = m' a" "\<forall>i<n. m (a + 1 + of_nat i) = m' (a + 1 + of_nat i)"
    using Suc.prems by (simp_all add: All_less_Suc2 add.assoc)
  then show ?case using Suc.IH by simp
qed simp

text \<open>A distance that goes round the end of the memory.\<close>

lemma far_next: "Suc n \<le> unat (x - a) \<Longrightarrow> x \<noteq> a \<and> n \<le> unat (x - (a + 1))" for x :: u32
proof -
  assume l: "Suc n \<le> unat (x - a)"
  then have "x - a \<noteq> 0" by auto
  then have "unat (x - a - 1) = unat (x - a) - 1" by (rule unat_pred)
  then show ?thesis using l \<open>x - a \<noteq> 0\<close> by (auto simp: diff_diff_eq)
qed

lemma far_front: "n < 4294967296 \<Longrightarrow> n \<le> unat (a - (a + 1))" for a :: u32
proof -
  have "unat (- 1 :: u32) = 4294967295" by (simp add: unsigned_minus_1_eq_mask mask_eq_exp_minus_1)
  then show "n < 4294967296 \<Longrightarrow> ?thesis" by simp
qed

lemma set_bytes_other: "n \<le> unat (x - a) \<Longrightarrow> set_bytes n d a m x = m x"
proof (induction n arbitrary: a m)
  case (Suc n)
  then have "x \<noteq> a" "n \<le> unat (x - (a + 1))" using far_next [of n x a] by auto
  then show ?case by (simp add: Suc.IH)
qed simp

lemma strncpy_other: "n \<le> unat (x - d) \<Longrightarrow> strncpy_loop n d s m x = m x"
proof (induction n arbitrary: d s m)
  case (Suc n)
  then have "x \<noteq> d" "n \<le> unat (x - (d + 1))" using far_next [of n x d] by auto
  then show ?case using Suc.IH by (simp add: Let_def set_bytes_other)
qed simp

lemma strncpy_name:
  "\<forall>i<n. \<forall>j<n. d + of_nat i \<noteq> s + of_nat j \<Longrightarrow> n < 4294967296 \<Longrightarrow> name_at n (strncpy_loop n d s m) d = name_at n m s"
proof (induction n arbitrary: d s m)
  case (Suc n)
  have far: "n \<le> unat (d - (d + 1))" using Suc.prems(2) by (intro far_front) simp
  let ?m = "m(d := m s)"
  have d: "strncpy_loop n (d + 1) (s + 1) ?m d = m s"
    using strncpy_other [OF far, of "s + 1" ?m] by simp
  have ih: "name_at n (strncpy_loop n (d + 1) (s + 1) ?m) (d + 1) = name_at n ?m (s + 1)"
  proof (rule Suc.IH)
    show "\<forall>i<n. \<forall>j<n. d + 1 + of_nat i \<noteq> s + 1 + of_nat j"
    proof (intro allI impI)
      fix i j assume "i < n" "j < n"
      then show "d + 1 + of_nat i \<noteq> s + 1 + of_nat j" using Suc.prems(1) [rule_format, of "Suc i" "Suc j"] by (simp add: add.assoc)
    qed
  qed (use Suc.prems(2) in simp)
  have "name_at n ?m (s + 1) = name_at n m (s + 1)"
  proof (rule name_at_cong, intro allI impI)
    fix i assume "i < n"
    then show "?m (s + 1 + of_nat i) = m (s + 1 + of_nat i)" using Suc.prems(1) [rule_format, of 0 "Suc i"] by (simp add: add.assoc)
  qed
  then show ?case using d ih by (simp add: Let_def set_bytes_other [OF far])
qed simp

section \<open>The invariant\<close>

definition bytes_at :: "u32 \<Rightarrow> nat \<Rightarrow> u32 set" where
  "bytes_at a n = {x. unat (x - a) < n}"

definition listed :: "registry \<Rightarrow> u32 set" where
  "listed s = (\<Union>c. set (rg_lists s c))"

text \<open>Static objects lie outside the heap, the others in blocks of it.\<close>

definition placed :: "registry \<Rightarrow> u32 \<Rightarrow> bool" where
  "placed s obj \<longleftrightarrow>
     (if object_type (rg_mem s) obj AND RT_Object_Class_Static \<noteq> 0
      then \<forall>x\<in>bytes_at obj 10. heap_end (rg_heap s) \<le> unat (x - rg_heap_ptr s)
      else \<exists>d\<in>heap_live (rg_heap s). obj = rg_heap_ptr s + of_nat d \<and> 10 \<le> card (heap_region (rg_heap s) d))"

definition object_ok :: "registry \<Rightarrow> nat \<Rightarrow> u32 \<Rightarrow> bool" where
  "object_ok s c obj \<longleftrightarrow> obj \<noteq> 0 \<and> object_type (rg_mem s) obj AND 0x7f = of_nat c \<and> placed s obj"

definition apart :: "u32 \<Rightarrow> u32 \<Rightarrow> bool" where
  "apart a b \<longleftrightarrow> bytes_at a 10 \<inter> bytes_at b 10 = {}"

definition memory_fits :: "registry \<Rightarrow> bool" where
  "memory_fits s \<longleftrightarrow> heap_ok (rg_heap s) \<and> unat (rg_heap_ptr s) + heap_end (rg_heap s) \<le> 4294967296
     \<and> (\<forall>c<9. 10 \<le> unat (rg_size s c) \<and> unat (rg_size s c) \<le> 4096)"

definition reg_ok :: "registry \<Rightarrow> bool" where
  "reg_ok s \<longleftrightarrow> memory_fits s \<and> (\<forall>c. distinct (rg_lists s c)) \<and> (\<forall>c. \<forall>obj\<in>set (rg_lists s c). c < 9 \<and> object_ok s c obj)
     \<and> (\<forall>a\<in>listed s. \<forall>b\<in>listed s. a \<noteq> b \<longrightarrow> apart a b)"

text \<open>The container of a class as a list of names and objects.\<close>

definition entries :: "nat \<Rightarrow> registry \<Rightarrow> (u8 list \<times> u32) list" where
  "entries c s = List.map (\<lambda>obj. (name_at 8 (rg_mem s) obj, obj)) (rg_lists s c)"

lemma bytes_at_of_nat: "i < n \<Longrightarrow> n < 4294967296 \<Longrightarrow> a + of_nat i \<in> bytes_at a n"
  by (simp add: bytes_at_def unat_of_nat)

lemma bytes_at_self: "0 < n \<Longrightarrow> a \<in> bytes_at a n"
  by (simp add: bytes_at_def)

lemma apart_sym: "apart a b = apart b a"
  by (auto simp: apart_def)

lemma apart_neq: "apart a b \<Longrightarrow> a \<noteq> b"
  using bytes_at_self [of 10 a] by (auto simp: apart_def)

text \<open>A memory changed only in one object leaves the others as they are.\<close>

definition changed_in :: "u32 \<Rightarrow> memory \<Rightarrow> memory \<Rightarrow> bool" where
  "changed_in obj m m' \<longleftrightarrow> (\<forall>x. x \<notin> bytes_at obj 10 \<longrightarrow> m' x = m x)"

lemma changed_in_other:
  assumes "changed_in obj m m'" "apart a obj"
  shows "name_at 8 m' a = name_at 8 m a" "object_type m' a = object_type m a"
proof -
  have same: "m' (a + of_nat i) = m (a + of_nat i)" if "i < 10" for i
    using assms bytes_at_of_nat [of i 10 a] that by (auto simp: changed_in_def apart_def)
  show "name_at 8 m' a = name_at 8 m a" by (rule name_at_cong) (use same in simp)
  show "object_type m' a = object_type m a" using same [of 8] by (simp add: object_type_def)
qed

lemma in_listed: "obj \<in> set (rg_lists s c) \<Longrightarrow> obj \<in> listed s"
  by (auto simp: listed_def)

lemma link_ok:
  assumes ok: "reg_ok s" and type: "type < RT_Object_Class_Unknown" and new: "\<forall>a\<in>listed s. apart a obj"
    and m: "changed_in obj (rg_mem s) m'" and obj: "object_ok (s\<lparr>rg_mem := m'\<rparr>) (unat type) obj"
  shows "reg_ok (link_object type obj (s\<lparr>rg_mem := m'\<rparr>))"
    "entries c (link_object type obj (s\<lparr>rg_mem := m'\<rparr>)) = (if c = unat type then [(name_at 8 m' obj, obj)] else []) @ entries c s"
proof -
  let ?s = "link_object type obj (s\<lparr>rg_mem := m'\<rparr>)"
  have t: "unat type < 9" using type by (simp add: RT_Object_Class_Unknown_def word_less_nat_alt)
  have l: "listed ?s = insert obj (listed s)" by (auto simp: listed_def link_object_def split: if_split_asm)
  have same: "object_type m' a = object_type (rg_mem s) a" "name_at 8 m' a = name_at 8 (rg_mem s) a" if "a \<in> listed s" for a
    using changed_in_other [OF m] new that by auto
  have old: "object_ok ?s k a = object_ok s k a" if "a \<in> listed s" for k a
    using same [OF that] by (simp add: object_ok_def placed_def link_object_def)
  have newo: "object_ok ?s (unat type) obj"
    using obj by (cases "object_type m' obj AND RT_Object_Class_Static = 0") (simp_all add: object_ok_def placed_def link_object_def)
  have fresh: "obj \<notin> listed s" using new apart_neq by blast
  show "reg_ok ?s"
    unfolding reg_ok_def
  proof (intro conjI allI ballI impI)
    show "memory_fits ?s" using ok by (simp add: reg_ok_def memory_fits_def link_object_def)
    show "distinct (rg_lists ?s k)" for k
      using ok fresh by (auto simp: reg_ok_def link_object_def in_listed)
    fix k a assume "a \<in> set (rg_lists ?s k)"
    then have "a = obj \<and> k = unat type \<or> a \<in> set (rg_lists s k)" by (auto simp: link_object_def split: if_split_asm)
    then show "k < 9" "object_ok ?s k a"
      using ok t newo old [OF in_listed] by (auto simp: reg_ok_def)
  next
    fix a b assume "a \<in> listed ?s" "b \<in> listed ?s" "a \<noteq> b"
    then show "apart a b" using new ok unfolding l by (auto simp: reg_ok_def apart_sym)
  qed
  have "List.map (\<lambda>a. (name_at 8 m' a, a)) (rg_lists s c) = entries c s"
    unfolding entries_def using same(2) in_listed by (intro map_cong) auto
  then show "entries c ?s = (if c = unat type then [(name_at 8 m' obj, obj)] else []) @ entries c s"
    by (simp add: entries_def link_object_def del: name_at.simps)
qed

text \<open>What is written into a new object.\<close>

lemma header_written:
  assumes name: "bytes_at name 8 \<inter> bytes_at obj 10 = {}" and m0: "changed_in obj m m0"
  shows "changed_in obj m (rt_strncpy obj name 8 m0)" "name_at 8 (rt_strncpy obj name 8 m0) obj = name_at 8 m name"
    "object_type (rt_strncpy obj name 8 m0) obj = object_type m0 obj"
proof -
  have l: "rt_strncpy obj name 8 m0 = strncpy_loop 8 obj name m0" by (simp add: rt_strncpy_def)
  have other: "strncpy_loop 8 obj name m0 x = m0 x" if "8 \<le> unat (x - obj)" for x using that by (rule strncpy_other)
  show "changed_in obj m (rt_strncpy obj name 8 m0)"
    using m0 other unfolding l by (auto simp: changed_in_def bytes_at_def)
  show "object_type (rt_strncpy obj name 8 m0) obj = object_type m0 obj"
    unfolding l object_type_def by (rule other) simp
  have "obj + of_nat i \<noteq> name + of_nat j" if "i < 8" "j < 8" for i j
    using name bytes_at_of_nat [of i 10 obj] bytes_at_of_nat [of j 8 name] that by (auto simp: disjoint_iff)
  then have "name_at 8 (strncpy_loop 8 obj name m0) obj = name_at 8 m0 name" by (intro strncpy_name) auto
  moreover have "name_at 8 m0 name = name_at 8 m name"
  proof (rule name_at_cong, intro allI impI)
    fix i :: nat assume "i < 8"
    then have "name + of_nat i \<notin> bytes_at obj 10" using name bytes_at_of_nat [of i 8 name] by auto
    then show "m0 (name + of_nat i) = m (name + of_nat i)" using m0 by (simp add: changed_in_def)
  qed
  ultimately show "name_at 8 (rt_strncpy obj name 8 m0) obj = name_at 8 m name" unfolding l by simp
qed

lemma class_bits:
  "type < RT_Object_Class_Unknown \<Longrightarrow> type AND 0x7f = type \<and> type AND RT_Object_Class_Static = 0
     \<and> (type OR RT_Object_Class_Static) AND 0x7f = type \<and> (type OR RT_Object_Class_Static) AND RT_Object_Class_Static \<noteq> 0"
proof -
  assume "type < RT_Object_Class_Unknown"
  then have "type \<in> {0, 1, 2, 3, 4, 5, 6, 7, 8}"
    by (simp add: RT_Object_Class_Unknown_def word_less_nat_alt word_unat_eq_iff) presburger
  then show ?thesis by (auto simp: RT_Object_Class_Static_def)
qed

section \<open>Every operation keeps it\<close>

definition fresh_object :: "u32 \<Rightarrow> u32 \<Rightarrow> registry \<Rightarrow> bool" where
  "fresh_object obj name s \<longleftrightarrow> obj \<noteq> 0 \<and> (\<forall>x\<in>bytes_at obj 10. heap_end (rg_heap s) \<le> unat (x - rg_heap_ptr s))
     \<and> (\<forall>a\<in>listed s. apart a obj) \<and> bytes_at name 8 \<inter> bytes_at obj 10 = {}"

lemma object_init_ok:
  assumes "reg_ok s" "type < RT_Object_Class_Unknown" "fresh_object obj name s"
  shows "\<exists>s'. rt_object_init obj type name s = Some s' \<and> reg_ok s' \<and> rg_kernel s' = rg_kernel s \<and> rg_heap s' = rg_heap s
    \<and> (\<forall>c. entries c s' = (if c = unat type then [(name_at 8 (rg_mem s) name, obj)] else []) @ entries c s)"
proof -
  let ?hdr = "(rg_mem s)(obj + 8 := type OR RT_Object_Class_Static)"
  let ?new = "rt_strncpy obj name 8 ?hdr"
  have c0: "changed_in obj (rg_mem s) ?hdr" using bytes_at_of_nat [of 8 10 obj] by (auto simp: changed_in_def)
  have n: "bytes_at name 8 \<inter> bytes_at obj 10 = {}" using assms(3) by (simp add: fresh_object_def)
  note w = header_written [OF n c0]
  have t: "object_type ?new obj = type OR RT_Object_Class_Static" unfolding w(3) by (simp add: object_type_def)
  have "object_ok (s\<lparr>rg_mem := ?new\<rparr>) (unat type) obj"
    using assms(3) class_bits [OF assms(2)] t by (simp add: object_ok_def placed_def fresh_object_def)
  note l = link_ok [OF assms(1,2) _ w(1) this]
  have new: "\<forall>a\<in>listed s. apart a obj" using assms(3) by (simp add: fresh_object_def)
  have "rt_object_init obj type name s = Some (link_object type obj (s\<lparr>rg_mem := ?new\<rparr>))"
    using assms(2) by (simp add: rt_object_init_def Let_def)
  then show ?thesis using l(1) [OF new] l(2) [OF new] unfolding w(2) by (simp add: link_object_def)
qed

lemma unlink_ok: "reg_ok s \<Longrightarrow> reg_ok (unlink_object obj s) \<and> listed (unlink_object obj s) = listed s - {obj}"
proof -
  have o: "object_ok (unlink_object obj s) c a = object_ok s c a" for c a by (simp add: object_ok_def placed_def unlink_object_def)
  have l: "listed (unlink_object obj s) = listed s - {obj}" by (auto simp: listed_def unlink_object_def)
  assume "reg_ok s"
  then have "memory_fits s" "\<forall>c. distinct (rg_lists s c)" "\<forall>c. \<forall>a\<in>set (rg_lists s c). c < 9 \<and> object_ok s c a"
    "\<forall>a\<in>listed s. \<forall>b\<in>listed s. a \<noteq> b \<longrightarrow> apart a b" by (simp_all add: reg_ok_def)
  then show ?thesis unfolding reg_ok_def o l by (auto simp: unlink_object_def distinct_removeAll memory_fits_def)
qed

lemma unlink_entries: "entries c (unlink_object obj s) = filter (\<lambda>e. snd e \<noteq> obj) (entries c s)"
  by (simp add: entries_def unlink_object_def filter_map o_def removeAll_filter_not_eq eq_commute)

lemma object_detach_ok:
  assumes "reg_ok s" "obj \<in> listed s"
  shows "\<exists>s'. rt_object_detach obj s = Some s' \<and> reg_ok s' \<and> rg_kernel s' = rg_kernel s \<and> rg_heap s' = rg_heap s
    \<and> (\<forall>c. entries c s' = filter (\<lambda>e. snd e \<noteq> obj) (entries c s))"
proof -
  have "obj \<noteq> 0" using assms by (auto simp: reg_ok_def listed_def object_ok_def)
  then show ?thesis using unlink_ok [OF assms(1)] unlink_entries [of _ obj s] by (simp add: rt_object_detach_def unlink_object_def)
qed

text \<open>A heap that keeps the blocks of all dynamic objects.\<close>

lemma heap_change_ok:
  assumes "reg_ok s" "heap_ok h" "h_size h = h_size (rg_heap s)"
    and keep: "\<And>obj d. obj \<in> listed s \<Longrightarrow> obj = rg_heap_ptr s + of_nat d \<Longrightarrow> d \<in> heap_live (rg_heap s) \<Longrightarrow>
      d \<in> heap_live h \<and> heap_region h d = heap_region (rg_heap s) d"
  shows "reg_ok (s\<lparr>rg_heap := h\<rparr>)"
proof -
  have e: "heap_end h = heap_end (rg_heap s)" using assms(3) by (simp add: heap_end_def)
  have "object_ok (s\<lparr>rg_heap := h\<rparr>) c obj" if "object_ok s c obj" "obj \<in> listed s" for c obj
    using that keep [OF that(2)] e by (fastforce simp: object_ok_def placed_def split: if_split_asm)
  then show ?thesis using assms(1,2) e in_listed by (auto simp: reg_ok_def memory_fits_def listed_def)
qed

text \<open>A block of the heap as addresses.\<close>

lemma in_block:
  assumes "unat p + heap_end h \<le> 4294967296" "d + n \<le> heap_end h" "x \<in> bytes_at (p + of_nat d) n" "0 < n"
  shows "d \<le> unat (x - p)" "unat (x - p) < d + n"
proof -
  define k where "k = x - (p + of_nat d)"
  have k: "unat k < n" using assms(3) by (simp add: k_def bytes_at_def)
  have "x - p = k + of_nat d" by (simp add: k_def)
  moreover have "unat (of_nat d :: u32) = d" using assms(1,2,4) by (simp add: unat_of_nat)
  moreover have "unat k + d < 4294967296" using k assms(1,2) by linarith
  ultimately have "unat (x - p) = unat k + d" by (simp add: unat_word_ariths)
  then show "d \<le> unat (x - p)" "unat (x - p) < d + n" using k by simp_all
qed

lemma block_region:
  assumes "heap_ok h" "d \<in> heap_live h"
  shows "heap_region h d = {d..<d + card (heap_region h d)}" "d + card (heap_region h d) \<le> heap_end h" "12 \<le> d"
proof -
  have r: "heap_region h d = {d..<hm_next (h_mem h (d - 12))}" by (simp add: heap_region_def)
  have i: "{d - 12..<d} \<union> heap_region h d \<subseteq> {0..<heap_end h}" by (rule heap_inside [OF assms])
  show "12 \<le> d" using assms by (auto simp: heap_live_def)
  then have "d - 1 \<in> {0..<heap_end h}" using i by force
  then have "d \<le> heap_end h" by simp
  moreover have "{d..<hm_next (h_mem h (d - 12))} \<subseteq> {0..<heap_end h}" using i r by simp
  ultimately have b: "hm_next (h_mem h (d - 12)) \<le> heap_end h \<or> hm_next (h_mem h (d - 12)) \<le> d"
    by (metis atLeastLessThan_subset_iff not_le)
  show "heap_region h d = {d..<d + card (heap_region h d)}" unfolding r by auto
  show "d + card (heap_region h d) \<le> heap_end h" using b \<open>d \<le> heap_end h\<close> unfolding r by auto
qed

text \<open>A new block is apart from all objects.\<close>

lemma new_block_apart:
  assumes ok: "reg_ok s" and h: "heap_ok h" "h_size h = h_size (rg_heap s)" and d: "d \<in> heap_live h" "d \<notin> heap_live (rg_heap s)"
    and keep: "\<forall>e\<in>heap_live (rg_heap s). e \<in> heap_live h \<and> heap_region h e = heap_region (rg_heap s) e"
    and n: "10 \<le> card (heap_region h d)" and a: "a \<in> listed s"
  shows "apart a (rg_heap_ptr s + of_nat d)"
proof -
  let ?p = "rg_heap_ptr s"
  have fit: "unat ?p + heap_end h \<le> 4294967296" using ok h(2) by (simp add: reg_ok_def memory_fits_def heap_end_def)
  have in_region: "unat (x - ?p) \<in> heap_region h e" "unat (x - ?p) < heap_end h"
    if "e \<in> heap_live h" "10 \<le> card (heap_region h e)" "x \<in> bytes_at (?p + of_nat e) 10" for e x
  proof -
    note r = block_region [OF h(1) that(1)]
    have "e + 10 \<le> heap_end h" using r(2) that(2) by linarith
    note b = in_block [OF fit this that(3)]
    show "unat (x - ?p) \<in> heap_region h e" using b that(2) by (subst r(1)) simp
    show "unat (x - ?p) < heap_end h" using b(2) \<open>e + 10 \<le> heap_end h\<close> by simp
  qed
  note new = in_region [OF d(1) n]
  have pl: "placed s a" using ok a by (auto simp: reg_ok_def listed_def object_ok_def)
  show ?thesis
  proof (cases "object_type (rg_mem s) a AND RT_Object_Class_Static = 0")
    case False
    then have "\<forall>x\<in>bytes_at a 10. heap_end h \<le> unat (x - ?p)" using pl h(2) by (simp add: placed_def heap_end_def)
    then show ?thesis using new(2) by (fastforce simp: apart_def)
  next
    case True
    then obtain e where e: "e \<in> heap_live (rg_heap s)" "a = ?p + of_nat e" "10 \<le> card (heap_region (rg_heap s) e)"
      using pl by (auto simp: placed_def)
    then have e': "e \<in> heap_live h" "10 \<le> card (heap_region h e)" "e \<noteq> d" using keep d(2) by auto
    note old = in_region(1) [OF e'(1,2), folded e(2)]
    have "heap_region h e \<inter> heap_region h d = {}" using heap_apart [OF h(1) e'(1) d(1) e'(3)] by blast
    then show ?thesis unfolding apart_def using new(1) old by blast
  qed
qed

lemma object_allocate_ok:
  assumes ok: "reg_ok s" and type: "type < RT_Object_Class_Unknown" and nest: "k_interrupt_nest (rg_kernel s) = 0"
    and name: "\<forall>x\<in>bytes_at name 8. heap_end (rg_heap s) \<le> unat (x - rg_heap_ptr s)"
  shows "\<exists>obj s'. rt_object_allocate type name s = Some (obj, s') \<and> reg_ok s' \<and> rg_kernel s' = rg_kernel s
    \<and> (obj = 0 \<and> s' = s \<or> obj \<notin> listed s \<and> obj \<noteq> 0
      \<and> (\<forall>c. entries c s' = (if c = unat type then [(name_at 8 (rg_mem s) name, obj)] else []) @ entries c s))"
proof -
  have t: "unat type < 9" using type by (simp add: RT_Object_Class_Unknown_def word_less_nat_alt)
  have hp: "heap_ok (rg_heap s)" "unat (rg_heap_ptr s) + heap_end (rg_heap s) \<le> 4294967296"
    and sz: "10 \<le> unat (rg_size s (unat type))" "unat (rg_size s (unat type)) \<le> 4096"
    using ok t by (auto simp: reg_ok_def memory_fits_def)
  obtain p h where m: "rt_malloc (rg_size s (unat type)) (rg_heap s) = Some (p, h)" "heap_ok h" "h_size h = h_size (rg_heap s)"
    and pc: "case p of None \<Rightarrow> h = rg_heap s
     | Some d \<Rightarrow> d \<notin> heap_live (rg_heap s) \<and> heap_live h = insert d (heap_live (rg_heap s))
         \<and> (\<forall>e\<in>heap_live (rg_heap s). heap_region h e = heap_region (rg_heap s) e)
         \<and> malloc_bytes (rg_size s (unat type)) \<le> card (heap_region h d)"
    using rt_malloc_ok [OF hp(1), of "rg_size s (unat type)"] by (auto split: option.splits)
  show ?thesis
  proof (cases p)
    case None
    then have "rt_object_allocate type name s = Some (0, s)"
      using m(1) pc nest type by (simp add: rt_object_allocate_def not_in_interrupt_def)
    then show ?thesis using ok by simp
  next
    case (Some d)
    let ?s = "s\<lparr>rg_heap := h\<rparr>" and ?obj = "rg_heap_ptr s + of_nat d"
    let ?hdr = "(rg_mem s)(?obj + 8 := type, ?obj + 9 := 0)"
    let ?new = "rt_strncpy ?obj name 8 ?hdr"
    have d: "d \<in> heap_live h" "d \<notin> heap_live (rg_heap s)"
      and keep: "\<forall>e\<in>heap_live (rg_heap s). e \<in> heap_live h \<and> heap_region h e = heap_region (rg_heap s) e"
      and card: "malloc_bytes (rg_size s (unat type)) \<le> card (heap_region h d)"
      using pc Some by auto
    have n: "10 \<le> card (heap_region h d)" using card malloc_bytes(2) [of "rg_size s (unat type)"] by linarith
    have oks: "reg_ok ?s" using keep by (intro heap_change_ok [OF ok m(2,3)]) auto
    have new: "\<forall>a\<in>listed ?s. apart a ?obj" using new_block_apart [OF ok m(2,3) d keep n] by (simp add: listed_def)
    have he: "heap_end h = heap_end (rg_heap s)" using m(3) by (simp add: heap_end_def)
    have dh: "12 \<le> d" "d + 10 \<le> heap_end h" using block_region [OF m(2) d(1)] n by auto
    have "unat ?obj = unat (rg_heap_ptr s) + d" using dh hp(2) he by (simp add: unat_word_ariths unat_of_nat)
    then have o: "?obj \<noteq> 0" using dh(1) by auto
    have fit: "unat (rg_heap_ptr s) + heap_end h \<le> 4294967296" using hp(2) he by simp
    have "unat (x - rg_heap_ptr s) < heap_end h" if "x \<in> bytes_at ?obj 10" for x
      using in_block(2) [OF fit dh(2) that] dh(2) by simp
    then have nm: "bytes_at name 8 \<inter> bytes_at ?obj 10 = {}" using name he by force
    have c0: "changed_in ?obj (rg_mem s) ?hdr"
      using bytes_at_of_nat [of 8 10 ?obj] bytes_at_of_nat [of 9 10 ?obj] by (auto simp: changed_in_def)
    note w = header_written [OF nm c0]
    have ty: "object_type ?new ?obj = type" unfolding w(3) by (simp add: object_type_def)
    have "object_ok (?s\<lparr>rg_mem := ?new\<rparr>) (unat type) ?obj"
      using o class_bits [OF type] ty d(1) n by (auto simp: object_ok_def placed_def)
    moreover have "changed_in ?obj (rg_mem ?s) ?new" using w(1) by simp
    ultimately have l: "reg_ok (link_object type ?obj (?s\<lparr>rg_mem := ?new\<rparr>))"
      "\<And>c. entries c (link_object type ?obj (?s\<lparr>rg_mem := ?new\<rparr>)) = (if c = unat type then [(name_at 8 ?new ?obj, ?obj)] else []) @ entries c ?s"
      using link_ok [OF oks type new] by blast+
    have "rt_object_allocate type name s = Some (?obj, link_object type ?obj (?s\<lparr>rg_mem := ?new\<rparr>))"
      using m(1) Some nest type by (simp add: rt_object_allocate_def not_in_interrupt_def Let_def)
    moreover have "?obj \<notin> listed s" using new apart_neq [of ?obj ?obj] by (auto simp: listed_def)
    moreover have "entries c ?s = entries c s" for c by (simp add: entries_def)
    ultimately show ?thesis using l o unfolding w(2) by (simp add: link_object_def)
  qed
qed

lemma object_delete_ok:
  assumes ok: "reg_ok s" and obj: "obj \<in> listed s" and dyn: "object_type (rg_mem s) obj AND RT_Object_Class_Static = 0"
  shows "\<exists>s'. rt_object_delete obj s = Some s' \<and> reg_ok s' \<and> rg_kernel s' = rg_kernel s
    \<and> (\<forall>c. entries c s' = filter (\<lambda>e. snd e \<noteq> obj) (entries c s))"
proof -
  let ?h = "rg_heap s" and ?p = "rg_heap_ptr s" and ?u = "unlink_object obj s"
  have hp: "heap_ok ?h" "unat ?p + heap_end ?h \<le> 4294967296" using ok by (auto simp: reg_ok_def memory_fits_def)
  obtain c where "object_ok s c obj" using ok obj by (auto simp: reg_ok_def listed_def)
  then obtain d where o: "obj \<noteq> 0" and d: "d \<in> heap_live ?h" "obj = ?p + of_nat d" "10 \<le> card (heap_region ?h d)"
    using dyn by (auto simp: object_ok_def placed_def)
  have "d < 4294967296" using block_region(2) [OF hp(1) d(1)] d(3) hp(2) by linarith
  then have small: "unat (of_nat d :: u32) = d" by (simp add: unat_of_nat)
  obtain h where h: "rt_free (Some d) ?h = Some h" "heap_ok h" "h_size h = h_size ?h" "heap_live h = heap_live ?h - {d}"
    "\<forall>e\<in>heap_live h. heap_region h e = heap_region ?h e"
    using rt_free_ok [OF hp(1) d(1)] by blast
  note u = unlink_ok [OF ok, of obj]
  have "reg_ok (?u\<lparr>rg_heap := h\<rparr>)"
  proof (rule heap_change_ok)
    show "reg_ok ?u" using u by blast
    fix a e assume a: "a \<in> listed ?u" "a = rg_heap_ptr ?u + of_nat e" "e \<in> heap_live (rg_heap ?u)"
    then have "e \<noteq> d" using u d(2) by (auto simp: unlink_object_def)
    then show "e \<in> heap_live h \<and> heap_region h e = heap_region (rg_heap ?u) e" using a(3) h(4,5) by (simp add: unlink_object_def)
  qed (use h in \<open>simp_all add: unlink_object_def\<close>)
  moreover have "rt_object_delete obj s = Some (?u\<lparr>rg_heap := h\<rparr>)"
    using o dyn h(1) small d(2) by (simp add: rt_object_delete_def unlink_object_def)
  moreover have "entries k (?u\<lparr>rg_heap := h\<rparr>) = filter (\<lambda>e. snd e \<noteq> obj) (entries k s)" for k
    using unlink_entries [of k obj s] by (simp add: entries_def)
  ultimately show ?thesis by (simp add: unlink_object_def)
qed

section \<open>Finding\<close>

text \<open>The most recent object of a name.\<close>

lemma find_object_entries:
  "find_object (rg_mem s) name (rg_lists s c) = (case map_of (entries c s) (name_at 8 (rg_mem s) name) of None \<Rightarrow> 0 | Some obj \<Rightarrow> obj)"
proof -
  have "find_object m name objs = (case map_of (List.map (\<lambda>obj. (name_at 8 m obj, obj)) objs) (name_at 8 m name) of None \<Rightarrow> 0 | Some obj \<Rightarrow> obj)"
    for m objs by (induction objs) (simp_all add: strncmp_name del: rt_strncmp.simps name_at.simps)
  then show ?thesis by (simp only: entries_def)
qed

lemma object_find_ok:
  assumes "type < RT_Object_Class_Unknown" "name \<noteq> 0" "k_interrupt_nest (rg_kernel s) = 0"
    "rt_exit_critical (rt_enter_critical (rg_kernel s)) = Some k"
  shows "rt_object_find name type s =
    Some (case map_of (entries (unat type) s) (name_at 8 (rg_mem s) name) of None \<Rightarrow> 0 | Some obj \<Rightarrow> obj, s\<lparr>rg_kernel := k\<rparr>)"
  using assms find_object_entries [of s name "unat type"] by (auto simp: rt_object_find_def Let_def)

section \<open>The contract of a directory\<close>

text \<open>
  What users of a directory rely on: objects are entered under a name, a later entry hides earlier ones of its
  name, and taking an object out brings back what it hid.
\<close>

locale directory =
  fixes ok :: "'s \<Rightarrow> bool" and content :: "'s \<Rightarrow> ('n \<times> 'o) list" and key :: "'s \<Rightarrow> 'p \<Rightarrow> 'n" and can :: "'p \<Rightarrow> 'o \<Rightarrow> 's \<Rightarrow> bool"
    and enter :: "'p \<Rightarrow> 'o \<Rightarrow> 's \<Rightarrow> 's option" and remove :: "'o \<Rightarrow> 's \<Rightarrow> 's option" and lookup :: "'s \<Rightarrow> 'p \<Rightarrow> 'o option"
  assumes enter_law: "\<lbrakk>ok s; can p x s\<rbrakk> \<Longrightarrow>
        \<exists>s'. enter p x s = Some s' \<and> ok s' \<and> x \<notin> snd ` set (content s) \<and> content s' = (key s p, x) # content s"
    and remove_law: "\<lbrakk>ok s; x \<in> snd ` set (content s)\<rbrakk> \<Longrightarrow>
        \<exists>s'. remove x s = Some s' \<and> ok s' \<and> content s' = filter (\<lambda>e. snd e \<noteq> x) (content s)"
    and lookup_law: "ok s \<Longrightarrow> lookup s p = map_of (content s) (key s p)"
begin

lemma entered_found:
  assumes "ok s" "can p x s" "enter p x s = Some s'"
  shows "lookup s' q = (if key s' q = key s p then Some x else map_of (content s) (key s' q))"
  using enter_law [OF assms(1,2)] lookup_law [of s' q] assms(3) by auto

lemma enter_remove:
  assumes "ok s" "can p x s"
  shows "\<exists>s' s''. enter p x s = Some s' \<and> remove x s' = Some s'' \<and> ok s'' \<and> content s'' = content s"
proof -
  obtain s' where s': "enter p x s = Some s'" "ok s'" "x \<notin> snd ` set (content s)" "content s' = (key s p, x) # content s"
    using enter_law [OF assms] by blast
  then obtain s'' where "remove x s' = Some s''" "ok s''" "content s'' = filter (\<lambda>e. snd e \<noteq> x) (content s')"
    using remove_law [of s' x] by force
  moreover have "filter (\<lambda>e. snd e \<noteq> x) (content s) = content s" using s'(3) by (auto simp: filter_id_conv)
  ultimately show ?thesis using s' by auto
qed

lemma content_step:
  assumes "ok s" "can p x s" "enter p x s = Some s'"
  shows "ok s'" "x \<in> snd ` set (content s')"
  using enter_law [OF assms(1,2)] assms(3) by auto

end

definition found :: "nat \<Rightarrow> registry \<Rightarrow> u32 \<Rightarrow> u32 option" where
  "found c s name = (let obj = find_object (rg_mem s) name (rg_lists s c) in if obj = 0 then None else Some obj)"

lemma in_entries: "obj \<in> snd ` set (entries c s) \<longleftrightarrow> obj \<in> set (rg_lists s c)"
  by (force simp: entries_def)

lemma found_entries: "reg_ok s \<Longrightarrow> found c s name = map_of (entries c s) (name_at 8 (rg_mem s) name)"
proof -
  assume ok: "reg_ok s"
  have "obj \<noteq> 0" if "map_of (entries c s) n = Some obj" for n obj
    using ok map_of_SomeD [OF that] by (auto simp: entries_def reg_ok_def object_ok_def)
  then show ?thesis unfolding found_def find_object_entries by (auto split: option.split)
qed

interpretation objects: directory reg_ok "entries (unat type)" "\<lambda>s. name_at 8 (rg_mem s)"
  "\<lambda>name obj s. type < RT_Object_Class_Unknown \<and> fresh_object obj name s" "\<lambda>name obj. rt_object_init obj type name"
  rt_object_detach "found (unat type)" for type :: u8
proof unfold_locales
  fix s name obj
  assume "reg_ok s" "type < RT_Object_Class_Unknown \<and> fresh_object obj name s"
  moreover from this have "obj \<notin> snd ` set (entries (unat type) s)"
    using apart_neq [of obj obj] by (auto simp: in_entries fresh_object_def dest: in_listed)
  ultimately show "\<exists>s'. rt_object_init obj type name s = Some s' \<and> reg_ok s' \<and> obj \<notin> snd ` set (entries (unat type) s)
      \<and> entries (unat type) s' = (name_at 8 (rg_mem s) name, obj) # entries (unat type) s"
    using object_init_ok [of s type obj name] by auto
next
  fix s obj
  assume "reg_ok s" "obj \<in> snd ` set (entries (unat type) s)"
  then show "\<exists>s'. rt_object_detach obj s = Some s' \<and> reg_ok s' \<and> entries (unat type) s' = filter (\<lambda>e. snd e \<noteq> obj) (entries (unat type) s)"
    using object_detach_ok [of s obj] in_entries [of obj "unat type" s] in_listed by blast
qed (rule found_entries)

section \<open>Histories of calls\<close>

datatype registry_call = Init u32 u8 u32 | Detach u32 | Allocate u8 u32 | Delete u32 | Find u32 u8

fun reg_call :: "registry_call \<Rightarrow> registry \<Rightarrow> registry option" where
  "reg_call (Init obj type name) s = rt_object_init obj type name s"
| "reg_call (Detach obj) s = rt_object_detach obj s"
| "reg_call (Allocate type name) s = map_option snd (rt_object_allocate type name s)"
| "reg_call (Delete obj) s = rt_object_delete obj s"
| "reg_call (Find name type) s = map_option snd (rt_object_find name type s)"

text \<open>What a caller has to see to: new static objects are apart from all others, only registered objects are taken out, and only
  those that were allocated are deleted; searching and allocating are done outside interrupts.\<close>

fun call_allowed :: "registry_call \<Rightarrow> registry \<Rightarrow> bool" where
  "call_allowed (Init obj type name) s \<longleftrightarrow> type < RT_Object_Class_Unknown \<and> fresh_object obj name s"
| "call_allowed (Detach obj) s \<longleftrightarrow> obj \<in> listed s"
| "call_allowed (Allocate type name) s \<longleftrightarrow> type < RT_Object_Class_Unknown \<and> k_interrupt_nest (rg_kernel s) = 0
     \<and> (\<forall>x\<in>bytes_at name 8. heap_end (rg_heap s) \<le> unat (x - rg_heap_ptr s))"
| "call_allowed (Delete obj) s \<longleftrightarrow> obj \<in> listed s \<and> object_type (rg_mem s) obj AND RT_Object_Class_Static = 0"
| "call_allowed (Find name type) s \<longleftrightarrow> type < RT_Object_Class_Unknown \<and> k_interrupt_nest (rg_kernel s) = 0
     \<and> sched_ok (rg_kernel s) \<and> (\<exists>t. t_stat (k_thread (rg_kernel s) t) = READY)"

primrec reg_calls :: "registry_call list \<Rightarrow> registry \<Rightarrow> registry option" where
  "reg_calls [] s = Some s"
| "reg_calls (c # cs) s = do { s \<leftarrow> reg_call c s; reg_calls cs s }"

primrec calls_allowed :: "registry_call list \<Rightarrow> registry \<Rightarrow> bool" where
  "calls_allowed [] s \<longleftrightarrow> True"
| "calls_allowed (c # cs) s \<longleftrightarrow> call_allowed c s \<and> (\<forall>s'. reg_call c s = Some s' \<longrightarrow> calls_allowed cs s')"

lemma reg_ok_kernel [simp]: "reg_ok (s\<lparr>rg_kernel := k\<rparr>) = reg_ok s"
  by (simp add: reg_ok_def listed_def memory_fits_def object_ok_def placed_def)

lemma critical_returns:
  assumes "sched_ok k" "t_stat (k_thread k t) = READY"
  shows "\<exists>k'. rt_exit_critical (rt_enter_critical k) = Some k'"
proof -
  have "sched_ok (k\<lparr>k_lock_nest := n\<rparr>)" for n using assms(1) sched_ok_same [of k] by (simp add: same_sched_def)
  then have "\<exists>k'. rt_schedule (k\<lparr>k_lock_nest := 0\<rparr>) = Some k'" using rt_schedule_returns [of "k\<lparr>k_lock_nest := 0\<rparr>" t] assms(2) by simp
  then show ?thesis by (simp add: rt_exit_critical_def rt_enter_critical_def Let_def)
qed

lemma reg_call_ok: "reg_ok s \<Longrightarrow> call_allowed c s \<Longrightarrow> \<exists>s'. reg_call c s = Some s' \<and> reg_ok s'"
proof (cases c)
  case (Init obj type name)
  then show "reg_ok s \<Longrightarrow> call_allowed c s \<Longrightarrow> ?thesis" using object_init_ok [of s type obj name] by auto
next
  case (Detach obj)
  then show "reg_ok s \<Longrightarrow> call_allowed c s \<Longrightarrow> ?thesis" using object_detach_ok [of s obj] by auto
next
  case (Allocate type name)
  then show "reg_ok s \<Longrightarrow> call_allowed c s \<Longrightarrow> ?thesis" using object_allocate_ok [of s type name] by fastforce
next
  case (Delete obj)
  then show "reg_ok s \<Longrightarrow> call_allowed c s \<Longrightarrow> ?thesis" using object_delete_ok [of s obj] by auto
next
  case (Find name type)
  assume ok: "reg_ok s" and c: "call_allowed c s"
  then obtain k where k: "rt_exit_critical (rt_enter_critical (rg_kernel s)) = Some k" using critical_returns [of "rg_kernel s"] Find by auto
  show ?thesis
  proof (cases "name = 0")
    case True
    then show ?thesis using ok Find by (simp add: rt_object_find_def)
  next
    case False
    then show ?thesis using object_find_ok [OF _ False _ k, of type] c ok Find by simp
  qed
qed

lemma reg_calls_ok: "reg_ok s \<Longrightarrow> calls_allowed cs s \<Longrightarrow> \<exists>s'. reg_calls cs s = Some s' \<and> reg_ok s'"
proof (induction cs arbitrary: s)
  case (Cons c cs)
  then obtain s' where "reg_call c s = Some s'" "reg_ok s'" using reg_call_ok [of s c] by auto
  then show ?case using Cons.IH [of s'] Cons.prems by simp
qed simp

end
