(* ===== verification/Rt_Device.thy ===== *)
theory Rt_Device
  imports Rt_Object
begin

text \<open>
  Devices (\<open>device.c\<close>) and what the kernel's library does with them (\<open>kservice.c\<close>): error numbers and the
  device of the console. A device is registered as an object; its driver is a table of functions, each of
  which may be missing, on the device and the state of the drivers. Pointers to buffers and arguments are
  passed on. Messages about failed initialisations are left out.
\<close>

section \<open>State\<close>

record device =
  dv_flag :: u16
  dv_open_flag :: u16
  dv_rx_indicate :: u32
  dv_tx_complete :: u32

type_synonym ('d, 'r) driver_call = "device \<times> 'd \<Rightarrow> 'r \<times> device \<times> 'd"

record 'd driver =
  dr_init :: "('d, int) driver_call option"
  dr_open :: "(u16 \<Rightarrow> ('d, int) driver_call) option"
  dr_close :: "('d, int) driver_call option"
  dr_read :: "(u32 \<Rightarrow> u32 \<Rightarrow> u32 \<Rightarrow> ('d, u32) driver_call) option"
  dr_write :: "(u32 \<Rightarrow> u32 \<Rightarrow> u32 \<Rightarrow> ('d, u32) driver_call) option"
  dr_control :: "(u8 \<Rightarrow> u32 \<Rightarrow> ('d, int) driver_call) option"

record 'd devices =
  ds_registry :: registry
  ds_driver :: "u32 \<Rightarrow> 'd driver"
  ds_device :: "u32 \<Rightarrow> device"
  ds_state :: 'd
  ds_errno :: int
  ds_console :: u32

abbreviation (input) RT_ENOSYS :: int where "RT_ENOSYS \<equiv> 6"
abbreviation (input) RT_EBUSY :: int where "RT_EBUSY \<equiv> 7"

definition RT_DEVICE_FLAG_STANDALONE :: u16 where "RT_DEVICE_FLAG_STANDALONE = 0x8"
definition RT_DEVICE_FLAG_ACTIVATED :: u16 where "RT_DEVICE_FLAG_ACTIVATED = 0x10"
definition RT_DEVICE_OFLAG_CLOSE :: u16 where "RT_DEVICE_OFLAG_CLOSE = 0"
definition RT_DEVICE_OFLAG_RDWR :: u16 where "RT_DEVICE_OFLAG_RDWR = 0x3"
definition RT_DEVICE_OFLAG_OPEN :: u16 where "RT_DEVICE_OFLAG_OPEN = 0x8"

definition call_driver :: "u32 \<Rightarrow> ('d, 'r) driver_call \<Rightarrow> 'd devices \<Rightarrow> 'r \<times> 'd devices" where
  "call_driver dev f s =
     (let (r, x, d) = f (ds_device s dev, ds_state s) in (r, s\<lparr>ds_device := (ds_device s)(dev := x), ds_state := d\<rparr>))"

definition upd_device :: "u32 \<Rightarrow> (device \<Rightarrow> device) \<Rightarrow> 'd devices \<Rightarrow> 'd devices" where
  "upd_device dev f s = s\<lparr>ds_device := (ds_device s)(dev := f (ds_device s dev))\<rparr>"

definition upd_registry :: "(registry \<Rightarrow> registry) \<Rightarrow> 'd devices \<Rightarrow> 'd devices" where
  "upd_registry f s = s\<lparr>ds_registry := f (ds_registry s)\<rparr>"

section \<open>Error numbers\<close>

definition rt_get_errno :: "'d devices \<Rightarrow> int" where
  "rt_get_errno s =
     (let k = rg_kernel (ds_registry s)
      in if k_interrupt_nest k \<noteq> 0 then ds_errno s
         else case k_current k of None \<Rightarrow> ds_errno s | Some tid \<Rightarrow> t_error (k_thread k tid))"

definition rt_set_errno :: "int \<Rightarrow> 'd devices \<Rightarrow> 'd devices" where
  "rt_set_errno error s =
     (let k = rg_kernel (ds_registry s)
      in if k_interrupt_nest k \<noteq> 0 then s\<lparr>ds_errno := error\<rparr>
         else case k_current k of None \<Rightarrow> s\<lparr>ds_errno := error\<rparr>
           | Some tid \<Rightarrow> upd_registry (\<lambda>r. r\<lparr>rg_kernel := upd_thread tid (\<lambda>t. t\<lparr>t_error := error\<rparr>) k\<rparr>) s)"

section \<open>Registering and finding\<close>

definition rt_device_register :: "u32 \<Rightarrow> u32 \<Rightarrow> u16 \<Rightarrow> 'd devices \<Rightarrow> (int \<times> 'd devices) option" where
  "rt_device_register dev name flags s =
     (if dev = 0 then Some (- RT_ERROR, s)
      else do {
        r \<leftarrow> rt_object_init dev RT_Object_Class_Device name (ds_registry s);
        Some (RT_EOK, upd_device dev (\<lambda>d. d\<lparr>dv_flag := flags\<rparr>) (s\<lparr>ds_registry := r\<rparr>)) })"

definition rt_device_unregister :: "u32 \<Rightarrow> 'd devices \<Rightarrow> (int \<times> 'd devices) option" where
  "rt_device_unregister dev s = do {
     rt_assert (dev \<noteq> 0);
     r \<leftarrow> rt_object_detach dev (ds_registry s);
     Some (RT_EOK, s\<lparr>ds_registry := r\<rparr>) }"

definition rt_device_find :: "u32 \<Rightarrow> 'd devices \<Rightarrow> (u32 \<times> 'd devices) option" where
  "rt_device_find name s =
     (let r = ds_registry s; k = rg_kernel r; self = k_current k;
          k = (if self \<noteq> None then rt_enter_critical k else k);
          dev = find_object (rg_mem r) name (rg_lists r (unat RT_Object_Class_Device))
      in do {
        k \<leftarrow> (if self \<noteq> None then rt_exit_critical k else Some k);
        Some (dev, s\<lparr>ds_registry := r\<lparr>rg_kernel := k\<rparr>\<rparr>) })"

section \<open>Using a device\<close>

definition activate :: "u32 \<Rightarrow> ('d, int) driver_call \<Rightarrow> 'd devices \<Rightarrow> int \<times> 'd devices" where
  "activate dev init s =
     (let (result, s) = call_driver dev init s
      in (result, if result = RT_EOK then upd_device dev (\<lambda>d. d\<lparr>dv_flag := dv_flag d OR RT_DEVICE_FLAG_ACTIVATED\<rparr>) s else s))"

definition activated :: "u32 \<Rightarrow> 'd devices \<Rightarrow> bool" where
  "activated dev s \<longleftrightarrow> dv_flag (ds_device s dev) AND RT_DEVICE_FLAG_ACTIVATED \<noteq> 0"

definition rt_device_init :: "u32 \<Rightarrow> 'd devices \<Rightarrow> (int \<times> 'd devices) option" where
  "rt_device_init dev s = do {
     rt_assert (dev \<noteq> 0);
     Some (case dr_init (ds_driver s dev) of None \<Rightarrow> (- RT_ENOSYS, s)
       | Some init \<Rightarrow> if \<not> activated dev s then activate dev init s else (RT_EOK, s)) }"

primrec init_devices :: "u32 list \<Rightarrow> 'd devices \<Rightarrow> 'd devices" where
  "init_devices [] s = s"
| "init_devices (dev # devs) s = init_devices devs
     (case dr_init (ds_driver s dev) of None \<Rightarrow> s | Some init \<Rightarrow> if \<not> activated dev s then snd (activate dev init s) else s)"

definition rt_device_init_all :: "'d devices \<Rightarrow> int \<times> 'd devices" where
  "rt_device_init_all s = (RT_EOK, init_devices (rg_lists (ds_registry s) (unat RT_Object_Class_Device)) s)"

definition open_active :: "u32 \<Rightarrow> u16 \<Rightarrow> int \<times> 'd devices \<Rightarrow> int \<times> 'd devices" where
  "open_active dev oflag x =
     (let (result, s) = x
      in if result \<noteq> RT_EOK then (result, s)
         else if dv_flag (ds_device s dev) AND RT_DEVICE_FLAG_STANDALONE \<noteq> 0 \<and> dv_open_flag (ds_device s dev) AND RT_DEVICE_OFLAG_OPEN \<noteq> 0
         then (- RT_EBUSY, s)
         else
           let (result, s) = (case dr_open (ds_driver s dev) of Some open \<Rightarrow> call_driver dev (open oflag) s | None \<Rightarrow> (- RT_ENOSYS, s))
           in (result, if result = RT_EOK \<or> result = - RT_ENOSYS
                       then upd_device dev (\<lambda>d. d\<lparr>dv_open_flag := oflag OR RT_DEVICE_OFLAG_OPEN\<rparr>) s else s))"

text \<open>The function that initialises a device is called without a look whether there is one.\<close>

definition rt_device_open :: "u32 \<Rightarrow> u16 \<Rightarrow> 'd devices \<Rightarrow> (int \<times> 'd devices) option" where
  "rt_device_open dev oflag s = do {
     rt_assert (dev \<noteq> 0);
     x \<leftarrow> (if \<not> activated dev s then map_option (\<lambda>init. activate dev init s) (dr_init (ds_driver s dev)) else Some (RT_EOK, s));
     Some (open_active dev oflag x) }"

definition rt_device_close :: "u32 \<Rightarrow> 'd devices \<Rightarrow> (int \<times> 'd devices) option" where
  "rt_device_close dev s = do {
     rt_assert (dev \<noteq> 0);
     let (result, s) = (case dr_close (ds_driver s dev) of Some close \<Rightarrow> call_driver dev close s | None \<Rightarrow> (- RT_ENOSYS, s));
     Some (result, if result = RT_EOK \<or> result = - RT_ENOSYS
                   then upd_device dev (\<lambda>d. d\<lparr>dv_open_flag := RT_DEVICE_OFLAG_CLOSE\<rparr>) s else s) }"

definition rt_device_read :: "u32 \<Rightarrow> u32 \<Rightarrow> u32 \<Rightarrow> u32 \<Rightarrow> 'd devices \<Rightarrow> (u32 \<times> 'd devices) option" where
  "rt_device_read dev pos buffer sz s = do {
     rt_assert (dev \<noteq> 0);
     Some (case dr_read (ds_driver s dev) of Some read \<Rightarrow> call_driver dev (read pos buffer sz) s
       | None \<Rightarrow> (0, rt_set_errno (- RT_ENOSYS) s)) }"

definition rt_device_write :: "u32 \<Rightarrow> u32 \<Rightarrow> u32 \<Rightarrow> u32 \<Rightarrow> 'd devices \<Rightarrow> (u32 \<times> 'd devices) option" where
  "rt_device_write dev pos buffer sz s = do {
     rt_assert (dev \<noteq> 0);
     Some (case dr_write (ds_driver s dev) of Some write \<Rightarrow> call_driver dev (write pos buffer sz) s
       | None \<Rightarrow> (0, rt_set_errno (- RT_ENOSYS) s)) }"

definition rt_device_control :: "u32 \<Rightarrow> u8 \<Rightarrow> u32 \<Rightarrow> 'd devices \<Rightarrow> (int \<times> 'd devices) option" where
  "rt_device_control dev cmd arg s = do {
     rt_assert (dev \<noteq> 0);
     Some (case dr_control (ds_driver s dev) of Some control \<Rightarrow> call_driver dev (control cmd arg) s
       | None \<Rightarrow> (- RT_ENOSYS, s)) }"

definition rt_device_set_rx_indicate :: "u32 \<Rightarrow> u32 \<Rightarrow> 'd devices \<Rightarrow> (int \<times> 'd devices) option" where
  "rt_device_set_rx_indicate dev rx_ind s = do {
     rt_assert (dev \<noteq> 0);
     Some (RT_EOK, upd_device dev (\<lambda>d. d\<lparr>dv_rx_indicate := rx_ind\<rparr>) s) }"

definition rt_device_set_tx_complete :: "u32 \<Rightarrow> u32 \<Rightarrow> 'd devices \<Rightarrow> (int \<times> 'd devices) option" where
  "rt_device_set_tx_complete dev tx_done s = do {
     rt_assert (dev \<noteq> 0);
     Some (RT_EOK, upd_device dev (\<lambda>d. d\<lparr>dv_tx_complete := tx_done\<rparr>) s) }"

section \<open>The console\<close>

definition rt_console_get_device :: "'d devices \<Rightarrow> u32" where
  "rt_console_get_device s = ds_console s"

definition rt_console_set_device :: "u32 \<Rightarrow> 'd devices \<Rightarrow> (u32 \<times> 'd devices) option" where
  "rt_console_set_device name s = do {
     let old = ds_console s;
     (new, s) \<leftarrow> rt_device_find name s;
     if new \<noteq> 0 then do {
       s \<leftarrow> (if ds_console s \<noteq> 0 then map_option snd (rt_device_close (ds_console s) s) else Some s);
       let s = s\<lparr>ds_console := new\<rparr>;
       (r, s) \<leftarrow> rt_device_open new RT_DEVICE_OFLAG_RDWR s;
       Some (old, s) }
     else Some (old, s) }"

section \<open>Standalone devices\<close>

text \<open>Drivers that leave the flags of their device to \<open>device.c\<close>.\<close>

definition keeps_flags :: "('d, 'r) driver_call \<Rightarrow> bool" where
  "keeps_flags f \<longleftrightarrow> (\<forall>x d. dv_flag (fst (snd (f (x, d)))) AND RT_DEVICE_FLAG_STANDALONE = dv_flag x AND RT_DEVICE_FLAG_STANDALONE
     \<and> dv_open_flag (fst (snd (f (x, d)))) = dv_open_flag x)"

definition polite :: "'d driver \<Rightarrow> bool" where
  "polite dr \<longleftrightarrow> (\<forall>f. dr_init dr = Some f \<longrightarrow> keeps_flags f) \<and> (\<forall>f o'. dr_open dr = Some f \<longrightarrow> keeps_flags (f o'))
     \<and> (\<forall>f. dr_close dr = Some f \<longrightarrow> keeps_flags f) \<and> (\<forall>f p b n. dr_read dr = Some f \<longrightarrow> keeps_flags (f p b n))
     \<and> (\<forall>f p b n. dr_write dr = Some f \<longrightarrow> keeps_flags (f p b n)) \<and> (\<forall>f c a. dr_control dr = Some f \<longrightarrow> keeps_flags (f c a))"

definition is_open :: "u32 \<Rightarrow> 'd devices \<Rightarrow> bool" where
  "is_open dev s \<longleftrightarrow> dv_open_flag (ds_device s dev) AND RT_DEVICE_OFLAG_OPEN \<noteq> 0"

definition standalone :: "u32 \<Rightarrow> 'd devices \<Rightarrow> bool" where
  "standalone dev s \<longleftrightarrow> dv_flag (ds_device s dev) AND RT_DEVICE_FLAG_STANDALONE \<noteq> 0"

datatype device_call = Open u16 | Close | Read u32 u32 u32 | Write u32 u32 u32 | Control u8 u32 | Initialise

fun call_device :: "u32 \<Rightarrow> device_call \<Rightarrow> 'd devices \<Rightarrow> (int \<times> 'd devices) option" where
  "call_device dev (Open oflag) s = rt_device_open dev oflag s"
| "call_device dev Close s = rt_device_close dev s"
| "call_device dev (Read p b n) s = map_option (map_prod uint id) (rt_device_read dev p b n s)"
| "call_device dev (Write p b n) s = map_option (map_prod uint id) (rt_device_write dev p b n s)"
| "call_device dev (Control c a) s = rt_device_control dev c a s"
| "call_device dev Initialise s = rt_device_init dev s"

lemma set_errno_simps [simp]:
  "ds_device (rt_set_errno e s) = ds_device s" "ds_driver (rt_set_errno e s) = ds_driver s"
  by (auto simp: rt_set_errno_def upd_registry_def Let_def split: option.splits)

lemma upd_device_simps [simp]:
  "ds_device (upd_device dev f s) = (ds_device s)(dev := f (ds_device s dev))" "ds_driver (upd_device dev f s) = ds_driver s"
  by (simp_all add: upd_device_def)

text \<open>What a driver's function leaves alone.\<close>

lemma call_driver_frame:
  assumes "call_driver dev f s = (r, s')"
  shows "ds_driver s' = ds_driver s" "dev' \<noteq> dev \<Longrightarrow> ds_device s' dev' = ds_device s dev'"
    "keeps_flags f \<Longrightarrow> dv_open_flag (ds_device s' dev) = dv_open_flag (ds_device s dev)"
    "keeps_flags f \<Longrightarrow> dv_flag (ds_device s' dev) AND RT_DEVICE_FLAG_STANDALONE = dv_flag (ds_device s dev) AND RT_DEVICE_FLAG_STANDALONE"
proof -
  obtain x d where f: "f (ds_device s dev, ds_state s) = (r, x, d)" and s': "s' = s\<lparr>ds_device := (ds_device s)(dev := x), ds_state := d\<rparr>"
    using assms by (auto simp: call_driver_def split: prod.splits)
  show "ds_driver s' = ds_driver s" "dev' \<noteq> dev \<Longrightarrow> ds_device s' dev' = ds_device s dev'" by (simp_all add: s')
  assume "keeps_flags f"
  then have "dv_flag x AND RT_DEVICE_FLAG_STANDALONE = dv_flag (ds_device s dev) AND RT_DEVICE_FLAG_STANDALONE \<and> dv_open_flag x = dv_open_flag (ds_device s dev)"
    using f unfolding keeps_flags_def by (metis fst_conv snd_conv)
  then show "dv_open_flag (ds_device s' dev) = dv_open_flag (ds_device s dev)"
    "dv_flag (ds_device s' dev) AND RT_DEVICE_FLAG_STANDALONE = dv_flag (ds_device s dev) AND RT_DEVICE_FLAG_STANDALONE" by (simp_all add: s')
qed

definition same_flags :: "u32 \<Rightarrow> 'd devices \<Rightarrow> 'd devices \<Rightarrow> bool" where
  "same_flags dev s s' \<longleftrightarrow> ds_driver s' = ds_driver s \<and> (standalone dev s' \<longleftrightarrow> standalone dev s) \<and> (is_open dev s' \<longleftrightarrow> is_open dev s)"

lemma same_flags_trans: "same_flags dev s s' \<Longrightarrow> same_flags dev s' s'' \<Longrightarrow> same_flags dev s s''"
  by (simp add: same_flags_def)

lemma same_flags_refl [simp]: "same_flags dev s s" "same_flags dev s (rt_set_errno e s)"
  by (simp_all add: same_flags_def standalone_def is_open_def)

lemma call_driver_flags: "call_driver dev f s = (r, s') \<Longrightarrow> keeps_flags f \<Longrightarrow> same_flags dev s s'"
  using call_driver_frame [of dev f s r s'] by (simp add: same_flags_def standalone_def is_open_def)

lemma flag_or:
  "(x OR RT_DEVICE_FLAG_ACTIVATED) AND RT_DEVICE_FLAG_STANDALONE = x AND RT_DEVICE_FLAG_STANDALONE"
  "(x OR RT_DEVICE_OFLAG_OPEN) AND RT_DEVICE_OFLAG_OPEN \<noteq> 0" "RT_DEVICE_OFLAG_CLOSE AND y = 0"
  by (simp_all add: RT_DEVICE_FLAG_ACTIVATED_def RT_DEVICE_FLAG_STANDALONE_def RT_DEVICE_OFLAG_OPEN_def RT_DEVICE_OFLAG_CLOSE_def
      bit.conj_disj_distrib2)

lemma activate_flags: "activate dev f s = (r, s') \<Longrightarrow> keeps_flags f \<Longrightarrow> same_flags dev s s'"
proof -
  assume a: "activate dev f s = (r, s')" and k: "keeps_flags f"
  obtain r1 s1 where c: "call_driver dev f s = (r1, s1)" by fastforce
  have "same_flags dev s1 (upd_device dev (\<lambda>d. d\<lparr>dv_flag := dv_flag d OR RT_DEVICE_FLAG_ACTIVATED\<rparr>) s1)"
    by (simp add: same_flags_def standalone_def is_open_def flag_or)
  then show ?thesis using a c same_flags_trans [OF call_driver_flags [OF c k]] call_driver_flags [OF c k]
    by (auto simp: activate_def split: if_split_asm)
qed

text \<open>What a call does to the flags of its device.\<close>

lemma open_flags:
  assumes "polite (ds_driver s dev)" "rt_device_open dev oflag s = Some (r, s')"
  shows "ds_driver s' = ds_driver s" "standalone dev s' = standalone dev s" "is_open dev s \<Longrightarrow> is_open dev s'"
    "r = RT_EOK \<Longrightarrow> is_open dev s'" "standalone dev s \<Longrightarrow> r = RT_EOK \<Longrightarrow> \<not> is_open dev s"
proof -
  obtain r1 s1 where a: "(if \<not> activated dev s then map_option (\<lambda>init. activate dev init s) (dr_init (ds_driver s dev)) else Some (RT_EOK, s)) = Some (r1, s1)"
    and o: "open_active dev oflag (r1, s1) = (r, s')"
    using assms(2) by (auto simp: rt_device_open_def bind_eq_Some_conv)
  have s1: "same_flags dev s s1"
    using a assms(1) activate_flags [of dev _ s r1 s1] by (auto simp: polite_def split: if_split_asm)
  then have pol: "polite (ds_driver s1 dev)" using assms(1) by (simp add: same_flags_def)
  obtain r2 s2 where c: "(case dr_open (ds_driver s1 dev) of Some open \<Rightarrow> call_driver dev (open oflag) s1 | None \<Rightarrow> (- RT_ENOSYS, s1)) = (r2, s2)"
    by fastforce
  have s2: "same_flags dev s1 s2" using c pol call_driver_flags [of dev _ s1 r2 s2] by (auto simp: polite_def split: option.splits)
  let ?u = "upd_device dev (\<lambda>d. d\<lparr>dv_open_flag := oflag OR RT_DEVICE_OFLAG_OPEN\<rparr>) s2"
  have u: "ds_driver ?u = ds_driver s2" "standalone dev ?u = standalone dev s2" "is_open dev ?u"
    using flag_or(2) [of 0] by (simp_all add: standalone_def is_open_def flag_or)
  consider "r1 \<noteq> RT_EOK" "r = r1" "s' = s1" | "standalone dev s1 \<and> is_open dev s1" "r = - RT_EBUSY" "s' = s1"
    | "r1 = RT_EOK" "\<not> (standalone dev s1 \<and> is_open dev s1)" "r = r2" "s' = (if r2 = RT_EOK \<or> r2 = - RT_ENOSYS then ?u else s2)"
  proof -
    have e: "(r, s') = (if r1 \<noteq> RT_EOK then (r1, s1) else if standalone dev s1 \<and> is_open dev s1 then (- RT_EBUSY, s1)
        else (r2, if r2 = RT_EOK \<or> r2 = - RT_ENOSYS then ?u else s2))"
      using o by (simp only: open_active_def c prod.case Let_def standalone_def is_open_def)
    show ?thesis
    proof (cases "r1 = RT_EOK")
      case False
      then show ?thesis using e that(1) by simp
    next
      case f: True
      show ?thesis
      proof (cases "standalone dev s1 \<and> is_open dev s1")
        case True
        then show ?thesis using e f that(2) by simp
      next
        case False
        have "(r, s') = (r2, if r2 = RT_EOK \<or> r2 = - RT_ENOSYS then ?u else s2)" using e f False by (simp only: if_False if_True simp_thms)
        then show ?thesis using that(3) [OF f False] by (simp only: prod.inject)
      qed
    qed
  qed
  then have "ds_driver s' = ds_driver s \<and> (standalone dev s' \<longleftrightarrow> standalone dev s) \<and> (is_open dev s \<longrightarrow> is_open dev s')
    \<and> (r = RT_EOK \<longrightarrow> is_open dev s') \<and> (standalone dev s \<longrightarrow> r = RT_EOK \<longrightarrow> \<not> is_open dev s)"
  proof cases
    case 1
    then show ?thesis using s1 by (simp add: same_flags_def)
  next
    case 2
    then show ?thesis using s1 by (simp add: same_flags_def)
  next
    case 3
    have "same_flags dev s s2" using same_flags_trans [OF s1 s2] .
    then have f: "ds_driver s2 = ds_driver s" "standalone dev s2 = standalone dev s" "is_open dev s2 = is_open dev s"
      by (simp_all add: same_flags_def)
    have "\<not> (standalone dev s \<and> is_open dev s)" using 3(2) s1 by (simp add: same_flags_def)
    then show ?thesis using 3(3,4) f u by (cases "r2 = RT_EOK \<or> r2 = - RT_ENOSYS") auto
  qed
  then show "ds_driver s' = ds_driver s" "standalone dev s' = standalone dev s" "is_open dev s \<Longrightarrow> is_open dev s'"
    "r = RT_EOK \<Longrightarrow> is_open dev s'" "standalone dev s \<Longrightarrow> r = RT_EOK \<Longrightarrow> \<not> is_open dev s" by blast+
qed

lemma close_flags:
  assumes "polite (ds_driver s dev)" "rt_device_close dev s = Some (r, s')"
  shows "ds_driver s' = ds_driver s" "standalone dev s' = standalone dev s" "is_open dev s' \<or> r = RT_EOK \<or> r = - RT_ENOSYS \<longleftrightarrow> is_open dev s \<or> r = RT_EOK \<or> r = - RT_ENOSYS"
proof -
  obtain r2 s2 where c: "(case dr_close (ds_driver s dev) of Some close \<Rightarrow> call_driver dev close s | None \<Rightarrow> (- RT_ENOSYS, s)) = (r2, s2)"
    by fastforce
  have s2: "same_flags dev s s2" using c assms(1) call_driver_flags [of dev _ s r2 s2] by (auto simp: polite_def split: option.splits)
  have "r = r2 \<and> s' = (if r2 = RT_EOK \<or> r2 = - RT_ENOSYS then upd_device dev (\<lambda>d. d\<lparr>dv_open_flag := RT_DEVICE_OFLAG_CLOSE\<rparr>) s2 else s2)"
    using assms(2) c by (auto simp: rt_device_close_def bind_eq_Some_conv split: if_split_asm)
  then show "ds_driver s' = ds_driver s" "standalone dev s' = standalone dev s" "is_open dev s' \<or> r = RT_EOK \<or> r = - RT_ENOSYS \<longleftrightarrow> is_open dev s \<or> r = RT_EOK \<or> r = - RT_ENOSYS"
    using s2 by (auto simp: same_flags_def standalone_def is_open_def split: if_split_asm)
qed

lemma map_uint_eq: "map_prod uint id x = (r, s') \<longleftrightarrow> (\<exists>r0. x = (r0, s') \<and> r = uint r0)"
  by (cases x) auto

lemma other_flags:
  assumes "polite (ds_driver s dev)" "call_device dev c s = Some (r, s')" "\<forall>oflag. c \<noteq> Open oflag" "c \<noteq> Close"
  shows "same_flags dev s s'"
proof (cases c)
  case (Read p b n)
  then show ?thesis using assms call_driver_flags [of dev "the (dr_read (ds_driver s dev)) p b n" s]
    by (cases "dr_read (ds_driver s dev)") (auto simp: rt_device_read_def polite_def bind_eq_Some_conv map_uint_eq)
next
  case (Write p b n)
  then show ?thesis using assms call_driver_flags [of dev "the (dr_write (ds_driver s dev)) p b n" s]
    by (cases "dr_write (ds_driver s dev)") (auto simp: rt_device_write_def polite_def bind_eq_Some_conv map_uint_eq)
next
  case (Control k a)
  then show ?thesis using assms call_driver_flags [of dev "the (dr_control (ds_driver s dev)) k a" s]
    by (cases "dr_control (ds_driver s dev)") (auto simp: rt_device_control_def polite_def bind_eq_Some_conv)
next
  case Initialise
  then show ?thesis using assms activate_flags [of dev "the (dr_init (ds_driver s dev))" s]
    by (cases "dr_init (ds_driver s dev)") (auto simp: rt_device_init_def polite_def bind_eq_Some_conv split: if_split_asm)
qed (use assms in auto)

text \<open>A call on one device leaves the others alone.\<close>

lemma activate_other:
  assumes "activate dev f s = (r, s')" "dev' \<noteq> dev"
  shows "ds_device s' dev' = ds_device s dev' \<and> ds_driver s' = ds_driver s"
proof -
  obtain r1 s1 where c: "call_driver dev f s = (r1, s1)" by fastforce
  have "ds_device s1 dev' = ds_device s dev'" "ds_driver s1 = ds_driver s" using call_driver_frame(1,2) [OF c] assms(2) by blast+
  then show ?thesis using assms c by (auto simp: activate_def split: if_split_asm)
qed

lemma open_active_other:
  assumes "open_active dev oflag (r, t) = (r', t')" "dev' \<noteq> dev"
  shows "ds_device t' dev' = ds_device t dev' \<and> ds_driver t' = ds_driver t"
proof -
  obtain r1 s1 where c: "(case dr_open (ds_driver t dev) of Some open \<Rightarrow> call_driver dev (open oflag) t | None \<Rightarrow> (- RT_ENOSYS, t)) = (r1, s1)"
    by fastforce
  have "ds_device s1 dev' = ds_device t dev' \<and> ds_driver s1 = ds_driver t"
    using c call_driver_frame(1,2) [of dev _ t r1 s1] assms(2) by (auto split: option.splits)
  then show ?thesis using assms c by (auto simp: open_active_def split: if_split_asm)
qed

lemma driver_other:
  assumes "call_driver dev f t = (r, t')" "dev' \<noteq> dev"
  shows "ds_device t' dev' = ds_device t dev' \<and> ds_driver t' = ds_driver t"
  using call_driver_frame(1,2) [OF assms(1)] assms(2) by blast

lemma call_other:
  assumes "call_device dev c s = Some (r, s')" "dev' \<noteq> dev"
  shows "ds_device s' dev' = ds_device s dev' \<and> ds_driver s' = ds_driver s"
proof -
  show ?thesis
  proof (cases c)
    case (Open oflag)
    then obtain r1 s1 where "(if \<not> activated dev s then map_option (\<lambda>init. activate dev init s) (dr_init (ds_driver s dev)) else Some (RT_EOK, s)) = Some (r1, s1)"
      and o: "open_active dev oflag (r1, s1) = (r, s')"
      using assms(1) by (auto simp: rt_device_open_def bind_eq_Some_conv)
    then have "ds_device s1 dev' = ds_device s dev' \<and> ds_driver s1 = ds_driver s"
      using activate_other [of dev _ s r1 s1 dev'] assms(2) by (auto split: if_split_asm)
    then show ?thesis using open_active_other [OF o assms(2)] by simp
  next
    case Close
    obtain r2 s2 where c: "(case dr_close (ds_driver s dev) of Some close \<Rightarrow> call_driver dev close s | None \<Rightarrow> (- RT_ENOSYS, s)) = (r2, s2)"
      by fastforce
    then have "ds_device s2 dev' = ds_device s dev' \<and> ds_driver s2 = ds_driver s"
      using driver_other [of dev _ s r2 s2 dev'] assms(2) by (auto split: option.splits)
    then show ?thesis using assms c Close by (auto simp: rt_device_close_def bind_eq_Some_conv split: if_split_asm)
  next
    case (Read p b n)
    then show ?thesis using assms(1)
      by (auto simp: rt_device_read_def bind_eq_Some_conv map_uint_eq split: option.splits dest!: driver_other [OF _ assms(2)])
  next
    case (Write p b n)
    then show ?thesis using assms(1)
      by (auto simp: rt_device_write_def bind_eq_Some_conv map_uint_eq split: option.splits dest!: driver_other [OF _ assms(2)])
  next
    case (Control k a)
    then show ?thesis using assms driver_other [of dev _ s r s' dev']
      by (auto simp: rt_device_control_def bind_eq_Some_conv split: option.splits)
  next
    case Initialise
    then show ?thesis using assms activate_other [of dev _ s r s' dev']
      by (auto simp: rt_device_init_def bind_eq_Some_conv split: option.splits if_split_asm)
  qed
qed

section \<open>Histories of calls\<close>

fun device_calls :: "(u32 \<times> device_call) list \<Rightarrow> 'd devices \<Rightarrow> (int list \<times> 'd devices) option" where
  "device_calls [] s = Some ([], s)"
| "device_calls ((dev, c) # cs) s = do {
     (r, s) \<leftarrow> call_device dev c s;
     (rs, s) \<leftarrow> device_calls cs s;
     Some (r # rs, s) }"

text \<open>A device that is exclusive and stays so, and whether it is open.\<close>

lemma call_step:
  assumes "polite (ds_driver s dev)" "standalone dev s" "call_device dev' c s = Some (r, s')"
  shows "polite (ds_driver s' dev)" "standalone dev s'"
    "is_open dev s \<Longrightarrow> is_open dev s' \<or> dev' = dev \<and> c = Close \<and> (r = RT_EOK \<or> r = - RT_ENOSYS)"
    "dev' = dev \<Longrightarrow> c = Open oflag \<Longrightarrow> r = RT_EOK \<Longrightarrow> \<not> is_open dev s \<and> is_open dev s'"
proof -
  have "polite (ds_driver s' dev) \<and> standalone dev s' \<and>
    (is_open dev s \<longrightarrow> is_open dev s' \<or> dev' = dev \<and> c = Close \<and> (r = RT_EOK \<or> r = - RT_ENOSYS)) \<and>
    (dev' = dev \<longrightarrow> (\<forall>oflag. c = Open oflag \<longrightarrow> r = RT_EOK \<longrightarrow> \<not> is_open dev s \<and> is_open dev s'))"
  proof (cases "dev' = dev")
    case False
    then show ?thesis using call_other [OF assms(3), of dev] assms(1,2) by (auto simp: standalone_def is_open_def)
  next
    case True
    consider oflag where "c = Open oflag" | "c = Close" | "\<forall>oflag. c \<noteq> Open oflag" "c \<noteq> Close" by blast
    then show ?thesis
    proof cases
      case 1
      then show ?thesis using open_flags [of s dev oflag r s'] assms True by auto
    next
      case 2
      then show ?thesis using close_flags [of s dev r s'] assms True by auto
    next
      case 3
      then show ?thesis using other_flags [of s dev c r s'] assms True by (auto simp: same_flags_def)
    qed
  qed
  then show "polite (ds_driver s' dev)" "standalone dev s'"
    "is_open dev s \<Longrightarrow> is_open dev s' \<or> dev' = dev \<and> c = Close \<and> (r = RT_EOK \<or> r = - RT_ENOSYS)"
    "dev' = dev \<Longrightarrow> c = Open oflag \<Longrightarrow> r = RT_EOK \<Longrightarrow> \<not> is_open dev s \<and> is_open dev s'" by auto
qed

definition closed_at :: "u32 \<Rightarrow> (u32 \<times> device_call) list \<Rightarrow> int list \<Rightarrow> nat \<Rightarrow> bool" where
  "closed_at dev cs rs i \<longleftrightarrow> cs ! i = (dev, Close) \<and> (rs ! i = RT_EOK \<or> rs ! i = - RT_ENOSYS)"

definition opened_at :: "u32 \<Rightarrow> (u32 \<times> device_call) list \<Rightarrow> int list \<Rightarrow> nat \<Rightarrow> bool" where
  "opened_at dev cs rs i \<longleftrightarrow> (\<exists>oflag. cs ! i = (dev, Open oflag)) \<and> rs ! i = RT_EOK"

lemma opened_needs_close:
  "polite (ds_driver s dev) \<Longrightarrow> standalone dev s \<Longrightarrow> is_open dev s \<Longrightarrow> device_calls cs s = Some (rs, s') \<Longrightarrow> j < length cs \<Longrightarrow>
    opened_at dev cs rs j \<Longrightarrow> \<exists>k<j. closed_at dev cs rs k"
proof (induction cs arbitrary: s rs j)
  case (Cons x cs)
  obtain d c where x: "x = (d, c)" by (cases x)
  obtain r s1 rs1 where r: "call_device d c s = Some (r, s1)" "device_calls cs s1 = Some (rs1, s')" "rs = r # rs1"
    using Cons.prems(4) x by (auto simp: bind_eq_Some_conv)
  note st = call_step [OF Cons.prems(1,2) r(1)]
  show ?case
  proof (cases "is_open dev s1")
    case False
    then have "closed_at dev (x # cs) rs 0" using st(3) [OF Cons.prems(3)] x r(3) by (auto simp: closed_at_def)
    moreover have "j \<noteq> 0" using False Cons.prems(6) st(4) x r(3) by (cases j) (auto simp: opened_at_def)
    ultimately show ?thesis by blast
  next
    case True
    have "j \<noteq> 0" using Cons.prems(3,6) st(4) x r(3) by (cases j) (auto simp: opened_at_def)
    then obtain j' where j: "j = Suc j'" by (cases j) auto
    have "\<exists>k<j'. closed_at dev cs rs1 k"
      using Cons.IH [OF st(1,2) True r(2), of j'] Cons.prems(5,6) j r(3) by (auto simp: opened_at_def)
    then show ?thesis using j r(3) by (force simp: closed_at_def)
  qed
qed simp

lemma opens_alternate:
  "polite (ds_driver s dev) \<Longrightarrow> standalone dev s \<Longrightarrow> device_calls cs s = Some (rs, s') \<Longrightarrow> i < j \<Longrightarrow> j < length cs \<Longrightarrow>
    opened_at dev cs rs i \<Longrightarrow> opened_at dev cs rs j \<Longrightarrow> \<exists>k. i < k \<and> k < j \<and> closed_at dev cs rs k"
proof (induction cs arbitrary: s rs i j)
  case (Cons x cs)
  obtain d c where x: "x = (d, c)" by (cases x)
  obtain r s1 rs1 where r: "call_device d c s = Some (r, s1)" "device_calls cs s1 = Some (rs1, s')" "rs = r # rs1"
    using Cons.prems(3) x by (auto simp: bind_eq_Some_conv)
  note st = call_step [OF Cons.prems(1,2) r(1)]
  obtain j' where j: "j = Suc j'" using Cons.prems(4) by (cases j) auto
  have oj: "opened_at dev cs rs1 j'" "j' < length cs" using Cons.prems(5,7) j r(3) by (auto simp: opened_at_def)
  show ?case
  proof (cases i)
    case 0
    then have "is_open dev s1" using st(4) Cons.prems(6) x r(3) by (auto simp: opened_at_def)
    from opened_needs_close [OF st(1,2) this r(2) oj(2,1)] show ?thesis using 0 j r(3) by (force simp: closed_at_def)
  next
    case (Suc i')
    have "\<exists>k. i' < k \<and> k < j' \<and> closed_at dev cs rs1 k"
      using Cons.IH [OF st(1,2) r(2), of i' j'] Cons.prems(4,6) Suc j oj r(3) by (auto simp: opened_at_def)
    then show ?thesis using Suc j r(3) by (force simp: closed_at_def)
  qed
qed simp

end
