(* ===== verification/Rt_Align.thy ===== *)
theory Rt_Align
  imports Rt_Object
begin

text \<open>
  What the kernel's library (\<open>kservice.c\<close>) does with the heap: aligned blocks, with the address of the real
  block in the word in front of them, and copies of strings. The state is that of the registry: memory, heap
  and where the heap starts.
\<close>

definition rt_malloc_align :: "u32 \<Rightarrow> u32 \<Rightarrow> registry \<Rightarrow> (u32 \<times> registry) option" where
  "rt_malloc_align sz align s = do {
     let align = (align + 3) AND NOT 3;
     let align_size = ((sz + 3) AND NOT 3) + align;
     (p, h) \<leftarrow> rt_malloc align_size (rg_heap s);
     let s = s\<lparr>rg_heap := h\<rparr>;
     Some (case p of None \<Rightarrow> (0, s)
       | Some d \<Rightarrow>
           let ptr = rg_heap_ptr s + of_nat d;
               align_ptr = (if ptr AND (align - 1) = 0 then ptr + align else (ptr + (align - 1)) AND NOT (align - 1))
           in (align_ptr, s\<lparr>rg_mem := store_word (rg_mem s) (align_ptr - 4) ptr\<rparr>)) }"

definition rt_free_align :: "u32 \<Rightarrow> registry \<Rightarrow> registry option" where
  "rt_free_align ptr s = do {
     let real_ptr = load_word (rg_mem s) (ptr - 4);
     h \<leftarrow> rt_free (if real_ptr = 0 then None else Some (unat (real_ptr - rg_heap_ptr s))) (rg_heap s);
     Some (s\<lparr>rg_heap := h\<rparr>) }"

definition rt_strdup :: "u32 \<Rightarrow> registry \<Rightarrow> (u32 \<times> registry) option" where
  "rt_strdup str s = do {
     n \<leftarrow> rt_strlen (rg_mem s) str;
     let len = n + 1;
     (p, h) \<leftarrow> rt_malloc len (rg_heap s);
     let s = s\<lparr>rg_heap := h\<rparr>;
     Some (case p of None \<Rightarrow> (0, s)
       | Some d \<Rightarrow> let tmp = rg_heap_ptr s + of_nat d in (tmp, s\<lparr>rg_mem := rt_memcpy tmp str len (rg_mem s)\<rparr>)) }"

section \<open>Rounding up\<close>

lemma load_store: "load_word (store_word m a w) a = w"
proof -
  have "a + 1 \<noteq> a" "a + 2 \<noteq> a" "a + 3 \<noteq> a" "a + 2 \<noteq> a + 1" "a + 3 \<noteq> a + 1" "a + 3 \<noteq> a + 2" by simp_all
  then have "load_word (store_word m a w) a = ucast (ucast w :: u8) OR push_bit 8 (ucast (ucast (drop_bit 8 w) :: u8))
      OR push_bit 16 (ucast (ucast (drop_bit 16 w) :: u8)) OR push_bit 24 (ucast (ucast (drop_bit 24 w) :: u8))"
    by (simp add: load_word_def store_word_def)
  also have "\<dots> = w"
  proof (rule bit_word_eqI)
    fix n assume "n < LENGTH(32)"
    then consider "n < 8" | "8 \<le> n" "n < 16" | "16 \<le> n" "n < 24" | "24 \<le> n" "n < 32" by fastforce
    then show "bit (ucast (ucast w :: u8) OR push_bit 8 (ucast (ucast (drop_bit 8 w) :: u8))
      OR push_bit 16 (ucast (ucast (drop_bit 16 w) :: u8)) OR push_bit 24 (ucast (ucast (drop_bit 24 w) :: u8)) :: u32) n \<longleftrightarrow> bit w n"
      by cases (auto simp: bit_simps)
  qed
  finally show ?thesis .
qed

text \<open>The aligned address is the next multiple above the block, whether the block is aligned or not.\<close>

lemma round_up:
  fixes ptr :: u32
  assumes k: "k < 32" and fit: "unat ptr + 2 ^ k < 4294967296"
  shows "unat (if ptr AND (2 ^ k - 1) = 0 then ptr + 2 ^ k else (ptr + (2 ^ k - 1)) AND NOT (2 ^ k - 1)) = (unat ptr div 2 ^ k + 1) * 2 ^ k"
proof -
  have m: "(2 ^ k - 1 :: u32) = mask k" by (simp add: mask_eq_exp_minus_1)
  have p: "unat (2 ^ k :: u32) = 2 ^ k"
  proof -
    have "(2 :: nat) ^ k < 2 ^ 32" using k by (intro power_strict_increasing) simp_all
    moreover have "(2 ^ k :: u32) = of_nat (2 ^ k)" by simp
    ultimately show ?thesis by (simp only: unat_of_nat) simp
  qed
  have z: "ptr AND mask k = 0 \<longleftrightarrow> unat ptr mod 2 ^ k = 0" by (simp add: word_unat_eq_iff unat_and_mask)
  show ?thesis
  proof (cases "unat ptr mod 2 ^ k = 0")
    case True
    have "unat (ptr + 2 ^ k) = unat ptr + 2 ^ k" using fit p by (simp add: unat_word_ariths)
    moreover have "unat ptr = unat ptr div 2 ^ k * 2 ^ k" using True by (metis add.right_neutral div_mult_mod_eq)
    ultimately show ?thesis using True z m by (simp add: algebra_simps)
  next
    case False
    let ?q = "unat ptr div 2 ^ k" and ?r = "unat ptr mod 2 ^ k"
    have "unat (mask k :: u32) = 2 ^ k - 1" using p by (simp add: m [symmetric] unat_sub word_le_nat_alt)
    then have "unat (ptr + mask k) = unat ptr + (2 ^ k - 1)" using fit by (simp add: unat_word_ariths)
    also have "\<dots> = (?r - 1) + (?q + 1) * 2 ^ k"
    proof -
      have "(?q + 1) * 2 ^ k = ?q * 2 ^ k + 2 ^ k" "unat ptr = ?q * 2 ^ k + ?r" "1 \<le> ?r" "(1 :: nat) \<le> 2 ^ k"
        using False by (simp, simp only: div_mult_mod_eq, simp_all)
      then show ?thesis by linarith
    qed
    finally have "unat (ptr + mask k) div 2 ^ k = ((?r - 1) + (?q + 1) * 2 ^ k) div 2 ^ k" by (rule arg_cong)
    also have "\<dots> = ?q + 1 + (?r - 1) div 2 ^ k" by (rule div_mult_self1) simp
    also have "(?r - 1) div 2 ^ k = 0" by (simp add: less_imp_diff_less)
    finally have "unat (ptr + mask k) div 2 ^ k = ?q + 1" by simp
    then show ?thesis using False z unat_and_not_mask [of "ptr + mask k" k] unfolding m by (simp add: mult.commute)
  qed
qed

section \<open>Aligned blocks\<close>

text \<open>What is allocated for an aligned block is large enough for it and for the word in front of it.\<close>

lemma malloc_align_ok:
  assumes fits: "memory_fits s" and p: "4 dvd unat (rg_heap_ptr s)" and sz: "0 < sz" "unat sz \<le> 0x10000" and k: "2 \<le> k" "k \<le> 12"
  shows "\<exists>a s'. rt_malloc_align sz (2 ^ k) s = Some (a, s') \<and>
    (a = 0 \<and> s' = s \<or>
     (\<exists>d. d \<in> heap_live (rg_heap s') \<and> d \<notin> heap_live (rg_heap s) \<and> heap_ok (rg_heap s') \<and> unat a mod 2 ^ k = 0
       \<and> rg_heap_ptr s + of_nat d \<noteq> 0 \<and> load_word (rg_mem s') (a - 4) = rg_heap_ptr s + of_nat d \<and> rg_heap_ptr s' = rg_heap_ptr s
       \<and> unat (rg_heap_ptr s + of_nat d) = unat (rg_heap_ptr s) + d
       \<and> {unat a - 4..<unat a + unat sz} \<subseteq> (\<lambda>i. unat (rg_heap_ptr s) + i) ` heap_region (rg_heap s') d
       \<and> heap_live (rg_heap s') = insert d (heap_live (rg_heap s))))"
proof -
  let ?A = "2 ^ k :: u32" and ?h = "rg_heap s" and ?p = "rg_heap_ptr s"
  have hp: "heap_ok ?h" "unat ?p + heap_end ?h \<le> 4294967296" using fits by (simp_all add: memory_fits_def)
  have pow: "(2 :: nat) ^ k \<le> 4096" "4 \<le> (2 :: nat) ^ k" "(4 :: nat) dvd 2 ^ k"
    using power_increasing [of k 12 "2 :: nat"] power_increasing [of 2 k "2 :: nat"] le_imp_power_dvd [of 2 k "2 :: nat"] k by simp_all
  have ua: "unat ?A = 2 ^ k"
  proof -
    have "?A = of_nat (2 ^ k)" by simp
    then show ?thesis using pow(1) by (simp only: unat_of_nat) simp
  qed
  have al: "(?A + 3) AND NOT 3 = ?A"
  proof -
    have "unat (?A + 3) = 2 ^ k + 3" using ua pow(1) by (simp add: unat_word_ariths)
    moreover have "(2 ^ k + 3) div 4 * 4 = (2 :: nat) ^ k" using pow(3) by (auto elim!: dvdE)
    ultimately show ?thesis using unat_align_down [of "?A + 3"] ua by (simp add: word_unat_eq_iff mult.commute)
  qed
  define n where "n = ((sz + 3) AND NOT 3) + ?A"
  have un: "unat sz + 2 ^ k \<le> unat n" "unat n \<le> unat sz + 3 + 2 ^ k" "4 dvd unat n"
  proof -
    have "unat (sz + 3) = unat sz + 3" using sz(2) by (simp add: unat_word_ariths)
    then have r: "unat ((sz + 3) AND NOT 3) = 4 * ((unat sz + 3) div 4)" using unat_align_down [of "sz + 3"] by simp
    then have "unat n = 4 * ((unat sz + 3) div 4) + 2 ^ k" unfolding n_def using sz(2) pow(1) ua by (simp add: unat_word_ariths)
    then show "unat sz + 2 ^ k \<le> unat n" "unat n \<le> unat sz + 3 + 2 ^ k" "4 dvd unat n" using pow(3) by auto
  qed
  have mb: "unat n \<le> malloc_bytes n"
    using un sz(2) pow(1) align_up(1) [of n] by (simp add: malloc_bytes_def)
  obtain x h where m: "rt_malloc n ?h = Some (x, h)" "heap_ok h" "h_size h = h_size ?h"
    and c: "case x of None \<Rightarrow> h = ?h
     | Some d \<Rightarrow> 4 dvd d \<and> d \<notin> heap_live ?h \<and> heap_live h = insert d (heap_live ?h) \<and> malloc_bytes n \<le> card (heap_region h d)"
    using rt_malloc_ok [OF hp(1), of n] by (auto split: option.splits)
  show ?thesis
  proof (cases x)
    case None
    then have "rt_malloc_align sz ?A s = Some (0, s)" using m(1) c unfolding rt_malloc_align_def Let_def al n_def [symmetric] by simp
    then show ?thesis by blast
  next
    case (Some d)
    then have d: "4 dvd d" "d \<notin> heap_live ?h" "heap_live h = insert d (heap_live ?h)" "malloc_bytes n \<le> card (heap_region h d)"
      using c by auto
    have live: "d \<in> heap_live h" using d(3) by simp
    note r = block_region [OF m(2) live]
    let ?ptr = "?p + of_nat d"
    define a where "a = (if ?ptr AND (?A - 1) = 0 then ?ptr + ?A else (?ptr + (?A - 1)) AND NOT (?A - 1))"
    have he: "heap_end h = heap_end ?h" using m(3) by (simp add: heap_end_def)
    have top: "d + unat n \<le> heap_end ?h" using r(2) d(4) mb he by linarith
    have sz1: "0 < unat sz" using sz(1) by (simp add: word_less_nat_alt)
    have up: "unat ?ptr = unat ?p + d" using top hp(2) un(1) pow(2) by (simp add: unat_word_ariths unat_of_nat)
    have fit: "unat ?ptr + 2 ^ k + unat sz \<le> 4294967296" using up top hp(2) un(1) by linarith
    have au: "unat a = (unat ?ptr div 2 ^ k + 1) * 2 ^ k" unfolding a_def using fit sz1 k by (intro round_up) auto
    let ?r = "unat ?ptr mod 2 ^ k"
    have a': "unat a + ?r = unat ?ptr + 2 ^ k" unfolding au by (simp add: algebra_simps)
    have "4 dvd unat ?ptr" unfolding up using p d(1) by simp
    then have "4 dvd ?r" using pow(3) by (simp add: dvd_mod)
    then obtain u where u: "?r = 4 * u" by blast
    obtain v where v: "(2 :: nat) ^ k = 4 * v" using pow(3) by blast
    have "?r < 2 ^ k" by simp
    then have "u < v" unfolding u unfolding v by simp
    then have gap: "?r + 4 \<le> 2 ^ k" unfolding u unfolding v by simp
    have inside: "{unat a - 4..<unat a + unat sz} \<subseteq> (\<lambda>i. unat ?p + i) ` heap_region h d"
    proof
      fix y assume y: "y \<in> {unat a - 4..<unat a + unat sz}"
      then have "unat ?p + d \<le> y" "y < unat ?p + d + unat n" using a' gap up un(1) by auto
      then have "y - unat ?p \<in> heap_region h d" "y = unat ?p + (y - unat ?p)" using d(4) mb by (subst r(1), auto)
      then show "y \<in> (\<lambda>i. unat ?p + i) ` heap_region h d" by blast
    qed
    have z: "unat a mod 2 ^ k = 0" unfolding au by simp
    have nz: "?ptr \<noteq> 0" using up r(3) by auto
    let ?s = "s\<lparr>rg_heap := h, rg_mem := store_word (rg_mem s) (a - 4) ?ptr\<rparr>"
    have res: "rt_malloc_align sz ?A s = Some (a, ?s)"
      using m(1) Some unfolding rt_malloc_align_def Let_def al n_def [symmetric] a_def by simp
    have "rg_heap ?s = h" "rg_heap_ptr ?s = ?p" "load_word (rg_mem ?s) (a - 4) = ?ptr" by (simp_all add: load_store)
    then show ?thesis using res d(2,3) live m(2) inside up z nz
      by (intro exI [of _ a] exI [of _ ?s] conjI disjI2 exI [of _ d]) simp_all
  qed
qed

section \<open>Copies of strings\<close>

lemma str_at_cong:
  "str_at m s xs \<Longrightarrow> \<forall>i\<le>length xs. m' (d + of_nat i) = m (s + of_nat i) \<Longrightarrow> str_at m' d xs"
proof (induction xs arbitrary: d s)
  case Nil
  then show ?case by simp
next
  case (Cons x xs)
  have "\<forall>i\<le>length xs. m' (d + 1 + of_nat i) = m (s + 1 + of_nat i)"
  proof (intro allI impI)
    fix i assume "i \<le> length xs"
    then show "m' (d + 1 + of_nat i) = m (s + 1 + of_nat i)" using Cons.prems(2) [rule_format, of "Suc i"] by (simp add: add.assoc)
  qed
  then show ?case using Cons.IH [of "s + 1" "d + 1"] Cons.prems(1) Cons.prems(2) [rule_format, of 0] by simp
qed

text \<open>A copy of a string from outside the heap is that string.\<close>

lemma strdup_copies:
  assumes fits: "memory_fits s" and str: "str_at (rg_mem s) p xs" and len: "length xs \<le> 0xffff"
    and out: "\<forall>x\<in>bytes_at p (length xs + 1). heap_end (rg_heap s) \<le> unat (x - rg_heap_ptr s)"
  shows "\<exists>t s'. rt_strdup p s = Some (t, s') \<and> (t = 0 \<and> s' = s \<or> str_at (rg_mem s') t xs \<and> t \<noteq> p \<and> heap_ok (rg_heap s'))"
proof -
  let ?h = "rg_heap s" and ?p = "rg_heap_ptr s" and ?n = "of_nat (length xs) + 1 :: u32"
  have hp: "heap_ok ?h" "unat ?p + heap_end ?h \<le> 4294967296" using fits by (simp_all add: memory_fits_def)
  have n: "unat ?n = length xs + 1" using len by (simp add: unat_word_ariths unat_of_nat)
  have sl: "rt_strlen (rg_mem s) p = Some (of_nat (length xs))" by (rule strlen_at [OF str])
  obtain x h where m: "rt_malloc ?n ?h = Some (x, h)" "heap_ok h" "h_size h = h_size ?h"
    and c: "case x of None \<Rightarrow> h = ?h | Some d \<Rightarrow> heap_live h = insert d (heap_live ?h) \<and> malloc_bytes ?n \<le> card (heap_region h d)"
    using rt_malloc_ok [OF hp(1), of ?n] by (auto split: option.splits)
  show ?thesis
  proof (cases x)
    case None
    then have "rt_strdup p s = Some (0, s)" using m(1) c sl by (simp add: rt_strdup_def Let_def)
    then show ?thesis by blast
  next
    case (Some d)
    let ?t = "?p + of_nat d"
    have live: "d \<in> heap_live h" "12 \<le> card (heap_region h d)" using c Some malloc_bytes(2) [of ?n] by auto
    note r = block_region [OF m(2) live(1)]
    have he: "heap_end h = heap_end ?h" using m(3) by (simp add: heap_end_def)
    have "d + 1 \<le> heap_end ?h" using r(2) live(2) he by linarith
    then have "unat (?t - ?p) < heap_end ?h" using hp(2) by (simp add: unat_of_nat)
    then have "?t \<notin> bytes_at p (length xs + 1)" using out by fastforce
    then have far: "unat ?n \<le> unat (?t - p)" "?t \<noteq> p" using n by (auto simp: bytes_at_def)
    let ?m = "rt_memcpy ?t p ?n (rg_mem s)"
    have "?m = moved ?t p (unat ?n) (rg_mem s)"
      unfolding memcpy_bytes using far(1) n len by (intro copy_up_moved) simp_all
    moreover have "moved ?t p (unat ?n) (rg_mem s) (?t + of_nat i) = rg_mem s (p + of_nat i)" if "i \<le> length xs" for i
      using that n len by (simp add: moved_def unat_of_nat)
    ultimately have "str_at ?m ?t xs" using str by (intro str_at_cong [OF str]) simp
    moreover have "rt_strdup p s = Some (?t, s\<lparr>rg_heap := h, rg_mem := ?m\<rparr>)"
      using m(1) Some sl by (simp add: rt_strdup_def Let_def)
    ultimately show ?thesis using far(2) m(2) by (intro exI [of _ ?t] exI [of _ "s\<lparr>rg_heap := h, rg_mem := ?m\<rparr>"]) simp
  qed
qed

end
