(* ===== verification/Rt_Registry.thy ===== *)
theory Rt_Registry
  imports Rt_Device Rt_Align Rt_Memory Rt_Demo
begin

text \<open>What the registry of objects, the devices and the library's use of the heap guarantee to their users.\<close>

section \<open>Objects\<close>

text \<open>C33: In every history of calls that keeps to the rules of the registry no call fails to return, every
  container holds objects of its own class only, no object twice, and the headers of different objects,
  static or allocated, never overlap.
\<close>

theorem registry_typed:
  assumes "reg_ok s" "calls_allowed cs s"
  shows "\<exists>s'. reg_calls cs s = Some s' \<and> reg_ok s'
    \<and> (\<forall>c. distinct (rg_lists s' c) \<and> (\<forall>obj\<in>set (rg_lists s' c). c < 9 \<and> object_type (rg_mem s') obj AND 0x7f = of_nat c))
    \<and> (\<forall>a\<in>listed s'. \<forall>b\<in>listed s'. a \<noteq> b \<longrightarrow> bytes_at a 10 \<inter> bytes_at b 10 = {})"
proof -
  obtain s' where s': "reg_calls cs s = Some s'" "reg_ok s'" using reg_calls_ok [OF assms] by blast
  then have "\<forall>c. distinct (rg_lists s' c) \<and> (\<forall>obj\<in>set (rg_lists s' c). c < 9 \<and> object_ok s' c obj)"
    "\<forall>a\<in>listed s'. \<forall>b\<in>listed s'. a \<noteq> b \<longrightarrow> apart a b" by (simp_all add: reg_ok_def)
  then show ?thesis using s' by (auto simp: object_ok_def apart_def)
qed

text \<open>A registry that is empty, and a name in read-only memory.\<close>

definition demo_registry :: registry where
  "demo_registry = \<lparr>rg_kernel = demo (WSem 0), rg_mem = (\<lambda>_. 0)(0x08000000 := 0x75), rg_lists = (\<lambda>_. []), rg_size = (\<lambda>_. 40),
     rg_heap = demo_heap, rg_heap_ptr = 0x20000000\<rparr>"

lemma demo_heap_ok: "heap_ok demo_heap"
  unfolding demo_heap_def by (rule rt_system_heap_init_ok(1) [OF demo_bounds])

lemma demo_registry_ok: "reg_ok demo_registry"
  using demo_heap_ok demo_heap_size
  by (simp add: demo_registry_def reg_ok_def memory_fits_def listed_def heap_end_def)

lemma demo_fresh: "fresh_object 0x10000000 0x08000000 demo_registry"
proof -
  have "heap_end demo_heap = 4084" using demo_heap_size by (simp add: heap_end_def)
  moreover have "4084 \<le> unat (x - 0x20000000)" "x \<notin> bytes_at 0x08000000 8" if "x \<in> bytes_at 0x10000000 10" for x :: u32
  proof -
    define k where "k = x - 0x10000000"
    have k: "unat k < 10" using that by (simp add: k_def bytes_at_def)
    have x: "x - 0x20000000 = k + 0xf0000000" "x - 0x08000000 = k + 0x08000000" by (simp_all add: k_def)
    have u: "unat (k + 0xf0000000) = unat k + 0xf0000000" "unat (k + 0x08000000) = unat k + 0x08000000"
      using k by (simp_all add: unat_word_ariths)
    show "4084 \<le> unat (x - 0x20000000)" unfolding x u by simp
    show "x \<notin> bytes_at 0x08000000 8" unfolding bytes_at_def mem_Collect_eq x u by simp
  qed
  ultimately show ?thesis by (auto simp: fresh_object_def demo_registry_def listed_def)
qed

theorem registry_typed_witness:
  "\<exists>s'. reg_calls [Init 0x10000000 7 0x08000000] demo_registry = Some s' \<and> reg_ok s'"
  using registry_typed [OF demo_registry_ok, of "[Init 0x10000000 7 0x08000000]"] demo_fresh
  by (auto simp: RT_Object_Class_Unknown_def)

text \<open>C34: An object that has been registered is what a search for its name finds, whatever had that name before; a
  name is its first eight characters; other names still lead where they led. Detaching the object brings
  back all names as they were.
\<close>

theorem object_found:
  assumes ok: "reg_ok s" and type: "type < RT_Object_Class_Unknown" and obj: "fresh_object obj name s"
    and k: "k_interrupt_nest (rg_kernel s) = 0" "rt_exit_critical (rt_enter_critical (rg_kernel s)) = Some k" and q: "q \<noteq> 0"
  shows "\<exists>s' s''. rt_object_init obj type name s = Some s'
    \<and> rt_object_find q type s' = Some (if name_at 8 (rg_mem s') q = name_at 8 (rg_mem s) name then obj
        else case map_of (entries (unat type) s) (name_at 8 (rg_mem s') q) of None \<Rightarrow> 0 | Some x \<Rightarrow> x, s'\<lparr>rg_kernel := k\<rparr>)
    \<and> rt_object_detach obj s' = Some s'' \<and> entries (unat type) s'' = entries (unat type) s"
proof -
  have can: "type < RT_Object_Class_Unknown \<and> fresh_object obj name s" using type obj by simp
  obtain s' s'' where s': "rt_object_init obj type name s = Some s'" "rt_object_detach obj s' = Some s''" "entries (unat type) s'' = entries (unat type) s"
    using objects.enter_remove [where s = s and p = name and x = obj, OF ok can] by blast
  have kern: "rg_kernel s' = rg_kernel s" and ok': "reg_ok s'" using object_init_ok [OF ok type obj] s'(1) by auto
  have e: "found (unat type) s' q = (if name_at 8 (rg_mem s') q = name_at 8 (rg_mem s) name then Some obj
      else map_of (entries (unat type) s) (name_at 8 (rg_mem s') q))"
    by (rule objects.entered_found [OF ok can s'(1)])
  have "rt_object_find q type s' =
    Some (case map_of (entries (unat type) s') (name_at 8 (rg_mem s') q) of None \<Rightarrow> 0 | Some obj \<Rightarrow> obj, s'\<lparr>rg_kernel := k\<rparr>)"
    using k q by (intro object_find_ok [OF type]) (simp_all add: kern)
  moreover have "map_of (entries (unat type) s') (name_at 8 (rg_mem s') q) = found (unat type) s' q"
    by (rule found_entries [OF ok', symmetric])
  ultimately show ?thesis using s' unfolding e by (auto split: if_split)
qed

lemma demo_critical: "\<exists>k. rt_exit_critical (rt_enter_critical (demo w)) = Some k"
  by (rule critical_returns [OF demo_sched_ok, of w 0]) (simp add: demo_stat)

theorem object_found_witness:
  "\<exists>s' k. rt_object_init 0x10000000 7 0x08000000 demo_registry = Some s' \<and> rt_object_find 0x10000000 7 s' = Some (0x10000000, s'\<lparr>rg_kernel := k\<rparr>)"
proof -
  obtain k where k: "rt_exit_critical (rt_enter_critical (rg_kernel demo_registry)) = Some k"
    using demo_critical by (auto simp: demo_registry_def)
  have n: "k_interrupt_nest (rg_kernel demo_registry) = 0" by (simp add: demo_registry_def)
  have t: "(7 :: u8) < RT_Object_Class_Unknown" by (simp add: RT_Object_Class_Unknown_def)
  obtain s' where s': "rt_object_init 0x10000000 7 0x08000000 demo_registry = Some s'"
    and f: "rt_object_find 0x10000000 7 s' = Some (if name_at 8 (rg_mem s') 0x10000000 = name_at 8 (rg_mem demo_registry) 0x08000000 then 0x10000000
        else case map_of (entries 7 demo_registry) (name_at 8 (rg_mem s') 0x10000000) of None \<Rightarrow> 0 | Some x \<Rightarrow> x, s'\<lparr>rg_kernel := k\<rparr>)"
    using object_found [OF demo_registry_ok t demo_fresh n k, of "0x10000000"] by auto
  have "entries 7 s' = [(name_at 8 (rg_mem demo_registry) 0x08000000, 0x10000000)]"
    using object_init_ok [OF demo_registry_ok t demo_fresh] s' by (simp add: entries_def demo_registry_def del: name_at.simps)
  then have "name_at 8 (rg_mem s') 0x10000000 = name_at 8 (rg_mem demo_registry) 0x08000000" by (auto simp: entries_def)
  then show ?thesis using s' f by auto
qed

section \<open>Devices\<close>

text \<open>C35: A standalone device whose driver leaves the flags alone is used by one at a time: in every history of
  calls on all devices, between two successful openings of it there is a closing of it.
\<close>

theorem standalone_exclusive:
  assumes "polite (ds_driver s dev)" "standalone dev s" "device_calls cs s = Some (rs, s')" "i < j" "j < length cs"
    "cs ! i = (dev, Open o1)" "rs ! i = RT_EOK" "cs ! j = (dev, Open o2)" "rs ! j = RT_EOK"
  shows "\<exists>k. i < k \<and> k < j \<and> cs ! k = (dev, Close) \<and> (rs ! k = RT_EOK \<or> rs ! k = - RT_ENOSYS)"
  using opens_alternate [OF assms(1-5)] assms(6-9) by (auto simp: opened_at_def closed_at_def)

definition demo_driver :: "unit driver" where
  "demo_driver = \<lparr>dr_init = None, dr_open = Some (\<lambda>oflag x. (0, x)), dr_close = None, dr_read = None, dr_write = None, dr_control = None\<rparr>"

definition demo_devices :: "unit devices" where
  "demo_devices = \<lparr>ds_registry = demo_registry, ds_driver = (\<lambda>_. demo_driver),
     ds_device = (\<lambda>_. \<lparr>dv_flag = 0x18, dv_open_flag = 0, dv_rx_indicate = 0, dv_tx_complete = 0\<rparr>), ds_state = (), ds_errno = 0, ds_console = 0\<rparr>"

theorem standalone_exclusive_witness:
  "\<exists>s'. device_calls [(1, Open 3), (1, Open 3), (1, Close), (1, Open 3)] demo_devices = Some ([0, - 7, - 6, 0], s')
     \<and> (\<exists>k. 0 < k \<and> k < 3 \<and> [(1, Open 3), (1, Open 3), (1, Close), (1, Open 3)] ! k = (1 :: u32, Close))"
proof -
  let ?cs = "[(1, Open 3), (1, Open 3), (1, Close), (1, Open 3)] :: (u32 \<times> device_call) list"
  have p: "polite (ds_driver demo_devices 1)" by (simp add: demo_devices_def demo_driver_def polite_def keeps_flags_def)
  have st: "standalone 1 demo_devices" by (simp add: standalone_def demo_devices_def RT_DEVICE_FLAG_STANDALONE_def)
  obtain s' where r: "device_calls ?cs demo_devices = Some ([0, - 7, - 6, 0], s')"
    by (simp add: demo_devices_def demo_driver_def rt_device_open_def rt_device_close_def activated_def open_active_def upd_device_def
        call_driver_def RT_DEVICE_FLAG_ACTIVATED_def RT_DEVICE_FLAG_STANDALONE_def RT_DEVICE_OFLAG_OPEN_def RT_DEVICE_OFLAG_CLOSE_def)
  have "\<exists>k. 0 < k \<and> k < 3 \<and> ?cs ! k = (1, Close) \<and> ([0, - 7, - 6, 0 :: int] ! k = RT_EOK \<or> [0, - 7, - 6, 0 :: int] ! k = - RT_ENOSYS)"
    using standalone_exclusive [OF p st r, of 0 3 3 3] by simp
  then show ?thesis using r by blast
qed

text \<open>A device that is not active and has no function to initialise it cannot be opened without a jump to the null address.\<close>

theorem open_without_init:
  "dev \<noteq> 0 \<Longrightarrow> \<not> activated dev s \<Longrightarrow> dr_init (ds_driver s dev) = None \<Longrightarrow>
    rt_device_open dev oflag s = None \<and> rt_device_init dev s = Some (- RT_ENOSYS, s)"
  by (simp add: rt_device_open_def rt_device_init_def)

text \<open>A device is found as an object of its class is, where objects may be searched at all.\<close>

theorem device_find_object_find:
  assumes "name \<noteq> 0" "k_interrupt_nest (rg_kernel (ds_registry s)) = 0" "k_current (rg_kernel (ds_registry s)) \<noteq> None"
  shows "rt_device_find name s = map_option (\<lambda>(dev, r). (dev, s\<lparr>ds_registry := r\<rparr>)) (rt_object_find name RT_Object_Class_Device (ds_registry s))"
  using assms by (cases "rt_exit_critical (rt_enter_critical (rg_kernel (ds_registry s)))")
    (simp_all add: rt_device_find_def rt_object_find_def RT_Object_Class_Device_def RT_Object_Class_Unknown_def Let_def)

section \<open>Aligned blocks\<close>

text \<open>C36: An aligned block starts at a multiple of its alignment, lies with the word in front of it inside one block
  of the heap that was free before, and is given back to the heap by \<open>rt_free_align\<close>.
\<close>

theorem malloc_align_inside:
  assumes "memory_fits s" "4 dvd unat (rg_heap_ptr s)" "0 < sz" "unat sz \<le> 0x10000" "2 \<le> k" "k \<le> 12"
  shows "\<exists>a s'. rt_malloc_align sz (2 ^ k) s = Some (a, s') \<and>
    (a = 0 \<and> s' = s \<or>
     unat a mod 2 ^ k = 0 \<and>
     (\<exists>d s''. d \<in> heap_live (rg_heap s') \<and> d \<notin> heap_live (rg_heap s)
       \<and> {unat a - 4..<unat a + unat sz} \<subseteq> (\<lambda>i. unat (rg_heap_ptr s) + i) ` heap_region (rg_heap s') d
       \<and> rt_free_align a s' = Some s'' \<and> heap_ok (rg_heap s'') \<and> heap_live (rg_heap s'') = heap_live (rg_heap s)))"
proof -
  let ?p = "rg_heap_ptr s"
  obtain a s' where m: "rt_malloc_align sz (2 ^ k) s = Some (a, s')" and c: "a = 0 \<and> s' = s \<or>
     (\<exists>d. d \<in> heap_live (rg_heap s') \<and> d \<notin> heap_live (rg_heap s) \<and> heap_ok (rg_heap s') \<and> unat a mod 2 ^ k = 0
       \<and> ?p + of_nat d \<noteq> 0 \<and> load_word (rg_mem s') (a - 4) = ?p + of_nat d \<and> rg_heap_ptr s' = ?p
       \<and> unat (?p + of_nat d) = unat ?p + d
       \<and> {unat a - 4..<unat a + unat sz} \<subseteq> (\<lambda>i. unat ?p + i) ` heap_region (rg_heap s') d
       \<and> heap_live (rg_heap s') = insert d (heap_live (rg_heap s)))"
    using malloc_align_ok [OF assms] by (elim exE conjE) (rule that)
  from c show ?thesis
  proof (elim disjE)
    assume "a = 0 \<and> s' = s"
    then show ?thesis by (intro exI [of _ a] exI [of _ s'] conjI [OF m] disjI1)
  next
    assume "\<exists>d. d \<in> heap_live (rg_heap s') \<and> d \<notin> heap_live (rg_heap s) \<and> heap_ok (rg_heap s') \<and> unat a mod 2 ^ k = 0
       \<and> ?p + of_nat d \<noteq> 0 \<and> load_word (rg_mem s') (a - 4) = ?p + of_nat d \<and> rg_heap_ptr s' = ?p
       \<and> unat (?p + of_nat d) = unat ?p + d
       \<and> {unat a - 4..<unat a + unat sz} \<subseteq> (\<lambda>i. unat ?p + i) ` heap_region (rg_heap s') d
       \<and> heap_live (rg_heap s') = insert d (heap_live (rg_heap s))"
    then obtain d where d: "d \<in> heap_live (rg_heap s')" "d \<notin> heap_live (rg_heap s)" "heap_ok (rg_heap s')" "unat a mod 2 ^ k = 0"
      "?p + of_nat d \<noteq> 0" "load_word (rg_mem s') (a - 4) = ?p + of_nat d" "rg_heap_ptr s' = ?p" "unat (?p + of_nat d) = unat ?p + d"
      "{unat a - 4..<unat a + unat sz} \<subseteq> (\<lambda>i. unat ?p + i) ` heap_region (rg_heap s') d"
      "heap_live (rg_heap s') = insert d (heap_live (rg_heap s))" by (elim exE conjE) (rule that)
    obtain h where h: "rt_free (Some d) (rg_heap s') = Some h" "heap_ok h" "heap_live h = heap_live (rg_heap s') - {d}"
      using rt_free_ok [OF d(3,1)] by blast
    have "unat (?p + of_nat d) < 4294967296" using unsigned_less [of "?p + of_nat d", where 'a = nat] by simp
    then have "d < 4294967296" using d(8) by simp
    then have "unat (of_nat d :: u32) = d" by (simp add: unat_of_nat)
    then have f: "rt_free_align a s' = Some (s'\<lparr>rg_heap := h\<rparr>)" using d(5-7) h(1) by (simp add: rt_free_align_def)
    have g: "heap_ok (rg_heap (s'\<lparr>rg_heap := h\<rparr>))" "heap_live (rg_heap (s'\<lparr>rg_heap := h\<rparr>)) = heap_live (rg_heap s)"
      using h(2,3) d(2,10) by simp_all
    have "\<exists>d s''. d \<in> heap_live (rg_heap s') \<and> d \<notin> heap_live (rg_heap s)
       \<and> {unat a - 4..<unat a + unat sz} \<subseteq> (\<lambda>i. unat ?p + i) ` heap_region (rg_heap s') d
       \<and> rt_free_align a s' = Some s'' \<and> heap_ok (rg_heap s'') \<and> heap_live (rg_heap s'') = heap_live (rg_heap s)"
      by (rule exI [of _ d], rule exI [of _ "s'\<lparr>rg_heap := h\<rparr>"]) (intro conjI d(1,2,9) f g)
    then show ?thesis by (intro exI [of _ a] exI [of _ s'] conjI [OF m] disjI2 conjI [OF d(4)])
  qed
qed

theorem malloc_align_inside_witness:
  "\<exists>a s'. rt_malloc_align 100 32 demo_registry = Some (a, s') \<and> unat a mod 32 = 0"
proof -
  have f: "memory_fits demo_registry" using demo_registry_ok by (simp add: reg_ok_def)
  have "4 dvd unat (rg_heap_ptr demo_registry)" by (simp add: demo_registry_def)
  from malloc_align_inside [OF f this, of 100 5] show ?thesis by auto
qed

end
