(* ===== verification/Spec2Isabelle.thy ===== *)
theory Spec2Isabelle
  imports Vtdr_Clock Vtdr_Flash_Chip Vtdr_Guarantees Vtdr_Comms Rt_Guarantees Rt_Memory Rt_Library Rt_Registry
begin

text \<open>
  A model of the vehicle travel data recorder firmware (\<open>software/bsp/vtdr\<close>) and of the RT-Thread
  kernel it runs on (\<open>software/src\<close>, \<open>software/include\<close>), and the theorems that make them correct.

  \<^bold>\<open>The program.\<close> The recorder runs a few threads on a small priority-based real-time kernel. The
  kernel's scheduler picks the most urgent ready thread; threads sleep and wait with time-outs that a
  sorted list of timers serves from the tick interrupt; semaphores, mutexes, events, mailboxes and
  message queues keep lists of waiting threads; pools and a heap give out memory. The application counts
  pulses and time in a timer interrupt that raises flags; its main loop turns the flags into records of
  driving and writes them into rings of records in a serial data flash, reached through an SPI driver. Three
  serial ports receive bytes in their interrupts: commands of the national protocol GB/T 19056, the sentences of the
  satellite receiver, and a spare one; a second thread answers the commands, sets parameters and
  sends recorded data back.

  \<^bold>\<open>The recorder's theories\<close> (files under \<open>software/bsp/vtdr\<close>).
  \<^item> \<open>Vtdr_Prelude\<close>: machine integers, lemmas on words and lists that the rest shares.
  \<^item> \<open>Vtdr_Bcd\<close>, \<open>Vtdr_Clock\<close>: \<open>BCD2Char\<close>, \<open>Char2BCD\<close>, \<open>Int2BCD\<close>, and the calendar functions of
    \<open>DataManager.c\<close> and \<open>RS232.c\<close> (\<open>IncreaseTime\<close>, \<open>HaveTime\<close>, \<open>ComputeTimeBeforeX\<close>,
    \<open>CompareDateTime\<close>, \<open>JudgeTimeSpace\<close>, \<open>IfOneAfterAotherDay\<close>), against a count of minutes since a
    fixed day as the reference.
  \<^item> \<open>Vtdr_Flash\<close>, \<open>Vtdr_Flash_Chip\<close>: the driver \<open>atmel_dataflash.c\<close> over a bus that is a parameter;
    the locale \<open>flash_chip\<close> states what the driver relies on of a chip (documented behaviour of serial
    flash), \<open>flash_store\<close> what the driver gives to its users, and a chip modelled byte by byte
    interprets both.
  \<^item> \<open>Vtdr_Store\<close>: the table of rings and the record store of \<open>DataManager.c\<close> on top of that contract
    (\<open>InitializeTable\<close>, \<open>WriteRecordData2Flash\<close>, \<open>Update4k\<close>, \<open>MovePtablePtr\<close>).
  \<^item> \<open>Vtdr_State\<close>, \<open>Vtdr_Inputs\<close>, \<open>Vtdr_Ticks\<close>, \<open>Vtdr_Handlers\<close>, \<open>Vtdr_Records\<close>: the global variables as the
    record \<open>recorder\<close>; the sampling of inputs and the timer interrupt of \<open>GetData.c\<close>; the handlers that
    make records of what they see. \<open>Vtdr_Safety\<close>: the invariant of store and recorder, kept by every
    handler; \<open>Vtdr_Drive\<close>: what a minute of driving does; \<open>Vtdr_Guarantees\<close>: the properties of them all.
  \<^item> \<open>Vtdr_Uart\<close> (\<open>serial.c\<close>): the three serial ports and their interrupt routine; \<open>Vtdr_Receiver\<close>: its machine that finds
    commands in the bytes of port 2, and the ring they are kept in; \<open>Vtdr_Sentence\<close>: its machine that reads the sentences
    of the satellite receiver on port 3. \<open>Vtdr_Protocol\<close> (\<open>RS232.c\<close>): sending, answers, setting of parameters, upload of records and the
    handler of commands. \<open>Vtdr_Commands\<close>: the frames in the ring and what every command keeps; \<open>Vtdr_Upload\<close>: where the search of an
    upload ends; \<open>Vtdr_Answers\<close>: the bytes of the answers.
    \<open>Vtdr_Device\<close>: interrupts, bytes and rounds of the main loop in any order, as one run of the device.
    \<open>Vtdr_Comms\<close>: the properties of the ports and of the whole device.

  \<^bold>\<open>The kernel's theories\<close> (files under \<open>software/src\<close>).
  \<^item> \<open>Rt_Data\<close>: the kernel's objects as records and its global variables as the record \<open>kernel\<close>.
  \<^item> \<open>Rt_Sched\<close> (\<open>scheduler.c\<close>, \<open>irq.c\<close>), \<open>Rt_Timer\<close> (\<open>timer.c\<close>, part of \<open>clock.c\<close>), \<open>Rt_Thread\<close>
    (\<open>thread.c\<close>, the tick of \<open>clock.c\<close>, \<open>idle.c\<close>): the operations, the invariants \<open>sched_ok\<close>,
    \<open>timers_ok\<close> and \<open>thread_ok\<close>, and that every operation keeps them.
  \<^item> \<open>Rt_Wakeup\<close>: what the expiry of timers means for threads, and how long a sleep lasts.
  \<^item> \<open>Rt_Ipc\<close> (the waiting lists of \<open>ipc.c\<close>), \<open>Rt_Sem\<close>, \<open>Rt_Mutex\<close>, \<open>Rt_Event\<close>, \<open>Rt_Mailbox\<close>,
    \<open>Rt_Mq\<close>: one theory per kind of object. \<open>Rt_Fifo\<close> holds the contract of a bounded queue, which
    mailboxes and message queues interpret.
  \<^item> \<open>Rt_Links\<close>, \<open>Rt_Mempool\<close> (\<open>mempool.c\<close>), \<open>Rt_Heap\<close> (\<open>mem.c\<close>): blocks linked through their own memory, the
    pools and the heap, with the invariants of their lists. \<open>Rt_Memory\<close>: what holds in every history of calls.
  \<^item> \<open>Rt_Service\<close>, \<open>Rt_Print\<close> (\<open>kservice.c\<close>): memory and string functions over a memory of bytes, formatted
    output into a buffer and to the console, with the text of a format as the reference. \<open>Rt_Library\<close>: their properties.
  \<^item> \<open>Rt_Object\<close> (\<open>object.c\<close>): the registry of objects over memory and heap, its invariant, and the contract of a directory, which it
    interprets. \<open>Rt_Device\<close> (\<open>device.c\<close>, error numbers and console of \<open>kservice.c\<close>): devices over drivers that are parameters. \<open>Rt_Align\<close>
    (\<open>kservice.c\<close>): aligned blocks and copies of strings on the heap. \<open>Rt_Registry\<close>: the properties of the three.
  \<^item> \<open>Rt_Demo\<close>: a concrete kernel in which the hypotheses of the theorems hold. \<open>Rt_Guarantees\<close>: what
    the kernel guarantees to its users.

  \<^bold>\<open>How the code is modelled.\<close> Operations are functions on the state they change. \<open>RT_ASSERT\<close> and the
  checks of \<open>RT_DEBUG\<close> end in an endless loop when they fail, so an operation that can fail there
  returns an option, and \<open>None\<close> is a call that never returns; the loops that could run forever are
  partial functions in the same type (waiting for the flash, the search for a time, the end of a string). A
  call that waits is cut at the call of \<open>rt_schedule\<close> in its middle: the first half ends in \<open>Blocked\<close> or
  \<open>Waiting\<close> with the caller suspended, the second half is the definition with the suffix \<open>_resumed\<close>. Sections
  with interrupts disabled are atomic. Pointers to kernel objects are names (numbers), doubly linked lists are
  HOL lists; where code works on raw memory, pointers are words. Words keep their width. No theorem needs
  fuel: the loop that serves commands runs once per command counted, and all others end or are partial.

  \<^bold>\<open>Assumptions.\<close> An interrupt does not cut a round of the main loop or the service of a command; it comes
  between them. The flash holds at least \<open>0xa4000\<close> bytes and behaves as its documentation says. Enumerations
  take the smallest size and plain characters have no sign, as the compiler of the build has them. \<open>mktime\<close> has no
  daylight saving. The bytes of uninitialised variables and those behind a buffer or a structure that the code
  reads past its end are parameters (\<open>in_stale\<close>, \<open>in_junk\<close>, \<open>surroundings\<close>, the memory of \<open>rt_kprintf\<close>); only the
  byte behind \<open>curTime\<close> and the padding of \<open>CurSpeed\<close> are taken to be zero. Formats and strings given to the kernel
  hold no zero byte; arguments of the wrong type or number give no result. Drivers of devices change their own device and state
  only, and a new static object lies outside the heap and apart from all others.

  \<^bold>\<open>Not modelled.\<close>
  \<^item> The register code of the peripheral drivers (\<open>usart.c\<close>, \<open>rtc.c\<close>, \<open>led.c\<close>, \<open>board.c\<close>) and setting the clock of the chip: reads
    and writes of device registers without state of their own.
  \<^item> Display, menus, keys, sound, printer, USB and file export: input and output whose results the modelled parts do not use.
  \<^item> The functions of \<open>RS232.c\<close> and \<open>DataManager.c\<close> that nothing calls.
  \<^item> Stacks and the context switch (assembly), hooks, debug output, soft timers, modules, the slab allocator and the symbol table (not
    configured), and the version banner. The kernel's other theories name objects by numbers; that creating and deleting them
    registers them is modelled in \<open>Rt_Object\<close> alone.
  \<^item> The shell, file systems, network and graphics of RT-Thread, the ports to other processors and boards, and the libraries of the
    chip's vendor: third-party code around the program.
\<close>

end
